(* ===== verification/UB_Prelude.thy ===== *)
theory UB_Prelude
  imports Main "HOL-Library.Word" "HOL-Library.Monad_Syntax"
begin

text \<open>
  Shared vocabulary of the development: the machine types of the MIPS32 target (bytes and
  32-bit words), bounds-checked access to C objects, NUL-terminated strings, and the generic
  list and option facts the component theories rely on.

  A C object is the list of its bytes. A pointer into a string object is the list of the bytes
  from the pointer to the end of the object, so \<open>cstr s\<close> is a pointer to a well-formed string
  with contents \<open>s\<close>, and a list without a zero byte is an unterminated buffer. An operation
  whose C counterpart would access memory outside the object returns \<open>None\<close>; inside a
  \<open>Some\<close>, a nullable pointer is again an option (\<open>None\<close> is \<open>NULL\<close>, \<open>Some k\<close> is the pointer
  \<open>k\<close> elements further on).
\<close>

section \<open>Machine types\<close>

type_synonym byte = "8 word"
type_synonym u16 = "16 word"
type_synonym u32 = "32 word"
type_synonym bytes = "byte list"

named_theorems c_string_simps \<open>behaviour of the string routines on terminated strings\<close>
named_theorems c_mem_simps \<open>behaviour of the bounds-checked accesses\<close>

unbundle bit_operations_syntax

section \<open>Bounds-checked access\<close>

definition rd :: "'a list \<Rightarrow> nat \<Rightarrow> 'a option" where
  "rd m i = (if i < length m then Some (m ! i) else None)"

definition wr :: "'a list \<Rightarrow> nat \<Rightarrow> 'a \<Rightarrow> 'a list option" where
  "wr m i v = (if i < length m then Some (m[i := v]) else None)"

lemma rd_in [simp, c_mem_simps]: "i < length m \<Longrightarrow> rd m i = Some (m ! i)"
  by (simp add: rd_def)

lemma rd_out [simp, c_mem_simps]: "length m \<le> i \<Longrightarrow> rd m i = None"
  by (simp add: rd_def)

lemma rd_eq_Some: "rd m i = Some x \<longleftrightarrow> i < length m \<and> m ! i = x"
  by (auto simp: rd_def)

lemma rd_eq_None: "rd m i = None \<longleftrightarrow> length m \<le> i"
  by (auto simp: rd_def)

lemma wr_in [simp, c_mem_simps]: "i < length m \<Longrightarrow> wr m i v = Some (m[i := v])"
  by (simp add: wr_def)

lemma wr_out [simp, c_mem_simps]: "length m \<le> i \<Longrightarrow> wr m i v = None"
  by (simp add: wr_def)

lemma wr_eq_Some: "wr m i v = Some m' \<longleftrightarrow> i < length m \<and> m' = m[i := v]"
  by (auto simp: wr_def)

lemma wr_length: "wr m i v = Some m' \<Longrightarrow> length m' = length m"
  by (auto simp: wr_eq_Some)

lemma rd_wr_same: "wr m i v = Some m' \<Longrightarrow> rd m' i = Some v"
  by (auto simp: wr_eq_Some)

lemma rd_wr_other: "wr m i v = Some m' \<Longrightarrow> j \<noteq> i \<Longrightarrow> rd m' j = rd m j"
  by (auto simp: wr_eq_Some rd_def)

lemma rd_append1: "i < length a \<Longrightarrow> rd (a @ b) i = rd a i"
  by (simp add: rd_def nth_append)

lemma rd_append2: "length a \<le> i \<Longrightarrow> rd (a @ b) i = rd b (i - length a)"
  by (simp add: rd_def nth_append) arith

lemma rd_length_Cons [simp]: "rd (a @ x # b) (length a) = Some x"
  by (simp add: rd_def)

lemma wr_append: "length a \<le> i \<Longrightarrow> wr (a @ b) i v = map_option ((@) a) (wr b (i - length a) v)"
  by (auto simp: wr_def list_update_append)

section \<open>NUL-terminated strings\<close>

definition cstr :: "bytes \<Rightarrow> bytes" where
  "cstr s = s @ [0]"

definition nonul :: "bytes \<Rightarrow> bool" where
  "nonul s \<longleftrightarrow> 0 \<notin> set s"

text \<open>The bytes of a character literal and of a string literal.\<close>

definition ch :: "char \<Rightarrow> byte" where
  "ch c = of_char c"

definition str :: "string \<Rightarrow> bytes" where
  "str s = map ch s"

lemma nonul_simps [simp]:
  "nonul []" "nonul (c # s) \<longleftrightarrow> c \<noteq> 0 \<and> nonul s" "nonul (s @ t) \<longleftrightarrow> nonul s \<and> nonul t"
  by (auto simp: nonul_def)

lemma nonul_take [intro]: "nonul s \<Longrightarrow> nonul (take n s)"
  by (auto simp: nonul_def dest: in_set_takeD)

lemma nonul_drop [intro]: "nonul s \<Longrightarrow> nonul (drop n s)"
  by (auto simp: nonul_def dest: in_set_dropD)

lemma nonul_nth: "nonul s \<Longrightarrow> i < length s \<Longrightarrow> s ! i \<noteq> 0"
  by (metis nonul_def nth_mem)

lemma cstr_simps [simp]:
  "cstr [] = [0]" "cstr (c # s) = c # cstr s" "cstr (s @ t) = s @ cstr t"
  by (simp_all add: cstr_def)

lemma cstr_length [simp]: "length (cstr s) = Suc (length s)"
  by (simp add: cstr_def)

lemma cstr_not_Nil [simp]: "cstr s \<noteq> []"
  by (simp add: cstr_def)

text \<open>Two terminated strings followed by arbitrary memory are equal only if their contents are.\<close>

lemma cstr_inject: "nonul s \<Longrightarrow> nonul t \<Longrightarrow> s @ 0 # x = t @ 0 # y \<longleftrightarrow> s = t \<and> x = y"
proof (induction s arbitrary: t)
  case Nil
  then show ?case by (cases t) auto
next
  case (Cons a s)
  then show ?case by (cases t) auto
qed

section \<open>Lists and options\<close>

lemma map_option_Some_iff: "map_option f x = Some y \<longleftrightarrow> (\<exists>z. x = Some z \<and> y = f z)"
  by (cases x) auto

lemma bind_Some_iff: "Option.bind x f = Some y \<longleftrightarrow> (\<exists>z. x = Some z \<and> f z = Some y)"
  by (cases x) auto

lemma take_drop_split: "i + n \<le> length m \<Longrightarrow> m = take i m @ take n (drop i m) @ drop (i + n) m"
  by (metis append_take_drop_id drop_drop add.commute)

text \<open>Overwriting a window of an object.\<close>

definition overlay :: "'a list \<Rightarrow> nat \<Rightarrow> 'a list \<Rightarrow> 'a list" where
  "overlay m i w = take i m @ w @ drop (i + length w) m"

lemma overlay_Nil [simp]: "overlay m i [] = m"
  by (simp add: overlay_def)

lemma overlay_length [simp]: "i + length w \<le> length m \<Longrightarrow> length (overlay m i w) = length m"
  by (simp add: overlay_def)

lemma overlay_Cons: "i < length m \<Longrightarrow> overlay m i (x # w) = overlay (m[i := x]) (Suc i) w"
  by (simp add: overlay_def take_Suc_conv_app_nth)

lemma overlay_nth:
  "i + length w \<le> length m \<Longrightarrow> j < length m \<Longrightarrow>
     overlay m i w ! j = (if i \<le> j \<and> j < i + length w then w ! (j - i) else m ! j)"
  by (auto simp: overlay_def nth_append min_def)

lemma nth_eqI: "length xs = length ys \<Longrightarrow> (\<And>i. i < length ys \<Longrightarrow> xs ! i = ys ! i) \<Longrightarrow> xs = ys"
  by (rule nth_equalityI) auto

lemma overlay_append:
  "i + length a + length b \<le> length m \<Longrightarrow> overlay m i (a @ b) = overlay (overlay m i a) (i + length a) b"
  by (rule nth_eqI) (auto simp: overlay_nth nth_append)

lemmas c_mem_iff = rd_eq_Some wr_eq_Some bind_Some_iff map_option_Some_iff

section \<open>Big-endian words\<close>

text \<open>The target is big-endian: how a 32-bit word lies in memory.\<close>

definition be32 :: "u32 \<Rightarrow> bytes" where
  "be32 w = [ucast (drop_bit 24 w), ucast (drop_bit 16 w), ucast (drop_bit 8 w), ucast w]"

definition of_be32 :: "bytes \<Rightarrow> u32" where
  "of_be32 bs = push_bit 24 (ucast (bs ! 0)) OR push_bit 16 (ucast (bs ! 1)) OR
     push_bit 8 (ucast (bs ! 2)) OR ucast (bs ! 3)"

lemma be32_length [simp]: "length (be32 w) = 4"
  by (simp add: be32_def)

lemma of_be32_be32 [simp]: "of_be32 (be32 w @ r) = w"
proof (rule bit_eqI)
  fix n
  assume "possible_bit TYPE(u32) n"
  then have n: "n < 32" by simp
  then consider "n < 8" | "8 \<le> n" "n < 16" | "16 \<le> n" "n < 24" | "24 \<le> n" by linarith
  then show "bit (of_be32 (be32 w @ r)) n = bit w n"
    using n by cases (auto simp: of_be32_def be32_def bit_simps)
qed

lemma of_be32_take [simp]: "4 \<le> n \<Longrightarrow> of_be32 (take n bs) = of_be32 bs"
  by (simp add: of_be32_def)

lemma unat_and_255: "unat (a AND 255 :: u32) < 256"
proof -
  have "a AND 255 \<le> 255" by (rule word_and_le1)
  then show ?thesis by (simp add: word_le_nat_alt)
qed

end
