(* ===== verification/CString.thy ===== *)
theory CString
  imports UB_Prelude
begin

text \<open>
  The string library: \<open>lib_generic/ctype.c\<close> with the macros of \<open>include/linux/ctype.h\<close>, and
  \<open>lib_generic/string.c\<close>. A read-only argument is the list of bytes from the pointer to the end
  of its object; a written object is passed whole and returned updated; \<open>None\<close> is an access
  outside the object. The overlapping copies work on one memory with two indices. The board compiles
  \<open>strcpy\<close>, \<open>strncpy\<close>, \<open>strcmp\<close>, \<open>strncmp\<close>, \<open>bcopy\<close> and \<open>memscan\<close> from the assembly of
  \<open>include/asm-mips/string.h\<close>; their models follow the bodies in C, which are taken to compute the same.
\<close>

section \<open>Character classes\<close>

definition ctype_tab :: "byte list" where
  "ctype_tab =
    [8, 8, 8, 8, 8, 8, 8, 8, 8, 40, 40, 40, 40, 40, 8, 8,
     8, 8, 8, 8, 8, 8, 8, 8, 8, 8, 8, 8, 8, 8, 8, 8,
     160, 16, 16, 16, 16, 16, 16, 16, 16, 16, 16, 16, 16, 16, 16, 16,
     4, 4, 4, 4, 4, 4, 4, 4, 4, 4, 16, 16, 16, 16, 16, 16,
     16, 65, 65, 65, 65, 65, 65, 1, 1, 1, 1, 1, 1, 1, 1, 1,
     1, 1, 1, 1, 1, 1, 1, 1, 1, 1, 1, 16, 16, 16, 16, 16,
     16, 66, 66, 66, 66, 66, 66, 2, 2, 2, 2, 2, 2, 2, 2, 2,
     2, 2, 2, 2, 2, 2, 2, 2, 2, 2, 2, 16, 16, 16, 16, 8,
     0, 0, 0, 0, 0, 0, 0, 0, 0, 0, 0, 0, 0, 0, 0, 0,
     0, 0, 0, 0, 0, 0, 0, 0, 0, 0, 0, 0, 0, 0, 0, 0,
     160, 16, 16, 16, 16, 16, 16, 16, 16, 16, 16, 16, 16, 16, 16, 16,
     16, 16, 16, 16, 16, 16, 16, 16, 16, 16, 16, 16, 16, 16, 16, 16,
     1, 1, 1, 1, 1, 1, 1, 1, 1, 1, 1, 1, 1, 1, 1, 1,
     1, 1, 1, 1, 1, 1, 1, 16, 1, 1, 1, 1, 1, 1, 1, 2,
     2, 2, 2, 2, 2, 2, 2, 2, 2, 2, 2, 2, 2, 2, 2, 2,
     2, 2, 2, 2, 2, 2, 2, 16, 2, 2, 2, 2, 2, 2, 2, 2]"

definition ismask :: "byte \<Rightarrow> byte" where
  "ismask c = ctype_tab ! unat c"

definition isdigit :: "byte \<Rightarrow> bool" where
  "isdigit c \<longleftrightarrow> ismask c AND 0x04 \<noteq> 0"

definition isxdigit :: "byte \<Rightarrow> bool" where
  "isxdigit c \<longleftrightarrow> ismask c AND (0x04 OR 0x40) \<noteq> 0"

definition islower :: "byte \<Rightarrow> bool" where
  "islower c \<longleftrightarrow> ismask c AND 0x02 \<noteq> 0"

definition isupper :: "byte \<Rightarrow> bool" where
  "isupper c \<longleftrightarrow> ismask c AND 0x01 \<noteq> 0"

definition isspace :: "byte \<Rightarrow> bool" where
  "isspace c \<longleftrightarrow> ismask c AND 0x20 \<noteq> 0"

definition isprint :: "byte \<Rightarrow> bool" where
  "isprint c \<longleftrightarrow> ismask c AND (0x10 OR 0x01 OR 0x02 OR 0x04 OR 0x80) \<noteq> 0"

definition tolower :: "byte \<Rightarrow> byte" where
  "tolower c = (if isupper c then c - (ch (CHR ''A'') - ch (CHR ''a'')) else c)"

definition toupper :: "byte \<Rightarrow> byte" where
  "toupper c = (if islower c then c - (ch (CHR ''a'') - ch (CHR ''A'')) else c)"

section \<open>Comparison\<close>

text \<open>The difference of two characters is stored in a \<open>signed char\<close>, so it is taken modulo 256.\<close>

fun strcmp :: "bytes \<Rightarrow> bytes \<Rightarrow> int option" where
  "strcmp (c # cs) (d # ct) =
     (let res = c - d in if res \<noteq> 0 \<or> c = 0 then Some (sint res) else strcmp cs ct)"
| "strcmp _ _ = None"

fun strncmp_loop :: "bytes \<Rightarrow> bytes \<Rightarrow> nat \<Rightarrow> byte \<Rightarrow> int option" where
  "strncmp_loop cs ct 0 res = Some (sint res)"
| "strncmp_loop (c # cs) (d # ct) (Suc count) res =
     (if c - d \<noteq> 0 \<or> c = 0 then Some (sint (c - d)) else strncmp_loop cs ct count (c - d))"
| "strncmp_loop _ _ (Suc count) res = None"

definition strncmp :: "bytes \<Rightarrow> bytes \<Rightarrow> nat \<Rightarrow> int option" where
  "strncmp cs ct count = strncmp_loop cs ct count 0"

text \<open>
  \<open>do \<dots> while (--len)\<close>: the pair \<open>(c1, c2)\<close> is what the last iteration left in the two
  variables; a round whose characters agree leaves them unfolded, one whose folded characters
  agree leaves the folded ones.
\<close>

fun strnicmp_loop :: "bytes \<Rightarrow> bytes \<Rightarrow> nat \<Rightarrow> byte \<Rightarrow> byte \<Rightarrow> int option" where
  "strnicmp_loop s1 s2 0 c1 c2 = Some (uint c1 - uint c2)"
| "strnicmp_loop (c # s1) (d # s2) (Suc len) c1 c2 =
     (if c = 0 \<or> d = 0 then Some (uint c - uint d)
      else if c = d then strnicmp_loop s1 s2 len c d
      else if tolower c \<noteq> tolower d then Some (uint (tolower c) - uint (tolower d))
      else strnicmp_loop s1 s2 len (tolower c) (tolower d))"
| "strnicmp_loop _ _ (Suc len) c1 c2 = None"

definition strnicmp :: "bytes \<Rightarrow> bytes \<Rightarrow> nat \<Rightarrow> int option" where
  "strnicmp s1 s2 len = strnicmp_loop s1 s2 len 0 0"

fun memcmp :: "bytes \<Rightarrow> bytes \<Rightarrow> nat \<Rightarrow> int option" where
  "memcmp su1 su2 0 = Some 0"
| "memcmp (c # su1) (d # su2) (Suc count) =
     (let res = uint c - uint d in if res \<noteq> 0 then Some res else memcmp su1 su2 count)"
| "memcmp _ _ (Suc count) = None"

section \<open>Length and search\<close>

fun strlen :: "bytes \<Rightarrow> nat option" where
  "strlen [] = None"
| "strlen (c # s) = (if c \<noteq> 0 then map_option Suc (strlen s) else Some 0)"

fun strnlen :: "bytes \<Rightarrow> nat \<Rightarrow> nat option" where
  "strnlen s 0 = Some 0"
| "strnlen [] (Suc count) = None"
| "strnlen (c # s) (Suc count) = (if c \<noteq> 0 then map_option Suc (strnlen s count) else Some 0)"

fun strchr :: "bytes \<Rightarrow> byte \<Rightarrow> nat option option" where
  "strchr [] c = None"
| "strchr (x # s) c =
     (if x = c then Some (Some 0)
      else if x = 0 then Some None
      else map_option (map_option Suc) (strchr s c))"

text \<open>The backward scan from \<open>p = s + n\<close> down to \<open>s\<close>.\<close>

fun strrchr_loop :: "bytes \<Rightarrow> byte \<Rightarrow> nat \<Rightarrow> nat option option" where
  "strrchr_loop s c 0 = (if rd s 0 = None then None else Some (if rd s 0 = Some c then Some 0 else None))"
| "strrchr_loop s c (Suc p) =
     (if rd s (Suc p) = None then None
      else if rd s (Suc p) = Some c then Some (Some (Suc p)) else strrchr_loop s c p)"

definition strrchr :: "bytes \<Rightarrow> byte \<Rightarrow> nat option option" where
  "strrchr s c = Option.bind (strlen s) (strrchr_loop s c)"

text \<open>Whether \<open>c\<close> occurs in the string \<open>a\<close> before its terminator.\<close>

fun strmem :: "byte \<Rightarrow> bytes \<Rightarrow> bool option" where
  "strmem c [] = None"
| "strmem c (x # a) = (if x = 0 then Some False else if c = x then Some True else strmem c a)"

fun strspn :: "bytes \<Rightarrow> bytes \<Rightarrow> nat option" where
  "strspn [] accept = None"
| "strspn (c # s) accept =
     (if c = 0 then Some 0
      else case strmem c accept of
             None \<Rightarrow> None
           | Some False \<Rightarrow> Some 0
           | Some True \<Rightarrow> map_option Suc (strspn s accept))"

fun strpbrk :: "bytes \<Rightarrow> bytes \<Rightarrow> nat option option" where
  "strpbrk [] ct = None"
| "strpbrk (c # cs) ct =
     (if c = 0 then Some None
      else case strmem c ct of
             None \<Rightarrow> None
           | Some True \<Rightarrow> Some (Some 0)
           | Some False \<Rightarrow> map_option (map_option Suc) (strpbrk cs ct))"

fun strstr_loop :: "bytes \<Rightarrow> bytes \<Rightarrow> nat \<Rightarrow> nat \<Rightarrow> nat option option" where
  "strstr_loop s1 s2 l1 l2 =
     (if l2 \<le> l1 \<and> 0 < l2 then
        (case memcmp s1 s2 l2 of
           None \<Rightarrow> None
         | Some r \<Rightarrow> if r = 0 then Some (Some 0)
                    else map_option (map_option Suc) (strstr_loop (tl s1) s2 (l1 - 1) l2))
      else Some None)"

declare strstr_loop.simps [simp del]

definition strstr :: "bytes \<Rightarrow> bytes \<Rightarrow> nat option option" where
  "strstr s1 s2 = do {
     l2 \<leftarrow> strlen s2;
     if l2 = 0 then Some (Some 0)
     else do { l1 \<leftarrow> strlen s1; strstr_loop s1 s2 l1 l2 }
   }"

fun memscan :: "bytes \<Rightarrow> byte \<Rightarrow> nat \<Rightarrow> nat option" where
  "memscan p c 0 = Some 0"
| "memscan [] c (Suc n) = None"
| "memscan (x # p) c (Suc n) = (if x = c then Some 0 else map_option Suc (memscan p c n))"

fun memchr :: "bytes \<Rightarrow> byte \<Rightarrow> nat \<Rightarrow> nat option option" where
  "memchr p c 0 = Some None"
| "memchr [] c (Suc n) = None"
| "memchr (x # p) c (Suc n) =
     (if c = x then Some (Some 0) else map_option (map_option Suc) (memchr p c n))"

section \<open>Copying and modification\<close>

fun strcpy :: "bytes \<Rightarrow> bytes \<Rightarrow> bytes option" where
  "strcpy (x # dest) (c # src) =
     (if c \<noteq> 0 then map_option ((#) c) (strcpy dest src) else Some (c # dest))"
| "strcpy _ _ = None"

fun strncpy :: "bytes \<Rightarrow> bytes \<Rightarrow> nat \<Rightarrow> bytes option" where
  "strncpy dest src 0 = Some dest"
| "strncpy (x # dest) (c # src) (Suc count) =
     (if c \<noteq> 0 then map_option ((#) c) (strncpy dest src count) else Some (c # dest))"
| "strncpy _ _ (Suc count) = None"

fun strcat :: "bytes \<Rightarrow> bytes \<Rightarrow> bytes option" where
  "strcat [] src = None"
| "strcat (x # dest) src =
     (if x \<noteq> 0 then map_option ((#) x) (strcat dest src) else strcpy (x # dest) src)"

fun strncat_loop :: "bytes \<Rightarrow> bytes \<Rightarrow> nat \<Rightarrow> bytes option" where
  "strncat_loop (x # dest) (c # src) (Suc count) =
     (if c = 0 then Some (c # dest)
      else if count = 0 then (case dest of [] \<Rightarrow> None | y # dest' \<Rightarrow> Some (c # 0 # dest'))
      else map_option ((#) c) (strncat_loop dest src count))"
| "strncat_loop _ _ _ = None"

fun strncat_seek :: "bytes \<Rightarrow> bytes \<Rightarrow> nat \<Rightarrow> bytes option" where
  "strncat_seek [] src count = None"
| "strncat_seek (x # dest) src count =
     (if x \<noteq> 0 then map_option ((#) x) (strncat_seek dest src count)
      else strncat_loop (x # dest) src count)"

definition strncat :: "bytes \<Rightarrow> bytes \<Rightarrow> nat \<Rightarrow> bytes option" where
  "strncat dest src count = (if count = 0 then Some dest else strncat_seek dest src count)"

text \<open>\<open>strdup\<close>: \<open>malloc\<close> may return \<open>NULL\<close>; its result is an object of the requested size.\<close>

definition strdup :: "(nat \<Rightarrow> bytes option) \<Rightarrow> bytes option \<Rightarrow> bytes option option" where
  "strdup malloc s = (case s of
      None \<Rightarrow> Some None
    | Some s' \<Rightarrow> (case strlen s' of
         None \<Rightarrow> None
       | Some n \<Rightarrow> (case malloc (n + 1) of
            None \<Rightarrow> Some None
          | Some new \<Rightarrow> map_option Some (strcpy new s'))))"

text \<open>
  \<open>strtok\<close> and \<open>strsep\<close> cut the string in place. The string object is \<open>s\<close>; the results are
  the token's start, the position that is kept for the next call, and the object with the
  separator overwritten.
\<close>

definition strsep :: "bytes \<Rightarrow> nat option \<Rightarrow> bytes \<Rightarrow> (nat option \<times> nat option \<times> bytes) option" where
  "strsep m s ct = (case s of
      None \<Rightarrow> Some (None, None, m)
    | Some sbegin \<Rightarrow> (case strpbrk (drop sbegin m) ct of
         None \<Rightarrow> None
       | Some None \<Rightarrow> Some (Some sbegin, None, m)
       | Some (Some k) \<Rightarrow> map_option (\<lambda>m'. (Some sbegin, Some (sbegin + k + 1), m')) (wr m (sbegin + k) 0)))"

definition strtok :: "bytes \<Rightarrow> nat option \<Rightarrow> nat option \<Rightarrow> bytes \<Rightarrow> (nat option \<times> nat option \<times> bytes) option" where
  "strtok m saved s ct = (case (if s \<noteq> None then s else saved) of
      None \<Rightarrow> Some (None, saved, m)
    | Some p \<Rightarrow> do {
        n \<leftarrow> strspn (drop p m) ct;
        let sbegin = p + n;
        c \<leftarrow> rd m sbegin;
        if c = 0 then Some (None, None, m)
        else do {
          send \<leftarrow> strpbrk (drop sbegin m) ct;
          (case send of
             None \<Rightarrow> Some (Some sbegin, None, m)
           | Some k \<Rightarrow> do {
               m' \<leftarrow> wr m (sbegin + k) 0;
               Some (Some sbegin, Some (sbegin + k + 1), m') })
        }
      })"

fun strswab_loop :: "bytes \<Rightarrow> bytes option" where
  "strswab_loop (p # q # s) =
     (if p \<noteq> 0 then (if q \<noteq> 0 then map_option (\<lambda>r. q # p # r) (strswab_loop s) else Some (p # q # s))
      else Some (p # q # s))"
| "strswab_loop [p] = (if p \<noteq> 0 then None else Some [p])"
| "strswab_loop [] = None"

definition strswab :: "bytes option \<Rightarrow> bytes option option" where
  "strswab s = (case s of
      None \<Rightarrow> Some None
    | Some [] \<Rightarrow> None
    | Some (c # t) \<Rightarrow> if c = 0 then Some None else map_option Some (strswab_loop (c # t)))"

fun memset :: "bytes \<Rightarrow> byte \<Rightarrow> nat \<Rightarrow> bytes option" where
  "memset xs c 0 = Some xs"
| "memset [] c (Suc count) = None"
| "memset (x # xs) c (Suc count) = map_option ((#) c) (memset xs c count)"

text \<open>
  The copies over one memory \<open>m\<close>: \<open>while (count--) *tmp++ = *s++\<close> and
  \<open>while (count--) *--tmp = *--s\<close>.
\<close>

fun copy_up :: "'a list \<Rightarrow> nat \<Rightarrow> nat \<Rightarrow> nat \<Rightarrow> 'a list option" where
  "copy_up m dest src 0 = Some m"
| "copy_up m dest src (Suc count) = do {
     c \<leftarrow> rd m src; m' \<leftarrow> wr m dest c; copy_up m' (Suc dest) (Suc src) count }"

fun copy_down :: "'a list \<Rightarrow> nat \<Rightarrow> nat \<Rightarrow> nat \<Rightarrow> 'a list option" where
  "copy_down m dest src 0 = Some m"
| "copy_down m dest src (Suc count) = do {
     c \<leftarrow> rd m (src + count); m' \<leftarrow> wr m (dest + count) c; copy_down m' dest src count }"

definition memcpy :: "bytes \<Rightarrow> nat \<Rightarrow> nat \<Rightarrow> nat \<Rightarrow> bytes option" where
  "memcpy m dest src count = copy_up m dest src count"

definition bcopy :: "bytes \<Rightarrow> nat \<Rightarrow> nat \<Rightarrow> nat \<Rightarrow> bytes option" where
  "bcopy m src dest count = copy_up m dest src count"

definition memmove :: "bytes \<Rightarrow> nat \<Rightarrow> nat \<Rightarrow> nat \<Rightarrow> bytes option" where
  "memmove m dest src count =
     (if dest \<le> src then copy_up m dest src count else copy_down m dest src count)"


section \<open>Character classes, characterised\<close>

lemma unat_byte: "unat (c :: byte) < 256"
  using unsigned_less [of c, where ?'a = nat] by simp

lemma ctype_tab_length: "length ctype_tab = 256"
  by (simp add: ctype_tab_def)

lemma ismask_nth: "map f ctype_tab = xs \<Longrightarrow> f (ismask c) = xs ! unat c"
  unfolding ismask_def by (metis ctype_tab_length nth_map unat_byte)

lemma digit_runs:
  "map (\<lambda>t. t AND 0x04 \<noteq> 0) ctype_tab = replicate 48 False @ replicate 10 True @ replicate 198 False"
  by (simp add: ctype_tab_def) (simp add: eval_nat_numeral)

lemma xdigit_runs:
  "map (\<lambda>t. t AND (0x04 OR 0x40) \<noteq> 0) ctype_tab =
     replicate 48 False @ replicate 10 True @ replicate 7 False @ replicate 6 True @
     replicate 26 False @ replicate 6 True @ replicate 153 False"
  by (simp add: ctype_tab_def) (simp add: eval_nat_numeral)

lemma lower_runs:
  "map (\<lambda>t. t AND 0x02 \<noteq> 0) ctype_tab =
     replicate 97 False @ replicate 26 True @ replicate 100 False @ replicate 24 True @
     replicate 1 False @ replicate 8 True"
  by (simp add: ctype_tab_def) (simp add: eval_nat_numeral)

lemma upper_runs:
  "map (\<lambda>t. t AND 0x01 \<noteq> 0) ctype_tab =
     replicate 65 False @ replicate 26 True @ replicate 101 False @ replicate 23 True @
     replicate 1 False @ replicate 7 True @ replicate 33 False"
  by (simp add: ctype_tab_def) (simp add: eval_nat_numeral)

lemma isdigit_iff: "isdigit c \<longleftrightarrow> 48 \<le> c \<and> c \<le> 57"
  unfolding isdigit_def ismask_nth [OF digit_runs] using unat_byte [of c]
  by (auto simp: nth_append word_le_nat_alt word_unat_eq_iff nth_Cons split: nat.splits)

lemma isxdigit_iff:
  "isxdigit c \<longleftrightarrow> 48 \<le> c \<and> c \<le> 57 \<or> 65 \<le> c \<and> c \<le> 70 \<or> 97 \<le> c \<and> c \<le> 102"
  unfolding isxdigit_def ismask_nth [OF xdigit_runs] using unat_byte [of c]
  by (auto simp: nth_append word_le_nat_alt word_unat_eq_iff nth_Cons split: nat.splits)

lemma islower_iff:
  "islower c \<longleftrightarrow> 97 \<le> c \<and> c \<le> 122 \<or> 223 \<le> c \<and> c \<noteq> 247"
  unfolding islower_def ismask_nth [OF lower_runs] using unat_byte [of c]
  by (auto simp: nth_append word_le_nat_alt word_unat_eq_iff nth_Cons split: nat.splits)

lemma isupper_iff:
  "isupper c \<longleftrightarrow> 65 \<le> c \<and> c \<le> 90 \<or> 192 \<le> c \<and> c \<le> 222 \<and> c \<noteq> 215"
  unfolding isupper_def ismask_nth [OF upper_runs] using unat_byte [of c]
  by (auto simp: nth_append word_le_nat_alt word_unat_eq_iff nth_Cons split: nat.splits)

lemmas ctype_iff = isdigit_iff isxdigit_iff islower_iff isupper_iff

section \<open>Strings: functional behaviour\<close>

lemma sint_zero_iff [simp]: "sint (w :: byte) = 0 \<longleftrightarrow> w = 0"
  by (metis signed_0 signed_word_eqI)

text \<open>Every routine is described on a terminated string followed by arbitrary memory \<open>r\<close>.\<close>

lemma strlen_cstr [simp, c_string_simps]: "nonul s \<Longrightarrow> strlen (s @ 0 # r) = Some (length s)"
  by (induction s) auto

lemma strlen_None_iff: "strlen p = None \<longleftrightarrow> nonul p"
  by (induction p) auto

lemma strlen_split: "strlen p = Some n \<Longrightarrow> \<exists>s r. p = s @ 0 # r \<and> nonul s \<and> n = length s"
proof (induction p arbitrary: n)
  case (Cons c p)
  show ?case
  proof (cases "c = 0")
    case True
    with Cons.prems have "c # p = [] @ 0 # p" "n = length ([] :: bytes)" by simp_all
    then show ?thesis using nonul_simps(1) by blast
  next
    case False
    with Cons.prems obtain k where k: "strlen p = Some k" "n = Suc k"
      by auto
    from Cons.IH [OF k(1)] obtain s r where "p = s @ 0 # r" "nonul s" "k = length s"
      by blast
    with False k(2) have "c # p = (c # s) @ 0 # r" "nonul (c # s)" "n = length (c # s)" by simp_all
    then show ?thesis by blast
  qed
qed simp

lemma strnlen_cstr [simp, c_string_simps]:
  "nonul s \<Longrightarrow> strnlen (s @ 0 # r) n = Some (min n (length s))"
proof (induction s arbitrary: n)
  case Nil
  then show ?case by (cases n) auto
next
  case (Cons c s)
  then show ?case by (cases n) auto
qed

lemma strcmp_cstr:
  "nonul s \<Longrightarrow> nonul t \<Longrightarrow> (strcmp (s @ 0 # r) (t @ 0 # r') = Some 0) = (s = t)"
proof (induction s arbitrary: t)
  case Nil
  then show ?case by (cases t) (auto simp: Let_def)
next
  case (Cons c s)
  then show ?case by (cases t) (auto simp: Let_def)
qed

lemma strcmp_total: "nonul s \<Longrightarrow> nonul t \<Longrightarrow> \<exists>x. strcmp (s @ 0 # r) (t @ 0 # r') = Some x"
proof (induction s arbitrary: t)
  case Nil
  then show ?case by (cases t) (auto simp: Let_def)
next
  case (Cons c s)
  then show ?case by (cases t) (auto simp: Let_def)
qed

text \<open>\<open>strcmp (a, b) == 0\<close>\<close>

definition streq :: "bytes \<Rightarrow> bytes \<Rightarrow> bool option" where
  "streq a b = map_option (\<lambda>r. r = 0) (strcmp a b)"

lemma streq_cstr [simp, c_string_simps]:
  assumes "nonul s" "nonul t"
  shows "streq (s @ 0 # r) (t @ 0 # r') = Some (s = t)"
proof -
  obtain x where "strcmp (s @ 0 # r) (t @ 0 # r') = Some x" using strcmp_total [OF assms] by blast
  then show ?thesis using strcmp_cstr [OF assms, of r r'] by (simp add: streq_def)
qed

lemma strncmp_loop_cstr:
  "nonul s \<Longrightarrow> nonul t \<Longrightarrow>
     (strncmp_loop (s @ 0 # r) (t @ 0 # r') n 0 = Some 0) = (take n s = take n t)"
proof (induction s arbitrary: t n)
  case Nil
  then show ?case by (cases t; cases n) auto
next
  case (Cons c s)
  then show ?case by (cases t; cases n) auto
qed

lemma strncmp_loop_total:
  "nonul s \<Longrightarrow> nonul t \<Longrightarrow> \<exists>x. strncmp_loop (s @ 0 # r) (t @ 0 # r') n c = Some x"
proof (induction s arbitrary: t n c)
  case Nil
  then show ?case by (cases t; cases n) auto
next
  case (Cons a s)
  then show ?case by (cases t; cases n) auto
qed

lemma strncmp_cstr:
  "nonul s \<Longrightarrow> nonul t \<Longrightarrow>
     (strncmp (s @ 0 # r) (t @ 0 # r') n = Some 0) = (take n s = take n t)"
  by (simp add: strncmp_def strncmp_loop_cstr)

lemma memcmp_eq:
  "n \<le> length a \<Longrightarrow> n \<le> length b \<Longrightarrow> (memcmp a b n = Some 0) = (take n a = take n b)"
proof (induction a b n rule: memcmp.induct)
  case (2 c su1 d su2 count)
  then show ?case by (auto simp: Let_def word_uint_eq_iff)
qed auto

lemma memcmp_total: "n \<le> length a \<Longrightarrow> n \<le> length b \<Longrightarrow> \<exists>x. memcmp a b n = Some x"
  by (induction a b n rule: memcmp.induct) (auto simp: Let_def)

lemma strchr_cstr:
  "nonul s \<Longrightarrow> c \<noteq> 0 \<Longrightarrow>
     strchr (s @ 0 # r) c =
       Some (if c \<in> set s then Some (length (takeWhile (\<lambda>x. x \<noteq> c) s)) else None)"
  by (induction s) auto

lemma strchr_nul: "nonul s \<Longrightarrow> strchr (s @ 0 # r) 0 = Some (Some (length s))"
  by (induction s) auto

lemma strmem_cstr [simp, c_string_simps]: "nonul a \<Longrightarrow> strmem c (a @ 0 # r) = Some (c \<in> set a)"
  by (induction a) auto

lemma strspn_cstr:
  "nonul s \<Longrightarrow> nonul a \<Longrightarrow>
     strspn (s @ 0 # r) (a @ 0 # r') = Some (length (takeWhile (\<lambda>x. x \<in> set a) s))"
  by (induction s) auto

lemma strpbrk_cstr:
  "nonul s \<Longrightarrow> nonul a \<Longrightarrow>
     strpbrk (s @ 0 # r) (a @ 0 # r') =
       Some (if set s \<inter> set a = {} then None
             else Some (length (takeWhile (\<lambda>x. x \<notin> set a) s)))"
  by (induction s) auto

lemma strcpy_cstr:
  "nonul s \<Longrightarrow> strcpy dest (s @ 0 # r) =
     (if length s < length dest then Some (s @ 0 # drop (Suc (length s)) dest) else None)"
proof (induction s arbitrary: dest)
  case Nil
  then show ?case by (cases dest) auto
next
  case (Cons c s)
  then show ?case by (cases dest) auto
qed

lemma strncpy_cstr:
  "nonul s \<Longrightarrow> strncpy dest (s @ 0 # r) n =
     (let w = take n (s @ [0]) in
      if length w \<le> length dest then Some (w @ drop (length w) dest) else None)"
proof (induction s arbitrary: dest n)
  case Nil
  then show ?case by (cases dest; cases n) (auto simp: Let_def)
next
  case (Cons c s)
  then show ?case by (cases dest; cases n) (auto simp: Let_def)
qed

lemma strcat_cstr:
  "nonul d \<Longrightarrow> nonul s \<Longrightarrow> strcat (d @ 0 # z) (s @ 0 # r) =
     (if length s \<le> length z then Some (d @ s @ 0 # drop (length s) z) else None)"
  by (induction d) (auto simp: strcpy_cstr Let_def less_Suc_eq_le)

lemma memset_eq:
  "memset xs c n = (if n \<le> length xs then Some (replicate n c @ drop n xs) else None)"
  by (induction xs c n rule: memset.induct) auto

section \<open>Copying inside one memory\<close>

lemma copy_up_length: "copy_up m d s n = Some m' \<Longrightarrow> length m' = length m"
  by (induction n arbitrary: m d s) (auto simp: c_mem_iff)

lemma copy_up_eq:
  "d \<le> s \<or> s + n \<le> d \<Longrightarrow> d + n \<le> length m \<Longrightarrow> s + n \<le> length m \<Longrightarrow>
     copy_up m d s n = Some (overlay m d (take n (drop s m)))"
proof (induction n arbitrary: m d s)
  case (Suc n)
  let ?m = "m[d := m ! s]"
  have "copy_up m d s (Suc n) = copy_up ?m (Suc d) (Suc s) n"
    using Suc.prems by simp
  also have "\<dots> = Some (overlay ?m (Suc d) (take n (drop (Suc s) ?m)))"
    using Suc.prems by (intro Suc.IH) auto
  also have "take n (drop (Suc s) ?m) = take n (drop (Suc s) m)"
    using Suc.prems by (intro nth_eqI) (auto simp: nth_list_update)
  also have "overlay ?m (Suc d) (take n (drop (Suc s) m)) = overlay m d (take (Suc n) (drop s m))"
    using Suc.prems by (simp add: overlay_Cons [symmetric] Cons_nth_drop_Suc [symmetric])
  finally show ?case .
qed simp

lemma overlay_snoc:
  "i + length w < length m \<Longrightarrow> overlay m i (w @ [x]) = overlay (m[i + length w := x]) i w"
  by (rule nth_eqI) (auto simp: overlay_nth nth_append nth_list_update)

lemma copy_down_eq:
  "s \<le> d \<Longrightarrow> d + n \<le> length m \<Longrightarrow> s + n \<le> length m \<Longrightarrow>
     copy_down m d s n = Some (overlay m d (take n (drop s m)))"
proof (induction n arbitrary: m)
  case (Suc n)
  let ?m = "m[d + n := m ! (s + n)]"
  have "copy_down m d s (Suc n) = copy_down ?m d s n"
    using Suc.prems by simp
  also have "\<dots> = Some (overlay ?m d (take n (drop s ?m)))"
    using Suc.prems by (intro Suc.IH) auto
  also have "take n (drop s ?m) = take n (drop s m)"
    using Suc.prems by (intro nth_eqI) (auto simp: nth_list_update)
  also have "overlay ?m d (take n (drop s m)) = overlay m d (take n (drop s m) @ [m ! (s + n)])"
    using Suc.prems by (simp add: overlay_snoc)
  also have "take n (drop s m) @ [m ! (s + n)] = take (Suc n) (drop s m)"
    using Suc.prems by (simp add: take_Suc_conv_app_nth)
  finally show ?case .
qed simp

lemma copy_up_out: "0 < n \<Longrightarrow> length m < d + n \<or> length m < s + n \<Longrightarrow> copy_up m d s n = None"
proof (induction n arbitrary: m d s)
  case (Suc n)
  show ?case
  proof (cases "d < length m \<and> s < length m \<and> 0 < n")
    case True
    then show ?thesis using Suc.prems by simp (intro Suc.IH, auto)
  next
    case False
    then show ?thesis using Suc.prems by (cases "s < length m"; cases "d < length m") auto
  qed
qed simp

lemma copy_down_out: "0 < n \<Longrightarrow> length m < d + n \<or> length m < s + n \<Longrightarrow> copy_down m d s n = None"
proof (cases n)
  case (Suc k)
  then show "length m < d + n \<or> length m < s + n \<Longrightarrow> copy_down m d s n = None"
    by (cases "s + k < length m") auto
qed simp

lemma find_upt_Suc: "find P [0..<Suc n] = (if P 0 then Some 0 else map_option Suc (find (\<lambda>i. P (Suc i)) [0..<n]))"
proof -
  have "find P (map Suc xs) = map_option Suc (find (\<lambda>i. P (Suc i)) xs)" for xs
    by (induction xs) auto
  then show ?thesis by (simp only: upt_conv_Cons [OF zero_less_Suc] map_Suc_upt [symmetric]) simp
qed

lemma strstr_loop_eq:
  "length s1 \<ge> l1 \<Longrightarrow> length s2 \<ge> l2 \<Longrightarrow> 0 < l2 \<Longrightarrow>
     strstr_loop s1 s2 l1 l2 = Some (find (\<lambda>i. take l2 (drop i s1) = take l2 s2) [0..<Suc l1 - l2])"
proof (induction l1 arbitrary: s1)
  case 0
  then show ?case by (subst strstr_loop.simps) auto
next
  case (Suc l1)
  show ?case
  proof (cases "l2 \<le> Suc l1")
    case True
    obtain x where x: "memcmp s1 s2 l2 = Some x"
      using memcmp_total [of l2 s1 s2] True Suc.prems by auto
    have eq: "x = 0 \<longleftrightarrow> take l2 s1 = take l2 s2"
      using memcmp_eq [of l2 s1 s2] x True Suc.prems by simp
    have ih: "strstr_loop (tl s1) s2 l1 l2 =
        Some (find (\<lambda>i. take l2 (drop i (tl s1)) = take l2 s2) [0..<Suc l1 - l2])"
      using Suc.prems by (intro Suc.IH) auto
    have "Suc (Suc l1) - l2 = Suc (Suc l1 - l2)" using True by simp
    then show ?thesis using x eq ih True Suc.prems
      by (subst strstr_loop.simps) (simp add: find_upt_Suc drop_Suc del: upt_Suc)
  next
    case False
    then show ?thesis using Suc.prems by (subst strstr_loop.simps) auto
  qed
qed

section \<open>Properties\<close>

text \<open>
  C21: \<open>memmove\<close> is correct for every overlap of source and destination: it stores the bytes the
  source held before the call, keeps all others, and accesses memory outside the object exactly
  if one of the two windows leaves it.
\<close>

theorem memmove_correct:
  "memmove m dest src n =
     (if n = 0 then Some m
      else if dest + n \<le> length m \<and> src + n \<le> length m
      then Some (overlay m dest (take n (drop src m))) else None)"
  by (cases "n = 0"; cases "dest \<le> src")
    (auto simp: memmove_def copy_up_eq copy_down_eq copy_up_out copy_down_out not_le)

text \<open>
  \<open>strstr\<close> returns the first position at which the second string occurs in the first, and
  \<open>NULL\<close> if there is none; it stays inside both strings.
\<close>

lemma strstr_first_occurrence:
  assumes "nonul s" "nonul t"
  shows "strstr (s @ 0 # r) (t @ 0 # r') =
    Some (find (\<lambda>i. take (length t) (drop i s) = t) [0..<Suc (length s) - length t])"
proof (cases "t = []")
  case True
  then show ?thesis by (simp add: strstr_def find_upt_Suc del: upt_Suc)
next
  case False
  have "find (\<lambda>i. take (length t) (drop i (s @ 0 # r)) = take (length t) (t @ 0 # r')) [0..<Suc (length s) - length t]
      = find (\<lambda>i. take (length t) (drop i s) = t) [0..<Suc (length s) - length t]"
    by (intro find_cong) (auto simp: less_diff_conv)
  then show ?thesis using assms False by (simp add: strstr_def strstr_loop_eq del: upt_Suc)
qed

text \<open>
  On terminated strings \<open>strcmp\<close> and \<open>strncmp\<close> return, and return zero exactly for equal
  strings (for \<open>strncmp\<close>, strings equal in their first \<open>n\<close> bytes).
\<close>

lemma strcmp_strncmp_equality:
  assumes "nonul s" "nonul t"
  shows "(\<exists>x. strcmp (s @ 0 # r) (t @ 0 # r') = Some x \<and> (x = 0 \<longleftrightarrow> s = t)) \<and>
    (\<exists>y. strncmp (s @ 0 # r) (t @ 0 # r') n = Some y \<and> (y = 0 \<longleftrightarrow> take n s = take n t))"
  using strcmp_total [OF assms, of r r'] strcmp_cstr [OF assms, of r r']
    strncmp_loop_total [OF assms, of r r' n 0] strncmp_cstr [OF assms, of r r' n]
  by (auto simp: strncmp_def)

end
