(* ===== verification/EnvImage.thy ===== *)
theory EnvImage
  imports CString
begin

text \<open>
  The environment image: the byte array \<open>env_ptr->data\<close> that holds the variables as
  \<open>name=value\<close> strings, each ended by a NUL, the last one followed by a second NUL. This theory
  has the scanning and editing loops of \<open>common/cmd_nvedit.c\<close> over such an array, and relates
  them to the list of variables the array encodes. Positions are indices into the array; a read
  or write outside of it gives \<open>None\<close>.
\<close>

abbreviation (input) EQ :: byte where "EQ \<equiv> 61"

section \<open>Scanning\<close>

text \<open>\<open>for (nxt=i; *nxt; ++nxt) ;\<close>\<close>

function env_next :: "bytes \<Rightarrow> nat \<Rightarrow> nat option" where
  "env_next m i = (if i < length m then if m ! i = 0 then Some i else env_next m (Suc i) else None)"
  by pat_completeness auto

termination
  by (relation "measure (\<lambda>(m, i). length m - i)") auto

declare env_next.simps [simp del]

fun envmatch :: "bytes \<Rightarrow> bytes \<Rightarrow> nat \<Rightarrow> int option" where
  "envmatch [] m i2 = None"
| "envmatch (c # s1) m i2 = do {
     e \<leftarrow> rd m i2;
     if c = e then if c = EQ then Some (int (Suc i2)) else envmatch s1 m (Suc i2)
     else if c = 0 \<and> e = EQ then Some (int (Suc i2)) else Some (-1) }"

lemma env_next_ge: "env_next m i = Some nxt \<Longrightarrow> i \<le> nxt \<and> nxt < length m"
proof (induction m i rule: env_next.induct)
  case (1 m i)
  then show ?case by (subst (asm) (2) env_next.simps) (auto split: if_splits)
qed

text \<open>
  The search loop of \<open>_do_setenv\<close>: \<open>None\<close> inside \<open>Some\<close> when the variable is not there,
  otherwise the start of its entry, the index of its value and the NUL that ends the entry.
\<close>

function env_search :: "bytes \<Rightarrow> bytes \<Rightarrow> nat \<Rightarrow> (nat \<times> nat \<times> nat) option option" where
  "env_search name m i = do {
     c \<leftarrow> rd m i;
     if c = 0 then Some None
     else do {
       nxt \<leftarrow> env_next m i;
       oldval \<leftarrow> envmatch name m i;
       if oldval \<ge> 0 then Some (Some (i, nat oldval, nxt)) else env_search name m (Suc nxt) } }"
  by pat_completeness auto

termination
  by (relation "measure (\<lambda>(name, m, i). length m - i)") (auto simp: rd_eq_Some dest: env_next_ge)

declare env_search.simps [simp del]

section \<open>Editing\<close>

text \<open>The copy loop of the deletion: the bytes from \<open>nxt\<close> on move down to \<open>env\<close>.\<close>

function env_shift :: "bytes \<Rightarrow> nat \<Rightarrow> nat \<Rightarrow> (bytes \<times> nat) option" where
  "env_shift m env nxt = do {
     c \<leftarrow> rd m nxt;
     m' \<leftarrow> wr m env c;
     if c = 0 then do {
       d \<leftarrow> rd m' (Suc nxt);
       if d = 0 then Some (m', env) else env_shift m' (Suc env) (Suc nxt) }
     else env_shift m' (Suc env) (Suc nxt) }"
  by pat_completeness auto

termination
  by (relation "measure (\<lambda>(m, env, nxt). length m - nxt)") (auto simp: c_mem_iff)

declare env_shift.simps [simp del]

definition env_delete :: "bytes \<Rightarrow> nat \<Rightarrow> nat \<Rightarrow> bytes option" where
  "env_delete m env nxt = do {
     c \<leftarrow> rd m (Suc nxt);
     (m, env) \<leftarrow>
       (if c = 0 then
          if env > 0 then Some (m, env - 1) else do { m \<leftarrow> wr m env 0; Some (m, env) }
        else env_shift m env (Suc nxt));
     wr m (Suc env) 0 }"

text \<open>\<open>for (env=env_data; *env || *(env+1); ++env) ;\<close>\<close>

function env_end :: "bytes \<Rightarrow> nat \<Rightarrow> nat option" where
  "env_end m i = do {
     a \<leftarrow> rd m i;
     if a \<noteq> 0 then env_end m (Suc i)
     else do {
       b \<leftarrow> rd m (Suc i);
       if b \<noteq> 0 then env_end m (Suc i) else Some i } }"
  by pat_completeness auto

termination
  by (relation "measure (\<lambda>(m, i). length m - i)") (auto simp: c_mem_iff)

declare env_end.simps [simp del]

text \<open>\<open>while ((*env = *s++) != '\0') env++\<close>: the array and the position of the NUL.\<close>

fun env_put :: "bytes \<Rightarrow> nat \<Rightarrow> bytes \<Rightarrow> (bytes \<times> nat) option" where
  "env_put m env [] = None"
| "env_put m env (c # s) = do {
     m \<leftarrow> wr m env c;
     if c = 0 then Some (m, env) else env_put m (Suc env) s }"

text \<open>The values, the first one after \<open>=\<close>, the others after a blank.\<close>

fun env_put_values :: "bytes \<Rightarrow> nat \<Rightarrow> byte \<Rightarrow> bytes list \<Rightarrow> (bytes \<times> nat) option" where
  "env_put_values m env sep [] = Some (m, env)"
| "env_put_values m env sep (val # vals) = do {
     m \<leftarrow> wr m env sep;
     (m, env) \<leftarrow> env_put m (Suc env) val;
     env_put_values m env 32 vals }"

fun values_len :: "bytes list \<Rightarrow> nat option" where
  "values_len [] = Some 0"
| "values_len (val # vals) = do { n \<leftarrow> strlen val; r \<leftarrow> values_len vals; Some (n + 1 + r) }"

text \<open>
  Appending a definition to the array \<open>m\<close>, with \<open>env_size\<close> the size the overflow check uses:
  \<open>None\<close> inside \<open>Some\<close> when the definition does not fit.
\<close>

definition env_append :: "nat \<Rightarrow> bytes \<Rightarrow> bytes \<Rightarrow> bytes list \<Rightarrow> bytes option option" where
  "env_append env_size m name vals = do {
     e \<leftarrow> env_end m 0;
     let env = (if e > 0 then Suc e else e);
     n \<leftarrow> strlen name;
     k \<leftarrow> values_len vals;
     let len = n + 2 + k;
     if int len > int env_size - int env then Some None
     else do {
       (m, env) \<leftarrow> env_put m env name;
       (m, env) \<leftarrow> env_put_values m env EQ vals;
       m \<leftarrow> wr m (Suc env) 0;
       Some (Some m) } }"

section \<open>What an image encodes\<close>

text \<open>The variables in order of appearance, and the bytes that encode them.\<close>

type_synonym var = "bytes \<times> bytes"

definition enc_var :: "var \<Rightarrow> bytes" where
  "enc_var e = fst e @ EQ # snd e @ [0]"

definition enc_vars :: "var list \<Rightarrow> bytes" where
  "enc_vars es = concat (map enc_var es)"

definition ok_name :: "bytes \<Rightarrow> bool" where
  "ok_name n \<longleftrightarrow> n \<noteq> [] \<and> nonul n \<and> EQ \<notin> set n"

definition ok_var :: "var \<Rightarrow> bool" where
  "ok_var e \<longleftrightarrow> ok_name (fst e) \<and> nonul (snd e)"

text \<open>An image of no variable starts with two NULs.\<close>

definition image_of :: "var list \<Rightarrow> bytes" where
  "image_of es = (if es = [] then [0] else enc_vars es)"

definition ok_vars :: "var list \<Rightarrow> bool" where
  "ok_vars es \<longleftrightarrow> (\<forall>e\<in>set es. ok_var e) \<and> distinct (map fst es)"

definition encodes :: "bytes \<Rightarrow> var list \<Rightarrow> bool" where
  "encodes m es \<longleftrightarrow> ok_vars es \<and> (\<exists>r. m = image_of es @ 0 # r)"

text \<open>The C string at an index.\<close>

definition str_at :: "bytes \<Rightarrow> nat \<Rightarrow> bytes" where
  "str_at m k = takeWhile (\<lambda>c. c \<noteq> 0) (drop k m)"

text \<open>Removal of a variable from the list.\<close>

definition del_var :: "bytes \<Rightarrow> var list \<Rightarrow> var list" where
  "del_var n es = filter (\<lambda>e. fst e \<noteq> n) es"

text \<open>The value that several arguments make: joined by blanks.\<close>

fun join_values :: "bytes list \<Rightarrow> bytes" where
  "join_values [] = []"
| "join_values [v] = v"
| "join_values (v # vs) = v @ 32 # join_values vs"

section \<open>Scanning an image\<close>

lemma drop_Cons_iff: "drop i m = x # xs \<longleftrightarrow> i < length m \<and> m ! i = x \<and> drop (Suc i) m = xs"
  by (metis Cons_nth_drop_Suc drop_eq_Nil list.inject list.simps(3) not_le)

lemma env_next_str: "nonul s \<Longrightarrow> drop i m = s @ 0 # r \<Longrightarrow> env_next m i = Some (i + length s)"
proof (induction s arbitrary: i)
  case Nil
  then show ?case by (subst env_next.simps) (simp add: drop_Cons_iff)
next
  case (Cons c s)
  then show ?case by (subst env_next.simps) (simp add: drop_Cons_iff)
qed

lemma envmatch_var:
  "nonul n \<Longrightarrow> EQ \<notin> set n \<Longrightarrow> nonul n' \<Longrightarrow> EQ \<notin> set n' \<Longrightarrow> drop i m = n' @ EQ # r \<Longrightarrow>
     envmatch (n @ 0 # t) m i = Some (if n = n' then int (i + length n + 1) else -1)"
proof (induction n arbitrary: n' i)
  case Nil
  then show ?case by (cases n') (auto simp: drop_Cons_iff)
next
  case (Cons c n)
  then show ?case by (cases n') (auto simp: drop_Cons_iff)
qed

lemma enc_simps [simp]:
  "enc_vars [] = []" "enc_vars (e # es) = enc_var e @ enc_vars es"
  "enc_vars (as @ bs) = enc_vars as @ enc_vars bs"
  by (simp_all add: enc_vars_def)

lemma env_search_step:
  assumes ok: "ok_var (n', v)" and n: "ok_name n" and d: "drop i m = enc_var (n', v) @ r"
  shows "env_search (n @ 0 # t) m i =
    (if n = n' then Some (Some (i, i + length n + 1, i + length n + 1 + length v))
     else env_search (n @ 0 # t) m (i + length (enc_var (n', v))))"
proof -
  have n': "n' \<noteq> []" "nonul n'" "EQ \<notin> set n'" "nonul v" using ok by (auto simp: ok_var_def ok_name_def)
  then obtain c cs where c: "n' = c # cs" "c \<noteq> 0" by (cases n') auto
  have "env_next m i = Some (i + length (n' @ EQ # v))"
    using d n' by (intro env_next_str [where r = r]) (auto simp: enc_var_def)
  moreover have "envmatch (n @ 0 # t) m i = Some (if n = n' then int (i + length n + 1) else -1)"
    using d n n' by (intro envmatch_var [where r = "v @ 0 # r"]) (auto simp: enc_var_def ok_name_def)
  moreover have "rd m i = Some c" using d c by (simp add: enc_var_def drop_Cons_iff)
  ultimately show ?thesis
    using c by (subst env_search.simps) (auto simp: enc_var_def)
qed

lemma drop_plus: "drop i m = a @ r \<Longrightarrow> drop (i + length a) m = r"
  by (metis add.commute append_eq_conv_conj drop_drop)

lemma env_search_absent:
  "\<forall>e\<in>set es. ok_var e \<Longrightarrow> ok_name n \<Longrightarrow> n \<notin> fst ` set es \<Longrightarrow> drop i m = enc_vars es @ 0 # r \<Longrightarrow>
     env_search (n @ 0 # t) m i = Some None"
proof (induction es arbitrary: i)
  case Nil
  then show ?case by (subst env_search.simps) (simp add: drop_Cons_iff)
next
  case (Cons e es)
  obtain n' v where e: "e = (n', v)" by (cases e)
  have "drop (i + length (enc_var e)) m = enc_vars es @ 0 # r"
    using Cons.prems by (intro drop_plus) simp
  with Cons show ?case
    by (simp add: e env_search_step [where n' = n' and v = v and r = "enc_vars es @ 0 # r"])
qed

lemma env_search_present:
  "\<forall>e\<in>set pre. ok_var e \<Longrightarrow> ok_var (n, v) \<Longrightarrow> n \<notin> fst ` set pre \<Longrightarrow>
     drop i m = enc_vars pre @ enc_var (n, v) @ r \<Longrightarrow>
     env_search (n @ 0 # t) m i =
       (let k = i + length (enc_vars pre) in Some (Some (k, k + length n + 1, k + length n + 1 + length v)))"
proof (induction pre arbitrary: i)
  case Nil
  then show ?case
    by (subst env_search_step [where n' = n and v = v and r = r]) (auto simp: ok_var_def)
next
  case (Cons e es)
  obtain n' v' where e: "e = (n', v')" by (cases e)
  have "drop (i + length (enc_var e)) m = enc_vars es @ enc_var (n, v) @ r"
    using Cons.prems by (intro drop_plus) simp
  with Cons show ?case
    by (subst env_search_step [where n' = n' and v = v' and r = "enc_vars es @ enc_var (n, v) @ r"])
      (auto simp: e ok_var_def add.assoc Let_def)
qed

section \<open>Editing an image\<close>

text \<open>An image has no two NULs in a row and ends with one.\<close>

abbreviation no00 :: "bytes \<Rightarrow> bool" where
  "no00 \<equiv> successively (\<lambda>a b. a \<noteq> 0 \<or> b \<noteq> 0)"

lemma no00_nonul: "nonul s \<Longrightarrow> no00 (s @ [0])"
  by (induction s rule: induct_list012) auto

lemma enc_var_shape: "ok_var e \<Longrightarrow> no00 (enc_var e) \<and> hd (enc_var e) \<noteq> 0 \<and> last (enc_var e) = 0 \<and> 3 \<le> length (enc_var e)"
  using no00_nonul [of "fst e @ EQ # snd e"]
  by (cases "fst e") (auto simp: enc_var_def ok_var_def ok_name_def)

lemma enc_vars_shape:
  "\<forall>e\<in>set es. ok_var e \<Longrightarrow> es \<noteq> [] \<Longrightarrow>
     no00 (enc_vars es) \<and> hd (enc_vars es) \<noteq> 0 \<and> last (enc_vars es) = 0 \<and> 3 \<le> length (enc_vars es)"
proof (induction es)
  case (Cons e es)
  have e: "no00 (enc_var e)" "hd (enc_var e) \<noteq> 0" "last (enc_var e) = 0" "enc_var e \<noteq> []" "3 \<le> length (enc_var e)"
    using enc_var_shape [of e] Cons.prems by auto
  show ?case
  proof (cases "es = []")
    case False
    then have "no00 (enc_vars es)" "hd (enc_vars es) \<noteq> 0" "last (enc_vars es) = 0" "enc_vars es \<noteq> []"
      using Cons by force+
    then show ?thesis using e by (simp add: successively_append_iff)
  qed (use e in simp)
qed simp

lemma image_shape:
  "\<forall>e\<in>set es. ok_var e \<Longrightarrow> no00 (image_of es) \<and> last (image_of es) = 0 \<and> image_of es \<noteq> []"
  using enc_vars_shape [of es] by (auto simp: image_of_def)

lemma env_shift_eq:
  "no00 b \<Longrightarrow> last b = 0 \<Longrightarrow> b \<noteq> [] \<Longrightarrow> env < nxt \<Longrightarrow> drop nxt m = b @ 0 # r \<Longrightarrow>
     env_shift m env nxt = Some (overlay m env b, env + length b - 1)"
proof (induction b arbitrary: m env nxt)
  case (Cons c b)
  have d: "drop (Suc nxt) (m[env := c]) = b @ 0 # r" "m ! nxt = c" "nxt < length m"
    using Cons.prems by (auto simp: drop_Cons_iff)
  show ?case
  proof (cases b)
    case Nil
    then show ?thesis using Cons.prems d
      by (subst env_shift.simps) (simp add: drop_Cons_iff overlay_Cons)
  next
    case (Cons d' b')
    have "env_shift (m[env := c]) (Suc env) (Suc nxt) =
        Some (overlay (m[env := c]) (Suc env) b, Suc env + length b - 1)"
      using Cons Cons.prems d by (intro Cons.IH) auto
    moreover have "c = 0 \<Longrightarrow> rd (m[env := c]) (Suc nxt) = Some d' \<and> d' \<noteq> 0"
      using Cons Cons.prems d by (auto simp: drop_Cons_iff)
    ultimately show ?thesis
      using Cons Cons.prems d by (subst env_shift.simps) (auto simp: overlay_Cons)
  qed
qed simp

lemma env_end_eq:
  "no00 b \<Longrightarrow> last b = 0 \<Longrightarrow> b \<noteq> [] \<Longrightarrow> drop i m = b @ 0 # r \<Longrightarrow> env_end m i = Some (i + length b - 1)"
proof (induction b arbitrary: i)
  case (Cons c b)
  have d: "drop (Suc i) m = b @ 0 # r" "m ! i = c" "i < length m"
    using Cons.prems by (auto simp: drop_Cons_iff)
  then show ?case
    using Cons by (subst env_end.simps; cases b) (auto simp: drop_Cons_iff)
qed simp

lemma env_put_eq:
  "nonul s \<Longrightarrow> env + length s < length m \<Longrightarrow>
     env_put m env (s @ 0 # t) = Some (overlay m env (s @ [0]), env + length s)"
  by (induction s arbitrary: m env) (auto simp: overlay_Cons)

lemma overlay_rejoin:
  "i + length a + length b < length m \<Longrightarrow>
     overlay (overlay m i (a @ [x])) (i + length a) (y # b) = overlay m i (a @ y # b)"
  by (rule nth_eqI) (auto simp: overlay_nth nth_append nth_Cons')

lemma join_Cons: "vs \<noteq> [] \<Longrightarrow> join_values (v # vs) = v @ 32 # join_values vs"
  by (cases vs) auto

lemma values_len_eq:
  "\<forall>v\<in>set vs. nonul v \<Longrightarrow> vs \<noteq> [] \<Longrightarrow> values_len (map cstr vs) = Some (length (join_values vs) + 1)"
proof (induction vs)
  case (Cons v vs)
  then show ?case by (cases "vs = []") (auto simp: join_Cons cstr_def)
qed simp

lemma env_put_values_eq:
  "\<forall>v\<in>set vs. nonul v \<Longrightarrow> vs \<noteq> [] \<Longrightarrow> env + 1 + length (join_values vs) < length m \<Longrightarrow>
     env_put_values m env sep (map cstr vs) =
       Some (overlay m env (sep # join_values vs @ [0]), env + 1 + length (join_values vs))"
proof (induction vs arbitrary: m env sep)
  case (Cons v vs)
  let ?m = "overlay m env ((sep # v) @ [0])"
  have v: "env_put (m[env := sep]) (Suc env) (cstr v) = Some (?m, env + 1 + length v)"
    using Cons.prems env_put_eq [of v "Suc env" "m[env := sep]" "[]"]
    by (cases "vs = []") (auto simp: cstr_def overlay_Cons join_Cons)
  show ?case
  proof (cases "vs = []")
    case True
    then show ?thesis using v Cons.prems by simp
  next
    case False
    have "env_put_values ?m (env + 1 + length v) 32 (map cstr vs) =
        Some (overlay ?m (env + 1 + length v) (32 # join_values vs @ [0]),
          env + 1 + length v + 1 + length (join_values vs))"
      using False Cons.prems by (intro Cons.IH) (auto simp: join_Cons)
    moreover have "overlay ?m (env + length (sep # v)) (32 # join_values vs @ [0]) =
        overlay m env ((sep # v) @ 32 # join_values vs @ [0])"
      using False Cons.prems by (intro overlay_rejoin) (auto simp: join_Cons)
    ultimately show ?thesis using v False Cons.prems by (simp add: join_Cons)
  qed
qed simp

lemma image_length: "ok_vars es \<Longrightarrow> length (image_of es) = (if es = [] then 1 else length (enc_vars es))"
  by (simp add: image_of_def)

lemma take_enc: "encodes m es \<Longrightarrow> take (length (enc_vars es)) m = enc_vars es"
  by (auto simp: encodes_def image_of_def)

lemma encodes_room: "encodes m es \<Longrightarrow> length (enc_vars es) < length m"
  by (auto simp: encodes_def image_of_def)

lemma env_append_end:
  assumes "encodes m es"
  shows "\<exists>e. env_end m 0 = Some e \<and> (if e > 0 then Suc e else e) = length (enc_vars es)"
proof -
  obtain r where m: "m = image_of es @ 0 # r" and ok: "\<forall>e\<in>set es. ok_var e"
    using assms by (auto simp: encodes_def ok_vars_def)
  have "env_end m 0 = Some (0 + length (image_of es) - 1)"
    using image_shape [OF ok] m by (intro env_end_eq) auto
  moreover have "es \<noteq> [] \<Longrightarrow> 3 \<le> length (enc_vars es)" using enc_vars_shape [OF ok] by simp
  ultimately show ?thesis by (cases "es = []") (auto simp: image_of_def)
qed

text \<open>Appending a new variable: it is added at the end if it fits, otherwise nothing is written.\<close>

lemma env_append_eq:
  assumes e: "encodes m es" and n: "ok_name n" and vs: "vs \<noteq> []" "\<forall>v\<in>set vs. nonul v"
  shows "env_append (length m) m (n @ 0 # t) (map cstr vs) =
    (if length (enc_vars es) + length n + length (join_values vs) + 3 > length m then Some None
     else Some (Some (overlay m (length (enc_vars es)) (enc_var (n, join_values vs) @ [0]))))"
proof -
  let ?k = "length (enc_vars es)" and ?v = "join_values vs"
  obtain e where fin: "env_end m 0 = Some e" "(if e > 0 then Suc e else e) = ?k"
    using env_append_end [OF e] by blast
  have nn: "nonul n" using n by (simp add: ok_name_def)
  show ?thesis
  proof (cases "?k + length n + length ?v + 3 > length m")
    case True
    then show ?thesis
      using fin nn values_len_eq [OF vs(2,1)] by (simp add: env_append_def Let_def)
  next
    case False
    let ?m1 = "overlay m ?k (n @ [0])"
    let ?m2 = "overlay m ?k (n @ EQ # ?v @ [0])"
    have 1: "env_put m ?k (n @ 0 # t) = Some (?m1, ?k + length n)"
      using False nn by (intro env_put_eq) auto
    have "env_put_values ?m1 (?k + length n) EQ (map cstr vs) =
        Some (overlay ?m1 (?k + length n) (EQ # ?v @ [0]), ?k + length n + 1 + length ?v)"
      using False vs by (intro env_put_values_eq) auto
    also have "overlay ?m1 (?k + length n) (EQ # ?v @ [0]) = ?m2"
      using False by (intro overlay_rejoin) auto
    finally have 2: "env_put_values ?m1 (?k + length n) EQ (map cstr vs) =
        Some (?m2, ?k + length n + 1 + length ?v)" .
    have "?m2[Suc (?k + length n + 1 + length ?v) := 0] = overlay m ?k (enc_var (n, ?v) @ [0])"
      using False by (intro nth_eqI) (auto simp: overlay_nth nth_append nth_list_update enc_var_def nth_Cons')
    then have 3: "wr ?m2 (Suc (?k + length n + 1 + length ?v)) 0 = Some (overlay m ?k (enc_var (n, ?v) @ [0]))"
      using False by (simp add: wr_def)
    show ?thesis
      using False fin nn values_len_eq [OF vs(2,1)] 1 2 3
      by (simp add: env_append_def Let_def)
  qed
qed

lemma encodes_overlay:
  assumes e: "encodes m es" and v: "ok_var e'" "fst e' \<notin> fst ` set es"
    and fit: "length (enc_vars es) + length (enc_var e') < length m"
  shows "encodes (overlay m (length (enc_vars es)) (enc_var e' @ [0])) (es @ [e'])"
  using e v take_enc [OF e]
  by (auto simp: encodes_def ok_vars_def overlay_def image_of_def)

text \<open>Deletion.\<close>

lemma del_var_absent: "n \<notin> fst ` set es \<Longrightarrow> del_var n es = es"
  by (auto simp: del_var_def filter_id_conv)

lemma del_var_split:
  "n \<notin> fst ` set pre \<Longrightarrow> n \<notin> fst ` set post \<Longrightarrow> del_var n (pre @ (n, v) # post) = pre @ post"
  by (simp add: del_var_def) (metis (mono_tags, lifting) filter_True imageI)

lemma wr_overlay_after:
  "i + length w < length m \<Longrightarrow>
     wr (overlay m i w) (i + length w) x = Some (take i m @ w @ x # drop (i + length w + 1) m)"
  by (simp add: overlay_def wr_def list_update_append Cons_nth_drop_Suc [symmetric] min_absorb2)

lemma env_delete_eq:
  assumes e: "encodes m (pre @ (n, v) # post)"
  shows "\<exists>m'. env_delete m (length (enc_vars pre)) (length (enc_vars pre) + length n + 1 + length v) = Some m'
    \<and> encodes m' (pre @ post) \<and> length m' = length m \<and> (post = [] \<and> pre \<noteq> [] \<longrightarrow> m' = m[length (enc_vars pre) := 0])"
proof -
  let ?k = "length (enc_vars pre)" and ?l = "length (enc_var (n, v))"
  obtain r where m: "m = enc_vars pre @ enc_var (n, v) @ enc_vars post @ 0 # r"
    and ok: "ok_vars (pre @ (n, v) # post)"
    using e by (auto simp: encodes_def image_of_def)
  have ok': "ok_vars (pre @ post)" using ok by (auto simp: ok_vars_def)
  have l: "3 \<le> ?l" using ok enc_var_shape [of "(n, v)"] by (simp add: ok_vars_def)
  have nxt: "Suc (?k + length n + 1 + length v) = ?k + ?l" by (simp add: enc_var_def)
  show ?thesis
  proof (cases "post = []")
    case True
    then have rd: "rd m (?k + ?l) = Some 0" by (simp add: m rd_append2)
    show ?thesis
    proof (cases "pre = []")
      case True
      obtain a b c where "enc_var (n, v) = a # b # c" using l by (cases "enc_var (n, v)"; cases "tl (enc_var (n, v))") auto
      then show ?thesis using True \<open>post = []\<close> rd nxt m ok'
        by (auto simp: env_delete_def encodes_def image_of_def)
    next
      case False
      then have "0 < ?k" using enc_vars_shape [of pre] ok by (auto simp: ok_vars_def)
      moreover obtain a c where "enc_var (n, v) = a # c" using l by (cases "enc_var (n, v)") auto
      ultimately have "env_delete m ?k (?k + length n + 1 + length v) = Some (enc_vars pre @ 0 # c @ 0 # r)"
        using True rd by (simp only: env_delete_def nxt) (simp add: m)
      then show ?thesis using False True ok' m \<open>enc_var (n, v) = a # c\<close>
        by (simp add: encodes_def image_of_def)
    qed
  next
    case False
    have sh: "no00 (enc_vars post)" "hd (enc_vars post) \<noteq> 0" "last (enc_vars post) = 0" "enc_vars post \<noteq> []"
      using enc_vars_shape [of post] False ok by (force simp: ok_vars_def)+
    then obtain c cs where c: "enc_vars post = c # cs" "c \<noteq> 0" by (cases "enc_vars post") auto
    have rd: "rd m (?k + ?l) = Some c" by (simp add: m rd_append2 c)
    have "env_shift m ?k (?k + ?l) = Some (overlay m ?k (enc_vars post), ?k + length (enc_vars post) - 1)"
      using sh l by (intro env_shift_eq [where r = r]) (auto simp: m)
    moreover have "wr (overlay m ?k (enc_vars post)) (?k + length (enc_vars post)) 0 =
        Some (enc_vars pre @ enc_vars post @ 0 # drop (?k + length (enc_vars post) + 1) m)"
      using l by (subst wr_overlay_after) (simp_all add: m)
    ultimately have "env_delete m ?k (?k + length n + 1 + length v) =
        Some (enc_vars pre @ enc_vars post @ 0 # drop (?k + length (enc_vars post) + 1) m)"
      using rd c by (simp only: env_delete_def nxt) simp
    then show ?thesis using False ok' l m
      by (simp add: encodes_def image_of_def)
  qed
qed

end
