(* ===== verification/Flash.thy ===== *)
theory Flash
  imports UB_Prelude
begin

text \<open>
  The NOR flash: the geometry of the board (\<open>board/ar7240/carambola2/flash.c\<close>), the generic
  layer (\<open>common/flash.c\<close>) and the SPI driver (\<open>board/ar7240/common/ar7240_flash.c\<close>).

  The driver is modelled twice. The register level lists the writes to the SPI controller that
  one command causes. The command level lists the commands, and lets a flash chip execute them:
  the chip is not part of the program, so its two operations (page program, sector erase) are
  parameters. The locale \<open>spi_nor\<close> states what the driver relies on: inside one page a program
  clears bits, an erase sets a sector to ones, and neither touches anything else.
\<close>

section \<open>Constants\<close>

definition CFG_FLASH_BASE :: u32 where "CFG_FLASH_BASE = 0x9f000000"
definition CFG_FLASH_SIZE :: u32 where "CFG_FLASH_SIZE = 0x01000000"
definition CFG_FLASH_SECTOR_SIZE :: u32 where "CFG_FLASH_SECTOR_SIZE = 0x10000"

abbreviation (input) FLASH_UNKNOWN :: u32 where "FLASH_UNKNOWN \<equiv> 0xFFFF"

abbreviation (input) ERR_OK :: int where "ERR_OK \<equiv> 0"
abbreviation (input) ERR_PROTECTED :: int where "ERR_PROTECTED \<equiv> 4"
abbreviation (input) ERR_INVAL :: int where "ERR_INVAL \<equiv> 8"

section \<open>Bank descriptors\<close>

record flash_info_t =
  bank_size :: u32
  sector_count :: nat
  flash_id :: u32
  start :: "u32 list"
  protect :: "byte list"

definition flash_get_geom :: "flash_info_t \<Rightarrow> u32 \<times> flash_info_t" where
  "flash_get_geom fi =
     (let n = unat (CFG_FLASH_SIZE div CFG_FLASH_SECTOR_SIZE);
          fi = fi\<lparr>flash_id := 0x00F2, bank_size := CFG_FLASH_SIZE, sector_count := n,
                  start := map (\<lambda>i. CFG_FLASH_BASE + of_nat i * CFG_FLASH_SECTOR_SIZE) [0..<n]
                           @ drop n (start fi),
                  protect := replicate n 0 @ drop n (protect fi)\<rparr>
      in (bank_size fi, fi))"

text \<open>The last address of the bank, and of its \<open>i\<close>-th sector.\<close>

definition bank_end :: "flash_info_t \<Rightarrow> u32" where
  "bank_end info = start info ! 0 + bank_size info - 1"

definition sect_end :: "flash_info_t \<Rightarrow> nat \<Rightarrow> u32" where
  "sect_end info i = (if i = sector_count info - 1 then bank_end info else start info ! (i + 1) - 1)"

definition flash_protect :: "u32 \<Rightarrow> u32 \<Rightarrow> u32 \<Rightarrow> flash_info_t \<Rightarrow> flash_info_t" where
  "flash_protect flag from to info =
     (if sector_count info = 0 \<or> bank_size info = 0 \<or> to < from then info
      else if flash_id info = FLASH_UNKNOWN \<or> to < start info ! 0 \<or> from > bank_end info then info
      else fold (\<lambda>i info.
             if from \<le> sect_end info i \<and> to \<ge> start info ! i then
               (if flag AND 0x02 \<noteq> 0 then info\<lparr>protect := (protect info)[i := 0]\<rparr>
                else if flag AND 0x01 \<noteq> 0 then info\<lparr>protect := (protect info)[i := 1]\<rparr>
                else info)
             else info) [0..<sector_count info] info)"

definition bank_holds :: "u32 \<Rightarrow> flash_info_t \<Rightarrow> bool" where
  "bank_holds addr info \<longleftrightarrow> flash_id info \<noteq> FLASH_UNKNOWN \<and>
     addr \<ge> start info ! 0 \<and> addr \<le> start info ! 0 + bank_size info - 1"

fun addr2info_from :: "nat \<Rightarrow> u32 \<Rightarrow> flash_info_t list \<Rightarrow> nat option" where
  "addr2info_from i addr [] = None"
| "addr2info_from i addr (info # banks) =
     (if bank_holds addr info then Some i else addr2info_from (Suc i) addr banks)"

definition addr2info :: "flash_info_t list \<Rightarrow> u32 \<Rightarrow> nat option" where
  "addr2info banks addr = addr2info_from 0 addr banks"

section \<open>The SPI driver, register level\<close>

text \<open>Writes to the controller: (register, value).\<close>

type_synonym reg_trace = "(u32 \<times> u32) list"

abbreviation (input) SPI_FS :: u32 where "SPI_FS \<equiv> 0x1f000000"
abbreviation (input) SPI_WRITE :: u32 where "SPI_WRITE \<equiv> 0x1f000008"
abbreviation (input) SPI_CS_DIS :: u32 where "SPI_CS_DIS \<equiv> 0x70000"
abbreviation (input) SPI_CE_LOW :: u32 where "SPI_CE_LOW \<equiv> 0x60000"
abbreviation (input) SPI_CE_HIGH :: u32 where "SPI_CE_HIGH \<equiv> 0x60100"

definition be_msb :: "byte \<Rightarrow> nat \<Rightarrow> u32" where
  "be_msb val i = ucast (drop_bit (7 - i) (val AND push_bit (7 - i) 1))"

definition spi_bit_banger :: "byte \<Rightarrow> reg_trace" where
  "spi_bit_banger b =
     concat (map (\<lambda>i. [(SPI_WRITE, SPI_CE_LOW OR be_msb b i), (SPI_WRITE, SPI_CE_HIGH OR be_msb b i)])
       [0..<8])"

definition spi_go :: reg_trace where
  "spi_go = [(SPI_WRITE, SPI_CE_LOW), (SPI_WRITE, SPI_CS_DIS)]"

definition spi_send_addr :: "u32 \<Rightarrow> reg_trace" where
  "spi_send_addr a =
     spi_bit_banger (ucast (drop_bit 16 (a AND 0xff0000))) @
     spi_bit_banger (ucast (drop_bit 8 (a AND 0x00ff00))) @
     spi_bit_banger (ucast (a AND 0x0000ff))"

definition spi_write_enable :: reg_trace where
  "spi_write_enable =
     [(SPI_FS, 1), (SPI_WRITE, SPI_CS_DIS)] @ spi_bit_banger 0x06 @ spi_go"

text \<open>The status polls: the chip reports busy \<open>n\<close> times before it reports ready.\<close>

definition spi_poll :: "nat \<Rightarrow> reg_trace" where
  "spi_poll n = concat (replicate (Suc n)
     ([(SPI_WRITE, SPI_CS_DIS)] @ spi_bit_banger 0x05 @ spi_bit_banger 0))"

definition spi_write_page :: "u32 \<Rightarrow> bytes \<Rightarrow> nat \<Rightarrow> reg_trace" where
  "spi_write_page addr data busy =
     spi_write_enable @ spi_bit_banger 0x02 @ spi_send_addr addr @
     concat (map spi_bit_banger data) @ spi_go @ spi_poll busy"

definition spi_sector_erase :: "u32 \<Rightarrow> nat \<Rightarrow> reg_trace" where
  "spi_sector_erase addr busy =
     spi_write_enable @ spi_bit_banger 0xd8 @ spi_send_addr addr @ spi_go @ spi_poll busy"

text \<open>
  How a chip listens: a frame runs while chip select is held (bit 16 of \<open>SPI_WRITE\<close> clear), the
  data line (bit 0) is sampled on each rising clock edge (bit 8). \<open>spi_frames\<close> are the bits of the
  completed frames and of the one still open.
\<close>

fun spi_listen :: "bool \<Rightarrow> bool list \<Rightarrow> reg_trace \<Rightarrow> bool list list" where
  "spi_listen clk frame [] = [frame]"
| "spi_listen clk frame ((r, v) # t) =
     (if r \<noteq> SPI_WRITE then spi_listen clk frame t
      else if bit v 16 then frame # spi_listen False [] t
      else if bit v 8 \<and> \<not> clk then spi_listen True (frame @ [bit v 0]) t
      else spi_listen (bit v 8) frame t)"

definition spi_frames :: "reg_trace \<Rightarrow> bool list list" where
  "spi_frames t = filter (\<lambda>f. f \<noteq> []) (spi_listen False [] t)"

definition byte_bits :: "byte \<Rightarrow> bool list" where
  "byte_bits b = map (\<lambda>i. bit b (7 - i)) [0..<8]"

section \<open>The SPI driver, command level\<close>

text \<open>
  The pieces \<open>write_buff\<close> cuts a buffer into: device address, offset in the source, length. The
  room in the page is computed from the start address of the whole buffer.
\<close>

function write_plan :: "u32 \<Rightarrow> nat \<Rightarrow> nat \<Rightarrow> (u32 \<times> nat \<times> nat) list" where
  "write_plan addr len tot =
     (if tot < len then
        let bytes_this_page = 256 - unat (addr AND 255);
            len_this_lp = (if len - tot > bytes_this_page then bytes_this_page else len - tot)
        in (addr + of_nat tot, tot, len_this_lp) # write_plan addr len (tot + len_this_lp)
      else [])"
  by pat_completeness auto

termination
proof (relation "measure (\<lambda>(addr, len, tot). len - tot)", goal_cases)
  case (2 addr len tot x xa)
  then show ?case using unat_and_255 [of addr] by (auto simp: Let_def)
qed simp

declare write_plan.simps [simp del]

record chip =
  prog :: "bytes \<Rightarrow> nat \<Rightarrow> bytes \<Rightarrow> bytes"
  erase :: "bytes \<Rightarrow> nat \<Rightarrow> bytes"

text \<open>The address a command carries: three bytes.\<close>

definition spi_addr :: "u32 \<Rightarrow> nat" where
  "spi_addr a = unat (a AND 0xffffff)"

definition write_buff :: "chip \<Rightarrow> bytes \<Rightarrow> bytes \<Rightarrow> u32 \<Rightarrow> nat \<Rightarrow> (int \<times> bytes) option" where
  "write_buff chip mem source addr len =
     (if len \<le> length source then
        Some (0, fold (\<lambda>(dst, off, n) mem. prog chip mem (spi_addr dst) (take n (drop off source)))
                (write_plan (addr - CFG_FLASH_BASE) len 0) mem)
      else None)"

fun erase_sectors :: "chip \<Rightarrow> bytes \<Rightarrow> int \<Rightarrow> int \<Rightarrow> nat \<Rightarrow> bytes" where
  "erase_sectors chip mem sector_size i 0 = mem"
| "erase_sectors chip mem sector_size i (Suc n) =
     erase_sectors chip (erase chip mem (spi_addr (word_of_int (i * sector_size)))) sector_size (i + 1) n"

text \<open>
  The loop from \<open>s_first\<close> to \<open>s_last\<close>, both \<open>int\<close>; a bank without sectors divides by zero.
\<close>

definition flash_erase :: "chip \<Rightarrow> bytes \<Rightarrow> flash_info_t \<Rightarrow> int \<Rightarrow> int \<Rightarrow> (int \<times> bytes) option" where
  "flash_erase chip mem info s_first s_last =
     (if sector_count info = 0 then None
      else Some (0, erase_sectors chip mem (uint (bank_size info) div int (sector_count info)) s_first
                      (nat (s_last + 1 - s_first))))"

section \<open>Writing through the generic layer\<close>

definition sect_limit :: "flash_info_t \<Rightarrow> nat \<Rightarrow> u32" where
  "sect_limit info i = (if i = sector_count info - 1 then start info ! 0 + bank_size info else start info ! (i + 1))"

definition hits_protected :: "u32 \<Rightarrow> u32 \<Rightarrow> flash_info_t \<Rightarrow> bool" where
  "hits_protected addr end info \<longleftrightarrow>
     list_ex (\<lambda>i. end \<ge> start info ! i \<and> addr < sect_limit info i \<and> protect info ! i \<noteq> 0)
       [0..<sector_count info]"

fun flash_write_loop ::
  "chip \<Rightarrow> bytes \<Rightarrow> flash_info_t list \<Rightarrow> bytes \<Rightarrow> u32 \<Rightarrow> u32 \<Rightarrow> (int \<times> bytes) option" where
  "flash_write_loop chip mem [] src addr cnt = Some (ERR_OK, mem)"
| "flash_write_loop chip mem (info # banks) src addr cnt =
     (if cnt > 0 then
        let len = start info ! 0 + bank_size info - addr;
            len = (if len > cnt then cnt else len)
        in (case write_buff chip mem src addr (unat len) of
              None \<Rightarrow> None
            | Some (i, mem') \<Rightarrow>
                if i \<noteq> 0 then Some (i, mem')
                else flash_write_loop chip mem' banks (drop (unat len) src) (addr + len) (cnt - len))
      else Some (ERR_OK, mem))"

definition flash_write ::
  "chip \<Rightarrow> flash_info_t list \<Rightarrow> bytes \<Rightarrow> bytes \<Rightarrow> u32 \<Rightarrow> u32 \<Rightarrow> (int \<times> bytes) option" where
  "flash_write chip banks mem src addr cnt =
     (let end = addr + cnt - 1 in
      if cnt = 0 then Some (ERR_OK, mem)
      else case (addr2info banks addr, addr2info banks end) of
        (Some info_first, Some info_last) \<Rightarrow>
          (let used = take (Suc info_last - info_first) (drop info_first banks)
           in if list_ex (hits_protected addr end) used then Some (ERR_PROTECTED, mem)
              else flash_write_loop chip mem used src addr cnt)
      | _ \<Rightarrow> Some (ERR_INVAL, mem))"

section \<open>The register level sends the command's bytes\<close>

lemma bit_be_msb: "i < 8 \<Longrightarrow> bit (be_msb b i) k \<longleftrightarrow> k = 0 \<and> bit b (7 - i)"
  by (auto simp: be_msb_def bit_simps)

lemma listen_pair:
  "i < 8 \<Longrightarrow> spi_listen clk frame ((0x1f000008, 0x60000 OR be_msb b i) # (0x1f000008, 0x60100 OR be_msb b i) # t)
     = spi_listen True (frame @ [bit b (7 - i)]) t"
  by (simp add: bit_or_iff bit_be_msb)

lemma listen_bits:
  "set is \<subseteq> {..<8} \<Longrightarrow> spi_listen clk frame (concat (map (\<lambda>i. [(0x1f000008, 0x60000 OR be_msb b i), (0x1f000008, 0x60100 OR be_msb b i)]) is) @ t)
   = spi_listen (clk \<or> is \<noteq> []) (frame @ map (\<lambda>i. bit b (7 - i)) is) t"
proof (induction "is" arbitrary: clk frame)
  case (Cons i "is")
  then show ?case by (simp add: listen_pair del: spi_listen.simps)
qed simp

lemma listen_banger: "spi_listen clk frame (spi_bit_banger b @ t) = spi_listen True (frame @ byte_bits b) t"
  unfolding spi_bit_banger_def byte_bits_def by (subst listen_bits) (auto simp del: upt_rec_numeral)

lemma listen_banger_end: "spi_listen clk frame (spi_bit_banger b) = [frame @ byte_bits b]"
  using listen_banger [of clk frame b "[]"] by simp

lemma listen_bangers:
  "spi_listen clk frame (concat (map spi_bit_banger bs) @ t) =
     spi_listen (clk \<or> bs \<noteq> []) (frame @ concat (map byte_bits bs)) t"
  by (induction bs arbitrary: clk frame) (auto simp: listen_banger)

lemma listen_go: "spi_listen clk frame (spi_go @ t) = frame # spi_listen False [] t"
  by (simp add: spi_go_def)

lemma listen_cs: "spi_listen clk frame ((0x1f000008, 0x70000) # t) = frame # spi_listen False [] t"
  by simp

lemma listen_write_enable:
  "spi_listen clk frame (spi_write_enable @ t) = frame # byte_bits 0x06 # spi_listen False [] t"
  by (simp add: spi_write_enable_def listen_banger listen_go del: upt_rec_numeral)

lemma listen_poll:
  "spi_listen clk frame (spi_poll n) = frame # replicate (Suc n) (byte_bits 0x05 @ byte_bits 0)"
proof (induction n arbitrary: clk frame)
  case 0
  show ?case by (simp add: spi_poll_def listen_banger listen_banger_end)
next
  case (Suc n)
  have "spi_poll (Suc n) = (0x1f000008, 0x70000) # spi_bit_banger 0x05 @ spi_bit_banger 0 @ spi_poll n"
    by (simp add: spi_poll_def)
  then show ?case by (simp add: listen_banger Suc.IH)
qed

lemma byte_bits_not_Nil [simp]: "byte_bits b \<noteq> []"
  by (simp add: byte_bits_def)

lemma bit_255: "bit (255 :: int) n \<longleftrightarrow> n < 8"
proof -
  have "(255 :: int) = mask 8" by (simp add: mask_eq_exp_minus_1)
  then show ?thesis by (simp only: bit_mask_iff) auto
qed

lemma listen_send_addr:
  "spi_listen clk frame (spi_send_addr a @ t) =
     spi_listen True (frame @ byte_bits (ucast (drop_bit 16 a)) @ byte_bits (ucast (drop_bit 8 a))
       @ byte_bits (ucast a)) t"
proof -
  have "ucast (drop_bit 16 (a AND 0xff0000)) = (ucast (drop_bit 16 a) :: byte)"
    "ucast (drop_bit 8 (a AND 0xff00)) = (ucast (drop_bit 8 a) :: byte)"
    "ucast (a AND 0xff) = (ucast a :: byte)"
    by (auto intro!: bit_eqI simp: bit_simps bit_255)
  then show ?thesis by (simp add: spi_send_addr_def listen_banger)
qed

lemma spi_write_page_frames:
  "spi_frames (spi_write_page addr data busy) =
     [byte_bits 0x06,
      concat (map byte_bits ([0x02, ucast (drop_bit 16 addr), ucast (drop_bit 8 addr), ucast addr] @ data))]
     @ replicate (Suc busy) (byte_bits 0x05 @ byte_bits 0)"
  by (simp add: spi_frames_def spi_write_page_def listen_write_enable listen_banger
      listen_send_addr listen_bangers listen_go listen_poll)

lemma spi_sector_erase_frames:
  "spi_frames (spi_sector_erase addr busy) =
     [byte_bits 0x06,
      concat (map byte_bits [0xd8, ucast (drop_bit 16 addr), ucast (drop_bit 8 addr), ucast addr])]
     @ replicate (Suc busy) (byte_bits 0x05 @ byte_bits 0)"
  by (simp add: spi_frames_def spi_sector_erase_def listen_write_enable listen_banger
      listen_send_addr listen_go listen_poll)

section \<open>What the driver relies on, and what it then provides\<close>

text \<open>
  The chip: within one 256-byte page a program operation ands the data into the array; erasing an
  aligned sector of 64 KiB sets it to ones.
\<close>

locale spi_nor =
  fixes chip :: chip
  assumes prog_in_page: "off mod 256 + length d \<le> 256 \<Longrightarrow> off + length d \<le> length m \<Longrightarrow>
      prog chip m off d = overlay m off (map2 (AND) (take (length d) (drop off m)) d)"
    and erase_sector: "off mod 65536 = 0 \<Longrightarrow> off + 65536 \<le> length m \<Longrightarrow>
      erase chip m off = overlay m off (replicate 65536 0xff)"

lemma drop_overlay: "i + length w \<le> length m \<Longrightarrow> drop (i + length w) (overlay m i w) = drop (i + length w) m"
  by (simp add: overlay_def)

lemma overlay_window: "i + length w \<le> length m \<Longrightarrow> take (length w) (drop i (overlay m i w)) = w"
  by (simp add: overlay_def)

lemma spi_addr_eq: "spi_addr a = unat a mod 2 ^ 24"
proof -
  have "a AND 0xffffff = take_bit 24 a"
    by (simp add: take_bit_eq_mask mask_eq_exp_minus_1)
  then show ?thesis
    by (simp add: spi_addr_def take_bit_eq_mod unat_mod)
qed

lemma spi_addr_offset:
  "unat addr + off < 2 ^ 24 \<Longrightarrow> spi_addr (addr + of_nat off) = unat addr + off"
  by (simp add: spi_addr_eq unat_word_ariths unat_of_nat)

lemma and_255_mod: "unat (a AND 255 :: u32) = unat a mod 256"
proof -
  have "a AND 255 = take_bit 8 a"
    by (simp add: take_bit_eq_mask mask_eq_exp_minus_1)
  then show ?thesis by (simp add: take_bit_eq_mod unat_mod)
qed

lemma map2_take_split:
  "n \<le> length xs \<Longrightarrow> n \<le> length ys \<Longrightarrow> n \<le> k \<Longrightarrow>
     map2 f (take n xs) (take n ys) @ map2 f (take (k - n) (drop n xs)) (take (k - n) (drop n ys)) =
     map2 f (take k xs) (take k ys)"
  using take_add [of n "k - n" xs] take_add [of n "k - n" ys] by (simp add: zip_append)

definition page_room :: "u32 \<Rightarrow> nat" where
  "page_room addr = 256 - unat addr mod 256"

definition pieces_fit :: "u32 \<Rightarrow> nat \<Rightarrow> bool" where
  "pieces_fit addr len \<longleftrightarrow> page_room addr dvd 256 \<or> len \<le> page_room addr + 256"

lemma page_room_bounds: "0 < page_room a" "page_room a \<le> 256" "unat a mod 256 + page_room a = 256"
  by (simp_all add: page_room_def less_imp_le)

lemma write_plan_unfold:
  "write_plan addr len tot =
    (if tot < len then (addr + of_nat tot, tot, min (page_room addr) (len - tot)) #
       write_plan addr len (tot + min (page_room addr) (len - tot)) else [])"
proof -
  have "(if len - tot > page_room addr then page_room addr else len - tot) = min (page_room addr) (len - tot)"
    by (simp add: min_def)
  then show ?thesis by (subst write_plan.simps) (simp only: Let_def and_255_mod flip: page_room_def)
qed

text \<open>The piece number \<open>k\<close> starts \<open>k\<close> times the room of the first page behind the start.\<close>

lemma write_plan_pieces:
  "p \<in> set (write_plan addr len tot) \<Longrightarrow> tot = j * page_room addr \<or> len \<le> tot \<Longrightarrow>
    \<exists>k. p = (addr + of_nat (k * page_room addr), k * page_room addr, min (page_room addr) (len - k * page_room addr)) \<and>
      k * page_room addr < len"
proof (induction addr len tot arbitrary: j rule: write_plan.induct)
  case (1 addr len tot)
  let ?n = "min (page_room addr) (len - tot)"
  show ?case
  proof (cases "tot < len")
    case True
    have "p = (addr + of_nat tot, tot, ?n) \<or> p \<in> set (write_plan addr len (tot + ?n))"
      using "1.prems"(1) True by (subst (asm) write_plan_unfold) simp
    moreover have "tot + ?n = Suc j * page_room addr \<or> len \<le> tot + ?n" using "1.prems"(2) True by (auto simp: min_def)
    moreover have "?n = (if 256 - unat (addr AND 255) < len - tot then 256 - unat (addr AND 255) else len - tot)"
      by (simp add: and_255_mod page_room_def min_def)
    ultimately show ?thesis using "1.IH" [OF True refl, of _ "Suc j"] "1.prems"(2) True by auto
  next
    case False
    then show ?thesis using "1.prems"(1) by (subst (asm) write_plan_unfold) simp
  qed
qed

lemma piece_mod: "0 < k \<Longrightarrow> (unat a + k * page_room a) mod 256 = ((k - 1) * page_room a) mod 256"
proof -
  assume "0 < k"
  then obtain j where k: "k = Suc j" by (cases k) auto
  have "unat a mod 256 + page_room a = 256" by (rule page_room_bounds)
  then have "(unat a mod 256 + page_room a + j * page_room a) mod 256 = (j * page_room a) mod 256" by simp
  then show ?thesis using k by (simp add: mod_simps add.assoc)
qed

lemma piece_fits:
  assumes "pieces_fit a len" "k * page_room a < len"
  shows "(unat a + k * page_room a) mod 256 + min (page_room a) (len - k * page_room a) \<le> 256"
proof (cases "k = 0")
  case True
  then show ?thesis using page_room_bounds [of a] by simp
next
  case False
  let ?r = "page_room a"
  have m: "(unat a + k * ?r) mod 256 = ((k - 1) * ?r) mod 256" using False by (simp add: piece_mod)
  show ?thesis
  proof (cases "?r dvd 256")
    case True
    then obtain d where d: "256 = ?r * d" by (elim dvdE)
    define y where "y = (k - 1) mod d"
    have e: "((k - 1) * ?r) mod 256 = ?r * y"
      unfolding y_def mult.commute [of "k - 1"] by (subst d) (rule mult_mod_right [symmetric])
    have "0 < d" using d by (cases d) auto
    then have "Suc y \<le> d" by (simp add: y_def Suc_leI)
    then have "?r * Suc y \<le> ?r * d" by (rule mult_le_mono2)
    then have "?r * y + ?r \<le> 256" unfolding d [symmetric] by simp
    then show ?thesis unfolding m e by linarith
  next
    case False
    then have l: "len \<le> ?r + 256" using assms(1) by (simp add: pieces_fit_def)
    obtain j where j: "k = Suc j" using \<open>k \<noteq> 0\<close> by (cases k) auto
    define x where "x = j * ?r"
    have "?r + x < len" using assms(2) j by (simp add: x_def)
    then have "x < 256" "x + min ?r (len - (?r + x)) \<le> 256" using l by linarith+
    moreover have "(unat a + k * ?r) mod 256 = x mod 256" using m j by (simp add: x_def)
    moreover have "k * ?r = ?r + x" using j by (simp add: x_def)
    ultimately show ?thesis by simp
  qed
qed

lemma pieces_fit_aligned: "unat a mod 256 = 0 \<Longrightarrow> pieces_fit a len"
  by (simp add: pieces_fit_def page_room_def)

context spi_nor
begin

text \<open>
  Writing a buffer whose pieces each stay inside a page ands the whole buffer into the array: the pieces are
  contiguous and complete.
\<close>

lemma write_plan_fold:
  "\<forall>(dst, off, n)\<in>set (write_plan addr len tot). (unat addr + off) mod 256 + n \<le> 256 \<Longrightarrow> tot \<le> len \<Longrightarrow> len \<le> length src \<Longrightarrow>
     unat addr + len \<le> length mem \<Longrightarrow> length mem \<le> 2 ^ 24 \<Longrightarrow>
   fold (\<lambda>(dst, off, n) mem. prog chip mem (spi_addr dst) (take n (drop off src)))
     (write_plan addr len tot) mem =
   overlay mem (unat addr + tot)
     (map2 (AND) (take (len - tot) (drop (unat addr + tot) mem)) (take (len - tot) (drop tot src)))"
proof (induction addr len tot arbitrary: mem rule: write_plan.induct)
  case (1 addr len tot)
  show ?case
  proof (cases "tot < len")
    case False
    with 1 show ?thesis by (simp add: write_plan.simps)
  next
    case True
    define n where "n = min (page_room addr) (len - tot)"
    define d where "d = take n (drop tot src)"
    define a where "a = unat addr + tot"
    define w where "w = map2 (AND) (take n (drop a mem)) d"
    define w' where "w' = map2 (AND) (take (len - tot - n) (drop n (drop a mem)))
      (take (len - tot - n) (drop n (drop tot src)))"
    have n: "0 < n" "n \<le> len - tot" "length d = n"
      using True "1.prems" page_room_bounds(1) [of addr] by (auto simp: n_def d_def)
    have plan: "write_plan addr len tot = (addr + of_nat tot, tot, n) # write_plan addr len (tot + n)"
      using True by (subst write_plan_unfold) (simp add: n_def)
    have a: "spi_addr (addr + of_nat tot) = a" "a mod 256 + n \<le> 256" "a + (len - tot) \<le> length mem"
      using True "1.prems" plan by (auto simp: a_def spi_addr_offset)
    have len: "length w = n" "a + n \<le> length mem" "length w' \<le> len - tot - n"
      using n a by (auto simp: w_def w'_def)
    have pr: "prog chip mem a d = overlay mem a w"
      using n a len by (simp add: prog_in_page w_def)
    have dr: "drop (a + n) (overlay mem a w) = drop (a + n) mem"
      using len drop_overlay [of a w mem] by simp
    have step: "(if len - tot > 256 - unat (addr AND 255) then 256 - unat (addr AND 255) else len - tot) = n"
      by (simp add: and_255_mod n_def page_room_def min_def)
    have "fold (\<lambda>(dst, off, n) mem. prog chip mem (spi_addr dst) (take n (drop off src)))
        (write_plan addr len tot) mem =
      fold (\<lambda>(dst, off, n) mem. prog chip mem (spi_addr dst) (take n (drop off src)))
        (write_plan addr len (tot + n)) (overlay mem a w)"
      using pr by (simp add: plan a d_def)
    also have "\<dots> = overlay (overlay mem a w) (a + n)
        (map2 (AND) (take (len - (tot + n)) (drop (a + n) (overlay mem a w)))
          (take (len - (tot + n)) (drop (tot + n) src)))"
      using "1.IH" [OF True refl refl, of "overlay mem a w"] step n "1.prems" len plan by (simp add: a_def add.assoc)
    also have "\<dots> = overlay (overlay mem a w) (a + n) w'"
      by (simp add: dr w'_def add.commute)
    also have "\<dots> = overlay mem a (w @ w')"
      using len a n by (simp add: overlay_append)
    also have "w @ w' = map2 (AND) (take (len - tot) (drop a mem)) (take (len - tot) (drop tot src))"
      unfolding w_def w'_def d_def using n a "1.prems" by (intro map2_take_split) auto
    finally show ?thesis by (simp add: a_def)
  qed
qed

lemma write_buff_fits:
  assumes "pieces_fit (addr - CFG_FLASH_BASE) len" "len \<le> length src"
    "unat (addr - CFG_FLASH_BASE) + len \<le> length mem" "length mem \<le> 2 ^ 24"
  shows "write_buff chip mem src addr len = Some (0, overlay mem (unat (addr - CFG_FLASH_BASE))
    (map2 (AND) (take len (drop (unat (addr - CFG_FLASH_BASE)) mem)) (take len src)))"
proof -
  have "\<forall>(dst, off, n)\<in>set (write_plan (addr - CFG_FLASH_BASE) len 0). (unat (addr - CFG_FLASH_BASE) + off) mod 256 + n \<le> 256"
    using write_plan_pieces [where tot = 0 and j = 0] piece_fits [OF assms(1)] by fastforce
  from write_plan_fold [OF this] show ?thesis using assms by (simp add: write_buff_def)
qed

lemma write_buff_aligned:
  assumes "unat (addr - CFG_FLASH_BASE) mod 256 = 0" "len \<le> length src"
    "unat (addr - CFG_FLASH_BASE) + len \<le> length mem" "length mem \<le> 2 ^ 24"
  shows "write_buff chip mem src addr len = Some (0, overlay mem (unat (addr - CFG_FLASH_BASE))
    (map2 (AND) (take len (drop (unat (addr - CFG_FLASH_BASE)) mem)) (take len src)))"
  using assms by (intro write_buff_fits pieces_fit_aligned)

lemma erase_sectors_eq:
  "(i + n) * 65536 \<le> length mem \<Longrightarrow> length mem \<le> 2 ^ 24 \<Longrightarrow>
     erase_sectors chip mem 65536 (int i) n = overlay mem (i * 65536) (replicate (n * 65536) 0xff)"
proof (induction n arbitrary: mem i)
  case (Suc n)
  have "word_of_int (int i * 65536) = (of_nat (i * 65536) :: u32)" by simp
  then have a: "spi_addr (word_of_int (int i * 65536)) = i * 65536"
    using Suc.prems by (simp only: spi_addr_eq unat_of_nat) simp
  have e: "erase chip mem (i * 65536) = overlay mem (i * 65536) (replicate 65536 0xff)"
    using Suc.prems by (intro erase_sector) auto
  have "erase_sectors chip mem 65536 (int i) (Suc n) =
      erase_sectors chip (overlay mem (i * 65536) (replicate 65536 0xff)) 65536 (int (Suc i)) n"
    by (simp only: erase_sectors.simps a e) (simp add: add.commute)
  also have "\<dots> = overlay (overlay mem (i * 65536) (replicate 65536 0xff)) (Suc i * 65536)
      (replicate (n * 65536) 0xff)"
    using Suc.prems by (intro Suc.IH) auto
  also have "\<dots> = overlay mem (i * 65536) (replicate 65536 0xff @ replicate (n * 65536) 0xff)"
    using Suc.prems by (subst overlay_append) (auto simp: add.commute)
  finally show ?case by (simp add: replicate_add)
qed simp

end

text \<open>
  A chip that behaves as the data sheet of the M25P family says: a program operation that runs
  past the end of a page continues at the start of that page.
\<close>

fun nor_prog :: "bytes \<Rightarrow> nat \<Rightarrow> bytes \<Rightarrow> bytes" where
  "nor_prog m off [] = m"
| "nor_prog m off (b # d) =
     nor_prog (m[off := (m ! off) AND b]) (if Suc off mod 256 = 0 then Suc off - 256 else Suc off) d"

definition nor_erase :: "bytes \<Rightarrow> nat \<Rightarrow> bytes" where
  "nor_erase m off = overlay m (off - off mod 65536) (replicate 65536 0xff)"

definition nor_chip :: chip where
  "nor_chip = \<lparr>prog = nor_prog, erase = nor_erase\<rparr>"

lemma nor_prog_in_page:
  "off mod 256 + length d \<le> 256 \<Longrightarrow> off + length d \<le> length m \<Longrightarrow>
     nor_prog m off d = overlay m off (map2 (AND) (take (length d) (drop off m)) d)"
proof (induction m off d rule: nor_prog.induct)
  case (2 m off b d)
  show ?case
  proof (cases "d = []")
    case True
    with 2 show ?thesis by (simp add: take_Suc_conv_app_nth overlay_Cons)
  next
    case False
    then have nowrap: "Suc off mod 256 = Suc (off mod 256)" "Suc off mod 256 \<noteq> 0"
      using "2.prems" by (auto simp: mod_Suc neq_Nil_conv)
    let ?m = "m[off := (m ! off) AND b]"
    have "nor_prog m off (b # d) = overlay ?m (Suc off) (map2 (AND) (take (length d) (drop (Suc off) ?m)) d)"
      using 2 nowrap by simp
    also have "drop (Suc off) ?m = drop (Suc off) m" by simp
    also have "overlay ?m (Suc off) (map2 (AND) (take (length d) (drop (Suc off) m)) d) =
        overlay m off ((m ! off AND b) # map2 (AND) (take (length d) (drop (Suc off) m)) d)"
      using "2.prems" by (simp add: overlay_Cons)
    also have "(m ! off AND b) # map2 (AND) (take (length d) (drop (Suc off) m)) d =
        map2 (AND) (take (length (b # d)) (drop off m)) (b # d)"
      using "2.prems" by (simp add: Cons_nth_drop_Suc [symmetric])
    finally show ?thesis .
  qed
qed simp

interpretation nor: spi_nor nor_chip
  by unfold_locales (simp_all add: nor_chip_def nor_prog_in_page nor_erase_def)

section \<open>Uniform banks\<close>

text \<open>
  A bank of \<open>n\<close> sectors of \<open>ss\<close> bytes each from address \<open>base\<close> on, not reaching the end of the
  address space.
\<close>

definition uniform :: "nat \<Rightarrow> nat \<Rightarrow> nat \<Rightarrow> flash_info_t \<Rightarrow> bool" where
  "uniform base ss n info \<longleftrightarrow>
     flash_id info \<noteq> FLASH_UNKNOWN \<and> 0 < n \<and> 0 < ss \<and> base + n * ss < 2 ^ 32 \<and>
     sector_count info = n \<and> unat (bank_size info) = n * ss \<and>
     n \<le> length (start info) \<and> n \<le> length (protect info) \<and>
     (\<forall>i<n. unat (start info ! i) = base + i * ss)"

lemma uniform_start: "uniform base ss n info \<Longrightarrow> i < n \<Longrightarrow> unat (start info ! i) = base + i * ss"
  by (simp add: uniform_def)

lemma uniform_limit:
  assumes "uniform base ss n info" "i < n"
  shows "unat (sect_limit info i) = base + Suc i * ss"
proof (cases "i = n - 1")
  case True
  have "unat (start info ! 0) = base" "unat (bank_size info) = n * ss" "base + n * ss < 2 ^ 32"
    using assms by (auto simp: uniform_def)
  then have "unat (start info ! 0 + bank_size info) = base + n * ss"
    by (simp add: unat_word_ariths)
  moreover have "Suc i = n" "sector_count info = n" using True assms by (auto simp: uniform_def)
  ultimately show ?thesis using True by (simp add: sect_limit_def)
next
  case False
  then show ?thesis using assms by (simp add: sect_limit_def uniform_def)
qed

lemma unat_minus_one: "0 < unat (w :: u32) \<Longrightarrow> unat (w - 1) = unat w - 1"
  by (metis One_nat_def Suc_leI unat_1 unat_sub word_le_nat_alt)

lemma sect_end_limit: "sect_end info i = sect_limit info i - 1"
  by (simp add: sect_end_def sect_limit_def bank_end_def)

lemma uniform_end:
  assumes "uniform base ss n info" "i < n"
  shows "unat (sect_end info i) = base + Suc i * ss - 1"
  using uniform_limit [OF assms] assms by (simp add: sect_end_limit unat_minus_one uniform_def)

lemma uniform_bank_end:
  assumes "uniform base ss n info"
  shows "unat (bank_end info) = base + n * ss - 1"
  using uniform_end [OF assms, of "n - 1"] assms by (auto simp: sect_end_def uniform_def)

lemma uniform_holds:
  assumes "uniform base ss n info"
  shows "bank_holds a info \<longleftrightarrow> base \<le> unat a \<and> unat a < base + n * ss"
proof -
  define len where "len = n * ss"
  have "unat (start info ! 0 + bank_size info - 1) = base + len - 1" "0 < len"
    using uniform_bank_end [OF assms] assms by (auto simp: len_def bank_end_def uniform_def)
  then have "bank_holds a info \<longleftrightarrow> base \<le> unat a \<and> unat a < base + len"
    using assms uniform_start [OF assms, of 0]
    by (auto simp: bank_holds_def uniform_def word_le_nat_alt)
  then show ?thesis by (simp add: len_def)
qed

definition touches :: "nat \<Rightarrow> nat \<Rightarrow> nat \<Rightarrow> nat \<Rightarrow> nat \<Rightarrow> bool" where
  "touches base ss lo hi i \<longleftrightarrow> base + i * ss \<le> hi \<and> lo < base + Suc i * ss"

lemma uniform_hits:
  assumes "uniform base ss n info"
  shows "hits_protected a e info \<longleftrightarrow>
    (\<exists>i<n. protect info ! i \<noteq> 0 \<and> touches base ss (unat a) (unat e) i)"
proof -
  have "sector_count info = n" using assms by (simp add: uniform_def)
  then show ?thesis
    by (auto simp: hits_protected_def touches_def list_ex_iff word_le_nat_alt word_less_nat_alt
        uniform_start [OF assms] uniform_limit [OF assms])
qed

text \<open>Setting the protection of the sectors that meet a range.\<close>

lemma map_upd_Suc:
  "k < m \<Longrightarrow> P k \<Longrightarrow> (map (\<lambda>i. if i < k \<and> P i then v else f i) [0..<m])[k := v] =
     map (\<lambda>i. if i < Suc k \<and> P i then v else f i) [0..<m]"
  "\<not> P k \<Longrightarrow> map (\<lambda>i. if i < k \<and> P i then v else f i) [0..<m] =
     map (\<lambda>i. if i < Suc k \<and> P i then v else f i) [0..<m]"
  by (auto intro!: nth_eqI simp: nth_list_update less_Suc_eq)

definition protect_value :: "u32 \<Rightarrow> byte" where
  "protect_value flag = (if flag AND 0x02 \<noteq> 0 then 0 else 1)"

lemma flash_protect_step:
  "flag AND 0x02 \<noteq> 0 \<or> flag AND 0x01 \<noteq> 0 \<Longrightarrow>
   (if flag AND 0x02 \<noteq> 0 then info\<lparr>protect := (protect info)[i := 0]\<rparr>
    else if flag AND 0x01 \<noteq> 0 then info\<lparr>protect := (protect info)[i := 1]\<rparr> else info) =
   info\<lparr>protect := (protect info)[i := protect_value flag]\<rparr>"
  by (simp add: protect_value_def)

lemma flash_protect_fold:
  assumes u: "uniform base ss n info" and k: "k \<le> n"
  shows "fold (\<lambda>i info.
             if from \<le> sect_end info i \<and> to \<ge> start info ! i
             then info\<lparr>protect := (protect info)[i := v]\<rparr> else info) [0..<k] info =
    info\<lparr>protect := map (\<lambda>i. if i < k \<and> touches base ss (unat from) (unat to) i
        then v else protect info ! i) [0..<length (protect info)]\<rparr>"
  using k
proof (induction k)
  case 0
  then show ?case by (simp add: map_nth)
next
  case (Suc k)
  have k: "k < n" "k < length (protect info)" using Suc.prems u by (auto simp: uniform_def)
  have t: "from \<le> sect_end info k \<and> to \<ge> start info ! k \<longleftrightarrow> touches base ss (unat from) (unat to) k"
    using uniform_end [OF u k(1)] uniform_start [OF u k(1)] u
    by (simp add: word_le_nat_alt touches_def uniform_def) linarith
  have se: "sect_end (info\<lparr>protect := p\<rparr>) k = sect_end info k" for p
    by (simp add: sect_end_def bank_end_def)
  show ?case
    using Suc k by (simp add: t se map_upd_Suc [where P = "touches base ss (unat from) (unat to)"] cong: if_cong)
qed

lemma flash_protect_eq:
  assumes u: "uniform base ss n info" and r: "from \<le> to"
    and flag: "flag AND 0x02 \<noteq> 0 \<or> flag AND 0x01 \<noteq> 0"
  shows "flash_protect flag from to info =
    info\<lparr>protect := map (\<lambda>i. if i < n \<and> touches base ss (unat from) (unat to) i
        then protect_value flag else protect info ! i) [0..<length (protect info)]\<rparr>"
proof (cases "to < start info ! 0 \<or> from > bank_end info")
  case True
  have "\<not> touches base ss (unat from) (unat to) i" if "i < n" for i
  proof -
    have "Suc i * ss \<le> n * ss" using that by (intro mult_le_mono1) simp
    then show ?thesis
      using True uniform_start [OF u, of 0] uniform_bank_end [OF u] u
      by (auto simp: touches_def uniform_def word_less_nat_alt)
  qed
  then have "map (\<lambda>i. if i < n \<and> touches base ss (unat from) (unat to) i
        then protect_value flag else protect info ! i) [0..<length (protect info)] = protect info"
    by (intro nth_eqI) auto
  moreover have "flash_protect flag from to info = info"
    using True by (simp add: flash_protect_def)
  ultimately show ?thesis by simp
next
  case False
  then have "flash_protect flag from to info = fold (\<lambda>i info.
             if from \<le> sect_end info i \<and> to \<ge> start info ! i
             then info\<lparr>protect := (protect info)[i := protect_value flag]\<rparr> else info) [0..<n] info"
    unfolding flash_protect_def flash_protect_step [OF flag] using u r
    by (auto simp: uniform_def)
  then show ?thesis using flash_protect_fold [OF u le_refl] by simp
qed


section \<open>Writing to a uniform bank\<close>

lemma addr2info_single:
  "addr2info [info] a = (if bank_holds a info then Some 0 else None)"
  by (simp add: addr2info_def)

lemma flash_write_single:
  assumes u: "uniform base ss n info" and cnt: "cnt \<noteq> 0" and fit: "unat addr + unat cnt \<le> 2 ^ 32"
  shows "flash_write chip [info] mem src addr cnt =
    (if unat addr < base \<or> base + n * ss < unat addr + unat cnt then Some (ERR_INVAL, mem)
     else if \<exists>i<n. protect info ! i \<noteq> 0 \<and> touches base ss (unat addr) (unat addr + unat cnt - 1) i
     then Some (ERR_PROTECTED, mem)
     else write_buff chip mem src addr (unat cnt))"
proof -
  have c: "0 < unat cnt" using cnt by (simp add: unat_gt_0)
  have e: "unat (addr + cnt - 1) = unat addr + unat cnt - 1"
  proof (cases "unat addr + unat cnt < 2 ^ 32")
    case True
    then have "unat (addr + cnt) = unat addr + unat cnt" by (simp add: unat_word_ariths)
    then show ?thesis using c by (simp add: unat_minus_one)
  next
    case False
    then have "unat (addr + cnt) = 0" using fit by (simp add: unat_word_ariths)
    then have "addr + cnt = 0" by (simp add: unat_eq_0)
    then have "addr + cnt - 1 = - 1" by simp
    then show ?thesis using False fit by (simp add: unsigned_minus_1_eq_mask mask_eq_exp_minus_1)
  qed
  have len: "start info ! 0 + bank_size info - addr \<ge> cnt"
    if "base \<le> unat addr" "unat addr + unat cnt \<le> base + n * ss"
  proof -
    have "unat (start info ! 0 + bank_size info) = base + n * ss"
      using uniform_limit [OF u, of "n - 1"] u by (auto simp: sect_limit_def uniform_def)
    then have "unat (start info ! 0 + bank_size info - addr) = base + n * ss - unat addr"
      using that by (subst unat_sub) (auto simp: word_le_nat_alt)
    then show ?thesis using that by (simp add: word_le_nat_alt)
  qed
  have range: "bank_holds addr info \<and> bank_holds (addr + cnt - 1) info \<longleftrightarrow>
      \<not> (unat addr < base \<or> base + n * ss < unat addr + unat cnt)"
    using c by (auto simp: uniform_holds [OF u] e)
  have loop: "flash_write_loop chip mem [info] src addr cnt = write_buff chip mem src addr (unat cnt)"
    if "\<not> (unat addr < base \<or> base + n * ss < unat addr + unat cnt)"
  proof -
    have "cnt \<le> start info ! 0 + bank_size info - addr"
      using len that by (simp add: not_less)
    then have "(if cnt < start info ! 0 + bank_size info - addr then cnt
        else start info ! 0 + bank_size info - addr) = cnt"
      by (auto simp: order_le_less)
    then show ?thesis using cnt c
      by (simp add: Let_def write_buff_def word_neq_0_conv)
  qed
  show ?thesis
  proof (cases "unat addr < base \<or> base + n * ss < unat addr + unat cnt")
    case True
    then show ?thesis
      using range cnt by (auto simp: flash_write_def Let_def addr2info_single)
  next
    case False
    then have "bank_holds addr info" "bank_holds (addr + cnt - 1) info" using range by auto
    then have "flash_write chip [info] mem src addr cnt =
        (if hits_protected addr (addr + cnt - 1) info then Some (ERR_PROTECTED, mem)
         else flash_write_loop chip mem [info] src addr cnt)"
      using cnt by (simp add: flash_write_def Let_def addr2info_single del: flash_write_loop.simps)
    then show ?thesis
      by (simp only: False if_False loop [OF False] uniform_hits [OF u] e)
  qed
qed

section \<open>Geometry of the board's flash\<close>

lemma flash_get_geom_uniform:
  "uniform 0x9f000000 65536 256 (snd (flash_get_geom fi))"
proof -
  have n: "unat (CFG_FLASH_SIZE div CFG_FLASH_SECTOR_SIZE) = 256"
    by (simp add: CFG_FLASH_SIZE_def CFG_FLASH_SECTOR_SIZE_def)
  have st: "unat (CFG_FLASH_BASE + of_nat i * CFG_FLASH_SECTOR_SIZE) = 0x9f000000 + i * 65536" if "i < 256" for i
  proof -
    have "CFG_FLASH_BASE + of_nat i * CFG_FLASH_SECTOR_SIZE = of_nat (0x9f000000 + i * 65536)"
      by (simp add: CFG_FLASH_BASE_def CFG_FLASH_SECTOR_SIZE_def)
    then show ?thesis using that by (simp only: unat_of_nat) simp
  qed
  have "unat CFG_FLASH_SIZE = 256 * 65536" by (simp add: CFG_FLASH_SIZE_def)
  then show ?thesis
    by (simp add: uniform_def flash_get_geom_def Let_def n st nth_append)
qed

section \<open>Properties\<close>

text \<open>A program operation reaches one page only, and ones change nothing.\<close>

lemma nor_prog_length [simp]: "length (nor_prog m off d) = length m"
  by (induction m off d rule: nor_prog.induct) simp_all

lemma nor_prog_other_page: "off div 256 \<noteq> q div 256 \<Longrightarrow> nor_prog m off d ! q = m ! q"
proof (induction m off d rule: nor_prog.induct)
  case (2 m off b d)
  have "(off - 255) div 256 = off div 256" if "off mod 256 = 255"
  proof -
    have "off - 255 = 256 * (off div 256)" using that div_mult_mod_eq [of off 256] by linarith
    then show ?thesis by simp
  qed
  then have "(if Suc off mod 256 = 0 then Suc off - 256 else Suc off) div 256 = off div 256"
    by (simp add: div_Suc mod_Suc split: if_splits)
  then show ?case using 2 by (auto simp: nth_list_update)
qed simp

lemma nor_prog_ones: "set d \<subseteq> {0xff} \<Longrightarrow> nor_prog m off d = m"
proof (induction m off d rule: nor_prog.induct)
  case (2 m off b d)
  have "m ! off AND 0xff = m ! off" by (rule bit_eqI) (auto simp: bit_simps bit_255)
  then show ?case using 2 by simp
qed simp

text \<open>
  When the pieces do not all fit, the first one that crosses a page runs past the end of the second page. The
  byte behind that page, in a buffer that is all ones except for this byte, does not get to its place.
\<close>

definition stray :: "u32 \<Rightarrow> nat" where
  "stray a = page_room a + 256"

definition stray_src :: "u32 \<Rightarrow> nat \<Rightarrow> bytes" where
  "stray_src a len = (replicate len 0xff)[stray a := 0]"

lemma stray_piece:
  assumes "\<not> page_room a dvd 256" "k * page_room a \<le> stray a" "stray a < k * page_room a + page_room a"
  shows "(unat a + k * page_room a) div 256 \<noteq> (unat a + stray a) div 256"
proof -
  let ?r = "page_room a"
  obtain j where j: "k = Suc j" using assms(3) by (cases k) (auto simp: stray_def)
  have "256 dvd unat a + ?r" using piece_mod [of 1 a] by (simp add: mod_eq_0_iff_dvd)
  then obtain p where p: "unat a + ?r = 256 * p" by (elim dvdE)
  have "j * ?r \<noteq> 256" using assms(1) by (metis dvd_triv_right)
  then have "j * ?r < 256" using assms(2) j by (simp add: stray_def)
  then have "(unat a + k * ?r) div 256 < Suc p" using p j by (simp add: less_mult_imp_div_less)
  moreover have "(unat a + stray a) div 256 = Suc p" using p by (simp add: stray_def flip: add.assoc)
  ultimately show ?thesis by simp
qed

lemma fold_keeps_nth: "(\<And>x m. x \<in> set xs \<Longrightarrow> f x m ! q = m ! q) \<Longrightarrow> fold f xs m ! q = m ! q"
  by (induction xs arbitrary: m) auto

lemma write_buff_strays:
  assumes "\<not> pieces_fit (addr - CFG_FLASH_BASE) len" "unat (addr - CFG_FLASH_BASE) + len \<le> 2 ^ 24"
  shows "\<exists>mem'. write_buff nor_chip mem (stray_src (addr - CFG_FLASH_BASE) len) addr len = Some (0, mem') \<and>
    (let i = unat (addr - CFG_FLASH_BASE) + stray (addr - CFG_FLASH_BASE) in mem' ! i = mem ! i)"
proof -
  define a where "a = addr - CFG_FLASH_BASE"
  let ?f = "\<lambda>(dst, off, n) mem. prog nor_chip mem (spi_addr dst) (take n (drop off (stray_src a len)))"
  let ?r = "page_room a"
  have nd: "\<not> ?r dvd 256" using assms(1) by (simp add: a_def pieces_fit_def)
  have "fold ?f (write_plan a len 0) mem ! (unat a + stray a) = mem ! (unat a + stray a)"
  proof (rule fold_keeps_nth)
    fix p m assume "p \<in> set (write_plan a len 0)"
    then obtain k where k: "p = (a + of_nat (k * ?r), k * ?r, min ?r (len - k * ?r))" "k * ?r < len"
      using write_plan_pieces [of p a len 0 0] by auto
    let ?d = "take (min ?r (len - k * ?r)) (drop (k * ?r) (stray_src a len))"
    have "spi_addr (a + of_nat (k * ?r)) = unat a + k * ?r"
      using k(2) assms(2) by (intro spi_addr_offset) (simp add: a_def)
    then have f: "?f p m = nor_prog m (unat a + k * ?r) ?d" by (simp add: k(1) nor_chip_def)
    show "?f p m ! (unat a + stray a) = m ! (unat a + stray a)"
    proof (cases "k * ?r \<le> stray a \<and> stray a < k * ?r + ?r")
      case True
      then show ?thesis using stray_piece [OF nd] f by (simp add: nor_prog_other_page)
    next
      case False
      then have "set ?d \<subseteq> {0xff}" by (auto simp: in_set_conv_nth stray_src_def nth_list_update)
      then show ?thesis using f by (simp add: nor_prog_ones)
    qed
  qed
  then show ?thesis by (simp add: write_buff_def a_def stray_src_def)
qed

lemma flash_offset:
  assumes "\<not> unat addr < 0x9f000000"
  shows "unat (addr - CFG_FLASH_BASE) = unat addr - 0x9f000000" "page_room (addr - CFG_FLASH_BASE) = page_room addr"
proof -
  show off: "unat (addr - CFG_FLASH_BASE) = unat addr - 0x9f000000"
    using assms by (subst unat_sub) (auto simp: word_le_nat_alt CFG_FLASH_BASE_def)
  have "unat addr = unat (addr - CFG_FLASH_BASE) + 256 * 0x9f0000" using assms off by simp
  then have "unat addr mod 256 = unat (addr - CFG_FLASH_BASE) mod 256" by (simp only: mod_mult_self2)
  then show "page_room (addr - CFG_FLASH_BASE) = page_room addr" by (simp add: page_room_def)
qed

lemma flash_write_fit_cases:
  assumes chip: "spi_nor chip" and u: "uniform 0x9f000000 ss n info"
    and cnt: "cnt \<noteq> 0" "unat addr + unat cnt \<le> 2 ^ 32" "unat cnt \<le> length src"
    and fit: "pieces_fit addr (unat cnt)" and m: "length mem = n * ss" "length mem \<le> 2 ^ 24"
  shows "flash_write chip [info] mem src addr cnt =
    (if unat addr < 0x9f000000 \<or> 0x9f000000 + n * ss < unat addr + unat cnt then Some (ERR_INVAL, mem)
     else if \<exists>i<n. protect info ! i \<noteq> 0 \<and> touches 0x9f000000 ss (unat addr) (unat addr + unat cnt - 1) i
     then Some (ERR_PROTECTED, mem)
     else Some (ERR_OK, overlay mem (unat addr - 0x9f000000)
       (map2 (AND) (take (unat cnt) (drop (unat addr - 0x9f000000) mem)) (take (unat cnt) src))))"
proof (cases "unat addr < 0x9f000000 \<or> 0x9f000000 + n * ss < unat addr + unat cnt")
  case False
  then have off: "unat (addr - CFG_FLASH_BASE) = unat addr - 0x9f000000" "page_room (addr - CFG_FLASH_BASE) = page_room addr"
    using flash_offset [of addr] by auto
  have "unat addr - 0x9f000000 + unat cnt \<le> length mem" using False m by linarith
  then have "write_buff chip mem src addr (unat cnt) =
      Some (0, overlay mem (unat addr - 0x9f000000)
        (map2 (AND) (take (unat cnt) (drop (unat addr - 0x9f000000) mem)) (take (unat cnt) src)))"
    using spi_nor.write_buff_fits [OF chip, of addr "unat cnt" src mem] off fit cnt(3) m(2) by (simp add: pieces_fit_def)
  then show ?thesis using flash_write_single [OF u cnt(1,2), of chip mem src] False by simp
qed (use flash_write_single [OF u cnt(1,2), of chip mem src] in simp)

lemma flash_write_cases:
  assumes "spi_nor chip" "uniform 0x9f000000 ss n info" "cnt \<noteq> 0" "unat addr + unat cnt \<le> 2 ^ 32" "unat cnt \<le> length src"
    "unat addr mod 256 = 0" "length mem = n * ss" "length mem \<le> 2 ^ 24"
  shows "flash_write chip [info] mem src addr cnt =
    (if unat addr < 0x9f000000 \<or> 0x9f000000 + n * ss < unat addr + unat cnt then Some (ERR_INVAL, mem)
     else if \<exists>i<n. protect info ! i \<noteq> 0 \<and> touches 0x9f000000 ss (unat addr) (unat addr + unat cnt - 1) i
     then Some (ERR_PROTECTED, mem)
     else Some (ERR_OK, overlay mem (unat addr - 0x9f000000)
       (map2 (AND) (take (unat cnt) (drop (unat addr - 0x9f000000) mem)) (take (unat cnt) src))))"
  by (rule flash_write_fit_cases [OF assms(1-5) pieces_fit_aligned [OF assms(6)] assms(7,8)])

text \<open>
  C3: \<open>flash_write\<close> of a non-empty range that does not wrap, for every address, on one uniform bank of at most
  16 MiB. A range outside the bank is refused, a range that meets a protected sector is refused, in both cases
  without a change. Otherwise the pieces \<open>write_buff\<close> cuts the buffer into have the size of the room in the first
  page. If this divides the page, as for a page-aligned address, or the range ends in the first two pages, then
  exactly the given bytes are programmed, that is anded into the array, and the result is success, on every
  chip that programs as documented within a page. In all other cases the write is wrong: on an erased chip that wraps at the end of
  a page it returns success, and for some buffer a zero byte is not at its place.
\<close>

theorem flash_write_protects_and_programs:
  assumes u: "uniform 0x9f000000 ss n info"
    and cnt: "cnt \<noteq> 0" "unat addr + unat cnt \<le> 2 ^ 32" and m: "n * ss \<le> 2 ^ 24"
  shows "if unat addr < 0x9f000000 \<or> 0x9f000000 + n * ss < unat addr + unat cnt
    then flash_write chip [info] mem src addr cnt = Some (ERR_INVAL, mem)
    else if \<exists>i<n. protect info ! i \<noteq> 0 \<and> touches 0x9f000000 ss (unat addr) (unat addr + unat cnt - 1) i
    then flash_write chip [info] mem src addr cnt = Some (ERR_PROTECTED, mem)
    else if page_room addr dvd 256 \<or> unat cnt \<le> page_room addr + 256
    then spi_nor chip \<and> length mem = n * ss \<and> unat cnt \<le> length src \<longrightarrow>
      flash_write chip [info] mem src addr cnt = Some (ERR_OK, overlay mem (unat addr - 0x9f000000)
        (map2 (AND) (take (unat cnt) (drop (unat addr - 0x9f000000) mem)) (take (unat cnt) src)))
    else \<exists>buf mem' i. length buf = unat cnt \<and> i < unat cnt \<and> buf ! i = 0 \<and>
      flash_write nor_chip [info] (replicate (n * ss) 0xff) buf addr cnt = Some (ERR_OK, mem') \<and>
      mem' ! (unat addr - 0x9f000000 + i) = 0xff"
    (is "if ?out then _ else if ?prot then _ else if ?fit then _ else ?stray")
proof -
  note w = flash_write_single [OF u cnt, of chip mem src]
  consider ?out | "\<not> ?out" ?prot | "\<not> ?out" "\<not> ?prot" ?fit | "\<not> ?out" "\<not> ?prot" "\<not> ?fit" by blast
  then show ?thesis
  proof cases
    case 1
    then show ?thesis using w by (simp only: if_True)
  next
    case 2
    then show ?thesis using w by (simp only: if_True if_False)
  next
    case 3
    then have "pieces_fit addr (unat cnt)" by (simp add: pieces_fit_def)
    then have "spi_nor chip \<and> length mem = n * ss \<and> unat cnt \<le> length src \<longrightarrow>
      flash_write chip [info] mem src addr cnt = Some (ERR_OK, overlay mem (unat addr - 0x9f000000)
        (map2 (AND) (take (unat cnt) (drop (unat addr - 0x9f000000) mem)) (take (unat cnt) src)))"
      (is "_ \<longrightarrow> ?done")
    proof (intro impI, elim conjE)
      assume c: "spi_nor chip" "length mem = n * ss" "unat cnt \<le> length src"
      show ?done using flash_write_fit_cases [OF c(1) u cnt c(3) \<open>pieces_fit addr (unat cnt)\<close> c(2)] c(2) m 3(1,2)
        by (simp only: if_False)
    qed
    then show ?thesis using 3 by (simp only: if_True if_False)
  next
    case 4
    define a where "a = addr - CFG_FLASH_BASE"
    have off: "unat a = unat addr - 0x9f000000" and r: "page_room a = page_room addr"
      unfolding a_def using 4(1) flash_offset [of addr] by auto
    have e: "unat a + unat cnt \<le> n * ss" using 4(1) off by linarith
    have s: "stray a < unat cnt" using 4(3) r by (simp add: stray_def)
    obtain mem' where b: "write_buff nor_chip (replicate (n * ss) 0xff) (stray_src a (unat cnt)) addr (unat cnt) = Some (0, mem')"
      "mem' ! (unat a + stray a) = replicate (n * ss) 0xff ! (unat a + stray a)"
      using write_buff_strays [of addr "unat cnt" "replicate (n * ss) 0xff"] 4(3) r e m by (auto simp: pieces_fit_def Let_def a_def)
    have "flash_write nor_chip [info] (replicate (n * ss) 0xff) (stray_src a (unat cnt)) addr cnt = Some (ERR_OK, mem')"
      using flash_write_single [OF u cnt, of nor_chip _ "stray_src a (unat cnt)"] 4(1,2) b(1) by (simp only: if_False)
    moreover have "mem' ! (unat addr - 0x9f000000 + stray a) = 0xff" using b(2) e s off by simp
    ultimately have ?stray
      using s by (intro exI [of _ "stray_src a (unat cnt)"] exI [of _ mem'] exI [of _ "stray a"]) (simp add: stray_src_def)
    then show ?thesis using 4 by (simp only: if_False)
  qed
qed

text \<open>A bank of four sectors of 256 bytes, the second one protected.\<close>

definition tiny_bank :: flash_info_t where
  "tiny_bank = \<lparr>bank_size = 1024, sector_count = 4, flash_id = 0x00F2,
     start = [0x9f000000, 0x9f000100, 0x9f000200, 0x9f000300], protect = [0, 1, 0, 0]\<rparr>"

lemma tiny_bank_uniform: "uniform 0x9f000000 256 4 tiny_bank"
proof -
  have "i = 0 \<or> i = 1 \<or> i = 2 \<or> i = 3" if "i < 4" for i :: nat using that by linarith
  then have "unat (start tiny_bank ! i) = 0x9f000000 + i * 256" if "i < 4" for i
    using that by (force simp: tiny_bank_def)
  then show ?thesis by (simp add: uniform_def) (simp add: tiny_bank_def)
qed

theorem flash_write_protects_and_programs_witness:
  "flash_write nor_chip [tiny_bank] (replicate 1024 0xff) [1, 2, 3] 0x9f0002fe 3 =
     Some (ERR_OK, overlay (replicate 1024 0xff) 0x2fe [1, 2, 3]) \<and>
   flash_write nor_chip [tiny_bank] (replicate 1024 0xff) (replicate 300 0) 0x9f000000 300 =
     Some (ERR_PROTECTED, replicate 1024 0xff) \<and>
   (\<exists>buf mem' i. length buf = 512 \<and> i < 512 \<and> buf ! i = 0 \<and>
      flash_write nor_chip [tiny_bank\<lparr>protect := [0, 0, 0, 0]\<rparr>] (replicate 1024 0xff) buf 0x9f000001 512 = Some (ERR_OK, mem') \<and>
      mem' ! (1 + i) = 0xff)"
proof (intro conjI)
  have "\<not> (\<exists>i<4. protect tiny_bank ! i \<noteq> 0 \<and> touches 0x9f000000 256 0x9f0002fe 0x9f000300 i)"
  proof (intro notI, elim exE conjE)
    fix i
    assume "protect tiny_bank ! i \<noteq> 0" "i < 4" "touches 0x9f000000 256 0x9f0002fe 0x9f000300 i"
    moreover from this(3) have "2 \<le> i" by (simp add: touches_def)
    ultimately show False by (auto simp: tiny_bank_def nth_Cons' split: if_splits)
  qed
  moreover have "map2 (AND) (take 3 (drop 0x2fe (replicate 1024 (0xff :: byte)))) (take 3 [1, 2, 3]) = [1, 2, 3]"
    by (simp add: numeral_eq_Suc)
  moreover have "page_room 0x9f0002fe = 2" by (simp add: page_room_def)
  ultimately show "flash_write nor_chip [tiny_bank] (replicate 1024 0xff) [1, 2, 3] 0x9f0002fe 3 =
     Some (ERR_OK, overlay (replicate 1024 0xff) 0x2fe [1, 2, 3])"
    using flash_write_protects_and_programs [OF tiny_bank_uniform, of 3 "0x9f0002fe" nor_chip "replicate 1024 0xff" "[1, 2, 3]"]
      nor.spi_nor_axioms by simp
next
  have "\<exists>i<4. protect tiny_bank ! i \<noteq> 0 \<and> touches 0x9f000000 256 0x9f000000 0x9f00012b i"
    by (intro exI [of _ 1]) (simp add: touches_def tiny_bank_def)
  then show "flash_write nor_chip [tiny_bank] (replicate 1024 0xff) (replicate 300 0) 0x9f000000 300 =
     Some (ERR_PROTECTED, replicate 1024 0xff)"
    using flash_write_protects_and_programs [OF tiny_bank_uniform, of 300 "0x9f000000" nor_chip "replicate 1024 0xff" "replicate 300 0"]
    by simp
next
  let ?b = "tiny_bank\<lparr>protect := [0, 0, 0, 0]\<rparr>"
  have "uniform 0x9f000000 256 4 ?b" using tiny_bank_uniform by (simp add: uniform_def)
  moreover have "protect ?b ! i = 0" if "i < 4" for i using that by (auto simp: nth_Cons' less_Suc_eq numeral_eq_Suc)
  moreover have "page_room 0x9f000001 = 255" by (simp add: page_room_def)
  moreover have "\<not> 255 dvd (256 :: nat)" by (simp add: dvd_eq_mod_eq_0)
  ultimately show "\<exists>buf mem' i. length buf = 512 \<and> i < 512 \<and> buf ! i = 0 \<and>
      flash_write nor_chip [?b] (replicate 1024 0xff) buf 0x9f000001 512 = Some (ERR_OK, mem') \<and> mem' ! (1 + i) = 0xff"
    using flash_write_protects_and_programs [of 256 4 ?b 512 "0x9f000001"] by (simp cong: conj_cong)
qed

text \<open>
  \<open>flash_protect\<close> changes the protection of exactly those sectors that meet the given range,
  to the state the flag asks for; the others keep theirs, also when the range covers a sector only
  in part or lies outside the bank.
\<close>

lemma flash_protect_exact:
  assumes "uniform base ss n info" "from \<le> to" "flag AND 0x02 \<noteq> 0 \<or> flag AND 0x01 \<noteq> 0"
  shows "\<exists>p. flash_protect flag from to info = info\<lparr>protect := p\<rparr> \<and> length p = length (protect info) \<and>
    (\<forall>i<length p. p ! i = (if i < n \<and> touches base ss (unat from) (unat to) i
       then if flag AND 0x02 \<noteq> 0 then 0 else 1 else protect info ! i))"
  using flash_protect_eq [OF assms] by (auto simp: protect_value_def)

text \<open>
  What \<open>ath_spi_write_page\<close> puts on the wire, bit by bit: a write-enable frame, one frame with
  the page-program command, the three address bytes most significant first and the data, each byte
  most significant bit first, then status polls until the chip is ready.
\<close>

lemma spi_write_page_on_wire:
  "spi_frames (spi_write_page addr data busy) =
     [byte_bits 0x06,
      concat (map byte_bits ([0x02, ucast (drop_bit 16 addr), ucast (drop_bit 8 addr), ucast addr] @ data))]
     @ replicate (Suc busy) (byte_bits 0x05 @ byte_bits 0)"
  by (rule spi_write_page_frames)

text \<open>
  The same for \<open>ath_spi_sector_erase\<close>: write enable, the erase command with the three address
  bytes, polls.
\<close>

lemma spi_sector_erase_on_wire:
  "spi_frames (spi_sector_erase addr busy) =
     [byte_bits 0x06,
      concat (map byte_bits [0xd8, ucast (drop_bit 16 addr), ucast (drop_bit 8 addr), ucast addr])]
     @ replicate (Suc busy) (byte_bits 0x05 @ byte_bits 0)"
  by (rule spi_sector_erase_frames)

text \<open>
  From an address that is not page-aligned, a buffer of more than a page is cut so that a later
  piece crosses a page boundary: the room in the page is computed from the start address each
  time. Here the third piece starts at the last byte of its page and is two bytes long.
\<close>

lemma write_plan_crosses_page:
  "write_plan 1 512 0 = [(1, 0, 255), (256, 255, 255), (511, 510, 2)]"
  by (simp add: write_plan.simps)

end
