(* ===== verification/Vsprintf.thy ===== *)
theory Vsprintf
  imports CString
begin

text \<open>
  Number parsing and formatting, \<open>lib_generic/vsprintf.c\<close>. \<open>unsigned long\<close> is a 32-bit word;
  field widths and precisions are C \<open>int\<close>s. The parsers return the value together with the
  pointer \<open>*endp\<close>, as the rest of the string. The formatter returns the characters it stores
  (without the final NUL) and the values it stores through the pointers of \<open>%n\<close> conversions.
\<close>

section \<open>Parsing numbers\<close>

definition digit_val :: "byte \<Rightarrow> u32" where
  "digit_val c =
     (if isdigit c then ucast c - 48
      else ucast (if islower c then toupper c else c) - 65 + 10)"

fun strtoul_loop :: "bytes \<Rightarrow> u32 \<Rightarrow> u32 \<Rightarrow> (u32 \<times> bytes) option" where
  "strtoul_loop [] base result = None"
| "strtoul_loop (c # cp) base result =
     (if isxdigit c \<and> digit_val c < base
      then strtoul_loop cp base (result * base + digit_val c)
      else Some (result, c # cp))"

definition simple_strtoul :: "bytes \<Rightarrow> u32 \<Rightarrow> (u32 \<times> bytes) option" where
  "simple_strtoul cp base = (case cp of
      [] \<Rightarrow> None
    | c # cp1 \<Rightarrow>
        if c = ch (CHR ''0'') then
          (case cp1 of
             [] \<Rightarrow> None
           | x # cp2 \<Rightarrow>
               if x = ch (CHR ''x'') then
                 (case cp2 of
                    [] \<Rightarrow> None
                  | y # _ \<Rightarrow>
                      if isxdigit y then strtoul_loop cp2 16 0
                      else strtoul_loop cp1 (if base = 0 then 8 else base) 0)
               else strtoul_loop cp1 (if base = 0 then 8 else base) 0)
        else strtoul_loop cp (if base = 0 then 10 else base) 0)"

definition simple_strtol :: "bytes \<Rightarrow> u32 \<Rightarrow> (u32 \<times> bytes) option" where
  "simple_strtol cp base = (case cp of
      [] \<Rightarrow> None
    | c # cp1 \<Rightarrow>
        if c = ch (CHR ''-'') then map_option (\<lambda>(v, ep). (- v, ep)) (simple_strtoul cp1 base)
        else simple_strtoul cp base)"

fun skip_atoi :: "bytes \<Rightarrow> int \<Rightarrow> (int \<times> bytes) option" where
  "skip_atoi [] i = None"
| "skip_atoi (c # s) i =
     (if 48 \<le> c \<and> c \<le> 57 then skip_atoi s (i * 10 + uint c - 48) else Some (i, c # s))"

section \<open>Formatting numbers\<close>

abbreviation (input) ZEROPAD :: u32 where "ZEROPAD \<equiv> 1"
abbreviation (input) SIGN :: u32 where "SIGN \<equiv> 2"
abbreviation (input) PLUS :: u32 where "PLUS \<equiv> 4"
abbreviation (input) SPACE :: u32 where "SPACE \<equiv> 8"
abbreviation (input) LEFT :: u32 where "LEFT \<equiv> 16"
abbreviation (input) SPECIAL :: u32 where "SPECIAL \<equiv> 32"
abbreviation (input) LARGE :: u32 where "LARGE \<equiv> 64"

definition small_digits :: bytes where
  "small_digits = str ''0123456789abcdefghijklmnopqrstuvwxyz''"

definition large_digits :: bytes where
  "large_digits = str ''0123456789ABCDEFGHIJKLMNOPQRSTUVWXYZ''"

text \<open>\<open>while (num != 0) tmp[i++] = digits[do_div(num, base)]\<close>: least significant digit first.\<close>

function num_digits :: "bytes \<Rightarrow> u32 \<Rightarrow> u32 \<Rightarrow> bytes" where
  "num_digits digits base num =
     (if num = 0 \<or> base < 2 then []
      else digits ! unat (num mod base) # num_digits digits base (num div base))"
  by pat_completeness auto
termination
proof (relation "measure (\<lambda>(digits, base, num). unat num)", goal_cases)
  case (2 digits base num)
  then have "1 < unat base" "0 < unat num"
    by (auto simp: word_less_nat_alt unat_gt_0)
  then show ?case by (simp add: unat_div)
qed simp

declare num_digits.simps [simp del]

text \<open>The value \<open>size\<close> has after a loop \<open>while (size-- > 0)\<close>.\<close>

definition spent :: "int \<Rightarrow> int" where
  "spent sz = (if sz > 0 then - 1 else sz - 1)"

definition number :: "u32 \<Rightarrow> nat \<Rightarrow> int \<Rightarrow> int \<Rightarrow> u32 \<Rightarrow> bytes option" where
  "number num base sz precision type =
    (let digits = (if type AND LARGE \<noteq> 0 then large_digits else small_digits);
         type = (if type AND LEFT \<noteq> 0 then type AND NOT ZEROPAD else type)
     in if base < 2 \<or> base > 36 then None
     else
       let c = (if type AND ZEROPAD \<noteq> 0 then ch (CHR ''0'') else ch (CHR '' ''));
           (sign, num, sz) =
             (if type AND SIGN \<noteq> 0 then
                (if sint num < 0 then ([ch (CHR ''-'')], - num, sz - 1)
                 else if type AND PLUS \<noteq> 0 then ([ch (CHR ''+'')], num, sz - 1)
                 else if type AND SPACE \<noteq> 0 then ([ch (CHR '' '')], num, sz - 1)
                 else ([], num, sz))
              else ([], num, sz));
           sz = (if type AND SPECIAL \<noteq> 0 then
                     (if base = 16 then sz - 2 else if base = 8 then sz - 1 else sz)
                   else sz);
           tmp = (if num = 0 then [ch (CHR ''0'')] else num_digits digits (of_nat base) num);
           i = int (length tmp);
           precision = (if i > precision then i else precision);
           sz = sz - precision;
           (pad1, sz) =
             (if type AND (ZEROPAD + LEFT) = 0
              then (replicate (nat sz) (ch (CHR '' '')), spent sz) else ([], sz));
           pre = (if type AND SPECIAL \<noteq> 0 then
                    (if base = 8 then [ch (CHR ''0'')]
                     else if base = 16 then [ch (CHR ''0''), digits ! 33] else [])
                  else []);
           (pad2, sz) =
             (if type AND LEFT = 0 then (replicate (nat sz) c, spent sz) else ([], sz));
           zeros = replicate (nat (precision - i)) (ch (CHR ''0''))
       in Some (pad1 @ sign @ pre @ pad2 @ zeros @ rev tmp @ replicate (nat sz) (ch (CHR '' ''))))"

section \<open>The format interpreter\<close>

text \<open>
  A variadic argument: an \<open>int\<close>-sized value, a pointer to a string (possibly \<open>NULL\<close>), or the
  pointer to an \<open>int\<close> that \<open>%n\<close> stores through.
\<close>

datatype varg = VInt u32 | VStr "bytes option" | VRef

text \<open>What one conversion does: characters stored in the buffer, or the position stored by \<open>%n\<close>.\<close>

datatype conv = Emit bytes | StorePos

fun va_int :: "varg list \<Rightarrow> (u32 \<times> varg list) option" where
  "va_int (VInt n # args) = Some (n, args)"
| "va_int _ = None"

fun va_str :: "varg list \<Rightarrow> (bytes option \<times> varg list) option" where
  "va_str (VStr s # args) = Some (s, args)"
| "va_str _ = None"

fun va_ref :: "varg list \<Rightarrow> varg list option" where
  "va_ref (VRef # args) = Some args"
| "va_ref _ = None"

definition flag_of :: "byte \<Rightarrow> u32 option" where
  "flag_of c =
     (if c = ch (CHR ''-'') then Some LEFT
      else if c = ch (CHR ''+'') then Some PLUS
      else if c = ch (CHR '' '') then Some SPACE
      else if c = ch (CHR ''#'') then Some SPECIAL
      else if c = ch (CHR ''0'') then Some ZEROPAD
      else None)"

fun fmt_flags :: "bytes \<Rightarrow> u32 \<Rightarrow> (u32 \<times> bytes) option" where
  "fmt_flags [] flags = None"
| "fmt_flags (c # fmt) flags = (case flag_of c of
      Some f \<Rightarrow> fmt_flags fmt (flags OR f)
    | None \<Rightarrow> Some (flags, c # fmt))"

definition fmt_width :: "bytes \<Rightarrow> varg list \<Rightarrow> u32 \<Rightarrow> (int \<times> u32 \<times> bytes \<times> varg list) option" where
  "fmt_width fmt args flags = (case fmt of
      [] \<Rightarrow> None
    | c # fmt' \<Rightarrow>
        if 48 \<le> c \<and> c \<le> 57 then map_option (\<lambda>(w, f). (w, flags, f, args)) (skip_atoi fmt 0)
        else if c = ch (CHR ''*'') then do {
          (n, args') \<leftarrow> va_int args;
          Some (if sint n < 0 then (- sint n, flags OR LEFT, fmt', args')
                else (sint n, flags, fmt', args')) }
        else Some (-1, flags, fmt, args))"

definition fmt_precision :: "bytes \<Rightarrow> varg list \<Rightarrow> (int \<times> bytes \<times> varg list) option" where
  "fmt_precision fmt args = (case fmt of
      [] \<Rightarrow> None
    | c # fmt1 \<Rightarrow>
        if c = ch (CHR ''.'') then do {
          (p, f, a) \<leftarrow> (case fmt1 of
             [] \<Rightarrow> None
           | d # fmt2 \<Rightarrow>
               if 48 \<le> d \<and> d \<le> 57 then map_option (\<lambda>(w, f). (w, f, args)) (skip_atoi fmt1 0)
               else if d = ch (CHR ''*'')
               then map_option (\<lambda>(n, a). (sint n, fmt2, a)) (va_int args)
               else Some (-1, fmt1, args));
          Some (if p < 0 then 0 else p, f, a) }
        else Some (-1, fmt, args))"

definition fmt_qualifier :: "bytes \<Rightarrow> (byte option \<times> bytes) option" where
  "fmt_qualifier fmt = (case fmt of
      [] \<Rightarrow> None
    | c # fmt' \<Rightarrow>
        Some (if c = ch (CHR ''h'') \<or> c = ch (CHR ''l'') \<or> c = ch (CHR ''q'')
              then (Some c, fmt') else (None, fmt)))"

text \<open>A precision passed on to \<open>strnlen\<close> as a \<open>size_t\<close>.\<close>

definition size_of_int :: "int \<Rightarrow> nat" where
  "size_of_int p = nat (p mod 2 ^ 32)"

definition conv_char :: "u32 \<Rightarrow> int \<Rightarrow> u32 \<Rightarrow> bytes" where
  "conv_char flags width n =
     (let pad = replicate (nat (width - 1)) (ch (CHR '' ''))
      in if flags AND LEFT = 0 then pad @ [ucast n] else [ucast n] @ pad)"

definition conv_string :: "u32 \<Rightarrow> int \<Rightarrow> int \<Rightarrow> bytes option \<Rightarrow> bytes option" where
  "conv_string flags width precision s = do {
     let s' = (case s of None \<Rightarrow> str ''<NULL>'' @ [0] | Some p \<Rightarrow> p);
     len \<leftarrow> strnlen s' (size_of_int precision);
     let pad = replicate (nat (width - int len)) (ch (CHR '' ''));
     Some (if flags AND LEFT = 0 then pad @ take len s' else take len s' @ pad)
   }"

text \<open>The value of an integer conversion, after the length qualifier.\<close>

definition conv_value :: "byte option \<Rightarrow> u32 \<Rightarrow> u32 \<Rightarrow> u32" where
  "conv_value qualifier flags n =
     (if qualifier = Some (ch (CHR ''l'')) then n
      else if qualifier = Some (ch (CHR ''h'')) then
        (if flags AND SIGN \<noteq> 0 then scast (ucast n :: u16) else ucast (ucast n :: u16))
      else n)"

text \<open>
  The \<open>switch\<close> on the conversion letter: the effect, the rest of the format and the remaining
  arguments.
\<close>

definition conv_letter ::
  "u32 \<Rightarrow> int \<Rightarrow> int \<Rightarrow> byte option \<Rightarrow> bytes \<Rightarrow> varg list \<Rightarrow> (conv \<times> bytes \<times> varg list) option" where
  "conv_letter flags width precision qualifier fmt4 args2 =
     (case fmt4 of
        [] \<Rightarrow> None
      | c # fmt5 \<Rightarrow>
          if c = ch (CHR ''c'') then do {
            (n, args3) \<leftarrow> va_int args2; Some (Emit (conv_char flags width n), fmt5, args3) }
          else if c = ch (CHR ''s'') then do {
            (s, args3) \<leftarrow> va_str args2;
            out \<leftarrow> conv_string flags width precision s;
            Some (Emit out, fmt5, args3) }
          else if c = ch (CHR ''p'') then do {
            (n, args3) \<leftarrow> va_int args2;
            out \<leftarrow> (if width = -1 then number n 16 8 precision (flags OR ZEROPAD)
                   else number n 16 width precision flags);
            Some (Emit out, fmt5, args3) }
          else if c = ch (CHR ''%'') then Some (Emit [ch (CHR ''%'')], fmt5, args2)
          else if c = ch (CHR ''o'') \<or> c = ch (CHR ''X'') \<or> c = ch (CHR ''x'') \<or>
                  c = ch (CHR ''d'') \<or> c = ch (CHR ''i'') \<or> c = ch (CHR ''u'') then do {
            let base = (if c = ch (CHR ''o'') then 8
                        else if c = ch (CHR ''X'') \<or> c = ch (CHR ''x'') then 16 else 10);
            let flags = (if c = ch (CHR ''X'') then flags OR LARGE
                         else if c = ch (CHR ''d'') \<or> c = ch (CHR ''i'') then flags OR SIGN
                         else flags);
            (n, args3) \<leftarrow> va_int args2;
            out \<leftarrow> number (conv_value qualifier flags n) base width precision flags;
            Some (Emit out, fmt5, args3) }
          else if c = ch (CHR ''n'') then map_option (\<lambda>args3. (StorePos, fmt5, args3)) (va_ref args2)
          else if c \<noteq> 0 then Some (Emit [ch (CHR ''%''), c], fmt5, args2)
          else Some (Emit [ch (CHR ''%'')], c # fmt5, args2))"

text \<open>One conversion, starting at the character after the percent sign.\<close>

definition conversion :: "bytes \<Rightarrow> varg list \<Rightarrow> (conv \<times> bytes \<times> varg list) option" where
  "conversion fmt0 args0 = do {
     (flags, fmt1) \<leftarrow> fmt_flags fmt0 0;
     (width, flags, fmt2, args1) \<leftarrow> fmt_width fmt1 args0 flags;
     (precision, fmt3, args2) \<leftarrow> fmt_precision fmt2 args1;
     (qualifier, fmt4) \<leftarrow> fmt_qualifier fmt3;
     conv_letter flags width precision qualifier fmt4 args2
   }"

lemma fmt_flags_length: "fmt_flags fmt flags = Some (f, fmt') \<Longrightarrow> length fmt' \<le> length fmt"
  by (induction fmt arbitrary: flags) (auto split: option.splits simp: le_SucI)

lemma skip_atoi_length: "skip_atoi s i = Some (n, s') \<Longrightarrow> length s' \<le> length s"
  by (induction s arbitrary: i) (auto split: if_splits simp: le_SucI)

lemma fmt_width_length:
  "fmt_width fmt args flags = Some (w, f, fmt', args') \<Longrightarrow> length fmt' \<le> length fmt"
  by (auto simp: fmt_width_def c_mem_iff split: list.splits if_splits dest: skip_atoi_length)

lemma fmt_precision_length:
  "fmt_precision fmt args = Some (p, fmt', args') \<Longrightarrow> length fmt' \<le> length fmt"
  by (auto simp: fmt_precision_def c_mem_iff le_SucI split: list.splits if_splits
      dest!: skip_atoi_length)

lemma fmt_qualifier_length: "fmt_qualifier fmt = Some (q, fmt') \<Longrightarrow> length fmt' \<le> length fmt"
  by (auto simp: fmt_qualifier_def split: list.splits if_splits)

lemma conv_letter_length:
  "conv_letter fl w p q fmt args = Some (out, fmt', args') \<Longrightarrow> length fmt' \<le> length fmt"
  by (cases fmt) (auto simp: conv_letter_def c_mem_iff Let_def split: if_split_asm)

lemma conversion_length:
  assumes "conversion fmt args = Some (out, fmt', args')"
  shows "length fmt' \<le> length fmt"
proof -
  from assms obtain fl f1 w fl' f2 a1 p f3 a2 q f4 where
    "fmt_flags fmt 0 = Some (fl, f1)" "fmt_width f1 args fl = Some (w, fl', f2, a1)"
    "fmt_precision f2 a1 = Some (p, f3, a2)" "fmt_qualifier f3 = Some (q, f4)"
    "conv_letter fl' w p q f4 a2 = Some (out, fmt', args')"
    by (auto simp: conversion_def bind_Some_iff)
  then have "length f1 \<le> length fmt" "length f2 \<le> length f1" "length f3 \<le> length f2"
    "length f4 \<le> length f3" "length fmt' \<le> length f4"
    by (auto dest: fmt_flags_length fmt_width_length fmt_precision_length fmt_qualifier_length
        conv_letter_length)
  then show ?thesis by simp
qed

text \<open>
  The main loop. The format is followed up to its NUL; a conversion resumes after the conversion
  letter. \<open>pos\<close> is \<open>str - buf\<close>. The result is what is stored in the buffer before the final NUL,
  and the positions stored by \<open>%n\<close>.
\<close>

function vsprintf_loop :: "nat \<Rightarrow> bytes \<Rightarrow> varg list \<Rightarrow> (bytes \<times> nat list) option" where
  "vsprintf_loop pos [] args = None"
| "vsprintf_loop pos (c # fmt) args =
     (if c = 0 then Some ([], [])
      else if c \<noteq> ch (CHR ''%'')
      then map_option (\<lambda>(o', ns). (c # o', ns)) (vsprintf_loop (pos + 1) fmt args)
      else (case conversion fmt args of
              None \<Rightarrow> None
            | Some (Emit out, fmt', args') \<Rightarrow>
                map_option (\<lambda>(o', ns). (out @ o', ns)) (vsprintf_loop (pos + length out) fmt' args')
            | Some (StorePos, fmt', args') \<Rightarrow>
                map_option (\<lambda>(o', ns). (o', pos # ns)) (vsprintf_loop pos fmt' args')))"
  by pat_completeness auto
termination
  by (relation "measure (\<lambda>(pos, fmt, args). length fmt)") (auto dest: conversion_length)

text \<open>
  \<open>vsprintf\<close> into a buffer object: the stores fault when the buffer is too small. The result is
  the buffer, the returned length and the \<open>%n\<close> stores.
\<close>

definition vsprintf :: "bytes \<Rightarrow> bytes \<Rightarrow> varg list \<Rightarrow> (bytes \<times> nat \<times> nat list) option" where
  "vsprintf buf fmt args = do {
     (out, ns) \<leftarrow> vsprintf_loop 0 fmt args;
     if length out < length buf then Some (overlay buf 0 (out @ [0]), length out, ns) else None
   }"

definition sprintf :: "bytes \<Rightarrow> bytes \<Rightarrow> varg list \<Rightarrow> (bytes \<times> nat) option" where
  "sprintf buf fmt args = map_option (\<lambda>(b, n, ns). (b, n)) (vsprintf buf fmt args)"


section \<open>Digits\<close>

definition digit_table :: "bytes \<Rightarrow> bool" where
  "digit_table ds \<longleftrightarrow> ds = small_digits \<or> ds = large_digits"

lemma hex_vals:
  "map digit_val (take 16 small_digits) = map of_nat [0..<16]"
  "map digit_val (take 16 large_digits) = map of_nat [0..<16]"
  "list_all isxdigit (take 16 small_digits)" "list_all isxdigit (take 16 large_digits)"
  "length small_digits = 36" "length large_digits = 36"
  by (simp_all add: small_digits_def large_digits_def str_def ch_def digit_val_def ctype_iff
      toupper_def upt_rec)

lemma hex_nth:
  assumes "map digit_val (take 16 ds) = map of_nat [0..<16]" "list_all isxdigit (take 16 ds)"
    "length ds = 36" "k < 16"
  shows "isxdigit (ds ! k)" "digit_val (ds ! k) = of_nat k"
proof -
  from assms(3,4) have "digit_val (ds ! k) = map digit_val (take 16 ds) ! k" by simp
  with assms(1,4) show "digit_val (ds ! k) = of_nat k" by (simp del: upt_rec_numeral)
  from assms(2-4) show "isxdigit (ds ! k)" by (auto simp: list_all_length dest: spec [of _ k])
qed

lemma digit_tableD:
  "digit_table ds \<Longrightarrow> k < 16 \<Longrightarrow> isxdigit (ds ! k)"
  "digit_table ds \<Longrightarrow> k < 16 \<Longrightarrow> digit_val (ds ! k) = of_nat k"
  using hex_nth hex_vals unfolding digit_table_def by blast+

lemma unat_mod_16: "2 \<le> base \<Longrightarrow> base \<le> 16 \<Longrightarrow> unat (num mod base :: u32) < 16"
proof -
  assume b: "2 \<le> base" "base \<le> 16"
  then have "unat num mod unat base < unat base" "unat base \<le> 16" by (simp_all add: word_le_nat_alt)
  then show ?thesis by (simp add: unat_mod)
qed

lemma word_mod_less: "2 \<le> base \<Longrightarrow> num mod base < (base :: u32)"
  by (simp add: unat_mod word_le_nat_alt word_less_nat_alt)

lemma not_less_two: "2 \<le> base \<Longrightarrow> \<not> base < (2 :: u32)"
  by simp

lemma num_digits_wf:
  "digit_table ds \<Longrightarrow> 2 \<le> base \<Longrightarrow> base \<le> 16 \<Longrightarrow>
     \<forall>d \<in> set (num_digits ds base n). isxdigit d \<and> digit_val d < base"
proof (induction ds base n rule: num_digits.induct)
  case (1 digits base num)
  note m = unat_mod_16 [OF "1.prems"(2,3), of num] and lt = word_mod_less [OF "1.prems"(2), of num]
  show ?case
    using 1 m lt digit_tableD [OF "1.prems"(1) m] by (subst num_digits.simps) auto
qed

lemma num_digits_value:
  "digit_table ds \<Longrightarrow> 2 \<le> base \<Longrightarrow> base \<le> 16 \<Longrightarrow>
     foldr (\<lambda>d a. a * base + digit_val d) (num_digits ds base n) 0 = n"
proof (induction ds base n rule: num_digits.induct)
  case (1 digits base num)
  note m = unat_mod_16 [OF "1.prems"(2,3), of num]
  show ?case
    using 1 digit_tableD [OF "1.prems"(1) m] by (subst num_digits.simps) (auto simp: div_mult_mod_eq)
qed

lemma num_digits_length:
  "2 \<le> base \<Longrightarrow> unat n < unat base ^ k \<Longrightarrow> length (num_digits ds base n) \<le> k"
proof (induction ds base n arbitrary: k rule: num_digits.induct)
  case (1 digits base num)
  show ?case
  proof (cases "num = 0")
    case True
    then show ?thesis by (simp add: num_digits.simps)
  next
    case False
    with "1.prems"(2) obtain j where k: "k = Suc j"
      by (cases k) (auto simp: unat_eq_zero)
    have b: "0 < unat base" using "1.prems"(1) by (simp add: word_le_nat_alt)
    have "unat (num div base) < unat base ^ j"
      using "1.prems"(2) k b by (simp add: unat_div less_mult_imp_div_less mult.commute)
    with 1 False k show ?thesis
      by (subst num_digits.simps) (auto simp: not_less_two)
  qed
qed

lemma num_digits_Nil: "2 \<le> base \<Longrightarrow> num_digits ds base n = [] \<longleftrightarrow> n = 0"
  by (subst num_digits.simps) (auto simp: not_less_two)

text \<open>The most significant digit of a nonzero number is not \<open>0\<close>.\<close>

lemma num_digits_last:
  "digit_table ds \<Longrightarrow> 2 \<le> base \<Longrightarrow> base \<le> 16 \<Longrightarrow> n \<noteq> 0 \<Longrightarrow> digit_val (last (num_digits ds base n)) \<noteq> 0"
proof (induction ds base n rule: num_digits.induct)
  case (1 digits base num)
  note m = unat_mod_16 [OF "1.prems"(2,3), of num]
  show ?case
  proof (cases "num div base = 0")
    case True
    have "num mod base = num"
      using True div_mult_mod_eq [of num base] by simp
    then show ?thesis
      using 1 True digit_tableD [OF "1.prems"(1) m] by (subst num_digits.simps) (auto simp: num_digits.simps)
  next
    case False
    with 1 show ?thesis
      by (subst num_digits.simps) (auto simp: num_digits_Nil not_less_two)
  qed
qed

lemma strtoul_loop_digits:
  "\<forall>d \<in> set xs. isxdigit d \<and> digit_val d < base \<Longrightarrow> \<not> isxdigit t \<Longrightarrow>
     strtoul_loop (xs @ t # r) base acc = Some (foldl (\<lambda>a d. a * base + digit_val d) acc xs, t # r)"
  by (induction xs arbitrary: acc) auto

lemma nul_not_xdigit [simp]: "\<not> isxdigit 0"
  by (simp add: isxdigit_iff)

text \<open>A digit string with no leading zero is read digit by digit.\<close>

lemma simple_strtoul_digits:
  assumes ok: "\<forall>d \<in> set xs. isxdigit d \<and> digit_val d < base" and base: "base \<noteq> 0"
    and hd: "xs \<noteq> [] \<Longrightarrow> digit_val (hd xs) \<noteq> 0" and ne: "xs \<noteq> []"
  shows "simple_strtoul (xs @ 0 # r) base = Some (foldl (\<lambda>a d. a * base + digit_val d) 0 xs, 0 # r)"
proof -
  obtain x xs' where xs: "xs = x # xs'" using ne by (cases xs) auto
  have "x \<noteq> ch (CHR ''0'')"
    using hd xs by (auto simp: ch_def digit_val_def isdigit_iff)
  then have "simple_strtoul (xs @ 0 # r) base = strtoul_loop (xs @ 0 # r) base 0"
    using base by (simp add: simple_strtoul_def xs)
  then show ?thesis by (simp add: strtoul_loop_digits [OF ok])
qed

lemma simple_strtoul_zero:
  "base \<noteq> 0 \<Longrightarrow> simple_strtoul (ch (CHR ''0'') # 0 # r) base = Some (0, 0 # r)"
  by (simp add: simple_strtoul_def ch_def)

text \<open>The digits \<open>number\<close> emits, most significant first.\<close>

definition numeral_of :: "bytes \<Rightarrow> u32 \<Rightarrow> u32 \<Rightarrow> bytes" where
  "numeral_of ds base n = (if n = 0 then [ch (CHR ''0'')] else rev (num_digits ds base n))"

lemma simple_strtoul_numeral_of:
  assumes "digit_table ds" "2 \<le> base" "base \<le> 16"
  shows "simple_strtoul (numeral_of ds base n @ 0 # r) base = Some (n, 0 # r)"
proof (cases "n = 0")
  case True
  then show ?thesis using assms by (simp add: numeral_of_def) (subst simple_strtoul_zero, auto)
next
  case False
  let ?xs = "rev (num_digits ds base n)"
  have ne: "num_digits ds base n \<noteq> []" using False assms by (simp add: num_digits_Nil)
  have "simple_strtoul (?xs @ 0 # r) base = Some (foldl (\<lambda>a d. a * base + digit_val d) 0 ?xs, 0 # r)"
    using num_digits_wf [OF assms] num_digits_last [OF assms False] ne assms(2)
    by (intro simple_strtoul_digits) (auto simp: hd_rev)
  also have "foldl (\<lambda>a d. a * base + digit_val d) 0 ?xs = n"
    using num_digits_value [OF assms] by (simp add: foldl_conv_foldr)
  finally show ?thesis using False by (simp add: numeral_of_def)
qed

lemma numeral_of_length: "2 \<le> base \<Longrightarrow> 0 < k \<Longrightarrow> unat n < unat base ^ k \<Longrightarrow> length (numeral_of ds base n) \<le> k"
  by (auto simp: numeral_of_def intro: num_digits_length)

lemma number_plain:
  "2 \<le> base \<Longrightarrow> base \<le> 36 \<Longrightarrow>
     number n base (-1) (-1) 0 = Some (numeral_of small_digits (of_nat base) n)"
  by (auto simp: number_def numeral_of_def Let_def spent_def)

lemma small_digit_table: "digit_table small_digits"
  by (simp add: digit_table_def small_digits_def)

section \<open>Conversions\<close>

lemmas conversion_unfold = conversion_def flag_of_def fmt_width_def fmt_precision_def
  fmt_qualifier_def conv_letter_def conv_value_def str_def ch_def

lemma digits_props:
  assumes "digit_table ds" "2 \<le> base" "base \<le> 16" "0 < k" "2 ^ 32 \<le> unat base ^ k"
  shows "nonul (numeral_of ds base n)" "length (numeral_of ds base n) \<le> k"
proof -
  have "isxdigit c" if "c \<in> set (num_digits ds base n)" for c
    using num_digits_wf [OF assms(1,2,3), of n] that by auto
  then have "0 \<notin> set (num_digits ds base n)" by force
  then show "nonul (numeral_of ds base n)" by (auto simp: numeral_of_def nonul_def ch_def)
  have "unat n < unat base ^ k" using unsigned_less [of n, where ?'a = nat] assms(5) by simp
  then show "length (numeral_of ds base n) \<le> k" using assms by (intro numeral_of_length)
qed

lemma large_digit_table: "digit_table large_digits"
  by (simp add: digit_table_def)

definition dec_of :: "nat \<Rightarrow> bytes" where
  "dec_of n = numeral_of small_digits 10 (of_nat n)"

lemma number_signed:
  "0 \<le> sint n \<Longrightarrow> number n 10 (-1) (-1) SIGN = Some (numeral_of small_digits 10 n)"
  by (auto simp: number_def numeral_of_def Let_def spent_def)

lemma dec_of_props: "n < 10 ^ k \<Longrightarrow> 0 < k \<Longrightarrow> k \<le> 9 \<Longrightarrow> nonul (dec_of n) \<and> length (dec_of n) \<le> k"
proof -
  assume n: "n < 10 ^ k" "0 < k" "k \<le> 9"
  have "(10::nat) ^ k \<le> 10 ^ 9" using n(3) by (intro power_increasing) auto
  then have "unat (of_nat n :: u32) = n" using n(1) by (simp add: unat_of_nat take_bit_nat_eq_self_iff)
  then have "length (dec_of n) \<le> k" unfolding dec_of_def using n by (intro numeral_of_length) auto
  then show ?thesis using digits_props(1) [OF small_digit_table, of 10 10 "of_nat n"] by (simp add: dec_of_def)
qed

lemma decimal_conversion:
  assumes "n < 2 ^ 31"
  shows "conversion (100 # fmt) (VInt (of_nat n) # args) = Some (Emit (dec_of n), fmt, args)"
proof -
  have "sint (of_nat n :: u32) = int n"
    using assms by (simp add: signed_of_nat signed_take_bit_int_eq_self_iff)
  then have "0 \<le> sint (of_nat n :: u32)" by simp
  then show ?thesis using number_signed [of "of_nat n"]
    by (simp add: conversion_unfold dec_of_def)
qed

lemma char_conversion: "conversion (99 # fmt) (VInt n # args) = Some (Emit [ucast n], fmt, args)"
  by (simp add: conversion_unfold conv_char_def)

lemma hex_conversion:
  "vsprintf_loop pos (cstr (str ''%x'')) [VInt n] = Some (numeral_of small_digits 16 n, [])"
proof -
  have "number n 16 (-1) (-1) 0 = Some (numeral_of small_digits 16 n)"
    using number_plain [of 16 n] by simp
  then show ?thesis
    by (simp add: conversion_unfold)
qed

definition hex_of :: "int \<Rightarrow> bytes" where
  "hex_of n = numeral_of small_digits 16 (word_of_int n)"

lemma hex_of_digits: "c \<in> set (hex_of n) \<Longrightarrow> isxdigit c"
  using num_digits_wf [OF small_digit_table, of 16 "word_of_int n"]
  by (auto simp: hex_of_def numeral_of_def ch_def isxdigit_iff split: if_splits)

lemma hex_of_props: "nonul (hex_of n)" "length (hex_of n) \<le> 8" "hex_of n \<noteq> []" "58 \<notin> set (hex_of n)"
proof -
  show "nonul (hex_of n)" "length (hex_of n) \<le> 8"
    using digits_props [OF small_digit_table, of 16 8] by (simp_all add: hex_of_def)
  show "hex_of n \<noteq> []" by (auto simp: hex_of_def numeral_of_def num_digits_Nil)
  have "\<not> isxdigit 58" by (simp add: isxdigit_iff)
  then show "58 \<notin> set (hex_of n)" using hex_of_digits by blast
qed

lemma hex_of_read: "simple_strtoul (hex_of n @ 0 # r) 16 = Some (word_of_int n, 0 # r)"
  unfolding hex_of_def by (rule simple_strtoul_numeral_of [OF small_digit_table]) auto

lemma long_hex_conversion:
  "vsprintf_loop pos (cstr (str ''%lx'')) [VInt (word_of_int n)] = Some (hex_of n, [])"
  using number_plain [of 16 "word_of_int n"] by (simp add: conversion_unfold hex_of_def)

text \<open>A decimal number of two digits reads as a hexadecimal one.\<close>

lemma num_digits_step:
  assumes "2 \<le> b" "b \<le> 16" "0 < m" "m < 2 ^ 31"
  shows "num_digits ds (of_nat b) (of_nat m) = ds ! (m mod b) # num_digits ds (of_nat b) (of_nat (m div b))"
proof -
  have u: "unat (of_nat b :: u32) = b" "unat (of_nat m :: u32) = m"
    using assms by (simp_all add: unat_of_nat take_bit_nat_eq_self_iff)
  have "unat (of_nat (m div b) :: u32) = m div b"
    using assms(4) le_less_trans [OF div_le_dividend [of m b], of "2 ^ 32"] by (simp add: unat_of_nat take_bit_nat_eq_self_iff)
  then have "(of_nat m :: u32) div of_nat b = of_nat (m div b)" using u unat_div [of "of_nat m :: u32" "of_nat b"]
    by (simp only: word_unat_eq_iff)
  moreover have "unat ((of_nat m :: u32) mod of_nat b) = m mod b" by (simp add: unat_mod u)
  moreover have "(of_nat m :: u32) \<noteq> 0" "\<not> (of_nat b :: u32) < 2" using u assms by (auto simp: unat_eq_zero word_less_nat_alt)
  ultimately show ?thesis by (subst num_digits.simps) simp
qed

lemma dec_of_digits: "n < 100 \<Longrightarrow> dec_of n = hex_of (int (16 * (n div 10) + n mod 10))"
proof -
  assume n: "n < 100"
  define m where "m = 16 * (n div 10) + n mod 10"
  have m: "m mod 16 = n mod 10" "m div 16 = n div 10" "m < 2 ^ 31" "m = 0 \<longleftrightarrow> n = 0" using n by (auto simp: m_def)
  have q: "num_digits small_digits 10 (of_nat (n div 10)) = num_digits small_digits 16 (of_nat (n div 10))"
    using num_digits_step [of 10 "n div 10"] num_digits_step [of 16 "n div 10"] n
    by (cases "n div 10 = 0") (auto simp: num_digits.simps)
  have "num_digits small_digits 10 (of_nat n) = num_digits small_digits 16 (of_nat m)" if "0 < n"
    using num_digits_step [of 10 n] num_digits_step [of 16 m] n m q that by simp
  moreover have "(of_nat n :: u32) = 0 \<longleftrightarrow> n = 0" "(of_nat m :: u32) = 0 \<longleftrightarrow> m = 0"
    using n m by (auto simp: word_of_nat_eq_0_iff dvd_imp_le)
  ultimately show ?thesis using m(4) unfolding m_def [symmetric]
    by (auto simp: dec_of_def hex_of_def numeral_of_def)
qed

section \<open>Properties\<close>

text \<open>
  C26: formatting a number and parsing the result gives the number back, in every base from 2 to
  16, whatever follows the terminated string; the parser stops at the terminator.
\<close>

theorem number_strtoul_roundtrip:
  assumes "2 \<le> base" "base \<le> 16"
  shows "\<exists>ds. number n base (-1) (-1) 0 = Some ds \<and>
    simple_strtoul (ds @ 0 # r) (of_nat base) = Some (n, 0 # r)"
proof -
  have "(of_nat base :: u32) = of_nat base" "2 \<le> (of_nat base :: u32)" "(of_nat base :: u32) \<le> 16"
    using assms by (simp_all add: word_le_nat_alt unat_of_nat)
  then show ?thesis
    using number_plain [of base n] simple_strtoul_numeral_of [OF small_digit_table, of "of_nat base" n r] assms
    by simp
qed

theorem number_strtoul_roundtrip_witness:
  "\<exists>ds. number 115200 10 (-1) (-1) 0 = Some ds \<and> simple_strtoul (ds @ 0 # [7]) (of_nat 10) = Some (115200, [0, 7])"
  using number_strtoul_roundtrip [where base = 10 and n = 115200 and r = "[7]"] by simp

text \<open>
  \<open>sprintf\<close> of \<open>%x\<close> needs a buffer of nine bytes, never more: it then writes the hexadecimal
  digits and the terminator, leaves the rest of the buffer alone, returns the number of digits, and
  \<open>simple_strtoul\<close> reads the number back.
\<close>

lemma sprintf_hex_fits:
  assumes "9 \<le> length buf"
  shows "\<exists>ds. sprintf buf (cstr (str ''%x'')) [VInt n] = Some (overlay buf 0 (ds @ [0]), length ds) \<and>
    length ds \<le> 8 \<and> (\<exists>r. simple_strtoul (overlay buf 0 (ds @ [0])) 16 = Some (n, 0 # r))"
proof -
  let ?ds = "numeral_of small_digits 16 n"
  have "unat n < 2 ^ 32" using unsigned_less [of n, where ?'a = nat] by simp
  then have l: "length ?ds \<le> 8" by (intro numeral_of_length) auto
  moreover have "simple_strtoul (overlay buf 0 (?ds @ [0])) 16 = Some (n, 0 # drop (Suc (length ?ds)) buf)"
    using simple_strtoul_numeral_of [OF small_digit_table, of 16 n] by (simp add: overlay_def)
  ultimately show ?thesis
    using assms by (intro exI [of _ ?ds]) (simp add: sprintf_def vsprintf_def hex_conversion)
qed

end
