(* ===== verification/FlashCmd.thy ===== *)
theory FlashCmd
  imports Flash Vsprintf
begin

text \<open>
  The flash commands, \<open>common/cmd_flash.c\<close>: parsing of sector and address ranges, the
  translation of an address range into sector ranges per bank, and the \<open>erase\<close> and \<open>protect\<close>
  commands. The state is the list of bank descriptors and the contents of the chip. A sector
  index that the code holds at \<open>-1\<close> is \<open>None\<close>. \<open>abbrev_spec\<close> reads sector numbers into an
  \<open>int\<close>, so they may be negative.
\<close>

record flash =
  flash_info :: "flash_info_t list"
  flash_mem :: bytes

section \<open>Range specifications\<close>

text \<open>
  \<open>ep == str || *ep != '\0'\<close>: no digit was read, or something follows the number. Both pointers
  are into the same string, so they are equal exactly if the same number of bytes follows.
\<close>

definition bad_number :: "bytes \<Rightarrow> bytes \<Rightarrow> bool" where
  "bad_number s ep \<longleftrightarrow> length ep = length s \<or> hd ep \<noteq> 0"

text \<open>
  \<open>abbrev_spec\<close>: \<open>B:SF[-SL]\<close>. The result is the returned code and, when it is 1, the bank, the
  first and the last sector. The separators are overwritten by NUL in the argument; the prefix and
  the rest are taken apart accordingly.
\<close>

definition abbrev_spec :: "flash_info_t list \<Rightarrow> bytes \<Rightarrow> (int \<times> nat \<times> int \<times> int) option" where
  "abbrev_spec banks s = do {
     colon \<leftarrow> strchr s (ch (CHR '':''));
     (case colon of
        None \<Rightarrow> Some (0, 0, 0, 0)
      | Some k \<Rightarrow> do {
          let str1 = take k s @ [0];
          let str2 = drop (k + 1) s;
          (bank, ep) \<leftarrow> simple_strtoul str1 10;
          if bad_number str1 ep \<or> sint bank < 1 \<or> sint bank > int (length banks) \<or>
             flash_id (banks ! (nat (sint bank) - 1)) = FLASH_UNKNOWN
          then Some (-1, 0, 0, 0)
          else do {
            let fp = banks ! (nat (sint bank) - 1);
            dash \<leftarrow> strchr str2 (ch (CHR ''-''));
            let str3 = (case dash of None \<Rightarrow> str2 | Some j \<Rightarrow> take j str2 @ [0]);
            (first, ep) \<leftarrow> simple_strtoul str3 10;
            if bad_number str3 ep \<or> sint first \<ge> int (sector_count fp) then Some (-1, 0, 0, 0)
            else (case dash of
                None \<Rightarrow> Some (1, nat (sint bank) - 1, sint first, sint first)
              | Some j \<Rightarrow> do {
                  let p = drop (j + 1) str2;
                  (lst, ep) \<leftarrow> simple_strtoul p 10;
                  if bad_number p ep \<or> sint lst < sint first \<or> sint lst \<ge> int (sector_count fp)
                  then Some (-1, 0, 0, 0)
                  else Some (1, nat (sint bank) - 1, sint first, sint lst) })
          } })
   }"

text \<open>The end of the sector that holds an address, over all banks.\<close>

fun find_sect_end :: "u32 \<Rightarrow> flash_info_t list \<Rightarrow> u32 option" where
  "find_sect_end a [] = None"
| "find_sect_end a (info # banks) =
     (case find (\<lambda>i. a \<le> sect_end info i \<and> a \<ge> start info ! i) [0..<sector_count info] of
        Some i \<Rightarrow> Some (sect_end info i)
      | None \<Rightarrow> find_sect_end a banks)"

text \<open>\<open>addr_spec\<close>: \<open>start end\<close> or \<open>start +length\<close>. A missing second argument is read as \<open>NULL\<close>.\<close>

definition addr_spec :: "flash_info_t list \<Rightarrow> bytes \<Rightarrow> bytes option \<Rightarrow> (int \<times> u32 \<times> u32) option" where
  "addr_spec banks arg1 arg2 = do {
     (addr_first, ep) \<leftarrow> simple_strtoul arg1 16;
     if bad_number arg1 ep then Some (-1, addr_first, 0)
     else do {
       arg2 \<leftarrow> arg2;
       c \<leftarrow> rd arg2 0;
       let len_used = (c = ch (CHR ''+''));
       let arg2 = (if len_used then tl arg2 else arg2);
       (addr_last, ep) \<leftarrow> simple_strtoul arg2 16;
       if bad_number arg2 ep then Some (-1, addr_first, addr_last)
       else if len_used then
         (let addr_last = addr_first + addr_last - 1
          in case find_sect_end addr_last banks of
               None \<Rightarrow> Some (-1, addr_first, addr_last)
             | Some e \<Rightarrow> Some (1, addr_first, e))
       else Some (1, addr_first, addr_last) }
   }"

section \<open>From addresses to sectors\<close>

text \<open>
  The scan over the sectors of one bank: the sector that starts at \<open>addr_first\<close> and the sector
  that ends at \<open>addr_last\<close>, among those that meet the range.
\<close>

definition scan_step :: "flash_info_t \<Rightarrow> u32 \<Rightarrow> u32 \<Rightarrow> nat \<Rightarrow> nat option \<times> nat option \<Rightarrow> nat option \<times> nat option" where
  "scan_step info addr_first addr_last sect = (\<lambda>(s_first, s_last).
     if addr_first > sect_end info sect then (s_first, s_last)
     else if addr_last < start info ! sect then (s_first, s_last)
     else (if addr_first = start info ! sect then Some sect else s_first,
           if addr_last = sect_end info sect then Some sect else s_last))"

definition scan_bank :: "flash_info_t \<Rightarrow> u32 \<Rightarrow> u32 \<Rightarrow> nat option \<times> nat option" where
  "scan_bank info addr_first addr_last =
     fold (scan_step info addr_first addr_last) [0..<sector_count info] (None, None)"

text \<open>
  \<open>flash_fill_sect_ranges\<close>: the return code, the sector range of each bank, and the number of
  sectors planned. A bank that is not reached keeps the range it was initialised with.
\<close>

fun fill_sect_ranges :: "u32 \<Rightarrow> u32 \<Rightarrow> flash_info_t list \<Rightarrow> int \<times> (nat option \<times> nat option) list \<times> nat" where
  "fill_sect_ranges addr_first addr_last [] = (0, [], 0)"
| "fill_sect_ranges addr_first addr_last (info # banks) =
     (let rest = map (\<lambda>_. (None, None)) banks
      in if \<not> addr_first \<le> addr_last then (0, (None, None) # rest, 0)
      else if flash_id info = FLASH_UNKNOWN then
        (let (rc, rs, n) = fill_sect_ranges addr_first addr_last banks in (rc, (None, None) # rs, n))
      else
        (let b_end = bank_end info; s_end = sector_count info - 1
         in case scan_bank info addr_first addr_last of
           (Some f, l) \<Rightarrow>
             (case (case l of Some x \<Rightarrow> Some x | None \<Rightarrow> if addr_last > b_end then Some s_end else None) of
                None \<Rightarrow> (1, (Some f, None) # rest, 0)
              | Some l' \<Rightarrow>
                  if l' < f then (1, (Some f, Some l') # rest, 0)
                  else
                    (let next = (if l' = s_end then b_end + 1 else start info ! (l' + 1));
                         (rc, rs, n) = fill_sect_ranges next addr_last banks
                     in (rc, (Some f, Some l') # rs, n + (l' - f + 1))))
         | (None, l) \<Rightarrow>
             if addr_first \<ge> start info ! 0 \<and> addr_first < b_end then (1, (None, l) # rest, 0)
             else if l \<noteq> None then (1, (None, l) # rest, 0)
             else (let (rc, rs, n) = fill_sect_ranges addr_first addr_last banks
                   in (rc, (None, l) # rs, n))))"

fun erase_ranges ::
  "chip \<Rightarrow> bytes \<Rightarrow> (flash_info_t \<times> nat option \<times> nat option) list \<Rightarrow> (int \<times> bytes) option" where
  "erase_ranges chip mem [] = Some (0, mem)"
| "erase_ranges chip mem ((info, Some f, Some l) # rest) =
     (case flash_erase chip mem info (int f) (int l) of
        None \<Rightarrow> None
      | Some (rc, mem') \<Rightarrow> if rc = 0 then erase_ranges chip mem' rest else Some (rc, mem'))"
| "erase_ranges chip mem ((info, _, _) # rest) = erase_ranges chip mem rest"

definition flash_sect_erase :: "chip \<Rightarrow> u32 \<Rightarrow> u32 \<Rightarrow> flash \<Rightarrow> (int \<times> flash) option" where
  "flash_sect_erase chip addr_first addr_last fl =
     (let (rcode, ranges, planned) = fill_sect_ranges addr_first addr_last (flash_info fl)
      in if planned \<noteq> 0 \<and> rcode = 0 then
           map_option (\<lambda>(rc, mem). (rc, fl\<lparr>flash_mem := mem\<rparr>))
             (erase_ranges chip (flash_mem fl) (zip (flash_info fl) ranges))
         else if rcode = 0 then Some (1, fl)
         else Some (rcode, fl))"

definition protect_sectors :: "byte \<Rightarrow> nat \<Rightarrow> nat \<Rightarrow> flash_info_t \<Rightarrow> flash_info_t" where
  "protect_sectors p f l info =
     info\<lparr>protect := fold (\<lambda>i pr. pr[i := p]) [f..<Suc l] (protect info)\<rparr>"

fun protect_range :: "byte \<Rightarrow> flash_info_t \<times> nat option \<times> nat option \<Rightarrow> flash_info_t" where
  "protect_range p (info, Some f, Some l) =
     (if flash_id info = FLASH_UNKNOWN then info
      else if f \<le> l then protect_sectors p f l info else info)"
| "protect_range p (info, _, _) = info"

definition flash_sect_protect :: "byte \<Rightarrow> u32 \<Rightarrow> u32 \<Rightarrow> flash \<Rightarrow> int \<times> flash" where
  "flash_sect_protect p addr_first addr_last fl =
     (let (rcode, ranges, planned) = fill_sect_ranges addr_first addr_last (flash_info fl)
      in if planned \<noteq> 0 \<and> rcode = 0
         then (rcode, fl\<lparr>flash_info := map (protect_range p) (zip (flash_info fl) ranges)\<rparr>)
         else if rcode = 0 then (1, fl)
         else (rcode, fl))"

section \<open>The commands\<close>

definition nth_arg :: "bytes list \<Rightarrow> nat \<Rightarrow> bytes option" where
  "nth_arg argv i = rd argv i"

fun erase_all :: "chip \<Rightarrow> bytes \<Rightarrow> flash_info_t list \<Rightarrow> int \<Rightarrow> (int \<times> bytes) option" where
  "erase_all chip mem [] rc = Some (rc, mem)"
| "erase_all chip mem (info # banks) rc =
     (case flash_erase chip mem info 0 (int (sector_count info) - 1) of
        None \<Rightarrow> None
      | Some (rc', mem') \<Rightarrow> erase_all chip mem' banks rc')"

text \<open>\<open>argv\<close> is the argument vector of strings; \<open>argc\<close> is its length.\<close>

definition do_flerase :: "chip \<Rightarrow> bytes list \<Rightarrow> flash \<Rightarrow> (int \<times> flash) option" where
  "do_flerase chip argv fl =
     (let argc = length argv; banks = flash_info fl;
          put = map_option (\<lambda>(rc, mem). (rc, fl\<lparr>flash_mem := mem\<rparr>))
      in if argc < 2 then Some (1, fl)
      else do {
        all \<leftarrow> strcmp (argv ! 1) (cstr (str ''all''));
        if all = 0 then put (erase_all chip (flash_mem fl) banks 0)
        else do {
          (n, bank, f, l) \<leftarrow> abbrev_spec banks (argv ! 1);
          if n < 0 then Some (1, fl)
          else if n \<noteq> 0 then put (flash_erase chip (flash_mem fl) (banks ! bank) f l)
          else if argc \<noteq> 3 then Some (1, fl)
          else do {
            b \<leftarrow> strcmp (argv ! 1) (cstr (str ''bank''));
            if b = 0 then do {
              (bank, _) \<leftarrow> simple_strtoul (argv ! 2) 16;
              if bank < 1 \<or> unat bank > length banks then Some (1, fl)
              else (let info = banks ! (unat bank - 1)
                    in put (flash_erase chip (flash_mem fl) info 0 (int (sector_count info) - 1))) }
            else do {
              (r, addr_first, addr_last) \<leftarrow> addr_spec banks (argv ! 1) (Some (argv ! 2));
              if r < 0 then Some (1, fl)
              else if addr_first \<ge> addr_last then Some (1, fl)
              else flash_sect_erase chip addr_first addr_last fl } } } })"

definition protect_bank :: "byte \<Rightarrow> flash_info_t \<Rightarrow> flash_info_t" where
  "protect_bank p info =
     info\<lparr>protect := fold (\<lambda>i pr. pr[i := p]) [0..<sector_count info] (protect info)\<rparr>"

definition do_protect :: "bytes list \<Rightarrow> flash \<Rightarrow> (int \<times> flash) option" where
  "do_protect argv fl =
     (let argc = length argv; banks = flash_info fl
      in if argc < 3 then Some (1, fl)
      else do {
        off \<leftarrow> strcmp (argv ! 1) (cstr (str ''off''));
        on \<leftarrow> (if off = 0 then Some 0 else strcmp (argv ! 1) (cstr (str ''on'')));
        if off \<noteq> 0 \<and> on \<noteq> 0 then Some (1, fl)
        else do {
          let p = (if off = 0 then 0 else 1 :: byte);
          all \<leftarrow> strcmp (argv ! 2) (cstr (str ''all''));
          if all = 0 then
            Some (0, fl\<lparr>flash_info := map (\<lambda>info. if flash_id info = FLASH_UNKNOWN then info
                                                   else protect_bank p info) banks\<rparr>)
          else do {
            (n, bank, f, l) \<leftarrow> abbrev_spec banks (argv ! 2);
            if n < 0 then Some (1, fl)
            else if n \<noteq> 0 then
              (if f < 0 then None
               else Some (0, fl\<lparr>flash_info := banks[bank := protect_sectors p (nat f) (nat l) (banks ! bank)]\<rparr>))
            else if argc \<noteq> 4 then Some (1, fl)
            else do {
              b \<leftarrow> strcmp (argv ! 2) (cstr (str ''bank''));
              if b = 0 then do {
                (bank, _) \<leftarrow> simple_strtoul (argv ! 3) 16;
                if bank < 1 \<or> unat bank > length banks then Some (1, fl)
                else if flash_id (banks ! (unat bank - 1)) = FLASH_UNKNOWN then Some (1, fl)
                else Some (0, fl\<lparr>flash_info := banks[unat bank - 1 := protect_bank p (banks ! (unat bank - 1))]\<rparr>) }
              else do {
                (r, addr_first, addr_last) \<leftarrow> addr_spec banks (argv ! 2) (Some (argv ! 3));
                if r < 0 then Some (1, fl)
                else if addr_first \<ge> addr_last then Some (1, fl)
                else Some (flash_sect_protect p addr_first addr_last fl) } } } } })"

section \<open>Sector ranges of a uniform bank\<close>

text \<open>The sector, below \<open>k\<close>, that starts at \<open>a\<close>; the sector that ends at \<open>e\<close>.\<close>

definition starts_at :: "nat \<Rightarrow> nat \<Rightarrow> nat \<Rightarrow> nat \<Rightarrow> nat option" where
  "starts_at base ss k a =
     (if base \<le> a \<and> (a - base) mod ss = 0 \<and> (a - base) div ss < k then Some ((a - base) div ss) else None)"

lemma starts_at_Suc:
  assumes "0 < ss"
  shows "starts_at base ss (Suc k) a = (if a = base + k * ss then Some k else starts_at base ss k a)"
proof -
  have "a = base + k * ss \<longleftrightarrow> base \<le> a \<and> (a - base) mod ss = 0 \<and> (a - base) div ss = k"
  proof
    assume "base \<le> a \<and> (a - base) mod ss = 0 \<and> (a - base) div ss = k"
    then have "a - base = k * ss" "base \<le> a" using div_mult_mod_eq [of "a - base" ss] by auto
    then show "a = base + k * ss" by simp
  qed (use assms in simp)
  then show ?thesis by (auto simp: starts_at_def less_Suc_eq)
qed

lemma scan_fold:
  assumes u: "uniform base ss n info" and le: "a \<le> e" and k: "k \<le> n"
  shows "fold (scan_step info a e) [0..<k] (None, None) =
    (starts_at base ss k (unat a), starts_at (base + ss) ss k (unat e + 1))"
  using k
proof (induction k)
  case 0
  then show ?case by (simp add: starts_at_def)
next
  case (Suc k)
  have ss: "0 < ss" and k: "k < n" using u Suc.prems by (auto simp: uniform_def)
  have st: "a = start info ! k \<longleftrightarrow> unat a = base + k * ss" "e < start info ! k \<longleftrightarrow> unat e < base + k * ss"
    and en: "e = sect_end info k \<longleftrightarrow> unat e + 1 = base + Suc k * ss" "a > sect_end info k \<longleftrightarrow> unat a \<ge> base + Suc k * ss"
    using uniform_start [OF u k] uniform_end [OF u k] ss
    by (auto simp: word_unat_eq_iff word_less_nat_alt)
  have le': "unat a \<le> unat e" using le by (simp add: word_le_nat_alt)
  have "fold (scan_step info a e) [0..<Suc k] (None, None) =
      scan_step info a e k (starts_at base ss k (unat a), starts_at (base + ss) ss k (unat e + 1))"
    using Suc by simp
  also have "\<dots> = (starts_at base ss (Suc k) (unat a), starts_at (base + ss) ss (Suc k) (unat e + 1))"
    using le' ss by (auto simp: scan_step_def st en starts_at_Suc)
  finally show ?case .
qed

lemma starts_at_sector: "0 < ss \<Longrightarrow> starts_at base ss k (base + i * ss) = (if i < k then Some i else None)"
  by (simp add: starts_at_def)

text \<open>A range of whole sectors of a single bank is found exactly.\<close>

lemma fill_whole_sectors:
  assumes u: "uniform base ss n info" and fl: "f \<le> l" "l < n"
    and a: "unat a = base + f * ss" and e: "unat e + 1 = base + Suc l * ss"
    and id: "flash_id info \<noteq> FLASH_UNKNOWN"
  shows "fill_sect_ranges a e [info] = (0, [(Some f, Some l)], l - f + 1)"
proof -
  have ss: "0 < ss" and n: "sector_count info = n" using u by (auto simp: uniform_def)
  have "f * ss < Suc l * ss" using fl ss by (intro mult_less_mono1) auto
  then have le: "a \<le> e" using a e by (simp add: word_le_nat_alt)
  have "starts_at (base + ss) ss n (unat e + 1) = starts_at (base + ss) ss n (base + ss + l * ss)"
    using e by (simp add: add.assoc)
  then have sc: "scan_bank info a e = (Some f, Some l)"
    using scan_fold [OF u le order_refl] fl ss
    by (simp add: scan_bank_def n a starts_at_sector)
  then show ?thesis using fl id le n by (simp add: Let_def)
qed

text \<open>A range that starts inside a sector is refused.\<close>

lemma fill_unaligned:
  assumes u: "uniform base ss n info" and le: "a \<le> e"
    and a: "base \<le> unat a" "unat a + 1 < base + n * ss" "(unat a - base) mod ss \<noteq> 0"
    and id: "flash_id info \<noteq> FLASH_UNKNOWN"
  shows "fst (fill_sect_ranges a e [info]) = 1"
proof -
  have ss: "0 < ss" and n: "sector_count info = n" "0 < n" using u by (auto simp: uniform_def)
  have "scan_bank info a e = (None, starts_at (base + ss) ss n (unat e + 1))"
    using scan_fold [OF u le order_refl] a by (simp add: scan_bank_def n starts_at_def)
  moreover have "start info ! 0 \<le> a" "a < bank_end info"
    using uniform_start [OF u, of 0] uniform_bank_end [OF u] n a
    by (auto simp: word_le_nat_alt word_less_nat_alt)
  ultimately show ?thesis using id le by (simp add: Let_def)
qed

context spi_nor
begin

lemma sect_erase_whole:
  assumes u: "uniform base 65536 n info" and fl: "f \<le> l" "l < n"
    and a: "unat a = base + f * 65536" and e: "unat e + 1 = base + Suc l * 65536"
    and m: "length mem = n * 65536" "length mem \<le> 2 ^ 24"
  shows "flash_sect_erase chip a e \<lparr>flash_info = [info], flash_mem = mem\<rparr> =
    Some (0, \<lparr>flash_info = [info],
      flash_mem = overlay mem (f * 65536) (replicate ((l - f + 1) * 65536) 0xff)\<rparr>)"
proof -
  have bs: "uint (bank_size info) div int (sector_count info) = 65536" "sector_count info \<noteq> 0"
    using u by (auto simp: uniform_def uint_nat)
  have "erase_sectors chip mem 65536 (int f) (l - f + 1) =
      overlay mem (f * 65536) (replicate ((l - f + 1) * 65536) 0xff)"
    using fl m by (intro erase_sectors_eq) auto
  moreover have "nat (int l + 1 - int f) = l - f + 1" using fl by simp
  ultimately have "flash_erase chip mem info (int f) (int l) =
      Some (0, overlay mem (f * 65536) (replicate ((l - f + 1) * 65536) 0xff))"
    by (simp only: flash_erase_def bs if_False)
  then show ?thesis
    using fill_whole_sectors [OF u fl a e] u
    by (simp add: flash_sect_erase_def uniform_def del: fill_sect_ranges.simps)
qed

end

text \<open>Protection of whole sectors.\<close>

lemma fold_upd_range:
  "l < length pr \<Longrightarrow> fold (\<lambda>i pr. pr[i := p]) [f..<Suc l] pr =
     map (\<lambda>i. if f \<le> i \<and> i \<le> l then p else pr ! i) [0..<length pr]"
proof (induction l)
  case 0
  show ?case
  proof (cases f)
    case 0
    then show ?thesis using \<open>0 < length pr\<close> by (intro nth_eqI) (auto simp: nth_list_update)
  next
    case (Suc k)
    then show ?thesis by (intro nth_eqI) auto
  qed
next
  case (Suc l)
  show ?case
  proof (cases "f \<le> Suc l")
    case True
    then have "fold (\<lambda>i pr. pr[i := p]) [f..<Suc (Suc l)] pr = (fold (\<lambda>i pr. pr[i := p]) [f..<Suc l] pr)[Suc l := p]"
      by simp
    then show ?thesis using Suc True by (auto intro!: nth_eqI simp: nth_list_update le_Suc_eq)
  next
    case False
    then show ?thesis by (intro nth_eqI) auto
  qed
qed

lemma sect_protect_whole:
  assumes u: "uniform base ss n info" and fl: "f \<le> l" "l < n"
    and a: "unat a = base + f * ss" and e: "unat e + 1 = base + Suc l * ss"
  shows "flash_sect_protect p a e \<lparr>flash_info = [info], flash_mem = mem\<rparr> =
    (0, \<lparr>flash_info = [info\<lparr>protect := map (\<lambda>i. if f \<le> i \<and> i \<le> l then p else protect info ! i)
      [0..<length (protect info)]\<rparr>], flash_mem = mem\<rparr>)"
proof -
  have id: "flash_id info \<noteq> FLASH_UNKNOWN" and l: "l < length (protect info)"
    using u fl by (auto simp: uniform_def)
  show ?thesis
    using fill_whole_sectors [OF u fl a e id] id fl fold_upd_range [OF l, of p f]
    by (simp add: flash_sect_protect_def protect_sectors_def del: fill_sect_ranges.simps)
qed

lemma uniform_protect: "uniform base ss n info \<Longrightarrow> length p = length (protect info) \<Longrightarrow> uniform base ss n (info\<lparr>protect := p\<rparr>)"
  by (simp add: uniform_def)

section \<open>Properties\<close>

text \<open>
  C20: \<open>flash_sect_erase\<close> of a range of whole sectors sets exactly these sectors to ones and returns
  success.
\<close>

theorem sect_erase_exact:
  assumes "spi_nor chip" "uniform base 65536 n info" "f \<le> l" "l < n"
    "unat a = base + f * 65536" "unat e + 1 = base + Suc l * 65536"
    "length mem = n * 65536" "length mem \<le> 2 ^ 24"
  shows "flash_sect_erase chip a e \<lparr>flash_info = [info], flash_mem = mem\<rparr> =
    Some (0, \<lparr>flash_info = [info],
      flash_mem = overlay mem (f * 65536) (replicate ((l - f + 1) * 65536) 0xff)\<rparr>)"
  by (rule spi_nor.sect_erase_whole [OF assms])

abbreviation board_bank :: flash_info_t where
  "board_bank \<equiv> snd (flash_get_geom \<lparr>bank_size = 0, sector_count = 0, flash_id = 0, start = [], protect = []\<rparr>)"

theorem sect_erase_exact_witness:
  "flash_sect_erase nor_chip 0x9f050000 0x9f06ffff \<lparr>flash_info = [board_bank], flash_mem = replicate 16777216 0\<rparr> =
    Some (0, \<lparr>flash_info = [board_bank],
      flash_mem = overlay (replicate 16777216 0) 327680 (replicate 131072 0xff)\<rparr>)"
  using sect_erase_exact [OF nor.spi_nor_axioms flash_get_geom_uniform, of 5 6 "0x9f050000" "0x9f06ffff" "replicate 16777216 0"]
  by simp

text \<open>
  A range that starts inside a sector is refused: the code is an error and nothing is erased
  or protected.
\<close>

lemma unaligned_range_refused:
  assumes u: "uniform base ss n info" and r: "a \<le> e" "base \<le> unat a" "unat a + 1 < base + n * ss"
    and na: "(unat a - base) mod ss \<noteq> 0"
  shows "flash_sect_erase chip a e \<lparr>flash_info = [info], flash_mem = mem\<rparr> =
      Some (1, \<lparr>flash_info = [info], flash_mem = mem\<rparr>) \<and>
    flash_sect_protect p a e \<lparr>flash_info = [info], flash_mem = mem\<rparr> =
      (1, \<lparr>flash_info = [info], flash_mem = mem\<rparr>)"
proof -
  have "fst (fill_sect_ranges a e [info]) = 1"
    using u r na by (intro fill_unaligned) (auto simp: uniform_def)
  then show ?thesis
    by (auto simp: flash_sect_erase_def flash_sect_protect_def split: prod.splits)
qed

text \<open>
  \<open>flash_sect_protect\<close> of a range of whole sectors sets the protection of exactly these sectors
  and does not touch the contents.
\<close>

lemma sect_protect_exact:
  assumes "uniform base ss n info" "f \<le> l" "l < n"
    "unat a = base + f * ss" "unat e + 1 = base + Suc l * ss"
  shows "\<exists>pr. flash_sect_protect p a e \<lparr>flash_info = [info], flash_mem = mem\<rparr> =
      (0, \<lparr>flash_info = [info\<lparr>protect := pr\<rparr>], flash_mem = mem\<rparr>) \<and>
    length pr = length (protect info) \<and>
    (\<forall>i<length pr. pr ! i = (if f \<le> i \<and> i \<le> l then p else protect info ! i))"
  by (intro exI [of _ "map (\<lambda>i. if f \<le> i \<and> i \<le> l then p else protect info ! i) [0..<length (protect info)]"])
    (simp add: sect_protect_whole [OF assms])

end
