(* ===== verification/Devices.thy ===== *)
theory Devices
  imports CString Vsprintf
begin

text \<open>
  Console devices and Ethernet devices, as far as the environment commands reach them:
  \<open>common/devices.c\<close> (registration, removal), \<open>common/console.c\<close> (assignment of a device to a
  standard file) and the device ring of \<open>net/eth.c\<close> with \<open>eth_set_enetaddr\<close>. A device pointer is
  an index into the device list; the Ethernet ring is the list of its devices in ring order, with
  the successor of the last device being the first one.
\<close>

section \<open>Console devices\<close>

text \<open>\<open>dev_start\<close> is the \<open>start\<close> routine: \<open>None\<close> when there is none, otherwise what it returns.\<close>

record device_t =
  dev_flags :: u32
  dev_name :: bytes
  dev_start :: "int option"

abbreviation (input) DEV_FLAGS_INPUT :: u32 where "DEV_FLAGS_INPUT \<equiv> 1"
abbreviation (input) DEV_FLAGS_OUTPUT :: u32 where "DEV_FLAGS_OUTPUT \<equiv> 2"

text \<open>
  The standard files \<open>stdin\<close>, \<open>stdout\<close>, \<open>stderr\<close> are 0, 1, 2. \<open>jt_in\<close> and \<open>jt_out\<close> are the
  devices whose routines the jump table of exported functions holds.
\<close>

record console =
  devlist :: "device_t list"
  stdio_devices :: "nat option list"
  jt_in :: "nat option"
  jt_out :: "nat option"

definition device_register :: "device_t \<Rightarrow> console \<Rightarrow> console" where
  "device_register dev c = c\<lparr>devlist := devlist c @ [dev]\<rparr>"

definition console_setfile :: "int \<Rightarrow> nat option \<Rightarrow> console \<Rightarrow> (int \<times> console) option" where
  "console_setfile file dev c = (case dev of
      None \<Rightarrow> Some (-1, c)
    | Some d \<Rightarrow>
        if file = 0 \<or> file = 1 \<or> file = 2 then do {
          r \<leftarrow> rd (devlist c) d;
          let error = (case dev_start r of None \<Rightarrow> 0 | Some e \<Rightarrow> e);
          if error < 0 then Some (error, c)
          else do {
            files \<leftarrow> wr (stdio_devices c) (nat file) (Some d);
            let c = c\<lparr>stdio_devices := files\<rparr>;
            Some (error, if file = 0 then c\<lparr>jt_in := Some d\<rparr>
                         else if file = 1 then c\<lparr>jt_out := Some d\<rparr> else c)
          }
        }
        else Some (-1, c))"

text \<open>The search for a device of the given name, from index \<open>i\<close> on.\<close>

fun console_find :: "bytes \<Rightarrow> u32 \<Rightarrow> int \<Rightarrow> console \<Rightarrow> device_t list \<Rightarrow> nat \<Rightarrow> (int \<times> console) option" where
  "console_find devname flag file c [] i = Some (-1, c)"
| "console_find devname flag file c (dev # devs) i = (case strcmp devname (dev_name dev) of
      None \<Rightarrow> None
    | Some r \<Rightarrow>
        if r = 0 then
          (if dev_flags dev AND flag \<noteq> 0 then console_setfile file (Some i) c else Some (-1, c))
        else console_find devname flag file c devs (Suc i))"

definition console_assign :: "int \<Rightarrow> bytes \<Rightarrow> console \<Rightarrow> (int \<times> console) option" where
  "console_assign file devname c =
     (if file = 0 then console_find devname DEV_FLAGS_INPUT file c (devlist c) 0
      else if file = 1 \<or> file = 2 then console_find devname DEV_FLAGS_OUTPUT file c (devlist c) 0
      else Some (-1, c))"

section \<open>Ethernet devices\<close>

datatype eth_state = ETH_STATE_INIT | ETH_STATE_PASSIVE | ETH_STATE_ACTIVE

record eth_device =
  eth_name :: bytes
  enetaddr :: bytes
  eth_state :: eth_state

text \<open>
  The ring in order from \<open>eth_devices\<close> on; \<open>eth_current\<close> is an index into it, and \<open>NULL\<close> exactly
  if the ring is empty. \<open>first_failed\<close> is the static variable of \<open>eth_try_another\<close>.
\<close>

record eth =
  eth_devices :: "eth_device list"
  eth_current :: nat
  first_failed :: "nat option"
  NetRestartWrap :: bool

text \<open>
  The address parser shared by \<open>eth_set_enetaddr\<close>, \<open>eth_initialize\<close> and \<open>_do_setenv\<close>: \<open>n\<close>
  numbers, each followed by one separator character; a \<open>NULL\<close> string gives zeros.
\<close>

fun parse_octets :: "nat \<Rightarrow> u32 \<Rightarrow> bytes option \<Rightarrow> u32 list option" where
  "parse_octets 0 base s = Some []"
| "parse_octets (Suc n) base None = map_option ((#) 0) (parse_octets n base None)"
| "parse_octets (Suc n) base (Some s) = do {
     (v, e) \<leftarrow> simple_strtoul s base;
     c \<leftarrow> rd e 0;
     vs \<leftarrow> parse_octets n base (Some (if c \<noteq> 0 then tl e else e));
     Some (v # vs) }"

definition parse_enetaddr :: "bytes option \<Rightarrow> bytes option" where
  "parse_enetaddr addr = map_option (map ucast) (parse_octets 6 16 addr)"

definition eth_set_enetaddr :: "int \<Rightarrow> bytes option \<Rightarrow> eth \<Rightarrow> eth option" where
  "eth_set_enetaddr num addr e =
     (if eth_devices e = [] then Some e
      else do {
        mac \<leftarrow> parse_enetaddr addr;
        Some (if nat num < length (eth_devices e)
              then e\<lparr>eth_devices := (eth_devices e)[nat num := (eth_devices e ! nat num)\<lparr>enetaddr := mac\<rparr>]\<rparr>
              else e) })"

section \<open>Facts\<close>

text \<open>Assignment never changes which devices exist, and only valid devices become current.\<close>

definition console_wf :: "console \<Rightarrow> bool" where
  "console_wf c \<longleftrightarrow> length (stdio_devices c) = 3 \<and>
     (\<forall>d. Some d \<in> set (stdio_devices c) \<longrightarrow> d < length (devlist c))"

lemma console_setfile_wf:
  "console_setfile file dev c = Some (r, c') \<Longrightarrow> console_wf c \<Longrightarrow>
     console_wf c' \<and> devlist c' = devlist c"
  by (auto simp: console_setfile_def console_wf_def c_mem_iff Let_def set_update_subset_insert
      split: option.splits if_splits dest!: set_update_subset_insert [THEN subsetD])

lemma console_find_wf:
  "console_find devname flag file c devs i = Some (r, c') \<Longrightarrow> console_wf c \<Longrightarrow>
     console_wf c' \<and> devlist c' = devlist c"
  by (induction devs arbitrary: i)
    (auto split: option.splits if_splits dest: console_setfile_wf)

lemma console_assign_wf:
  "console_assign file devname c = Some (r, c') \<Longrightarrow> console_wf c \<Longrightarrow>
     console_wf c' \<and> devlist c' = devlist c"
  by (auto simp: console_assign_def split: if_splits dest: console_find_wf)

text \<open>Parsing a terminated string always succeeds.\<close>

lemma strtoul_loop_rest:
  "\<exists>v a. \<forall>r. strtoul_loop (s @ 0 # r) base acc = Some (v, drop a s @ 0 # r)"
proof (induction s arbitrary: acc)
  case Nil
  have "\<forall>r. strtoul_loop ([] @ 0 # r) base acc = Some (acc, drop 0 [] @ 0 # r)" by simp
  then show ?case by blast
next
  case (Cons c s)
  show ?case
  proof (cases "isxdigit c \<and> digit_val c < base")
    case True
    obtain v a where "\<forall>r. strtoul_loop (s @ 0 # r) base (acc * base + digit_val c) = Some (v, drop a s @ 0 # r)"
      using Cons.IH by blast
    with True have "\<forall>r. strtoul_loop ((c # s) @ 0 # r) base acc = Some (v, drop (Suc a) (c # s) @ 0 # r)"
      by simp
    then show ?thesis by blast
  next
    case False
    then have "\<forall>r. strtoul_loop ((c # s) @ 0 # r) base acc = Some (acc, drop 0 (c # s) @ 0 # r)" by auto
    then show ?thesis by blast
  qed
qed

text \<open>The number read does not depend on what follows the terminator.\<close>

lemma simple_strtoul_any_rest:
  "\<exists>v a. \<forall>r. simple_strtoul (s @ 0 # r) base = Some (v, drop a s @ 0 # r)"
proof -
  have skip: "\<exists>v a. \<forall>r. strtoul_loop (drop k s @ 0 # r) b 0 = Some (v, drop a s @ 0 # r)" for k b
    using strtoul_loop_rest [of "drop k s" b 0] by (metis drop_drop)
  have "simple_strtoul (s @ 0 # r) base =
    (if s \<noteq> [] \<and> hd s = ch (CHR ''0'') then
       (if 2 < length s \<and> s ! 1 = ch (CHR ''x'') \<and> isxdigit (s ! 2)
        then strtoul_loop (drop 2 s @ 0 # r) 16 0
        else strtoul_loop (drop 1 s @ 0 # r) (if base = 0 then 8 else base) 0)
     else strtoul_loop (drop 0 s @ 0 # r) (if base = 0 then 10 else base) 0)" for r
    by (cases s; cases "tl s"; cases "tl (tl s)")
      (simp_all add: simple_strtoul_def ch_def del: strtoul_loop.simps)
  then have "\<exists>k b. \<forall>r. simple_strtoul (s @ 0 # r) base = strtoul_loop (drop k s @ 0 # r) b 0" by metis
  then show ?thesis using skip by metis
qed

lemma simple_strtoul_rest:
  "\<exists>v a. simple_strtoul (s @ 0 # r) base = Some (v, drop a s @ 0 # r)"
  using simple_strtoul_any_rest by blast

lemma parse_octets_total: "\<exists>vs. parse_octets n base (Some (s @ 0 # r)) = Some vs \<and> length vs = n"
proof (induction n arbitrary: s)
  case (Suc n)
  obtain v a where v: "simple_strtoul (s @ 0 # r) base = Some (v, drop a s @ 0 # r)"
    using simple_strtoul_rest by blast
  show ?case
  proof (cases "drop a s")
    case Nil
    then show ?thesis using v Suc.IH [of "[]"] by auto
  next
    case (Cons c t)
    then show ?thesis using v Suc.IH [of t] Suc.IH [of "c # t"] by auto
  qed
qed simp

lemma parse_octets_NULL: "parse_octets n base None = Some (replicate n 0)"
  by (induction n) auto

lemma parse_enetaddr_total:
  "\<exists>mac. parse_enetaddr (Some (s @ 0 # r)) = Some mac \<and> length mac = 6"
  using parse_octets_total [of 6 16 s r] by (auto simp: parse_enetaddr_def)

lemma parse_enetaddr_NULL: "parse_enetaddr None = Some (replicate 6 0)"
  by (simp add: parse_enetaddr_def parse_octets_NULL)

lemma eth_set_enetaddr_total: "\<exists>e'. eth_set_enetaddr num (Some (s @ 0 # r)) e = Some e'"
  using parse_enetaddr_total [of s r] by (auto simp: eth_set_enetaddr_def)

lemma eth_set_enetaddr_names:
  "eth_set_enetaddr num addr e = Some e' \<Longrightarrow>
     map eth_name (eth_devices e') = map eth_name (eth_devices e) \<and> eth_current e' = eth_current e"
  by (auto simp: eth_set_enetaddr_def c_mem_iff map_update list_update_same_conv
      split: if_splits)

end
