(* ===== verification/Crc32.thy ===== *)
theory Crc32
  imports UB_Prelude
begin

text \<open>
  The checksum of environments and images, \<open>lib_generic/crc32.c\<close>: the table that is compiled
  in, the table generator of the \<open>DYNAMIC_CRC_TABLE\<close> variant, and the table-driven update with
  its eight-fold unrolling. \<open>crc_bit\<close> is the shift register the comment in the source
  describes; it is the reference the table-driven code is compared with.
\<close>

section \<open>The table\<close>

definition crc_poly_terms :: "nat list" where
  "crc_poly_terms = [0,1,2,4,5,7,8,10,11,12,16,22,23,26]"

definition crc_poly :: u32 where
  "crc_poly = fold (\<lambda>t poly. poly OR push_bit (31 - t) 1) crc_poly_terms 0"

definition crc_bit :: "u32 \<Rightarrow> u32" where
  "crc_bit c = (if c AND 1 \<noteq> 0 then crc_poly XOR drop_bit 1 c else drop_bit 1 c)"

definition make_crc_table :: "u32 list" where
  "make_crc_table = map (\<lambda>n. (crc_bit ^^ 8) (of_nat n)) [0..<256]"

definition crc_table :: "u32 list" where
  "crc_table =
    [0x00000000, 0x77073096, 0xee0e612c, 0x990951ba, 0x076dc419, 0x706af48f, 0xe963a535, 0x9e6495a3,
     0x0edb8832, 0x79dcb8a4, 0xe0d5e91e, 0x97d2d988, 0x09b64c2b, 0x7eb17cbd, 0xe7b82d07, 0x90bf1d91,
     0x1db71064, 0x6ab020f2, 0xf3b97148, 0x84be41de, 0x1adad47d, 0x6ddde4eb, 0xf4d4b551, 0x83d385c7,
     0x136c9856, 0x646ba8c0, 0xfd62f97a, 0x8a65c9ec, 0x14015c4f, 0x63066cd9, 0xfa0f3d63, 0x8d080df5,
     0x3b6e20c8, 0x4c69105e, 0xd56041e4, 0xa2677172, 0x3c03e4d1, 0x4b04d447, 0xd20d85fd, 0xa50ab56b,
     0x35b5a8fa, 0x42b2986c, 0xdbbbc9d6, 0xacbcf940, 0x32d86ce3, 0x45df5c75, 0xdcd60dcf, 0xabd13d59,
     0x26d930ac, 0x51de003a, 0xc8d75180, 0xbfd06116, 0x21b4f4b5, 0x56b3c423, 0xcfba9599, 0xb8bda50f,
     0x2802b89e, 0x5f058808, 0xc60cd9b2, 0xb10be924, 0x2f6f7c87, 0x58684c11, 0xc1611dab, 0xb6662d3d,
     0x76dc4190, 0x01db7106, 0x98d220bc, 0xefd5102a, 0x71b18589, 0x06b6b51f, 0x9fbfe4a5, 0xe8b8d433,
     0x7807c9a2, 0x0f00f934, 0x9609a88e, 0xe10e9818, 0x7f6a0dbb, 0x086d3d2d, 0x91646c97, 0xe6635c01,
     0x6b6b51f4, 0x1c6c6162, 0x856530d8, 0xf262004e, 0x6c0695ed, 0x1b01a57b, 0x8208f4c1, 0xf50fc457,
     0x65b0d9c6, 0x12b7e950, 0x8bbeb8ea, 0xfcb9887c, 0x62dd1ddf, 0x15da2d49, 0x8cd37cf3, 0xfbd44c65,
     0x4db26158, 0x3ab551ce, 0xa3bc0074, 0xd4bb30e2, 0x4adfa541, 0x3dd895d7, 0xa4d1c46d, 0xd3d6f4fb,
     0x4369e96a, 0x346ed9fc, 0xad678846, 0xda60b8d0, 0x44042d73, 0x33031de5, 0xaa0a4c5f, 0xdd0d7cc9,
     0x5005713c, 0x270241aa, 0xbe0b1010, 0xc90c2086, 0x5768b525, 0x206f85b3, 0xb966d409, 0xce61e49f,
     0x5edef90e, 0x29d9c998, 0xb0d09822, 0xc7d7a8b4, 0x59b33d17, 0x2eb40d81, 0xb7bd5c3b, 0xc0ba6cad,
     0xedb88320, 0x9abfb3b6, 0x03b6e20c, 0x74b1d29a, 0xead54739, 0x9dd277af, 0x04db2615, 0x73dc1683,
     0xe3630b12, 0x94643b84, 0x0d6d6a3e, 0x7a6a5aa8, 0xe40ecf0b, 0x9309ff9d, 0x0a00ae27, 0x7d079eb1,
     0xf00f9344, 0x8708a3d2, 0x1e01f268, 0x6906c2fe, 0xf762575d, 0x806567cb, 0x196c3671, 0x6e6b06e7,
     0xfed41b76, 0x89d32be0, 0x10da7a5a, 0x67dd4acc, 0xf9b9df6f, 0x8ebeeff9, 0x17b7be43, 0x60b08ed5,
     0xd6d6a3e8, 0xa1d1937e, 0x38d8c2c4, 0x4fdff252, 0xd1bb67f1, 0xa6bc5767, 0x3fb506dd, 0x48b2364b,
     0xd80d2bda, 0xaf0a1b4c, 0x36034af6, 0x41047a60, 0xdf60efc3, 0xa867df55, 0x316e8eef, 0x4669be79,
     0xcb61b38c, 0xbc66831a, 0x256fd2a0, 0x5268e236, 0xcc0c7795, 0xbb0b4703, 0x220216b9, 0x5505262f,
     0xc5ba3bbe, 0xb2bd0b28, 0x2bb45a92, 0x5cb36a04, 0xc2d7ffa7, 0xb5d0cf31, 0x2cd99e8b, 0x5bdeae1d,
     0x9b64c2b0, 0xec63f226, 0x756aa39c, 0x026d930a, 0x9c0906a9, 0xeb0e363f, 0x72076785, 0x05005713,
     0x95bf4a82, 0xe2b87a14, 0x7bb12bae, 0x0cb61b38, 0x92d28e9b, 0xe5d5be0d, 0x7cdcefb7, 0x0bdbdf21,
     0x86d3d2d4, 0xf1d4e242, 0x68ddb3f8, 0x1fda836e, 0x81be16cd, 0xf6b9265b, 0x6fb077e1, 0x18b74777,
     0x88085ae6, 0xff0f6a70, 0x66063bca, 0x11010b5c, 0x8f659eff, 0xf862ae69, 0x616bffd3, 0x166ccf45,
     0xa00ae278, 0xd70dd2ee, 0x4e048354, 0x3903b3c2, 0xa7672661, 0xd06016f7, 0x4969474d, 0x3e6e77db,
     0xaed16a4a, 0xd9d65adc, 0x40df0b66, 0x37d83bf0, 0xa9bcae53, 0xdebb9ec5, 0x47b2cf7f, 0x30b5ffe9,
     0xbdbdf21c, 0xcabac28a, 0x53b39330, 0x24b4a3a6, 0xbad03605, 0xcdd70693, 0x54de5729, 0x23d967bf,
     0xb3667a2e, 0xc4614ab8, 0x5d681b02, 0x2a6f2b94, 0xb40bbe37, 0xc30c8ea1, 0x5a05df1b, 0x2d02ef8d]"

section \<open>The update\<close>

definition DO1 :: "u32 \<Rightarrow> byte \<Rightarrow> u32" where
  "DO1 crc b = crc_table ! unat ((crc XOR ucast b) AND 0xff) XOR drop_bit 8 crc"

definition DO8 :: "u32 \<Rightarrow> bytes \<Rightarrow> u32" where
  "DO8 crc buf =
     DO1 (DO1 (DO1 (DO1 (DO1 (DO1 (DO1 (DO1 crc (buf ! 0)) (buf ! 1)) (buf ! 2)) (buf ! 3))
       (buf ! 4)) (buf ! 5)) (buf ! 6)) (buf ! 7)"

fun crc32_tail :: "u32 \<Rightarrow> bytes \<Rightarrow> u32" where
  "crc32_tail crc [] = crc"
| "crc32_tail crc (b # buf) = crc32_tail (DO1 crc b) buf"

text \<open>\<open>while (len >= 8) { DO8(buf); len -= 8; }\<close> and the remaining bytes one by one.\<close>

function crc32_loop :: "u32 \<Rightarrow> bytes \<Rightarrow> u32" where
  "crc32_loop crc buf =
     (if length buf \<ge> 8 then crc32_loop (DO8 crc buf) (drop 8 buf) else crc32_tail crc buf)"
  by pat_completeness auto
termination
  by (relation "measure (length \<circ> snd)") auto

declare crc32_loop.simps [simp del]

definition crc32_no_comp :: "u32 \<Rightarrow> bytes \<Rightarrow> u32" where
  "crc32_no_comp crc buf = crc32_loop crc buf"

definition crc32 :: "u32 \<Rightarrow> bytes \<Rightarrow> u32" where
  "crc32 crc buf = crc32_loop (crc XOR 0xffffffff) buf XOR 0xffffffff"

section \<open>The reference: a shift register, bit by bit\<close>

definition crc_byte_ref :: "u32 \<Rightarrow> byte \<Rightarrow> u32" where
  "crc_byte_ref crc b = (crc_bit ^^ 8) (crc XOR ucast b)"

definition crc32_ref :: "bytes \<Rightarrow> u32" where
  "crc32_ref buf = foldl crc_byte_ref 0xffffffff buf XOR 0xffffffff"

lemma crc_poly_eq: "crc_poly = 0xedb88320"
  by (simp add: crc_poly_def crc_poly_terms_def)

lemma crc_bits8: "(crc_bit ^^ 8) c =
  crc_bit (crc_bit (crc_bit (crc_bit (crc_bit (crc_bit (crc_bit (crc_bit c)))))))"
  by (simp add: eval_nat_numeral)

text \<open>The register step is linear over exclusive or, so eight single-bit bytes determine the table.\<close>

lemma crc_bit_xor: "crc_bit (a XOR b) = crc_bit a XOR crc_bit b"
proof -
  have odd: "c AND 1 \<noteq> 0 \<longleftrightarrow> odd c" for c :: u32
    by (simp add: and_one_eq odd_iff_mod_2_eq_one)
  show ?thesis
    unfolding crc_bit_def odd
    by (auto simp: drop_bit_xor even_xor_iff xor.assoc xor.left_commute xor.commute)
qed

lemma crc_bit_zero: "crc_bit 0 = 0"
  by (simp add: crc_bit_def)

lemma crc_bits8_xor: "(crc_bit ^^ 8) (a XOR b) = (crc_bit ^^ 8) a XOR (crc_bit ^^ 8) b"
  by (simp only: crc_bits8 crc_bit_xor)

lemma crc_bit_chain:
  "crc_bit 0x80 = 0x40" "crc_bit 0x40 = 0x20" "crc_bit 0x20 = 0x10" "crc_bit 0x10 = 0x8"
  "crc_bit 0x8 = 0x4" "crc_bit 0x4 = 0x2" "crc_bit 0x2 = 1" "crc_bit 1 = 0xedb88320" "crc_bit
  0xedb88320 = 0x76dc4190" "crc_bit 0x76dc4190 = 0x3b6e20c8" "crc_bit 0x3b6e20c8 = 0x1db71064"
  "crc_bit 0x1db71064 = 0xedb8832" "crc_bit 0xedb8832 = 0x76dc419" "crc_bit 0x76dc419 =
  0xee0e612c" "crc_bit 0xee0e612c = 0x77073096"
  by (simp_all add: crc_bit_def crc_poly_eq)

lemma crc_basis:
  "map (crc_bit ^^ 8) [1, 2, 4, 8, 16, 32, 64, 128] =
     [0x77073096, 0xee0e612c, 0x76dc419, 0xedb8832, 0x1db71064, 0x3b6e20c8, 0x76dc4190, 0xedb88320]"
  by (simp only: list.map crc_bits8 crc_bit_chain)

text \<open>The tables over the bytes below \<open>2 ^ k\<close>, by doubling.\<close>

lemma of_nat_power_xor: "n < 2 ^ k \<Longrightarrow> k < 32 \<Longrightarrow> (of_nat (2 ^ k + n) :: u32) = of_nat n XOR of_nat (2 ^ k)"
proof -
  assume n: "n < 2 ^ k" and k: "k < 32"
  have "\<not> bit n k" using n by (simp add: bit_iff_odd)
  then have "(of_nat n :: u32) AND 2 ^ k = 0"
    using k by (auto intro!: bit_eqI simp: bit_simps)
  then have "(of_nat n :: u32) + 2 ^ k = of_nat n XOR 2 ^ k"
    by (rule disjunctive_add_eq_xor)
  then show ?thesis by (simp add: add.commute)
qed

lemma crc_double:
  assumes xs: "map (\<lambda>n. (crc_bit ^^ 8) (of_nat n)) [0..<2 ^ k] = xs"
    and t: "(crc_bit ^^ 8) (of_nat (2 ^ k)) = t" and k: "k < 32"
  shows "map (\<lambda>n. (crc_bit ^^ 8) (of_nat n)) [0..<2 ^ Suc k] = xs @ map (\<lambda>x. x XOR t) xs"
proof -
  have "[0..<2 ^ Suc k] = [0..<2 ^ k] @ map (\<lambda>n. 2 ^ k + n) [0..<(2 ^ k :: nat)]"
    using upt_add_eq_append [of 0 "2 ^ k" "2 ^ k"] map_add_upt [of "2 ^ k" "2 ^ k"]
    by (simp add: mult_2 add.commute)
  then show ?thesis
    using k by (simp add: xs [symmetric] t [symmetric] of_nat_power_xor crc_bits8_xor del: of_nat_add of_nat_power)
qed

definition crc_basis_list :: "u32 list" where
  "crc_basis_list = [0x77073096, 0xee0e612c, 0x76dc419, 0xedb8832, 0x1db71064, 0x3b6e20c8, 0x76dc4190, 0xedb88320]"

lemma crc_basis_nth: "k < 8 \<Longrightarrow> (crc_bit ^^ 8) (of_nat (2 ^ k)) = crc_basis_list ! k"
proof -
  assume k: "k < 8"
  have p: "map (\<lambda>k. of_nat (2 ^ k)) [0..<8] = [1, 2, 4, 8, 16, 32, 64, 128 :: u32]"
    by (simp add: upt_rec)
  have "(crc_bit ^^ 8) (of_nat (2 ^ k)) = map (crc_bit ^^ 8) (map (\<lambda>k. of_nat (2 ^ k)) [0..<8]) ! k"
    using k by simp
  then show ?thesis by (simp only: p crc_basis crc_basis_list_def)
qed

lemma crc_table_upto:
  "k \<le> 8 \<Longrightarrow> map (\<lambda>n. (crc_bit ^^ 8) (of_nat n)) [0..<2 ^ k] =
     foldl (\<lambda>xs t. xs @ map (\<lambda>x. x XOR t) xs) [0] (take k crc_basis_list)"
proof (induction k)
  case 0
  then show ?case by (simp add: crc_bits8 crc_bit_zero)
next
  case (Suc k)
  have "take (Suc k) crc_basis_list = take k crc_basis_list @ [crc_basis_list ! k]"
    using Suc.prems by (intro take_Suc_conv_app_nth) (simp add: crc_basis_list_def)
  then show ?case
    using crc_double [OF _ crc_basis_nth, of k] Suc by simp
qed

lemma crc_table_eq: "crc_table = make_crc_table"
proof -
  have "make_crc_table = foldl (\<lambda>xs t. xs @ map (\<lambda>x. x XOR t) xs) [0] (take 8 crc_basis_list)"
    using crc_table_upto [of 8] by (simp add: make_crc_table_def)
  also have "\<dots> = crc_table"
    by (simp add: crc_basis_list_def crc_table_def)
  finally show ?thesis ..
qed

section \<open>The table-driven update is the shift register\<close>

lemma crc_bits_low_zero: "take_bit k c = 0 \<Longrightarrow> (crc_bit ^^ k) c = drop_bit k c"
proof (induction k)
  case (Suc k)
  have nb: "\<not> bit c n" if "n < Suc k" for n
    using Suc.prems that bit_take_bit_iff [of "Suc k" c n] by simp
  then have b: "\<not> bit c k" and "take_bit k c = 0"
    by (auto intro!: bit_eqI simp: bit_simps)
  then have "(crc_bit ^^ k) c = drop_bit k c"
    by (simp add: Suc.IH)
  moreover have "drop_bit k c AND 1 = 0"
    using b by (simp add: and_one_eq bit_iff_odd_drop_bit even_iff_mod_2_eq_zero)
  ultimately have "(crc_bit ^^ Suc k) c = drop_bit 1 (drop_bit k c)"
    by (simp add: crc_bit_def [of "drop_bit k c"])
  then show ?case by simp
qed simp

lemma crc_table_length: "length crc_table = 256"
  by (simp add: crc_table_eq make_crc_table_def)

lemma crc_table_nth: "n < 256 \<Longrightarrow> crc_table ! n = (crc_bit ^^ 8) (of_nat n)"
  by (simp add: crc_table_eq make_crc_table_def)

lemma DO1_ref: "DO1 crc b = crc_byte_ref crc b"
proof -
  let ?x = "crc XOR ucast b"
  let ?lo = "?x AND 0xff" and ?hi = "?x AND NOT 0xff"
  have mask: "(0xff :: u32) = mask 8" by (simp add: mask_eq_exp_minus_1)
  have split: "?x = ?lo XOR ?hi"
    by (rule bit_eqI) (auto simp: bit_simps)
  have hi: "(crc_bit ^^ 8) ?hi = drop_bit 8 crc"
  proof -
    have "take_bit 8 ?hi = 0"
      by (rule bit_eqI) (auto simp: mask bit_simps)
    moreover have "drop_bit 8 ?hi = drop_bit 8 crc"
      by (rule bit_eqI) (auto simp: mask bit_simps dest: bit_imp_le_length)
    ultimately show ?thesis by (simp add: crc_bits_low_zero)
  qed
  have lo: "(crc_bit ^^ 8) ?lo = crc_table ! unat ?lo"
    by (simp add: crc_table_nth unat_and_255)
  have "crc_byte_ref crc b = (crc_bit ^^ 8) (?lo XOR ?hi)"
    unfolding crc_byte_ref_def using split by simp
  then show ?thesis
    by (simp only: crc_bits8_xor hi lo DO1_def)
qed

lemma DO8_eq: "8 \<le> length buf \<Longrightarrow> DO8 crc buf = foldl DO1 crc (take 8 buf)"
proof -
  assume "8 \<le> length buf"
  then obtain b0 b1 b2 b3 b4 b5 b6 b7 r where "buf = b0 # b1 # b2 # b3 # b4 # b5 # b6 # b7 # r"
    by (auto simp: numeral_eq_Suc Suc_le_length_iff)
  then show ?thesis by (simp add: DO8_def)
qed

lemma crc32_tail_eq: "crc32_tail crc buf = foldl DO1 crc buf"
  by (induction crc buf rule: crc32_tail.induct) auto

lemma crc32_loop_eq: "crc32_loop crc buf = foldl DO1 crc buf"
proof (induction crc buf rule: crc32_loop.induct)
  case (1 crc buf)
  show ?case
  proof (cases "8 \<le> length buf")
    case True
    then have "crc32_loop crc buf = foldl DO1 (foldl DO1 crc (take 8 buf)) (drop 8 buf)"
      using 1 by (simp add: crc32_loop.simps [of crc] DO8_eq)
    also have "\<dots> = foldl DO1 crc (take 8 buf @ drop 8 buf)"
      by (simp only: foldl_append)
    finally show ?thesis by simp
  next
    case False
    then show ?thesis by (simp add: crc32_loop.simps [of crc] crc32_tail_eq)
  qed
qed

lemma crc32_fold: "crc32 crc buf = foldl crc_byte_ref (crc XOR 0xffffffff) buf XOR 0xffffffff"
proof -
  have "DO1 = crc_byte_ref" by (intro ext) (rule DO1_ref)
  then show ?thesis by (simp add: crc32_def crc32_loop_eq)
qed

section \<open>Error detection\<close>

lemma xor_eq_zero: "(a XOR b = 0) = (a = (b :: u32))"
  by (auto simp: bit_eq_iff bit_simps)

lemma xor_left_cancel: "(a XOR b = a XOR c) = (b = (c :: u32))"
  by (auto simp: bit_eq_iff bit_simps)

lemma crc_bit_inj: "crc_bit a = crc_bit b \<Longrightarrow> a = b"
proof -
  have kernel: "c = 0" if "crc_bit c = 0" for c
  proof (cases "c AND 1 = 0")
    case True
    with that have "drop_bit 1 c = 0" "even c"
      by (auto simp: crc_bit_def and_one_eq even_iff_mod_2_eq_zero)
    then show ?thesis using div_mult_mod_eq [of c 2] by (simp add: drop_bit_Suc even_iff_mod_2_eq_zero)
  next
    case False
    with that have "crc_poly XOR drop_bit 1 c = 0" by (simp add: crc_bit_def)
    then have "crc_poly = drop_bit 1 c" by (simp only: xor_eq_zero)
    then have "drop_bit 1 c = crc_poly" ..
    then have "bit (drop_bit 1 c) 31" by (simp add: crc_poly_eq)
    then have "bit c 32" by (simp add: bit_simps)
    then show ?thesis using bit_imp_le_length [of c 32] by simp
  qed
  assume "crc_bit a = crc_bit b"
  then have "crc_bit (a XOR b) = 0" by (simp add: crc_bit_xor)
  then have "a XOR b = 0" by (rule kernel)
  then show "a = b" by (simp only: xor_eq_zero)
qed

lemma crc_bits8_inj: "(crc_bit ^^ 8) a = (crc_bit ^^ 8) b \<longleftrightarrow> a = b"
  by (metis crc_bits8 crc_bit_inj)

lemma ucast_byte_inj: "(ucast (b :: byte) :: u32) = ucast b' \<longleftrightarrow> b = b'"
proof -
  have "(ucast (ucast x :: u32) :: byte) = x" for x :: byte
    by (simp add: ucast_up_ucast_id is_up)
  then show ?thesis by metis
qed

lemma crc_byte_ref_byte_inj: "crc_byte_ref c b = crc_byte_ref c b' \<longleftrightarrow> b = b'"
  by (simp add: crc_byte_ref_def crc_bits8_inj xor_left_cancel ucast_byte_inj)

lemma crc_byte_ref_reg_inj: "crc_byte_ref c b = crc_byte_ref c' b \<longleftrightarrow> c = c'"
  by (simp add: crc_byte_ref_def crc_bits8_inj xor_left_cancel xor.commute [of _ "ucast b"])

lemma crc_fold_reg_inj: "foldl crc_byte_ref c xs = foldl crc_byte_ref c' xs \<longleftrightarrow> c = c'"
  by (induction xs arbitrary: c c') (auto simp: crc_byte_ref_reg_inj)

lemma crc32_inj_byte: "crc32 c (xs @ b # ys) = crc32 c (xs @ b' # ys) \<longleftrightarrow> b = b'"
  by (simp add: crc32_fold xor_left_cancel xor.commute [of _ "0xffffffff"] crc_fold_reg_inj
      crc_byte_ref_byte_inj)

section \<open>Properties\<close>

text \<open>
  The table compiled into the program is the table the commented-out \<open>make_crc_table\<close>
  computes: entry \<open>n\<close> is the register after eight shifts of \<open>n\<close> with the polynomial of the
  comment.
\<close>

lemma crc_table_is_generated: "crc_table = make_crc_table"
  by (rule crc_table_eq)

text \<open>
  C4: \<open>crc32\<close>, which works on eight bytes at a time through the table, computes the CRC-32 of the
  bit-serial shift register; and it can be continued: the checksum of a buffer is the checksum of
  its second part started with that of the first.
\<close>

theorem crc32_refines_shift_register:
  "crc32 0 buf = crc32_ref buf \<and> crc32 c (a @ b) = crc32 (crc32 c a) b"
  by (simp add: crc32_fold crc32_ref_def xor.assoc)

text \<open>
  The checksum detects every change of a single byte, wherever it is and whatever the other
  bytes are.
\<close>

lemma crc32_detects_byte_error:
  assumes "b \<noteq> b'"
  shows "crc32 c (xs @ b # ys) \<noteq> crc32 c (xs @ b' # ys)"
  using assms by (simp add: crc32_inj_byte)

end
