(* ===== verification/Environment.thy ===== *)
theory Environment
  imports EnvImage FlashCmd Devices Crc32
begin

text \<open>
  The environment commands of \<open>common/cmd_nvedit.c\<close> and the access functions of
  \<open>common/env_common.c\<close>, over the state of the boot loader they reach: the two environment
  fields of the global data, the RAM copy \<open>*env_ptr\<close>, the built-in default, the flash, the
  console and Ethernet devices, and the variables that follow an environment variable.

  \<open>ENV_SIZE\<close> is the size of \<open>env_ptr->data\<close>, so it is the length of that array. A list
  \<open>argv\<close> of optional strings is the argument vector; an entry past its end is \<open>NULL\<close>. \<open>con_in\<close>
  are the characters still to come from the console; waiting for more than there are does not
  return and is \<open>None\<close>, as is any access outside an object.
\<close>

text \<open>Where \<open>gd->env_addr\<close> points: the default, the data in flash, or the RAM copy.\<close>

datatype env_loc = LocDefault | LocFlash | LocRam

record ub =
  env_valid :: nat
  env_addr :: env_loc
  ptr_crc :: u32
  env_data :: bytes
  default_environment :: bytes
  flash_st :: flash
  con :: console
  eths :: eth
  baudrate :: u32
  bi_enetaddr :: bytes
  bi_ip_addr :: u32
  load_addr :: u32
  BootFile :: bytes
  con_in :: bytes

abbreviation ENV_SIZE :: "ub \<Rightarrow> nat" where "ENV_SIZE u \<equiv> length (env_data u)"
abbreviation CFG_ENV_SIZE :: "ub \<Rightarrow> nat" where "CFG_ENV_SIZE u \<equiv> length (env_data u) + 4"

definition CFG_ENV_ADDR :: u32 where "CFG_ENV_ADDR = 0x9f040000"

text \<open>The environment in flash starts at this offset of the chip; its data follow the checksum.\<close>

definition env_offset :: nat where "env_offset = unat (CFG_ENV_ADDR - CFG_FLASH_BASE)"

definition baudrate_table :: "u32 list" where
  "baudrate_table = [300, 1200, 2400, 4800, 9600, 14400, 19200, 28800, 38400, 56000, 57600,
     115200, 128000, 230400, 250000, 256000, 460800, 500000, 576000, 921600,
     1000000, 1152000, 1500000, 2000000, 3000000]"

section \<open>Access\<close>

text \<open>The object the environment is read from, from the environment's first byte on.\<close>

definition env_mem :: "ub \<Rightarrow> bytes" where
  "env_mem u =
     (if env_valid u \<noteq> 0 then
        (case env_addr u of LocDefault \<Rightarrow> default_environment u
          | LocFlash \<Rightarrow> drop (env_offset + 4) (flash_mem (flash_st u))
          | LocRam \<Rightarrow> env_data u)
      else default_environment u)"

definition env_get_char :: "ub \<Rightarrow> nat \<Rightarrow> byte option" where
  "env_get_char u index = rd (env_mem u) index"

text \<open>
  Storing the edited array back. The default environment lies in writable memory; a plain store
  to the memory window of the flash is not modelled.
\<close>

definition env_store :: "bytes \<Rightarrow> ub \<Rightarrow> ub option" where
  "env_store m u =
     (if env_valid u = 0 \<or> env_addr u = LocDefault then Some (u\<lparr>default_environment := m\<rparr>)
      else if env_addr u = LocRam then Some (u\<lparr>env_data := m\<rparr>)
      else None)"

definition env_crc_update :: "ub \<Rightarrow> ub" where
  "env_crc_update u = u\<lparr>ptr_crc := crc32 0 (env_data u)\<rparr>"

text \<open>
  The skip loop of \<open>getenv\<close> and \<open>getenv_r\<close>: like \<open>env_next\<close>, but it gives up (\<open>None\<close> inside
  \<open>Some\<close>) on an index that is not below \<open>CFG_ENV_SIZE\<close>.
\<close>

function env_next_lim :: "nat \<Rightarrow> bytes \<Rightarrow> nat \<Rightarrow> nat option option" where
  "env_next_lim lim m nxt =
     (if nxt < length m then
        if m ! nxt = 0 then Some (Some nxt)
        else if nxt \<ge> lim then Some None
        else env_next_lim lim m (Suc nxt)
      else None)"
  by pat_completeness auto

termination
  by (relation "measure (\<lambda>(lim, m, i). length m - i)") auto

declare env_next_lim.simps [simp del]

lemma env_next_lim_ge: "env_next_lim lim m i = Some (Some nxt) \<Longrightarrow> i \<le> nxt \<and> nxt < length m"
proof (induction lim m i rule: env_next_lim.induct)
  case (1 lim m i)
  then show ?case by (subst (asm) (2) env_next_lim.simps) (auto split: if_splits)
qed

text \<open>The index of the value, \<open>None\<close> inside \<open>Some\<close> for \<open>NULL\<close>.\<close>

function getenv_loop :: "nat \<Rightarrow> bytes \<Rightarrow> bytes \<Rightarrow> nat \<Rightarrow> nat option option" where
  "getenv_loop lim name m i = do {
     c \<leftarrow> rd m i;
     if c = 0 then Some None
     else do {
       nxt \<leftarrow> env_next_lim lim m i;
       (case nxt of
          None \<Rightarrow> Some None
        | Some nxt \<Rightarrow> do {
            val \<leftarrow> envmatch name m i;
            if val < 0 then getenv_loop lim name m (Suc nxt) else Some (Some (nat val)) }) } }"
  by pat_completeness auto

termination
  by (relation "measure (\<lambda>(lim, name, m, i). length m - i)")
    (auto simp: rd_eq_Some dest: env_next_lim_ge)

declare getenv_loop.simps [simp del]

definition getenv :: "bytes \<Rightarrow> ub \<Rightarrow> nat option option" where
  "getenv name u = getenv_loop (CFG_ENV_SIZE u) name (env_mem u) 0"

text \<open>
  The copy loop of \<open>getenv_r\<close>, \<open>buf\<close> being what is left of the buffer: the bytes stored, the rest
  of the buffer and the final \<open>n\<close>.
\<close>

fun getenv_copy :: "nat \<Rightarrow> nat \<Rightarrow> bytes \<Rightarrow> bytes \<Rightarrow> nat \<Rightarrow> (bytes \<times> bytes \<times> nat) option" where
  "getenv_copy 0 n buf m val = Some ([], buf, Suc n)"
| "getenv_copy (Suc left) n buf m val = do {
     c \<leftarrow> rd m val;
     (case buf of
        [] \<Rightarrow> None
      | b # buf \<Rightarrow>
          if c = 0 then Some ([0], buf, Suc n)
          else do {
            (out, buf, n) \<leftarrow> getenv_copy left (Suc n) buf m (Suc val);
            Some (c # out, buf, n) }) }"

definition getenv_r :: "bytes \<Rightarrow> bytes \<Rightarrow> nat \<Rightarrow> ub \<Rightarrow> (int \<times> bytes) option" where
  "getenv_r name buf len u = do {
     val \<leftarrow> getenv name u;
     (case val of
        None \<Rightarrow> Some (-1, buf)
      | Some val \<Rightarrow> do {
          (out, rest, n) \<leftarrow> getenv_copy len 0 buf (env_mem u) val;
          if len = n then do { rest \<leftarrow> wr rest 0 0; Some (int n, out @ rest) }
          else Some (int n, out @ rest) }) }"

section \<open>printenv\<close>

text \<open>
  Listing: the bytes printed and the final index. \<open>aborts\<close> says after how many entries \<open>ctrlc\<close>
  reports an abort, if at all.
\<close>

function print_all :: "nat option \<Rightarrow> bytes \<Rightarrow> nat \<Rightarrow> (bytes \<times> nat option) option" where
  "print_all aborts m i = do {
     c \<leftarrow> rd m i;
     if c = 0 then Some ([], Some i)
     else do {
       nxt \<leftarrow> env_next m i;
       let line = take (nxt - i) (drop i m) @ [10];
       (case aborts of
          Some 0 \<Rightarrow> Some (line @ [10] @ str '' ** Abort'' @ [10], None)
        | _ \<Rightarrow> do {
            (out, fin) \<leftarrow> print_all (map_option (\<lambda>k. k - 1) aborts) m (Suc nxt);
            Some (line @ out, fin) }) } }"
  by pat_completeness auto

termination
  by (relation "measure (\<lambda>(a, m, i). length m - i)") (auto simp: rd_eq_Some dest: env_next_ge)

declare print_all.simps [simp del]

definition cbytes :: "bytes \<Rightarrow> bytes" where
  "cbytes s = takeWhile (\<lambda>c. c \<noteq> 0) s"

fun print_vars :: "bytes \<Rightarrow> bytes list \<Rightarrow> (int \<times> bytes) option" where
  "print_vars m [] = Some (0, [])"
| "print_vars m (name # names) = do {
     r \<leftarrow> env_search name m 0;
     (rcode, out) \<leftarrow> print_vars m names;
     (case r of
        None \<Rightarrow> Some (rcode + 1, str ''## Error: \"'' @ cbytes name @ str ''\" not defined'' @ [10] @ out)
      | Some (_, k, nxt) \<Rightarrow> Some (rcode, cbytes name @ [EQ] @ take (nxt - k) (drop k m) @ [10] @ out)) }"

definition do_printenv :: "nat option \<Rightarrow> bytes list \<Rightarrow> ub \<Rightarrow> (int \<times> bytes) option" where
  "do_printenv aborts argv u =
     (if length argv = 1 then do {
        (out, fin) \<leftarrow> print_all aborts (env_mem u) 0;
        (case fin of
           None \<Rightarrow> Some (1, out)
         | Some i \<Rightarrow> Some (0, out @ [10] @ str ''Environment size: '' @ numeral_of small_digits 10 (of_nat i) @ str ''/'' @
             numeral_of small_digits 10 (of_nat (ENV_SIZE u)) @ str '' bytes'' @ [10])) }
      else print_vars (env_mem u) (drop 1 argv))"

section \<open>setenv\<close>

definition arg :: "bytes option list \<Rightarrow> nat \<Rightarrow> bytes option" where
  "arg argv i = (if i < length argv then argv ! i else None)"

text \<open>\<open>strcmp\<close> with a string literal.\<close>

abbreviation named :: "bytes \<Rightarrow> string \<Rightarrow> bool option" where
  "named s l \<equiv> streq s (cstr (str l))"

text \<open>\<open>while (getc () != '\r');\<close>\<close>

fun wait_cr :: "bytes \<Rightarrow> bytes option" where
  "wait_cr [] = None"
| "wait_cr (c # cs) = (if c = 13 then Some cs else wait_cr cs)"

definition console_of :: "bytes \<Rightarrow> int option" where
  "console_of name = do {
     i \<leftarrow> named name ''stdin'';
     if i then Some 0
     else do {
       out \<leftarrow> named name ''stdout'';
       if out then Some 1
       else do {
         err \<leftarrow> named name ''stderr'';
         Some (if err then 2 else -1) } } }"

text \<open>
  What precedes the deletion of an existing definition. The first component is the code of an
  early return, if there is one.
\<close>

definition setenv_checks :: "bytes \<Rightarrow> bytes option list \<Rightarrow> ub \<Rightarrow> (int option \<times> ub) option" where
  "setenv_checks name argv u = do {
     serial \<leftarrow> named name ''serial#'';
     eth \<leftarrow> (if serial then Some False else named name ''ethaddr'');
     if serial \<or> eth then Some (Some 1, u)
     else do {
       console \<leftarrow> console_of name;
       (stop, u) \<leftarrow>
         (if console \<noteq> -1 then
            if length argv < 3 then Some (True, u)
            else do {
              dev \<leftarrow> arg argv 2;
              (r, c) \<leftarrow> console_assign console dev (con u);
              Some (r < 0, u\<lparr>con := c\<rparr>) }
          else Some (False, u));
       if stop then Some (Some 1, u)
       else do {
         isbaud \<leftarrow> named name ''baudrate'';
         if \<not> isbaud then Some (None, u)
         else do {
           val \<leftarrow> arg argv 2;
           (baud, _) \<leftarrow> simple_strtoul val 10;
           if baud \<notin> set baudrate_table then Some (Some 1, u)
           else do {
             rest \<leftarrow> wait_cr (con_in u);
             Some (None, u\<lparr>baudrate := baud, con_in := rest\<rparr>) } } } } }"

text \<open>\<open>ethaddr\<close>, \<open>eth1addr\<close>, ...: the address goes to the Ethernet device.\<close>

definition setenv_eth :: "bytes \<Rightarrow> bytes option \<Rightarrow> eth \<Rightarrow> eth option" where
  "setenv_eth name addr e = do {
     r \<leftarrow> strncmp name (cstr (str ''eth'')) 3;
     if r \<noteq> 0 then Some e
     else do {
       (num, rest) \<leftarrow> simple_strtoul (drop 3 name) 10;
       isaddr \<leftarrow> named rest ''addr'';
       if isaddr then eth_set_enetaddr (sint num) addr e else Some e } }"

text \<open>\<open>copy_filename\<close> of \<open>net/net.c\<close>, from index \<open>i\<close> of the destination on.\<close>

fun copy_name :: "bytes \<Rightarrow> nat \<Rightarrow> bytes \<Rightarrow> int \<Rightarrow> bytes option" where
  "copy_name dst i [] sz = (if sz - 1 > 0 then None else wr dst i 0)"
| "copy_name dst i (c # src) sz =
     (if sz - 1 > 0 \<and> c \<noteq> 0 \<and> c \<noteq> ch (CHR 0x22)
      then do { dst \<leftarrow> wr dst i c; copy_name dst (Suc i) src (sz - 1) }
      else wr dst i 0)"

definition copy_filename :: "bytes \<Rightarrow> bytes \<Rightarrow> int \<Rightarrow> bytes option" where
  "copy_filename dst src sz = do {
     c \<leftarrow> rd src 0;
     if c \<noteq> 0 \<and> c = ch (CHR 0x22) then copy_name dst 0 (tl src) (sz - 1)
     else copy_name dst 0 src sz }"

text \<open>The variables that follow an environment variable, after a definition was stored.\<close>

definition ip_of_octets :: "u32 list \<Rightarrow> u32" where
  "ip_of_octets vs = foldl (\<lambda>addr v. push_bit 8 addr OR (v AND 0xff)) 0 vs"

definition setenv_follow :: "bytes \<Rightarrow> bytes \<Rightarrow> ub \<Rightarrow> ub option" where
  "setenv_follow name val u = do {
     iseth \<leftarrow> named name ''ethaddr'';
     if iseth then do {
       mac \<leftarrow> parse_enetaddr (Some val);
       e \<leftarrow> eth_set_enetaddr 0 (Some val) (eths u);
       Some (u\<lparr>bi_enetaddr := mac, eths := e\<rparr>) }
     else do {
       isip \<leftarrow> named name ''ipaddr'';
       if isip then do {
         vs \<leftarrow> parse_octets 4 10 (Some val);
         Some (u\<lparr>bi_ip_addr := ip_of_octets vs\<rparr>) }
       else do {
         isload \<leftarrow> named name ''loadaddr'';
         if isload then do {
           (addr, _) \<leftarrow> simple_strtoul val 16;
           Some (u\<lparr>load_addr := addr\<rparr>) }
         else do {
           isboot \<leftarrow> named name ''bootfile'';
           if isboot then do {
             b \<leftarrow> copy_filename (BootFile u) val (int (length (BootFile u)));
             Some (u\<lparr>BootFile := b\<rparr>) }
           else Some u } } } }"

text \<open>All arguments from the third on, as strings.\<close>

fun strings :: "bytes option list \<Rightarrow> bytes list option" where
  "strings [] = Some []"
| "strings (a # as) = do { s \<leftarrow> a; r \<leftarrow> strings as; Some (s # r) }"

definition setenv_define :: "bytes \<Rightarrow> bytes option list \<Rightarrow> ub \<Rightarrow> (int \<times> ub) option" where
  "setenv_define name argv u = do {
     vals \<leftarrow> strings (drop 2 argv);
     r \<leftarrow> env_append (ENV_SIZE u) (env_mem u) name vals;
     (case r of
        None \<Rightarrow> Some (1, u)
      | Some m \<Rightarrow> do {
          u \<leftarrow> env_store m u;
          u \<leftarrow> setenv_follow name (hd vals) (env_crc_update u);
          Some (0, u) }) }"

definition setenv_delete :: "bytes \<Rightarrow> bytes option list \<Rightarrow> ub \<Rightarrow> (int option \<times> ub) option" where
  "setenv_delete name argv u = do {
     found \<leftarrow> env_search name (env_mem u) 0;
     (case found of
        None \<Rightarrow> Some (None, u)
      | Some (env, oldval, nxt) \<Rightarrow> do {
          (stop, u) \<leftarrow> setenv_checks name argv u;
          (case stop of
             Some rc \<Rightarrow> Some (Some rc, u)
           | None \<Rightarrow> do {
               m \<leftarrow> env_delete (env_mem u) env nxt;
               u \<leftarrow> env_store m u;
               Some (None, u) }) }) }"

definition do_setenv_worker :: "bytes option list \<Rightarrow> ub \<Rightarrow> (int \<times> ub) option" where
  "do_setenv_worker argv u = do {
     name \<leftarrow> arg argv 1;
     (stop, u) \<leftarrow> setenv_delete name argv u;
     (case stop of
        Some rc \<Rightarrow> Some (rc, u)
      | None \<Rightarrow> do {
          e \<leftarrow> setenv_eth name (arg argv 2) (eths u);
          let u = u\<lparr>eths := e\<rparr>;
          if arg argv 2 = None then Some (0, env_crc_update u)
          else setenv_define name argv u }) }"

definition setenv :: "bytes \<Rightarrow> bytes option \<Rightarrow> ub \<Rightarrow> ub option" where
  "setenv varname varvalue u =
     map_option snd (do_setenv_worker [Some (cstr (str ''setenv'')), Some varname, varvalue] u)"

definition do_setenv :: "bytes option list \<Rightarrow> ub \<Rightarrow> (int \<times> ub) option" where
  "do_setenv argv u = (if length argv < 2 then Some (1, u) else do_setenv_worker argv u)"

section \<open>The environment as a list of variables\<close>

text \<open>The environment is in RAM and its array encodes \<open>es\<close>.\<close>

definition env_ready :: "ub \<Rightarrow> var list \<Rightarrow> bool" where
  "env_ready u es \<longleftrightarrow> env_valid u \<noteq> 0 \<and> env_addr u = LocRam \<and> encodes (env_data u) es \<and> BootFile u \<noteq> []"

lemma env_readyD:
  "env_ready u es \<Longrightarrow> env_mem u = env_data u" "env_ready u es \<Longrightarrow> encodes (env_data u) es"
  "env_ready u es \<Longrightarrow> env_store m u = Some (u\<lparr>env_data := m\<rparr>)"
  by (simp_all add: env_ready_def env_mem_def env_store_def)

lemma nonul_str [simp]:
  "nonul (str ''serial#'')" "nonul (str ''ethaddr'')" "nonul (str ''stdin'')" "nonul (str ''stdout'')"
  "nonul (str ''stderr'')" "nonul (str ''baudrate'')" "nonul (str ''eth'')" "nonul (str ''addr'')"
  "nonul (str ''ipaddr'')" "nonul (str ''loadaddr'')" "nonul (str ''bootfile'')" "nonul (str ''ethact'')"
  by (simp_all add: str_def ch_def)

lemma named_cstr [simp]: "nonul n \<Longrightarrow> nonul (str l) \<Longrightarrow> named (n @ 0 # r) l = Some (n = str l)"
  by (simp add: cstr_def)

text \<open>Names for which an existing definition can be replaced without further conditions.\<close>

definition ordinary :: "bytes \<Rightarrow> bool" where
  "ordinary n \<longleftrightarrow> n \<notin> {str ''serial#'', str ''ethaddr'', str ''stdin'', str ''stdout'',
     str ''stderr'', str ''baudrate''}"

lemma setenv_checks_ordinary:
  "nonul n \<Longrightarrow> ordinary n \<Longrightarrow> setenv_checks (n @ 0 # r) argv u = Some (None, u)"
  by (simp add: setenv_checks_def console_of_def ordinary_def)

lemma vars_split:
  assumes "ok_vars es" "n \<in> fst ` set es"
  obtains pre v post where "es = pre @ (n, v) # post" "n \<notin> fst ` set pre" "n \<notin> fst ` set post"
proof -
  from assms(2) obtain v where "(n, v) \<in> set es" by force
  then obtain pre post where "es = pre @ (n, v) # post" by (meson split_list)
  then show thesis using assms(1) that by (auto simp: ok_vars_def)
qed

lemma encodes_drop: "encodes m es \<Longrightarrow> \<exists>r. drop 0 m = enc_vars es @ 0 # r"
  by (auto simp: encodes_def image_of_def)

lemma search_absent:
  assumes "encodes m es" "ok_name n" "n \<notin> fst ` set es"
  shows "env_search (n @ 0 # t) m 0 = Some None"
proof -
  obtain r where "drop 0 m = enc_vars es @ 0 # r" using encodes_drop [OF assms(1)] by blast
  then show ?thesis using assms by (intro env_search_absent) (auto simp: encodes_def ok_vars_def)
qed

lemma search_present:
  assumes "encodes m (pre @ (n, v) # post)" "n \<notin> fst ` set pre"
  shows "env_search (n @ 0 # t) m 0 = (let k = length (enc_vars pre)
    in Some (Some (k, k + length n + 1, k + length n + 1 + length v)))"
proof -
  obtain r where "drop 0 m = enc_vars pre @ enc_var (n, v) @ enc_vars post @ 0 # r"
    using encodes_drop [OF assms(1)] by auto
  then show ?thesis
    using assms by (subst env_search_present [where pre = pre and v = v]) (auto simp: encodes_def ok_vars_def)
qed

text \<open>The array before and after: unchanged for a variable that is not defined, one byte for the last of several.\<close>

definition array_deleted :: "bytes \<Rightarrow> var list \<Rightarrow> bytes \<Rightarrow> bytes \<Rightarrow> bool" where
  "array_deleted n es m m' \<longleftrightarrow> (n \<notin> fst ` set es \<longrightarrow> m' = m) \<and>
     (\<forall>pre v. es = pre @ [(n, v)] \<longrightarrow> pre \<noteq> [] \<longrightarrow> m' = m[length (enc_vars pre) := 0])"

lemma setenv_delete_eq:
  assumes u: "env_ready u es" and n: "ok_name n"
    and c: "n \<in> fst ` set es \<Longrightarrow> setenv_checks (n @ 0 # t) argv u = Some (None, u')"
    and u': "n \<notin> fst ` set es \<Longrightarrow> u' = u" "env_ready u' es" "env_data u' = env_data u"
  shows "\<exists>m. setenv_delete (n @ 0 # t) argv u = Some (None, u'\<lparr>env_data := m\<rparr>) \<and>
    encodes m (del_var n es) \<and> length m = length (env_data u) \<and> array_deleted n es (env_data u) m"
proof (cases "n \<in> fst ` set es")
  case False
  then have "setenv_delete (n @ 0 # t) argv u = Some (None, u\<lparr>env_data := env_data u\<rparr>)"
    using search_absent [OF env_readyD(2) [OF u] n] u by (simp add: setenv_delete_def env_readyD(1))
  moreover have "array_deleted n es (env_data u) (env_data u)" using False by (auto simp: array_deleted_def)
  ultimately show ?thesis using False env_readyD(2) [OF u] u'(1) by (metis del_var_absent)
next
  case True
  obtain pre v post where es: "es = pre @ (n, v) # post" "n \<notin> fst ` set pre" "n \<notin> fst ` set post"
    using True u vars_split by (metis encodes_def env_readyD(2))
  have e: "encodes (env_data u) (pre @ (n, v) # post)" using env_readyD(2) [OF u] es by simp
  obtain m where m: "env_delete (env_data u) (length (enc_vars pre)) (length (enc_vars pre) + length n + 1 + length v) = Some m"
    "encodes m (pre @ post)" "length m = length (env_data u)" "post = [] \<and> pre \<noteq> [] \<longrightarrow> m = (env_data u)[length (enc_vars pre) := 0]"
    using env_delete_eq [OF e] by blast
  have "pre = pre' \<and> post = []" if "es = pre' @ [(n, v')]" for pre' v'
  proof -
    have "post = []" using that es by (cases post rule: rev_cases) auto
    then show ?thesis using that es(1) by simp
  qed
  then have "array_deleted n es (env_data u) m" using m(4) True unfolding array_deleted_def by blast
  moreover have "setenv_delete (n @ 0 # t) argv u = Some (None, u'\<lparr>env_data := m\<rparr>)"
    using search_present [OF e es(2)] m(1) c [OF True] u u'
    by (simp add: setenv_delete_def env_readyD Let_def)
  ultimately show ?thesis using m(2,3) del_var_split [OF es(2,3)] es(1) by metis
qed

lemma setenv_eth_total:
  assumes n: "nonul n"
  shows "\<exists>e'. setenv_eth (n @ [0]) (map_option (\<lambda>v. v @ [0]) val) e = Some e'"
proof -
  obtain x where x: "strncmp (n @ [0]) (cstr (str ''eth'')) 3 = Some x"
    using strncmp_loop_total [OF n, of "str ''eth''" "[]" "[]" 3 0] by (auto simp: strncmp_def cstr_def)
  have eth: "\<exists>e'. eth_set_enetaddr k (map_option (\<lambda>v. v @ [0]) val) e = Some e'" for k
    using eth_set_enetaddr_total [of k _ "[]" e]
    by (cases val) (auto simp: eth_set_enetaddr_def parse_enetaddr_NULL)
  show ?thesis
  proof (cases "x = 0")
    case True
    then have "take 3 n = str ''eth''"
      using x strncmp_cstr [OF n, of "str ''eth''" "[]" "[]" 3] by (simp add: cstr_def str_def ch_def)
    then have "length (take 3 n) = 3" by (simp add: str_def)
    then have l: "3 \<le> length n" by simp
    obtain v a where s: "simple_strtoul (drop 3 n @ [0]) 10 = Some (v, drop a (drop 3 n) @ [0])"
      using simple_strtoul_rest [of "drop 3 n" "[]" 10] by blast
    have "nonul (drop a (drop 3 n))" using n by (intro nonul_drop)
    then show ?thesis using True x l s eth by (auto simp: setenv_eth_def)
  qed (use x in \<open>simp add: setenv_eth_def\<close>)
qed

lemma copy_name_total:
  "nonul s \<Longrightarrow> i < length dst \<Longrightarrow> sz \<le> int (length dst - i) \<Longrightarrow>
     \<exists>dst'. copy_name dst i (s @ [0]) sz = Some dst' \<and> length dst' = length dst"
proof (induction s arbitrary: dst i sz)
  case Nil
  then show ?case by simp
next
  case (Cons c s)
  show ?case
  proof (cases "sz - 1 > 0 \<and> c \<noteq> ch (CHR 0x22)")
    case True
    then have "\<exists>dst'. copy_name (dst[i := c]) (Suc i) (s @ [0]) (sz - 1) = Some dst' \<and> length dst' = length (dst[i := c])"
      using Cons.prems by (intro Cons.IH) auto
    then show ?thesis using True Cons.prems by auto
  qed (use Cons.prems in auto)
qed

lemma copy_filename_total:
  assumes "nonul s" "dst \<noteq> []"
  shows "\<exists>dst'. copy_filename dst (s @ [0]) (int (length dst)) = Some dst' \<and> length dst' = length dst"
proof (cases s)
  case Nil
  then show ?thesis using assms by (simp add: copy_filename_def)
next
  case (Cons c s')
  then show ?thesis
    using assms copy_name_total [of s 0 dst "int (length dst)"] copy_name_total [of s' 0 dst "int (length dst) - 1"]
    by (auto simp: copy_filename_def)
qed

lemma setenv_follow_total:
  assumes n: "nonul n" and v: "nonul v" and b: "BootFile u \<noteq> []"
  shows "\<exists>u'. setenv_follow (n @ 0 # r) (v @ [0]) u = Some u' \<and> env_valid u' = env_valid u \<and>
    env_addr u' = env_addr u \<and> ptr_crc u' = ptr_crc u \<and> env_data u' = env_data u \<and> BootFile u' \<noteq> []"
proof -
  obtain mac where "parse_enetaddr (Some (v @ [0])) = Some mac" using parse_enetaddr_total [of v "[]"] by blast
  moreover obtain e where "eth_set_enetaddr 0 (Some (v @ [0])) (eths u) = Some e"
    using eth_set_enetaddr_total [of 0 v "[]" "eths u"] by blast
  moreover obtain vs where "parse_octets 4 10 (Some (v @ [0])) = Some vs"
    using parse_octets_total [of 4 10 v "[]"] by blast
  moreover obtain a k where "simple_strtoul (v @ [0]) 16 = Some (a, drop k v @ [0])"
    using simple_strtoul_rest [of v "[]" 16] by blast
  moreover obtain f where "copy_filename (BootFile u) (v @ [0]) (int (length (BootFile u))) = Some f" "f \<noteq> []"
    using copy_filename_total [OF v b] b by fastforce
  ultimately show ?thesis using n b by (simp add: setenv_follow_def)
qed


lemma nonul_join: "\<forall>v\<in>set vs. nonul v \<Longrightarrow> nonul (join_values vs)"
  by (induction vs rule: join_values.induct) auto

lemma strings_map [simp]: "strings (map (\<lambda>v. Some (v @ [0])) vs) = Some (map cstr vs)"
  by (induction vs) (auto simp: cstr_def)

lemma env_append_step:
  assumes u: "env_ready u es" and n: "ok_name n" "n \<notin> fst ` set es" and vs: "vs \<noteq> []" "\<forall>v\<in>set vs. nonul v"
  shows "let fits = length (enc_vars es) + length n + length (join_values vs) + 3 \<le> length (env_data u)
    in (fits \<longrightarrow> (\<exists>u'. setenv_define (n @ [0]) (a # b # map (\<lambda>v. Some (v @ [0])) vs) u = Some (0, u') \<and>
          env_ready u' (es @ [(n, join_values vs)]) \<and> ptr_crc u' = crc32 0 (env_data u') \<and>
          length (env_data u') = length (env_data u))) \<and>
       (\<not> fits \<longrightarrow> setenv_define (n @ [0]) (a # b # map (\<lambda>v. Some (v @ [0])) vs) u = Some (1, u))"
proof -
  let ?fits = "length (enc_vars es) + length n + length (join_values vs) + 3 \<le> length (env_data u)"
  let ?m = "overlay (env_data u) (length (enc_vars es)) (enc_var (n, join_values vs) @ [0])"
  note app = env_append_eq [OF env_readyD(2) [OF u] n(1) vs, of "[]"]
  have "\<exists>u'. setenv_define (n @ [0]) (a # b # map (\<lambda>v. Some (v @ [0])) vs) u = Some (0, u') \<and>
          env_ready u' (es @ [(n, join_values vs)]) \<and> ptr_crc u' = crc32 0 (env_data u') \<and>
          length (env_data u') = length (env_data u)" if ?fits
  proof -
    have enc: "encodes ?m (es @ [(n, join_values vs)])"
      using that n u vs by (intro encodes_overlay) (auto simp: env_readyD enc_var_def ok_var_def nonul_join)
    obtain v vs' where v: "vs = v # vs'" "nonul v" using vs by (cases vs) auto
    let ?u = "env_crc_update (u\<lparr>env_data := ?m\<rparr>)"
    obtain u' where u': "setenv_follow (n @ [0]) (v @ [0]) ?u = Some u'" "env_valid u' = env_valid ?u"
      "env_addr u' = env_addr ?u" "ptr_crc u' = ptr_crc ?u" "env_data u' = env_data ?u" "BootFile u' \<noteq> []"
      using setenv_follow_total [of n v ?u "[]"] n v u
      by (auto simp: ok_name_def env_ready_def env_crc_update_def)
    have "setenv_define (n @ [0]) (a # b # map (\<lambda>v. Some (v @ [0])) vs) u = Some (0, u')"
      using app that u'(1) u v(1) by (simp add: setenv_define_def env_readyD cstr_def)
    moreover have "length ?m = length (env_data u)" using that by (simp add: enc_var_def)
    ultimately show ?thesis using u' enc u by (auto simp: env_ready_def env_crc_update_def)
  qed
  moreover have "setenv_define (n @ [0]) (a # b # map (\<lambda>v. Some (v @ [0])) vs) u = Some (1, u)" if "\<not> ?fits"
    using app that u by (simp add: setenv_define_def env_readyD)
  ultimately show ?thesis by (simp add: Let_def)
qed

text \<open>A variable that is new, or whose definition may be replaced.\<close>

definition settable :: "bytes \<Rightarrow> var list \<Rightarrow> bool" where
  "settable n es \<longleftrightarrow> ordinary n \<or> n \<notin> fst ` set es"

definition argv_of :: "bytes \<Rightarrow> bytes list \<Rightarrow> bytes option list" where
  "argv_of n vs = Some (cstr (str ''setenv'')) # Some (n @ [0]) # map (\<lambda>v. Some (v @ [0])) vs"

text \<open>The space the variables would take with the new definition, including the final NUL.\<close>

definition env_fits :: "ub \<Rightarrow> var list \<Rightarrow> bytes \<Rightarrow> bytes \<Rightarrow> bool" where
  "env_fits u es n v \<longleftrightarrow> length (enc_vars (del_var n es @ [(n, v)])) < ENV_SIZE u"

lemma del_var_props: "n \<notin> fst ` set (del_var n es)" "ok_vars es \<Longrightarrow> ok_vars (del_var n es)"
  by (auto simp: del_var_def ok_vars_def distinct_map_filter)

lemma worker_delete:
  assumes u: "env_ready u es" and n: "ok_name n" and s: "settable n es"
  shows "\<exists>u'. setenv_delete (n @ [0]) argv u = Some (None, u') \<and> env_ready u' (del_var n es) \<and>
    ENV_SIZE u' = ENV_SIZE u \<and> ptr_crc u' = ptr_crc u \<and> flash_st u' = flash_st u \<and>
    array_deleted n es (env_data u) (env_data u')"
proof -
  have "\<exists>m. setenv_delete (n @ [0]) argv u = Some (None, u\<lparr>env_data := m\<rparr>) \<and>
    encodes m (del_var n es) \<and> length m = length (env_data u) \<and> array_deleted n es (env_data u) m"
    using u n s by (intro setenv_delete_eq) (auto simp: settable_def setenv_checks_ordinary ok_name_def)
  then show ?thesis using u by (auto simp: env_ready_def)
qed

lemma worker_eth:
  assumes u: "env_ready u es" and n: "ok_name n" and s: "settable n es"
  shows "\<exists>u'. do_setenv_worker (argv_of n vs) u =
      (if vs = [] then Some (0, env_crc_update u') else setenv_define (n @ [0]) (argv_of n vs) u') \<and>
    env_ready u' (del_var n es) \<and> ENV_SIZE u' = ENV_SIZE u \<and> ptr_crc u' = ptr_crc u \<and> flash_st u' = flash_st u \<and>
    array_deleted n es (env_data u) (env_data u')"
proof -
  obtain u1 where u1: "setenv_delete (n @ [0]) (argv_of n vs) u = Some (None, u1)" "env_ready u1 (del_var n es)"
    "ENV_SIZE u1 = ENV_SIZE u" "ptr_crc u1 = ptr_crc u" "flash_st u1 = flash_st u" "array_deleted n es (env_data u) (env_data u1)"
    using worker_delete [OF assms] by blast
  have a2: "arg (argv_of n vs) 2 = map_option (\<lambda>v. v @ [0]) (if vs = [] then None else Some (hd vs))"
    by (cases vs) (auto simp: arg_def argv_of_def)
  obtain e where e: "setenv_eth (n @ [0]) (arg (argv_of n vs) 2) (eths u1) = Some e"
    using setenv_eth_total [of n "if vs = [] then None else Some (hd vs)" "eths u1"] n
    by (auto simp: a2 ok_name_def)
  have "do_setenv_worker (argv_of n vs) u =
      (if vs = [] then Some (0, env_crc_update (u1\<lparr>eths := e\<rparr>))
       else setenv_define (n @ [0]) (argv_of n vs) (u1\<lparr>eths := e\<rparr>))"
    using u1(1) e a2 by (auto simp: do_setenv_worker_def arg_def argv_of_def)
  moreover have "env_ready (u1\<lparr>eths := e\<rparr>) (del_var n es)" using u1(2) by (simp add: env_ready_def)
  ultimately show ?thesis using u1 by (intro exI [of _ "u1\<lparr>eths := e\<rparr>"]) simp
qed

text \<open>The three outcomes: defined, no room (the old definition is gone), deleted.\<close>

lemma setenv_defines:
  assumes u: "env_ready u es" and n: "ok_name n" and s: "settable n es"
    and vs: "vs \<noteq> []" "\<forall>v\<in>set vs. nonul v" and fit: "env_fits u es n (join_values vs)"
  shows "\<exists>u'. do_setenv_worker (argv_of n vs) u = Some (0, u') \<and>
    env_ready u' (del_var n es @ [(n, join_values vs)]) \<and> ptr_crc u' = crc32 0 (env_data u') \<and>
    ENV_SIZE u' = ENV_SIZE u"
proof -
  obtain u1 where u1: "do_setenv_worker (argv_of n vs) u = setenv_define (n @ [0]) (argv_of n vs) u1"
    "env_ready u1 (del_var n es)" "ENV_SIZE u1 = ENV_SIZE u"
    using worker_eth [OF u n s, of vs] vs by auto
  show ?thesis
    using env_append_step [OF u1(2) n del_var_props(1) vs] fit u1
    by (auto simp: env_fits_def argv_of_def enc_var_def Let_def)
qed

lemma setenv_overflows:
  assumes u: "env_ready u es" and n: "ok_name n" and s: "settable n es"
    and vs: "vs \<noteq> []" "\<forall>v\<in>set vs. nonul v" and fit: "\<not> env_fits u es n (join_values vs)"
  shows "\<exists>u'. do_setenv_worker (argv_of n vs) u = Some (1, u') \<and>
    env_ready u' (del_var n es) \<and> ptr_crc u' = ptr_crc u \<and> ENV_SIZE u' = ENV_SIZE u \<and>
    flash_st u' = flash_st u \<and> array_deleted n es (env_data u) (env_data u')"
proof -
  obtain u1 where u1: "do_setenv_worker (argv_of n vs) u = setenv_define (n @ [0]) (argv_of n vs) u1"
    "env_ready u1 (del_var n es)" "ENV_SIZE u1 = ENV_SIZE u" "ptr_crc u1 = ptr_crc u" "flash_st u1 = flash_st u"
    "array_deleted n es (env_data u) (env_data u1)"
    using worker_eth [OF u n s, of vs] vs by auto
  show ?thesis
    using env_append_step [OF u1(2) n del_var_props(1) vs] fit u1
    by (auto simp: env_fits_def argv_of_def enc_var_def Let_def)
qed

lemma setenv_deletes:
  assumes u: "env_ready u es" and n: "ok_name n" and s: "settable n es"
  shows "\<exists>u'. do_setenv_worker (argv_of n []) u = Some (0, u') \<and>
    env_ready u' (del_var n es) \<and> ptr_crc u' = crc32 0 (env_data u') \<and> ENV_SIZE u' = ENV_SIZE u"
  using worker_eth [OF u n s, of "[]"] by (auto simp: env_crc_update_def env_ready_def)

text \<open>\<open>ethaddr\<close> and \<open>serial#\<close> are set once.\<close>

lemma setenv_write_once:
  assumes u: "env_ready u es" and n: "n = str ''ethaddr'' \<or> n = str ''serial#''" "n \<in> fst ` set es"
    and a: "arg argv 1 = Some (n @ [0])"
  shows "do_setenv_worker argv u = Some (1, u)"
proof -
  obtain pre v post where es: "es = pre @ (n, v) # post" "n \<notin> fst ` set pre"
    using n u vars_split by (metis encodes_def env_readyD(2))
  have nn: "nonul n" using n by auto
  then have "setenv_checks (n @ [0]) argv u = Some (Some 1, u)" using n
    by (auto simp: setenv_checks_def)
  then have "setenv_delete (n @ [0]) argv u = Some (Some 1, u)"
    using search_present [of "env_data u" pre n v post "[]"] es env_readyD(1,2) [OF u]
    by (simp add: setenv_delete_def Let_def)
  then show ?thesis using a by (simp add: do_setenv_worker_def)
qed

section \<open>Lookup\<close>

lemma env_next_lim_str:
  "nonul s \<Longrightarrow> drop i m = s @ 0 # r \<Longrightarrow> i + length s \<le> lim \<Longrightarrow> env_next_lim lim m i = Some (Some (i + length s))"
proof (induction s arbitrary: i)
  case Nil
  then show ?case by (subst env_next_lim.simps) (simp add: drop_Cons_iff)
next
  case (Cons c s)
  then show ?case by (subst env_next_lim.simps) (simp add: drop_Cons_iff)
qed

text \<open>Inside an image, \<open>getenv\<close> finds what the search of \<open>setenv\<close> finds.\<close>

lemma getenv_loop_search:
  "\<forall>e\<in>set es. ok_var e \<Longrightarrow> ok_name n \<Longrightarrow> drop i m = enc_vars es @ 0 # r \<Longrightarrow> length m \<le> lim \<Longrightarrow>
     getenv_loop lim (n @ 0 # t) m i = map_option (map_option (\<lambda>(_, k, _). k)) (env_search (n @ 0 # t) m i)"
proof (induction es arbitrary: i)
  case Nil
  then show ?case by (simp add: drop_Cons_iff getenv_loop.simps env_search.simps)
next
  case (Cons e es)
  obtain n' v where e: "e = (n', v)" by (cases e)
  have ok: "n' \<noteq> []" "nonul n'" "EQ \<notin> set n'" "nonul v" using Cons.prems by (auto simp: e ok_var_def ok_name_def)
  then obtain c cs where c: "n' = c # cs" "c \<noteq> 0" by (cases n') auto
  have d: "drop i m = (n' @ EQ # v) @ 0 # enc_vars es @ 0 # r"
    using Cons.prems by (simp add: e enc_var_def)
  have "length (drop i m) = length m - i" by simp
  then have l: "i + length (n' @ EQ # v) \<le> lim" using d Cons.prems(4) by simp
  have nn: "nonul (n' @ EQ # v)" using ok by simp
  have "env_next m i = Some (i + length (n' @ EQ # v))" "env_next_lim lim m i = Some (Some (i + length (n' @ EQ # v)))"
    by (rule env_next_str [OF nn d], rule env_next_lim_str [OF nn d l])
  moreover have "rd m i = Some c" using d c by (simp add: drop_Cons_iff)
  moreover have "envmatch (n @ 0 # t) m i = Some (if n = n' then int (i + length n + 1) else -1)"
    using d ok Cons.prems by (intro envmatch_var) (auto simp: ok_name_def)
  moreover have "drop (Suc (i + length (n' @ EQ # v))) m = enc_vars es @ 0 # r"
    using drop_plus [of i m "(n' @ EQ # v) @ [0]"] d by simp
  ultimately show ?case
    using Cons.IH [of "Suc (i + length (n' @ EQ # v))"] Cons.prems c
    by (subst getenv_loop.simps, subst env_search.simps) auto
qed

lemma takeWhile_cstr: "nonul v \<Longrightarrow> takeWhile (\<lambda>c. c \<noteq> 0) (v @ 0 # r) = v"
  by (induction v) auto

definition var_of :: "ub \<Rightarrow> bytes \<Rightarrow> bytes option" where
  "var_of u n = (case getenv (n @ [0]) u of Some (Some k) \<Rightarrow> Some (str_at (env_mem u) k) | _ \<Rightarrow> None)"

lemma getenv_search:
  assumes u: "env_ready u es" and n: "ok_name n"
  shows "getenv (n @ 0 # t) u = map_option (map_option (\<lambda>(_, k, _). k)) (env_search (n @ 0 # t) (env_data u) 0)"
proof -
  obtain r where "drop 0 (env_data u) = enc_vars es @ 0 # r"
    using encodes_drop [OF env_readyD(2) [OF u]] by blast
  then show ?thesis using u n env_readyD(1) [OF u]
    by (simp add: getenv_def) (intro getenv_loop_search, auto simp: env_ready_def encodes_def ok_vars_def)
qed

lemma getenv_present:
  assumes u: "env_ready u es" and n: "ok_name n" and v: "map_of es n = Some v"
  shows "\<exists>k r. getenv (n @ 0 # t) u = Some (Some k) \<and> drop k (env_data u) = v @ 0 # r \<and> nonul v"
proof -
  have "n \<in> fst ` set es" using v by (metis domI dom_map_of_conv_image_fst)
  then obtain pre v' post where es: "es = pre @ (n, v') # post" "n \<notin> fst ` set pre"
    using u vars_split by (metis encodes_def env_readyD(2))
  then have "map_of es n = Some v'"
    by (simp add: map_add_def map_of_eq_None_iff [THEN iffD2] split: option.split)
  then have [simp]: "v' = v" using v by simp
  have e: "encodes (env_data u) (pre @ (n, v) # post)" using env_readyD(2) [OF u] es by simp
  let ?k = "length (enc_vars pre) + length n + 1"
  have "getenv (n @ 0 # t) u = Some (Some ?k)"
    using getenv_search [OF u n, of t] search_present [OF e es(2), of t] by (simp add: Let_def)
  moreover obtain r where "drop 0 (env_data u) = (enc_vars pre @ n @ [EQ]) @ v @ 0 # enc_vars post @ 0 # r"
    using encodes_drop [OF e] by (auto simp: enc_var_def)
  then have "drop ?k (env_data u) = v @ 0 # enc_vars post @ 0 # r"
    using drop_plus [of 0 "env_data u" "enc_vars pre @ n @ [EQ]"] by simp
  moreover have "nonul v" using e by (auto simp: encodes_def ok_vars_def ok_var_def)
  ultimately show ?thesis by blast
qed

lemma getenv_map_of:
  assumes u: "env_ready u es" and n: "ok_name n"
  shows "\<exists>k. getenv (n @ 0 # t) u = Some k \<and> map_option (str_at (env_data u)) k = map_of es n"
proof (cases "map_of es n")
  case None
  then have "n \<notin> fst ` set es" by (simp add: map_of_eq_None_iff)
  then show ?thesis
    using None search_absent [OF env_readyD(2) [OF u] n, of t] getenv_search [OF u n, of t] by simp
next
  case (Some v)
  then show ?thesis using getenv_present [OF u n Some, of t] by (auto simp: str_at_def takeWhile_cstr)
qed

section \<open>The environment as a map\<close>

text \<open>
  What the other components rely on: an assignment that fits is seen by later lookups and leaves
  all other variables as they were.
\<close>

locale env_map =
  fixes lookup :: "'s \<Rightarrow> bytes \<Rightarrow> bytes option"
    and assign :: "bytes \<Rightarrow> bytes \<Rightarrow> 's \<Rightarrow> 's option"
    and inv :: "'s \<Rightarrow> bool"
    and room :: "'s \<Rightarrow> bytes \<Rightarrow> bytes \<Rightarrow> bool"
  assumes assign_ok: "inv s \<Longrightarrow> ok_name n \<Longrightarrow> nonul v \<Longrightarrow> ordinary n \<Longrightarrow> room s n v \<Longrightarrow>
      \<exists>s'. assign n v s = Some s' \<and> inv s' \<and> lookup s' n = Some v \<and>
        (\<forall>k. ok_name k \<longrightarrow> k \<noteq> n \<longrightarrow> lookup s' k = lookup s k)"
    and assign_room: "inv s \<Longrightarrow> ok_name n \<Longrightarrow> nonul v \<Longrightarrow> ordinary n \<Longrightarrow> room s n v \<Longrightarrow>
      assign n v s = Some s' \<Longrightarrow> room s n w \<Longrightarrow> room s' n w"
begin

text \<open>Bringing a variable up to date, only if it differs.\<close>

lemma sync:
  assumes "inv s" "ok_name n" "nonul v" "ordinary n" "lookup s n \<noteq> Some v \<Longrightarrow> room s n v"
  shows "\<exists>s'. (if lookup s n = Some v then Some s else assign n v s) = Some s' \<and> inv s' \<and>
    lookup s' n = Some v \<and> (\<forall>k. ok_name k \<longrightarrow> k \<noteq> n \<longrightarrow> lookup s' k = lookup s k)"
  using assms assign_ok [of s n v] by (cases "lookup s n = Some v") auto

text \<open>Two assignments: the later one wins, and assignments to different variables do not interfere.\<close>

lemma assign_twice:
  assumes "inv s" "ok_name n" "ok_name n'" "nonul v" "nonul v'" "ordinary n" "ordinary n'" "room s n v"
    and "\<And>s'. assign n v s = Some s' \<Longrightarrow> room s' n' v'"
  shows "\<exists>s' s''. assign n v s = Some s' \<and> assign n' v' s' = Some s'' \<and> inv s'' \<and>
    lookup s'' n' = Some v' \<and> (n \<noteq> n' \<longrightarrow> lookup s'' n = Some v)"
proof -
  obtain s' where s': "assign n v s = Some s'" "inv s'" "lookup s' n = Some v"
    using assign_ok [of s n v] assms by blast
  then show ?thesis using assign_ok [of s' n' v'] assms by auto
qed

end

definition env_inv :: "ub \<Rightarrow> bool" where
  "env_inv u \<longleftrightarrow> (\<exists>es. env_ready u es)"

definition env_room :: "ub \<Rightarrow> bytes \<Rightarrow> bytes \<Rightarrow> bool" where
  "env_room u n v \<longleftrightarrow> (\<exists>es. env_ready u es \<and> env_fits u es n v)"

definition env_assign :: "bytes \<Rightarrow> bytes \<Rightarrow> ub \<Rightarrow> ub option" where
  "env_assign n v u = setenv (n @ [0]) (Some (v @ [0])) u"

lemma var_of_map_of: "env_ready u es \<Longrightarrow> ok_name n \<Longrightarrow> var_of u n = map_of es n"
  using getenv_map_of [of u es n "[]"] env_readyD(1) [of u es]
  by (auto simp: var_of_def split: option.splits)

lemma map_of_del_other: "k \<noteq> n \<Longrightarrow> map_of (del_var n es) k = map_of es k"
  by (induction es) (auto simp: del_var_def)

lemma map_of_del_same: "map_of (del_var n es) n = None"
  using del_var_props(1) by (simp add: map_of_eq_None_iff)

lemma map_of_redefine: "map_of (del_var n es @ [(n, v)]) k = (if k = n then Some v else map_of es k)"
  by (simp add: map_of_del_other map_of_del_same map_add_def split: option.split)

lemma name_value_inject: "EQ \<notin> set n \<Longrightarrow> EQ \<notin> set n' \<Longrightarrow> n @ EQ # v = n' @ EQ # v' \<longleftrightarrow> n = n' \<and> v = v'"
proof (induction n arbitrary: n')
  case Nil
  then show ?case by (cases n') auto
next
  case (Cons c n)
  then show ?case by (cases n') auto
qed

lemma enc_vars_starts: "\<forall>e\<in>set es. ok_var e \<Longrightarrow> hd (enc_vars es @ 0 # r) = 0 \<longleftrightarrow> es = []"
  using enc_vars_shape [of es] by (cases "es = []") (force, auto simp: hd_append)

lemma enc_vars_inject:
  "\<forall>e\<in>set es. ok_var e \<Longrightarrow> \<forall>e\<in>set es'. ok_var e \<Longrightarrow> enc_vars es @ 0 # r = enc_vars es' @ 0 # r' \<Longrightarrow> es = es'"
proof (induction es arbitrary: es')
  case Nil
  then show ?case using enc_vars_starts [of "[]" r] enc_vars_starts [of es' r'] by simp
next
  case (Cons e es)
  have "hd (enc_vars (e # es) @ 0 # r) \<noteq> 0"
    using enc_vars_starts [OF Cons.prems(1), of r] by blast
  then have "es' \<noteq> []" using enc_vars_starts [OF Cons.prems(2), of r'] unfolding Cons.prems(3) by blast
  then obtain e' es'' where es': "es' = e' # es''" by (cases es') auto
  have "(fst e @ EQ # snd e) @ 0 # enc_vars es @ 0 # r = (fst e' @ EQ # snd e') @ 0 # enc_vars es'' @ 0 # r'"
    using Cons.prems(3) by (simp add: es' enc_var_def)
  moreover have nn: "nonul (fst e @ EQ # snd e)" "nonul (fst e' @ EQ # snd e')"
    and eq: "EQ \<notin> set (fst e)" "EQ \<notin> set (fst e')"
    using Cons.prems by (auto simp: es' ok_var_def ok_name_def)
  ultimately have "fst e @ EQ # snd e = fst e' @ EQ # snd e'" "enc_vars es @ 0 # r = enc_vars es'' @ 0 # r'"
    by (simp_all only: cstr_inject [OF nn])
  then have "fst e = fst e'" "snd e = snd e'" "enc_vars es @ 0 # r = enc_vars es'' @ 0 # r'"
    by (simp_all only: name_value_inject [OF eq])
  then show ?case using Cons.IH [of es''] Cons.prems es' by (simp add: prod_eq_iff)
qed

lemma env_ready_unique:
  assumes "env_ready u es" "env_ready u es'"
  shows "es = es'"
proof -
  obtain r r' where "drop 0 (env_data u) = enc_vars es @ 0 # r" "drop 0 (env_data u) = enc_vars es' @ 0 # r'"
    using encodes_drop env_readyD(2) assms by meson
  then have "enc_vars es @ 0 # r = enc_vars es' @ 0 # r'" by simp
  then show ?thesis
    using assms by (intro enc_vars_inject [of es es' r r']) (auto simp: env_ready_def encodes_def ok_vars_def)
qed

lemma assign_ready:
  assumes "env_ready s es" "ok_name n" "nonul v" "ordinary n" "env_fits s es n v"
  shows "\<exists>s'. env_assign n v s = Some s' \<and> env_ready s' (del_var n es @ [(n, v)]) \<and> ENV_SIZE s' = ENV_SIZE s"
proof -
  obtain s' where "do_setenv_worker (argv_of n [v]) s = Some (0, s')" "env_ready s' (del_var n es @ [(n, v)])"
    "ENV_SIZE s' = ENV_SIZE s"
    using setenv_defines [OF assms(1,2), of "[v]"] assms by (auto simp: settable_def)
  then show ?thesis by (simp add: env_assign_def setenv_def argv_of_def)
qed

interpretation ubenv: env_map var_of env_assign env_inv env_room
proof
  fix s n v
  assume a: "env_inv s" "ok_name n" "nonul v" "ordinary n" "env_room s n v"
  then obtain es where es: "env_ready s es" "env_fits s es n v" by (auto simp: env_room_def)
  obtain s' where s': "env_assign n v s = Some s'" "env_ready s' (del_var n es @ [(n, v)])"
    using assign_ready [OF es(1) a(2,3,4) es(2)] by blast
  have "env_inv s'" using s'(2) by (auto simp: env_inv_def)
  moreover have "var_of s' k = (if k = n then Some v else var_of s k)" if "ok_name k" for k
    by (simp only: var_of_map_of [OF s'(2) that] var_of_map_of [OF es(1) that] map_of_redefine)
  ultimately show "\<exists>s'. env_assign n v s = Some s' \<and> env_inv s' \<and> var_of s' n = Some v \<and>
      (\<forall>k. ok_name k \<longrightarrow> k \<noteq> n \<longrightarrow> var_of s' k = var_of s k)"
    using a s' by auto
next
  fix s n v s' w
  assume a: "ok_name n" "nonul v" "ordinary n" "env_room s n v" "env_assign n v s = Some s'" "env_room s n w"
  then obtain es where es: "env_ready s es" "env_fits s es n v" "env_fits s es n w"
    using env_ready_unique by (auto simp: env_room_def)
  then have "env_ready s' (del_var n es @ [(n, v)])" "ENV_SIZE s' = ENV_SIZE s"
    using assign_ready [OF es(1) a(1,2,3) es(2)] a(5) by auto
  moreover have "del_var n (del_var n es @ [(n, v)]) = del_var n es" by (simp add: del_var_def)
  ultimately show "env_room s' n w" using es(3) by (auto simp: env_room_def env_fits_def)
qed

section \<open>Listing\<close>

lemma print_all_vars:
  "\<forall>e\<in>set es. ok_var e \<Longrightarrow> drop i m = enc_vars es @ 0 # r \<Longrightarrow>
     print_all None m i = Some (concat (map (\<lambda>e. fst e @ EQ # snd e @ [10]) es), Some (i + length (enc_vars es)))"
proof (induction es arbitrary: i)
  case Nil
  then show ?case by (subst print_all.simps) (simp add: drop_Cons_iff)
next
  case (Cons e es)
  obtain n v where e: "e = (n, v)" by (cases e)
  have ok: "n \<noteq> []" "nonul n" "nonul v" using Cons.prems by (auto simp: e ok_var_def ok_name_def)
  then obtain c cs where c: "n = c # cs" "c \<noteq> 0" by (cases n) auto
  have d: "drop i m = (n @ EQ # v) @ 0 # enc_vars es @ 0 # r"
    using Cons.prems by (simp add: e enc_var_def)
  have nn: "nonul (n @ EQ # v)" using ok by simp
  have "env_next m i = Some (i + length (n @ EQ # v))" by (rule env_next_str [OF nn d])
  moreover have "rd m i = Some c" using d c by (simp add: drop_Cons_iff)
  moreover have "drop (Suc (i + length (n @ EQ # v))) m = enc_vars es @ 0 # r"
    using drop_plus [of i m "(n @ EQ # v) @ [0]"] d by simp
  ultimately show ?case
    using Cons.IH [of "Suc (i + length (n @ EQ # v))"] Cons.prems c d
    by (subst print_all.simps) (auto simp: e enc_var_def)
qed

lemma getenv_copy_eq:
  "nonul v \<Longrightarrow> drop k m = v @ 0 # r \<Longrightarrow> length buf = len \<Longrightarrow>
     getenv_copy len n buf m k =
       (if length v < len then Some (v @ [0], drop (length v + 1) buf, n + length v + 1)
        else Some (take len v, [], n + len + 1))"
proof (induction v arbitrary: len n buf k)
  case Nil
  then show ?case by (cases len; cases buf) (auto simp: drop_Cons_iff)
next
  case (Cons c v)
  then show ?case by (cases len; cases buf) (auto simp: drop_Cons_iff)
qed

lemma enc_del_le: "length (enc_vars (del_var n es)) \<le> length (enc_vars es)"
  by (induction es) (auto simp: del_var_def)

section \<open>Room for assignments\<close>

text \<open>The variables are \<open>m\<close>, and there is room for \<open>k\<close> more bytes.\<close>

definition env_has :: "ub \<Rightarrow> (bytes \<rightharpoonup> bytes) \<Rightarrow> nat \<Rightarrow> bool" where
  "env_has u m k \<longleftrightarrow> (\<exists>es. env_ready u es \<and> map_of es = m \<and> length (enc_vars es) + k < ENV_SIZE u)"

lemma env_has_setenv:
  assumes u: "env_has u m (length n + length v + 2 + k)" and n: "ok_name n" "ordinary n" "nonul v"
  shows "\<exists>u'. setenv (cstr n) (Some (cstr v)) u = Some u' \<and> env_has u' (m(n \<mapsto> v)) k"
proof -
  obtain es where es: "env_ready u es" "map_of es = m" "length (enc_vars es) + (length n + length v + 2 + k) < ENV_SIZE u"
    using u by (auto simp: env_has_def)
  have l: "length (enc_vars (del_var n es @ [(n, v)])) \<le> length (enc_vars es) + length n + length v + 2"
    using enc_del_le [of n es] by (simp add: enc_var_def)
  then have "env_fits u es n (join_values [v])" using es(3) by (simp add: env_fits_def)
  then obtain u' where "do_setenv_worker (argv_of n [v]) u = Some (0, u')" "env_ready u' (del_var n es @ [(n, v)])"
    "ENV_SIZE u' = ENV_SIZE u"
    using setenv_defines [OF es(1) n(1), of "[v]"] n by (auto simp: settable_def)
  moreover have "map_of (del_var n es @ [(n, v)]) = m(n \<mapsto> v)" using es(2) by (intro ext) (simp only: map_of_redefine fun_upd_apply)
  ultimately show ?thesis using l es(3)
    by (auto simp: setenv_def argv_of_def cstr_def env_has_def intro!: exI [of _ "del_var n es @ [(n, v)]"])
qed

lemma env_has_less: "env_has u m k \<Longrightarrow> j \<le> k \<Longrightarrow> env_has u m j"
  by (auto simp: env_has_def)

lemma var_of_env_has: "env_has u m k \<Longrightarrow> ok_name x \<Longrightarrow> var_of u x = m x"
  by (auto simp: env_has_def var_of_map_of)

section \<open>Properties\<close>

text \<open>A small environment for the examples: two variables in an array of 40 bytes.\<close>

definition demo_vars :: "var list" where
  "demo_vars = [(str ''a'', str ''1''), (str ''serial#'', str ''7'')]"

definition demo_ub :: ub where
  "demo_ub = \<lparr>env_valid = 1, env_addr = LocRam, ptr_crc = 5, env_data = enc_vars demo_vars @ 0 # replicate 25 0,
     default_environment = [0], flash_st = \<lparr>flash_info = [], flash_mem = []\<rparr>,
     con = \<lparr>devlist = [], stdio_devices = [None, None, None], jt_in = None, jt_out = None\<rparr>,
     eths = \<lparr>eth_devices = [], eth_current = 0, first_failed = None, NetRestartWrap = False\<rparr>,
     baudrate = 115200, bi_enetaddr = replicate 6 0, bi_ip_addr = 0, load_addr = 0,
     BootFile = replicate 128 0, con_in = []\<rparr>"

lemma demo_ready: "env_ready demo_ub demo_vars"
proof -
  have "encodes (env_data demo_ub) demo_vars"
    by (auto simp: encodes_def demo_ub_def demo_vars_def image_of_def ok_vars_def ok_var_def ok_name_def
        str_def ch_def)
  then show ?thesis by (simp add: env_ready_def) (simp add: demo_ub_def)
qed

definition roomy_ub :: ub where
  "roomy_ub = demo_ub\<lparr>env_data := enc_vars demo_vars @ 0 # replicate 400 0\<rparr>"

lemma roomy_has: "env_has roomy_ub (map_of demo_vars) 300"
proof -
  have "encodes (enc_vars demo_vars @ 0 # replicate 400 0) demo_vars"
    by (auto simp: encodes_def demo_vars_def image_of_def ok_vars_def ok_var_def ok_name_def str_def ch_def)
  then have "env_ready roomy_ub demo_vars" using demo_ready by (simp add: roomy_ub_def env_ready_def)
  then show ?thesis unfolding env_has_def by (intro exI [of _ demo_vars]) (simp add: roomy_ub_def)
qed

text \<open>
  C1: \<open>setenv\<close> on the encoded environment implements assignment on the list of variables. For a
  variable that is new or may be replaced, and a definition that fits, it returns 0; the array then
  encodes the variables without the old definition and with the new one at the end (the arguments
  joined by blanks), \<open>getenv\<close> returns the new value for this name and the old one for every other
  name, and the checksum is that of the array.
\<close>

theorem setenv_implements_assignment:
  assumes u: "env_ready u es" and n: "ok_name n" and s: "settable n es"
    and vs: "vs \<noteq> []" "\<forall>v\<in>set vs. nonul v" and fit: "env_fits u es n (join_values vs)"
  shows "\<exists>u'. do_setenv (argv_of n vs) u = Some (0, u') \<and>
    env_ready u' (del_var n es @ [(n, join_values vs)]) \<and>
    (\<forall>k. ok_name k \<longrightarrow> (\<exists>i. getenv (cstr k) u' = Some i \<and>
       map_option (str_at (env_data u')) i = (if k = n then Some (join_values vs) else map_of es k))) \<and>
    ptr_crc u' = crc32 0 (env_data u') \<and> ENV_SIZE u' = ENV_SIZE u"
proof -
  obtain u' where u': "do_setenv_worker (argv_of n vs) u = Some (0, u')"
    "env_ready u' (del_var n es @ [(n, join_values vs)])" "ptr_crc u' = crc32 0 (env_data u')"
    "ENV_SIZE u' = ENV_SIZE u"
    using setenv_defines [OF assms] by blast
  have "\<exists>i. getenv (cstr k) u' = Some i \<and>
      map_option (str_at (env_data u')) i = (if k = n then Some (join_values vs) else map_of es k)"
    if "ok_name k" for k
    using getenv_map_of [OF u'(2) that, of "[]"] by (simp only: map_of_redefine cstr_def)
  then show ?thesis using u' by (auto simp: do_setenv_def argv_of_def)
qed

theorem setenv_implements_assignment_witness:
  "\<exists>u'. do_setenv (argv_of (str ''a'') [str ''x'', str ''y'']) demo_ub = Some (0, u') \<and>
    env_ready u' [(str ''serial#'', str ''7''), (str ''a'', str ''x y'')]"
proof -
  have "settable (str ''a'') demo_vars" by (simp add: settable_def ordinary_def str_def ch_def)
  moreover have "env_fits demo_ub demo_vars (str ''a'') (join_values [str ''x'', str ''y''])"
    by (simp add: env_fits_def demo_ub_def demo_vars_def del_var_def enc_var_def str_def ch_def)
  moreover have "del_var (str ''a'') demo_vars @ [(str ''a'', join_values [str ''x'', str ''y''])] =
      [(str ''serial#'', str ''7''), (str ''a'', str ''x y'')]"
    by (simp add: del_var_def demo_vars_def str_def ch_def)
  ultimately show ?thesis
    using setenv_implements_assignment [OF demo_ready, of "str ''a''" "[str ''x'', str ''y'']"]
    by (auto simp: ok_name_def str_def ch_def)
qed

text \<open>
  A definition that does not fit. \<open>setenv\<close> returns 1, the old definition of the variable is
  gone, every other variable is still there, and the checksum is not updated.
\<close>

lemma setenv_overflow_deletes:
  assumes u: "env_ready u es" and n: "ok_name n" and s: "settable n es"
    and vs: "vs \<noteq> []" "\<forall>v\<in>set vs. nonul v" and fit: "\<not> env_fits u es n (join_values vs)"
  shows "\<exists>u'. do_setenv (argv_of n vs) u = Some (1, u') \<and> env_ready u' (del_var n es) \<and>
    ptr_crc u' = ptr_crc u"
  using setenv_overflows [OF assms] by (auto simp: do_setenv_def argv_of_def)

text \<open>
  \<open>setenv\<close> with a name only deletes the variable and updates the checksum; deleting a variable
  that does not exist succeeds and changes nothing else.
\<close>

lemma setenv_name_deletes:
  assumes "env_ready u es" "ok_name n" "settable n es"
  shows "\<exists>u'. do_setenv (argv_of n []) u = Some (0, u') \<and> env_ready u' (del_var n es) \<and>
    ptr_crc u' = crc32 0 (env_data u')"
  using setenv_deletes [OF assms] by (auto simp: do_setenv_def argv_of_def)

text \<open>
  \<open>ethaddr\<close> and \<open>serial#\<close> can be set only once: when the variable exists, every form of the
  command, deletion included, is refused and leaves the whole state as it was.
\<close>

lemma setenv_ethaddr_serial_once:
  assumes u: "env_ready u es" and n: "n = str ''ethaddr'' \<or> n = str ''serial#''" "n \<in> fst ` set es"
    and a: "2 \<le> length argv" "argv ! 1 = Some (cstr n)"
  shows "do_setenv argv u = Some (1, u)"
  using setenv_write_once [OF u n, of argv] a by (simp add: do_setenv_def arg_def cstr_def)

text \<open>
  \<open>getenv\<close> is lookup in the list of variables: for every name it returns, without leaving the
  array, the position of the value or \<open>NULL\<close>.
\<close>

lemma getenv_is_lookup:
  assumes "env_ready u es" "ok_name n"
  shows "\<exists>k. getenv (cstr n) u = Some k \<and> map_option (str_at (env_mem u)) k = map_of es n"
  using getenv_map_of [OF assms, of "[]"] env_readyD(1) [OF assms(1)] by (simp add: cstr_def)

text \<open>
  Two assignments in a row. The later one is what \<open>getenv\<close> returns for its name, and the
  earlier one is still there unless it was to the same name.
\<close>

lemma assignments_independent:
  assumes "env_inv u" "ok_name n" "ok_name n'" "nonul v" "nonul v'" "ordinary n" "ordinary n'"
    "env_room u n v" "\<And>u'. env_assign n v u = Some u' \<Longrightarrow> env_room u' n' v'"
  shows "\<exists>u' u''. setenv (cstr n) (Some (cstr v)) u = Some u' \<and> setenv (cstr n') (Some (cstr v')) u' = Some u'' \<and>
    var_of u'' n' = Some v' \<and> (n \<noteq> n' \<longrightarrow> var_of u'' n = Some v)"
  using ubenv.assign_twice [OF assms] by (auto simp: env_assign_def cstr_def)

text \<open>
  \<open>printenv\<close> without arguments prints every variable once, in order, as \<open>name=value\<close> and a
  newline, then the size used and the size available, and returns 0.
\<close>

lemma printenv_prints_all:
  assumes "env_ready u es"
  shows "\<exists>tail. do_printenv None [x] u = Some (0, concat (map (\<lambda>e. fst e @ EQ # snd e @ [10]) es) @ tail) \<and>
    tail = [10] @ str ''Environment size: '' @ numeral_of small_digits 10 (of_nat (length (enc_vars es))) @ str ''/'' @
      numeral_of small_digits 10 (of_nat (ENV_SIZE u)) @ str '' bytes'' @ [10]"
proof -
  obtain r where "drop 0 (env_data u) = enc_vars es @ 0 # r"
    using encodes_drop [OF env_readyD(2) [OF assms]] by blast
  then have "print_all None (env_mem u) 0 =
      Some (concat (map (\<lambda>e. fst e @ EQ # snd e @ [10]) es), Some (length (enc_vars es)))"
    using print_all_vars [of es 0 "env_data u" r] env_readyD(1,2) [OF assms]
    by (simp add: encodes_def ok_vars_def)
  then show ?thesis by (simp add: do_printenv_def)
qed

text \<open>
  C23: \<open>getenv_r\<close> into a buffer of \<open>len\<close> bytes. A value with room to spare is copied with its
  terminator and the length including it is returned. A value that fills the buffer exactly
  together with its terminator makes the code store one byte past the buffer. A longer value is cut
  without a terminator, and \<open>len + 1\<close> is returned.
\<close>

theorem getenv_r_cases:
  assumes u: "env_ready u es" and n: "ok_name n" and v: "map_of es n = Some v" and b: "length buf = len"
  shows "getenv_r (cstr n) buf len u =
    (if length v + 1 < len then Some (int (length v) + 1, v @ 0 # drop (length v + 1) buf)
     else if length v + 1 = len then None
     else Some (int len + 1, take len v))"
proof -
  obtain k r where k: "getenv (cstr n) u = Some (Some k)" "drop k (env_data u) = v @ 0 # r" "nonul v"
    using getenv_present [OF u n v, of "[]"] by (auto simp: cstr_def)
  have "getenv_copy len 0 buf (env_mem u) k = (if length v < len then Some (v @ [0], drop (length v + 1) buf, length v + 1)
      else Some (take len v, [], len + 1))"
    using getenv_copy_eq [OF k(3,2) b, of 0] env_readyD(1) [OF u] by simp
  then show ?thesis using k(1) b by (auto simp: getenv_r_def)
qed

theorem getenv_r_cases_witness:
  "getenv_r (cstr (str ''a'')) [9, 9, 9] 3 demo_ub = Some (2, str ''1'' @ [0, 9]) \<and>
   getenv_r (cstr (str ''a'')) [9, 9] 2 demo_ub = None"
proof -
  have "ok_name (str ''a'')" "map_of demo_vars (str ''a'') = Some (str ''1'')"
    by (simp_all add: ok_name_def demo_vars_def str_def ch_def)
  then show ?thesis
    using getenv_r_cases [OF demo_ready, of "str ''a''" "str ''1''" "[9, 9, 9]" 3]
      getenv_r_cases [OF demo_ready, of "str ''a''" "str ''1''" "[9, 9]" 2] by (simp add: str_def)
qed

end
