(* ===== verification/EnvFlash.thy ===== *)
theory EnvFlash
  imports Environment
begin

text \<open>
  The environment in flash, \<open>common/env_flash.c\<close> without a redundant copy, and the relocation of
  \<open>common/env_common.c\<close>. In flash the environment is one sector: the big-endian checksum followed
  by the data. Before relocation \<open>env_ptr\<close> is that place, afterwards it is the RAM copy.
\<close>

section \<open>Start-up\<close>

text \<open>The data part of the copy in flash.\<close>

definition flash_env_data :: "ub \<Rightarrow> bytes" where
  "flash_env_data u = take (ENV_SIZE u) (drop (env_offset + 4) (flash_mem (flash_st u)))"

definition flash_env_crc :: "ub \<Rightarrow> u32" where
  "flash_env_crc u = of_be32 (drop env_offset (flash_mem (flash_st u)))"

definition env_init :: "ub \<Rightarrow> ub option" where
  "env_init u =
     (if length (flash_mem (flash_st u)) < env_offset + CFG_ENV_SIZE u then None
      else if crc32 0 (flash_env_data u) = flash_env_crc u
      then Some (u\<lparr>env_addr := LocFlash, env_valid := 1\<rparr>)
      else Some (u\<lparr>env_addr := LocDefault, env_valid := 0\<rparr>))"

definition env_relocate_spec :: "ub \<Rightarrow> ub option" where
  "env_relocate_spec u =
     (if length (flash_mem (flash_st u)) < env_offset + CFG_ENV_SIZE u then None
      else Some (u\<lparr>ptr_crc := flash_env_crc u, env_data := flash_env_data u\<rparr>))"

text \<open>
  \<open>fresh\<close> is what \<open>malloc (CFG_ENV_SIZE)\<close> returns. The result is not checked for \<open>NULL\<close>. A
  default environment that is too large leaves \<open>gd->env_addr\<close> as it is.
\<close>

definition env_relocate :: "bytes option \<Rightarrow> ub \<Rightarrow> ub option" where
  "env_relocate fresh u = do {
     buf \<leftarrow> fresh;
     let u = u\<lparr>ptr_crc := of_be32 buf, env_data := drop 4 buf\<rparr>;
     if env_valid u = 0 then
       if length (default_environment u) > ENV_SIZE u then Some u
       else do {
         data \<leftarrow> memset (env_data u) 0 (ENV_SIZE u);
         let data = overlay data 0 (default_environment u);
         Some ((env_crc_update (u\<lparr>env_data := data\<rparr>))\<lparr>env_valid := 1, env_addr := LocRam\<rparr>) }
     else do {
       u \<leftarrow> env_relocate_spec u;
       Some (u\<lparr>env_addr := LocRam\<rparr>) } }"

section \<open>saveenv\<close>

text \<open>The bytes of \<open>*env_ptr\<close>.\<close>

definition env_bytes :: "ub \<Rightarrow> bytes" where
  "env_bytes u = be32 (ptr_crc u) @ env_data u"

definition saveenv :: "chip \<Rightarrow> ub \<Rightarrow> (int \<times> ub) option" where
  "saveenv chip u =
     (let len = of_nat (CFG_ENV_SIZE u); end_addr = CFG_ENV_ADDR + len - 1;
          (rc, fl) = flash_sect_protect 0 CFG_ENV_ADDR end_addr (flash_st u)
      in if rc \<noteq> 0 then Some (1, u\<lparr>flash_st := fl\<rparr>)
      else do {
        (rc, fl) \<leftarrow> flash_sect_erase chip CFG_ENV_ADDR end_addr fl;
        if rc \<noteq> 0 then Some (1, u\<lparr>flash_st := fl\<rparr>)
        else do {
          (rc, mem) \<leftarrow> flash_write chip (flash_info fl) (flash_mem fl) (env_bytes u) CFG_ENV_ADDR len;
          let rcode = (if rc \<noteq> 0 then 1 else 0);
          let (_, fl) = flash_sect_protect 1 CFG_ENV_ADDR end_addr (fl\<lparr>flash_mem := mem\<rparr>);
          Some (rcode, u\<lparr>flash_st := fl\<rparr>) } })"

definition do_saveenv :: "chip \<Rightarrow> ub \<Rightarrow> (int \<times> ub) option" where
  "do_saveenv chip u = map_option (\<lambda>(rc, u). (if rc \<noteq> 0 then 1 else 0, u)) (saveenv chip u)"

section \<open>Saving and loading\<close>

lemma and_ones: "map2 (AND) (replicate k (0xff :: byte)) (take k src) = take k src"
proof (induction k arbitrary: src)
  case (Suc k)
  have "(0xff :: byte) = - 1" by simp
  then have "0xff AND b = b" for b :: byte by (simp only: and.left_neutral)
  then show ?case using Suc by (cases src) auto
qed simp

lemma overlay_overlay: "length v = length w \<Longrightarrow> i + length w \<le> length m \<Longrightarrow> overlay (overlay m i v) i w = overlay m i w"
  by (rule nth_eqI) (auto simp: overlay_nth)

text \<open>Writing to an erased window stores the data.\<close>

lemma erased_write:
  fixes m src :: bytes
  assumes "i + k \<le> length m" "length src = k"
  shows "overlay (overlay m i (replicate k 0xff)) i
     (map2 (AND) (take k (drop i (overlay m i (replicate k 0xff)))) (take k src)) = overlay m i src"
  using overlay_window [of i "replicate k 0xff" m] and_ones [of k src] assms
  by (simp add: overlay_overlay)

lemma env_offset_eq: "env_offset = 4 * 65536"
  by (simp add: env_offset_def CFG_ENV_ADDR_def CFG_FLASH_BASE_def)

lemma env_sector_unprotected:
  assumes "5 \<le> n" "protect info ! 4 = 0"
  shows "\<not> (\<exists>i<n. protect info ! i \<noteq> 0 \<and>
    touches 0x9f000000 65536 (unat CFG_ENV_ADDR) (unat CFG_ENV_ADDR + unat (65536 :: u32) - 1) i)"
proof -
  have "i = 4" if "touches 0x9f000000 65536 (unat CFG_ENV_ADDR) (unat CFG_ENV_ADDR + unat (65536 :: u32) - 1) i" for i
    using that by (simp add: touches_def CFG_ENV_ADDR_def)
  then show ?thesis using assms by auto
qed

context spi_nor
begin

lemma write_env_sector:
  assumes un: "uniform 0x9f000000 65536 n info" and n: "5 \<le> n" and pr: "protect info ! 4 = 0"
    and m: "length mem = n * 65536" "length mem \<le> 2 ^ 24" and src: "length src = 65536"
  shows "flash_write chip [info] (overlay mem env_offset (replicate 65536 0xff)) src CFG_ENV_ADDR 65536 =
    Some (0, overlay mem env_offset src)"
proof -
  let ?m1 = "overlay mem env_offset (replicate 65536 0xff)"
  have off: "unat (CFG_ENV_ADDR - CFG_FLASH_BASE) = env_offset" by (simp add: env_offset_def)
  have m1: "length ?m1 = n * 65536" "length ?m1 \<le> 2 ^ 24" "env_offset + 65536 \<le> length mem"
    using m n by (simp_all add: env_offset_eq overlay_length)
  have c: "(65536 :: u32) \<noteq> 0" "unat CFG_ENV_ADDR + unat (65536 :: u32) \<le> 2 ^ 32"
    and sz: "unat (65536 :: u32) = 65536"
    by (simp_all add: CFG_ENV_ADDR_def)
  have inside: "\<not> (unat CFG_ENV_ADDR < 0x9f000000 \<or> 0x9f000000 + n * 65536 < unat CFG_ENV_ADDR + unat (65536 :: u32))"
    using n by (simp add: CFG_ENV_ADDR_def)
  have "flash_write chip [info] ?m1 src CFG_ENV_ADDR 65536 = write_buff chip ?m1 src CFG_ENV_ADDR 65536"
    using flash_write_single [OF un c, of chip ?m1 src]
    unfolding if_not_P [OF inside] if_not_P [OF env_sector_unprotected [OF n pr]]
    unfolding sz .
  also have "\<dots> = Some (0, overlay ?m1 env_offset (map2 (AND) (take 65536 (drop env_offset ?m1)) (take 65536 src)))"
    using write_buff_aligned [of CFG_ENV_ADDR 65536 src ?m1] src m1 m
    by (simp only: off) (simp add: env_offset_eq)
  also have "\<dots> = Some (0, overlay mem env_offset src)"
    by (simp only: erased_write [OF m1(3) src])
  finally show ?thesis .
qed

lemma saveenv_eq:
  assumes fl: "flash_st u = \<lparr>flash_info = [info], flash_mem = mem\<rparr>"
    and un: "uniform 0x9f000000 65536 n info" and n: "5 \<le> n"
    and m: "length mem = n * 65536" "length mem \<le> 2 ^ 24" and sz: "CFG_ENV_SIZE u = 65536"
  shows "saveenv chip u = Some (0, u\<lparr>flash_st := \<lparr>flash_info = [info\<lparr>protect := (protect info)[4 := 1]\<rparr>],
    flash_mem = overlay mem env_offset (env_bytes u)\<rparr>\<rparr>)"
proof -
  let ?e = "0x9f04ffff :: u32"
  let ?set = "\<lambda>p i. i\<lparr>protect := map (\<lambda>j. if 4 \<le> j \<and> j \<le> 4 then p else protect i ! j) [0..<length (protect i)]\<rparr>"
  let ?m = "overlay mem env_offset (env_bytes u)"
  have a: "unat CFG_ENV_ADDR = 0x9f000000 + 4 * 65536" and e: "unat ?e + 1 = 0x9f000000 + Suc 4 * 65536"
    by (simp_all add: CFG_ENV_ADDR_def)
  have len: "(of_nat (CFG_ENV_SIZE u) :: u32) = 65536" "CFG_ENV_ADDR + 65536 - 1 = ?e"
    unfolding sz by (simp_all add: CFG_ENV_ADDR_def)
  have four: "4 < n" using n by simp
  let ?i0 = "?set 0 info"
  have u0: "uniform 0x9f000000 65536 n ?i0" using un by (intro uniform_protect) auto
  have p0: "flash_sect_protect 0 CFG_ENV_ADDR ?e (flash_st u) = (0, \<lparr>flash_info = [?i0], flash_mem = mem\<rparr>)"
    unfolding fl by (rule sect_protect_whole [OF un order_refl four a e])
  have er: "flash_sect_erase chip CFG_ENV_ADDR ?e \<lparr>flash_info = [?i0], flash_mem = mem\<rparr> =
      Some (0, \<lparr>flash_info = [?i0], flash_mem = overlay mem env_offset (replicate 65536 0xff)\<rparr>)"
    using sect_erase_whole [OF u0 order_refl four a e m]
    by (simp only: env_offset_eq diff_self_eq_0 add_0 mult_1)
  have "protect ?i0 ! 4 = 0" "length (env_bytes u) = 65536"
    using un n sz by (simp_all add: uniform_def env_bytes_def)
  then have wr: "flash_write chip [?i0] (overlay mem env_offset (replicate 65536 0xff)) (env_bytes u) CFG_ENV_ADDR 65536 =
      Some (0, ?m)"
    using write_env_sector [OF u0 n _ m] by blast
  have p1: "flash_sect_protect 1 CFG_ENV_ADDR ?e \<lparr>flash_info = [?i0], flash_mem = ?m\<rparr> =
      (0, \<lparr>flash_info = [?set 1 ?i0], flash_mem = ?m\<rparr>)"
    by (rule sect_protect_whole [OF u0 order_refl four a e])
  have "map (\<lambda>j. if 4 \<le> j \<and> j \<le> 4 then 1 else protect ?i0 ! j) [0..<length (protect ?i0)] = (protect info)[4 := 1]"
    by (intro nth_eqI) (auto simp: nth_list_update)
  then have "?set 1 ?i0 = info\<lparr>protect := (protect info)[4 := 1]\<rparr>" by simp
  then show ?thesis
    unfolding saveenv_def len Let_def using p0 er wr p1 by simp
qed

end

section \<open>The next start-up\<close>

lemma flash_env_stored:
  assumes "flash_mem (flash_st v) = overlay mem env_offset (be32 c @ d)" "env_offset + 4 + length d \<le> length mem"
    and "ENV_SIZE v = length d"
  shows "flash_env_data v = d" "flash_env_crc v = c" "\<not> length (flash_mem (flash_st v)) < env_offset + CFG_ENV_SIZE v"
proof -
  have "drop env_offset (flash_mem (flash_st v)) = be32 c @ d @ drop (env_offset + 4 + length d) mem"
    using assms by (simp add: overlay_def add.assoc)
  moreover have "drop (env_offset + 4) (flash_mem (flash_st v)) = drop 4 (drop env_offset (flash_mem (flash_st v)))"
    by (simp add: add.commute)
  ultimately show "flash_env_data v = d" "flash_env_crc v = c"
    using assms(3) by (simp_all add: flash_env_data_def flash_env_crc_def)
qed (use assms in simp)

lemma env_init_stored:
  assumes "flash_mem (flash_st v) = overlay mem env_offset (be32 c @ d)" "env_offset + 4 + length d \<le> length mem"
    and "ENV_SIZE v = length d"
  shows "env_init v = (if crc32 0 d = c then Some (v\<lparr>env_addr := LocFlash, env_valid := 1\<rparr>)
    else Some (v\<lparr>env_addr := LocDefault, env_valid := 0\<rparr>))"
  using flash_env_stored [OF assms] by (simp add: env_init_def)

text \<open>Start-up: \<open>env_init\<close>, then \<open>env_relocate\<close> with the buffer that \<open>malloc\<close> returned.\<close>

definition env_boot :: "bytes \<Rightarrow> ub \<Rightarrow> ub option" where
  "env_boot buf v = do { v \<leftarrow> env_init v; env_relocate (Some buf) v }"

lemma env_boot_valid:
  assumes s: "flash_mem (flash_st v) = overlay mem env_offset (be32 c @ d)" "env_offset + 4 + length d \<le> length mem"
    "ENV_SIZE v = length d" and b: "length buf = CFG_ENV_SIZE v" and c: "c = crc32 0 d"
  shows "env_boot buf v = Some (v\<lparr>env_addr := LocRam, env_valid := 1, ptr_crc := c, env_data := d\<rparr>)"
proof -
  let ?v = "v\<lparr>env_addr := LocFlash, env_valid := 1, ptr_crc := of_be32 buf, env_data := drop 4 buf\<rparr>"
  have "flash_mem (flash_st ?v) = overlay mem env_offset (be32 c @ d)" "ENV_SIZE ?v = length d"
    using s b by simp_all
  from flash_env_stored [OF this(1) s(2) this(2)] show ?thesis
    using env_init_stored [OF s] c
    by (simp add: env_boot_def env_relocate_def env_relocate_spec_def)
qed

lemma env_boot_invalid:
  assumes s: "flash_mem (flash_st v) = overlay mem env_offset (be32 c @ d)" "env_offset + 4 + length d \<le> length mem"
    "ENV_SIZE v = length d" and b: "length buf = CFG_ENV_SIZE v" and c: "c \<noteq> crc32 0 d"
    and l: "length (default_environment v) \<le> ENV_SIZE v"
  shows "\<exists>v'. env_boot buf v = Some v' \<and> env_valid v' = 1 \<and> env_addr v' = LocRam \<and>
    env_data v' = default_environment v @ replicate (ENV_SIZE v - length (default_environment v)) 0 \<and>
    ptr_crc v' = crc32 0 (env_data v')"
proof -
  have "length (drop 4 buf) = ENV_SIZE v" using b by simp
  moreover have "memset (drop 4 buf) 0 (length (drop 4 buf)) = Some (replicate (ENV_SIZE v) 0)"
    using b by (simp add: memset_eq)
  ultimately show ?thesis
    using env_init_stored [OF s] c l
    by (auto simp: env_boot_def env_relocate_def env_crc_update_def overlay_def Let_def)
qed

section \<open>Properties\<close>

text \<open>The board: one bank as \<open>flash_get_geom\<close> describes it, and the environment of the examples.\<close>

definition board_ub :: ub where
  "board_ub = demo_ub\<lparr>flash_st := \<lparr>flash_info = [board_bank], flash_mem = replicate 16777216 0\<rparr>,
     env_data := enc_vars demo_vars @ 0 # replicate 65517 0, ptr_crc := 7\<rparr>"

lemma board_ub_simps:
  "flash_st board_ub = \<lparr>flash_info = [board_bank], flash_mem = replicate 16777216 0\<rparr>"
  "CFG_ENV_SIZE board_ub = 65536" "env_ready board_ub demo_vars"
proof -
  show "env_ready board_ub demo_vars"
    using demo_ready by (auto simp: env_ready_def board_ub_def encodes_def image_of_def demo_vars_def)
qed (simp_all add: board_ub_def demo_vars_def enc_var_def str_def ch_def)

text \<open>
  C2: saving and starting up again. On the board's flash, \<open>saveenv\<close> succeeds, changes only the
  sector of the environment and leaves it protected; whatever the rest of the state is after the
  next reset, if the checksum was up to date the start-up code finds the environment valid and
  loads exactly the saved variables into RAM.
\<close>

theorem saveenv_boot_roundtrip:
  assumes chip: "spi_nor chip" and fl: "flash_st u = \<lparr>flash_info = [info], flash_mem = mem\<rparr>"
    and un: "uniform 0x9f000000 65536 n info" "5 \<le> n"
    and m: "length mem = n * 65536" "length mem \<le> 2 ^ 24" and sz: "CFG_ENV_SIZE u = 65536"
    and crc: "ptr_crc u = crc32 0 (env_data u)"
  shows "\<exists>u'. saveenv chip u = Some (0, u') \<and>
    flash_mem (flash_st u') = overlay mem env_offset (env_bytes u) \<and>
    flash_info (flash_st u') = [info\<lparr>protect := (protect info)[4 := 1]\<rparr>] \<and>
    (\<forall>v buf. flash_mem (flash_st v) = flash_mem (flash_st u') \<longrightarrow> ENV_SIZE v = ENV_SIZE u \<longrightarrow>
       length buf = CFG_ENV_SIZE v \<longrightarrow>
       env_boot buf v = Some (v\<lparr>env_addr := LocRam, env_valid := 1, ptr_crc := ptr_crc u, env_data := env_data u\<rparr>))"
proof -
  let ?u = "u\<lparr>flash_st := \<lparr>flash_info = [info\<lparr>protect := (protect info)[4 := 1]\<rparr>],
    flash_mem = overlay mem env_offset (env_bytes u)\<rparr>\<rparr>"
  have "saveenv chip u = Some (0, ?u)" by (rule spi_nor.saveenv_eq [OF chip fl un m sz])
  moreover have "env_offset + 4 + length (env_data u) \<le> length mem"
    using m un sz by (simp add: env_offset_eq)
  ultimately show ?thesis using env_boot_valid [OF _ _ _ _ crc] by (intro exI [of _ ?u]) (simp add: env_bytes_def)
qed

theorem saveenv_boot_roundtrip_witness:
  "\<exists>u'. saveenv nor_chip (env_crc_update board_ub) = Some (0, u') \<and>
    flash_mem (flash_st u') = overlay (replicate 16777216 0) env_offset (env_bytes (env_crc_update board_ub))"
proof -
  have "flash_st (env_crc_update board_ub) = \<lparr>flash_info = [board_bank], flash_mem = replicate 16777216 0\<rparr>"
    "CFG_ENV_SIZE (env_crc_update board_ub) = 65536"
    "ptr_crc (env_crc_update board_ub) = crc32 0 (env_data (env_crc_update board_ub))"
    using board_ub_simps by (simp_all add: env_crc_update_def)
  then show ?thesis
    using saveenv_boot_roundtrip [OF nor.spi_nor_axioms, of "env_crc_update board_ub" board_bank
        "replicate 16777216 0" 256] flash_get_geom_uniform by auto
qed

text \<open>Deleting the last of several variables changes one byte, and so the checksum.\<close>

lemma last_deleted_crc:
  assumes u: "env_ready u es" and l: "fst (last es) = n" "2 \<le> length es" and d: "array_deleted n es (env_data u) m"
  shows "crc32 0 m \<noteq> crc32 0 (env_data u)"
proof -
  have "es \<noteq> []" "butlast es \<noteq> []" using l(2) by (auto simp: butlast_conv_take)
  then obtain pre v where es: "es = pre @ [(n, v)]" "pre \<noteq> []"
    using l(1) append_butlast_last_id [of es] by (metis prod.collapse)
  obtain r where e: "env_data u = enc_vars pre @ enc_var (n, v) @ 0 # r" and ok: "ok_vars es"
    using env_readyD(2) [OF u] es by (auto simp: encodes_def image_of_def)
  obtain c cs where n: "n = c # cs" "c \<noteq> 0" using ok es by (cases n) (auto simp: ok_vars_def ok_var_def ok_name_def)
  have "m = enc_vars pre @ 0 # tl (enc_var (n, v)) @ 0 # r"
    using d es unfolding array_deleted_def e by (auto simp: n enc_var_def)
  moreover have "env_data u = enc_vars pre @ c # tl (enc_var (n, v)) @ 0 # r" by (simp add: e n enc_var_def)
  ultimately show ?thesis using crc32_detects_byte_error [of 0 c 0 "enc_vars pre"] n(2) by simp
qed

text \<open>
  C22: after a definition that did not fit, \<open>setenv\<close> returns an error, the old definition is gone, and the
  checksum is still that of the environment before. A \<open>saveenv\<close> that follows reports success, and what the next
  start-up does depends on the array. If the checksum happens to be that of the array, the start-up loads the
  array, otherwise it loads the built-in default. For a variable that was not defined the array is unchanged,
  so nothing is lost if the checksum was valid. But if it was, and the variable was the last of several, as one
  that was set just before is, the whole environment is lost: one byte of the array has changed, which the
  checksum detects.
\<close>

theorem overflow_then_saveenv_loses_environment:
  assumes chip: "spi_nor chip" and fl: "flash_st u = \<lparr>flash_info = [info], flash_mem = mem\<rparr>"
    and un: "uniform 0x9f000000 65536 k info" "5 \<le> k"
    and m: "length mem = k * 65536" "length mem \<le> 2 ^ 24" and sz: "CFG_ENV_SIZE u = 65536"
    and u: "env_ready u es" and n: "ok_name n" "settable n es"
    and vs: "vs \<noteq> []" "\<forall>v\<in>set vs. nonul v" and fit: "\<not> env_fits u es n (join_values vs)"
  shows "\<exists>u1 u2. do_setenv (argv_of n vs) u = Some (1, u1) \<and> saveenv chip u1 = Some (0, u2) \<and>
    env_ready u1 (del_var n es) \<and> ptr_crc u1 = ptr_crc u \<and>
    (n \<notin> fst ` set es \<longrightarrow> env_data u1 = env_data u) \<and>
    (ptr_crc u = crc32 0 (env_data u) \<and> fst (last es) = n \<and> 2 \<le> length es \<longrightarrow> ptr_crc u \<noteq> crc32 0 (env_data u1)) \<and>
    (\<forall>v buf. flash_mem (flash_st v) = flash_mem (flash_st u2) \<longrightarrow> ENV_SIZE v = ENV_SIZE u \<longrightarrow>
       length buf = CFG_ENV_SIZE v \<longrightarrow> length (default_environment v) \<le> ENV_SIZE v \<longrightarrow>
       (\<exists>v'. env_boot buf v = Some v' \<and>
          env_data v' = (if ptr_crc u = crc32 0 (env_data u1) then env_data u1
            else default_environment v @ replicate (ENV_SIZE v - length (default_environment v)) 0)))"
proof -
  obtain u1 where u1: "do_setenv (argv_of n vs) u = Some (1, u1)" "ptr_crc u1 = ptr_crc u" "env_ready u1 (del_var n es)"
    "ENV_SIZE u1 = ENV_SIZE u" "flash_st u1 = flash_st u" "array_deleted n es (env_data u) (env_data u1)"
    using setenv_overflows [OF u n vs fit] by (auto simp: do_setenv_def argv_of_def)
  let ?u = "u1\<lparr>flash_st := \<lparr>flash_info = [info\<lparr>protect := (protect info)[4 := 1]\<rparr>],
    flash_mem = overlay mem env_offset (env_bytes u1)\<rparr>\<rparr>"
  have "saveenv chip u1 = Some (0, ?u)"
    using u1 fl sz by (intro spi_nor.saveenv_eq [OF chip _ un m]) auto
  moreover have "\<exists>v'. env_boot buf v = Some v' \<and>
      env_data v' = (if ptr_crc u = crc32 0 (env_data u1) then env_data u1
        else default_environment v @ replicate (ENV_SIZE v - length (default_environment v)) 0)"
    if v: "flash_mem (flash_st v) = overlay mem env_offset (env_bytes u1)" "ENV_SIZE v = ENV_SIZE u" "length buf = CFG_ENV_SIZE v"
      "length (default_environment v) \<le> ENV_SIZE v" for v buf
  proof -
    have s: "flash_mem (flash_st v) = overlay mem env_offset (be32 (ptr_crc u) @ env_data u1)"
      "env_offset + 4 + length (env_data u1) \<le> length mem" "ENV_SIZE v = length (env_data u1)"
      using m un sz u1 v by (simp_all add: env_offset_eq env_bytes_def)
    show ?thesis using env_boot_valid [OF s v(3)] env_boot_invalid [OF s v(3) _ v(4)] by fastforce
  qed
  moreover have "ptr_crc u \<noteq> crc32 0 (env_data u1)"
    if c: "ptr_crc u = crc32 0 (env_data u)" "fst (last es) = n" "2 \<le> length es"
    using last_deleted_crc [OF u c(2,3) u1(6)] c(1) by simp
  ultimately show ?thesis using u1
    by (intro exI [of _ u1] exI [of _ ?u]) (auto simp: array_deleted_def)
qed

text \<open>An environment that \<open>a\<close> was added to last, with its checksum.\<close>

definition late_vars :: "var list" where
  "late_vars = [(str ''b'', str ''x''), (str ''a'', str ''1'')]"

definition late_ub :: ub where
  "late_ub = env_crc_update (board_ub\<lparr>env_data := enc_vars late_vars @ 0 # replicate 65523 0\<rparr>)"

lemma late_ub_simps:
  "flash_st late_ub = \<lparr>flash_info = [board_bank], flash_mem = replicate 16777216 0\<rparr>"
  "CFG_ENV_SIZE late_ub = 65536" "env_ready late_ub late_vars" "ptr_crc late_ub = crc32 0 (env_data late_ub)"
proof -
  have "encodes (env_data late_ub) late_vars"
    by (auto simp: encodes_def late_ub_def env_crc_update_def late_vars_def image_of_def ok_vars_def ok_var_def ok_name_def str_def ch_def)
  then show "env_ready late_ub late_vars" using board_ub_simps(3) by (simp add: env_ready_def late_ub_def env_crc_update_def)
qed (simp_all add: late_ub_def env_crc_update_def board_ub_def late_vars_def enc_var_def str_def ch_def)

theorem overflow_then_saveenv_loses_environment_witness:
  "\<exists>u1 u2. do_setenv (argv_of (str ''a'') [replicate 65532 1]) late_ub = Some (1, u1) \<and>
    saveenv nor_chip u1 = Some (0, u2) \<and>
    (\<exists>v'. env_boot (replicate 65536 0) (late_ub\<lparr>flash_st := flash_st u2\<rparr>) = Some v' \<and>
       env_data v' = default_environment late_ub @ replicate (65532 - length (default_environment late_ub)) 0)"
proof -
  have n: "settable (str ''a'') late_vars" "ok_name (str ''a'')"
    by (simp_all add: settable_def ordinary_def ok_name_def str_def ch_def)
  have f: "\<not> env_fits late_ub late_vars (str ''a'') (join_values [replicate 65532 1])"
    using late_ub_simps(2) by (simp add: env_fits_def enc_var_def)
  have v: "\<forall>v\<in>set [replicate 65532 1]. nonul v" by (simp add: nonul_def)
  have l: "ptr_crc late_ub = crc32 0 (env_data late_ub) \<and> fst (last late_vars) = str ''a'' \<and> 2 \<le> length late_vars"
    using late_ub_simps(4) by (simp add: late_vars_def)
  have k: "length (replicate 16777216 (0 :: byte)) = 256 * 65536" "length (replicate 16777216 (0 :: byte)) \<le> 2 ^ 24" "5 \<le> (256 :: nat)"
    by simp_all
  obtain u1 u2 where r: "do_setenv (argv_of (str ''a'') [replicate 65532 1]) late_ub = Some (1, u1)" "saveenv nor_chip u1 = Some (0, u2)"
    and c: "ptr_crc late_ub \<noteq> crc32 0 (env_data u1)"
    and b: "\<forall>v buf. flash_mem (flash_st v) = flash_mem (flash_st u2) \<longrightarrow> ENV_SIZE v = ENV_SIZE late_ub \<longrightarrow>
       length buf = CFG_ENV_SIZE v \<longrightarrow> length (default_environment v) \<le> ENV_SIZE v \<longrightarrow>
       (\<exists>v'. env_boot buf v = Some v' \<and>
          env_data v' = (if ptr_crc late_ub = crc32 0 (env_data u1) then env_data u1
            else default_environment v @ replicate (ENV_SIZE v - length (default_environment v)) 0))"
    using overflow_then_saveenv_loses_environment [OF nor.spi_nor_axioms late_ub_simps(1) flash_get_geom_uniform
        k(3,1,2) late_ub_simps(2,3) n(2,1) _ v f] l by blast
  have z: "ENV_SIZE (late_ub\<lparr>flash_st := flash_st u2\<rparr>) = 65532" "length (default_environment late_ub) \<le> 65532"
    using late_ub_simps(2) by (simp_all add: late_ub_def env_crc_update_def board_ub_def demo_ub_def)
  show ?thesis
    using r c b [rule_format, of "late_ub\<lparr>flash_st := flash_st u2\<rparr>" "replicate 65536 0"] z
    by (intro exI [of _ u1] exI [of _ u2]) simp
qed

end
