(* ===== verification/Gpio.thy ===== *)
theory Gpio
  imports Environment
begin

text \<open>
  Run-time GPIO configuration: \<open>lib_mips/gpiolib.c\<close> and the board functions it calls in
  \<open>board/ar7240/carambola2/carambola2.c\<close>. The environment variables \<open>gpio_config\<close>,
  \<open>led_config\<close> and \<open>button_config\<close> hold records separated by \<open>/\<close> whose fields are separated by
  \<open>:\<close>. The state has the two descriptor tables, the device registers and the sequence of writes
  to them. A shift by more than 31 is undefined and gives \<open>None\<close>.
\<close>

section \<open>State\<close>

record reg_conf =
  addr :: u32
  set_mask :: u32
  clear_mask :: u32

record gpio_led_desc =
  led_id :: u32
  led_bit :: u32
  polarity :: u32
  disable :: u32

record gpio =
  gpiolib_leds :: "gpio_led_desc list"
  gpiolib_buttons :: "gpio_led_desc list"
  mmio :: "u32 \<Rightarrow> u32"
  wlog :: "(u32 \<times> u32) list"

abbreviation (input) AR7240_GPIO_OE :: u32 where "AR7240_GPIO_OE \<equiv> 0x18040000"
abbreviation (input) AR7240_GPIO_IN :: u32 where "AR7240_GPIO_IN \<equiv> 0x18040004"
abbreviation (input) AR7240_GPIO_SET :: u32 where "AR7240_GPIO_SET \<equiv> 0x1804000c"
abbreviation (input) AR7240_GPIO_CLEAR :: u32 where "AR7240_GPIO_CLEAR \<equiv> 0x18040010"
abbreviation (input) AR7240_GPIO_FUNC :: u32 where "AR7240_GPIO_FUNC \<equiv> 0x18040028"

definition reg_wr :: "u32 \<Rightarrow> u32 \<Rightarrow> gpio \<Rightarrow> gpio" where
  "reg_wr a v g = g\<lparr>mmio := (mmio g)(a := v), wlog := wlog g @ [(a, v)]\<rparr>"

definition shl1 :: "u32 \<Rightarrow> u32 option" where
  "shl1 b = (if b < 32 then Some (push_bit (unat b) 1) else None)"

section \<open>The board\<close>

definition board_leds :: "gpio_led_desc list" where
  "board_leds =
     [\<lparr>led_id = 0, led_bit = 0, polarity = 0, disable = 0\<rparr>,
      \<lparr>led_id = 1, led_bit = 13, polarity = 1, disable = 0\<rparr>,
      \<lparr>led_id = 2, led_bit = 14, polarity = 1, disable = 0\<rparr>,
      \<lparr>led_id = 3, led_bit = 0, polarity = 0, disable = 0\<rparr>,
      \<lparr>led_id = 4, led_bit = 0, polarity = 0, disable = 1\<rparr>]"

definition board_buttons :: "gpio_led_desc list" where
  "board_buttons =
     \<lparr>led_id = 0, led_bit = 11, polarity = 0, disable = 0\<rparr> #
     map (\<lambda>i. \<lparr>led_id = i, led_bit = 0, polarity = 0, disable = 1\<rparr>) [1, 2, 3, 4]"

definition ar7240_gpio_config :: "gpio \<Rightarrow> gpio" where
  "ar7240_gpio_config g =
     (let g = reg_wr AR7240_GPIO_FUNC (mmio g AR7240_GPIO_FUNC AND NOT (push_bit 8 0x1f OR push_bit 19 0x3)) g
      in reg_wr AR7240_GPIO_FUNC (mmio g AR7240_GPIO_FUNC AND NOT (push_bit 2 1)) g)"

definition board_get_gpio_input :: "gpio \<Rightarrow> u32" where
  "board_get_gpio_input g = mmio g AR7240_GPIO_IN"

definition board_set_gpio_regs :: "u32 \<Rightarrow> u32 \<Rightarrow> u32 \<Rightarrow> gpio \<Rightarrow> int \<times> gpio" where
  "board_set_gpio_regs a sets clears g =
     (if a \<ge> 0x18040000 \<and> a \<le> 0x18040044 \<and> a mod 4 = 0
      then (0, reg_wr a ((mmio g a OR sets) AND NOT clears) g) else (1, g))"

definition board_gpiolib_defaults :: "gpio \<Rightarrow> gpio" where
  "board_gpiolib_defaults g =
     (let g = reg_wr AR7240_GPIO_OE (mmio g AR7240_GPIO_OE OR push_bit 13 1 OR push_bit 14 1 OR push_bit 0 1) g;
          g = reg_wr AR7240_GPIO_SET (push_bit 13 1 OR push_bit 14 1) g;
          g = reg_wr AR7240_GPIO_CLEAR (push_bit 0 1) g
      in reg_wr AR7240_GPIO_OE (mmio g AR7240_GPIO_OE AND NOT (push_bit 11 1)) g)"

definition board_gpio_set :: "u32 \<Rightarrow> gpio \<Rightarrow> gpio option" where
  "board_gpio_set b g = map_option (\<lambda>v. reg_wr AR7240_GPIO_SET v g) (shl1 b)"

definition board_gpio_clear :: "u32 \<Rightarrow> gpio \<Rightarrow> gpio option" where
  "board_gpio_clear b g = map_option (\<lambda>v. reg_wr AR7240_GPIO_CLEAR v g) (shl1 b)"

section \<open>Parsing a configuration\<close>

text \<open>The three \<open>assign\<close> functions, given by name as the code passes their addresses.\<close>

datatype assign_fn = assign_gpio | assign_leds | assign_buttons

definition desc_of :: "u32 list \<Rightarrow> gpio_led_desc option" where
  "desc_of tmp = do {
     i \<leftarrow> rd tmp 0; b \<leftarrow> rd tmp 1; p \<leftarrow> rd tmp 2; d \<leftarrow> rd tmp 3;
     Some \<lparr>led_id = i, led_bit = b, polarity = p, disable = d\<rparr> }"

fun assign_item :: "assign_fn \<Rightarrow> nat \<Rightarrow> u32 list \<Rightarrow> reg_conf list \<times> gpio \<Rightarrow> (reg_conf list \<times> gpio) option" where
  "assign_item assign_gpio n tmp (regs, g) = do {
     a \<leftarrow> rd tmp 0; s \<leftarrow> rd tmp 1; c \<leftarrow> rd tmp 2;
     regs \<leftarrow> wr regs n \<lparr>addr = a, set_mask = s, clear_mask = c\<rparr>;
     Some (regs, g) }"
| "assign_item assign_leds n tmp (regs, g) = do {
     i \<leftarrow> rd tmp 0;
     if sint i < int (length (gpiolib_leds g)) \<and> sint i \<ge> 0 then do {
       d \<leftarrow> desc_of tmp;
       Some (regs, g\<lparr>gpiolib_leds := (gpiolib_leds g)[unat i := d]\<rparr>) }
     else Some (regs, g) }"
| "assign_item assign_buttons n tmp (regs, g) = do {
     i \<leftarrow> rd tmp 0;
     if sint i < int (length (gpiolib_buttons g)) \<and> sint i \<ge> 0 then do {
       d \<leftarrow> desc_of tmp;
       Some (regs, g\<lparr>gpiolib_buttons := (gpiolib_buttons g)[unat i := d]\<rparr>) }
     else Some (regs, g) }"

text \<open>\<open>count_args\<close>: one more than the number of slashes.\<close>

function count_from :: "bytes \<Rightarrow> nat \<Rightarrow> nat option" where
  "count_from env n = (case strchr env (ch (CHR ''/'')) of
      None \<Rightarrow> None
    | Some None \<Rightarrow> Some n
    | Some (Some k) \<Rightarrow> if k < length env then count_from (drop (Suc k) env) (Suc n) else None)"
  by pat_completeness auto

termination
  by (relation "measure (\<lambda>(env, n). length env)") auto

declare count_from.simps [simp del]

definition count_args :: "bytes \<Rightarrow> nat option" where
  "count_args env = count_from env 1"

text \<open>
  The two loops over \<open>strsep\<close>. The inner one stops after more than \<open>max_args\<close> fields, so
  \<open>max_args + 2\<close> rounds are enough; the outer one takes one round per record and one to find
  the end.
\<close>

fun field_loop ::
  "nat \<Rightarrow> u32 \<Rightarrow> nat \<Rightarrow> bytes \<Rightarrow> nat option \<Rightarrow> nat \<Rightarrow> u32 list \<Rightarrow> (nat \<times> u32 list) option" where
  "field_loop 0 base max_args m pos n tmp = None"
| "field_loop (Suc fuel) base max_args m pos n tmp = do {
     (tok, pos, m) \<leftarrow> strsep m pos (cstr (str '':''));
     (case tok of
        None \<Rightarrow> Some (n, tmp)
      | Some t \<Rightarrow>
          if Suc n > max_args then Some (Suc n, tmp)
          else do {
            (v, _) \<leftarrow> simple_strtol (drop t m) base;
            tmp \<leftarrow> wr tmp n v;
            field_loop fuel base max_args m pos (Suc n) tmp }) }"

text \<open>The fields of one record, converted: how many there are and the array.\<close>

definition record_fields ::
  "(nat \<Rightarrow> bytes option) \<Rightarrow> u32 \<Rightarrow> nat \<Rightarrow> bytes \<Rightarrow> u32 list \<Rightarrow> (nat \<times> u32 list) option" where
  "record_fields malloc base max_args tok tmp = do {
     str2 \<leftarrow> strdup malloc (Some tok);
     (case str2 of
        None \<Rightarrow> Some (0, tmp)
      | Some m2 \<Rightarrow> field_loop (max_args + 2) base max_args m2 (Some 0) 0 tmp) }"

fun record_loop ::
  "nat \<Rightarrow> (nat \<Rightarrow> bytes option) \<Rightarrow> assign_fn \<Rightarrow> u32 \<Rightarrow> nat \<Rightarrow> bytes \<Rightarrow> nat option \<Rightarrow> nat \<Rightarrow> u32 list \<Rightarrow>
   reg_conf list \<times> gpio \<Rightarrow> (nat \<times> reg_conf list \<times> gpio) option" where
  "record_loop 0 malloc assign base max_args m pos n tmp st = None"
| "record_loop (Suc fuel) malloc assign base max_args m pos n tmp st = do {
     (tok, pos, m) \<leftarrow> strsep m pos (cstr (str ''/''));
     (case tok of
        None \<Rightarrow> Some (n, st)
      | Some t \<Rightarrow> do {
          (k, tmp) \<leftarrow> record_fields malloc base max_args (drop t m) tmp;
          if k = max_args then do {
            st \<leftarrow> assign_item assign n tmp st;
            record_loop fuel malloc assign base max_args m pos (Suc n) tmp st }
          else record_loop fuel malloc assign base max_args m pos n tmp st }) }"

text \<open>
  \<open>gpiolib_parse_config\<close>: the returned code, the number of records stored, the register table
  and the state. \<open>tmp_item n\<close> is the array of \<open>n\<close> integers that \<open>malloc\<close> returns for the fields.
\<close>

definition gpiolib_parse_config ::
  "(nat \<Rightarrow> bytes option) \<Rightarrow> (nat \<Rightarrow> u32 list option) \<Rightarrow> assign_fn \<Rightarrow> u32 \<Rightarrow> nat \<Rightarrow> bytes \<Rightarrow> reg_conf list \<times> gpio \<Rightarrow>
   (int \<times> nat \<times> reg_conf list \<times> gpio) option" where
  "gpiolib_parse_config malloc tmp_item assign base max_args env st =
     (case tmp_item max_args of
        None \<Rightarrow> Some (-1, 0, st)
      | Some tmp \<Rightarrow> do {
          str1 \<leftarrow> strdup malloc (Some env);
          (n, st) \<leftarrow>
            (case str1 of
               None \<Rightarrow> Some (0, st)
             | Some m \<Rightarrow> record_loop (length env + 2) malloc assign base max_args m (Some 0) 0 tmp st);
          Some (0, n, st) })"

section \<open>Applying it\<close>

fun gpiolib_apply_config :: "reg_conf list \<Rightarrow> gpio \<Rightarrow> gpio" where
  "gpiolib_apply_config [] g = g"
| "gpiolib_apply_config (r # rs) g =
     gpiolib_apply_config rs (snd (board_set_gpio_regs (addr r) (set_mask r) (clear_mask r) g))"

text \<open>
  \<open>gpiolib_env_init\<close>. \<open>mode\<close> is 0, 1 or 2; \<open>regs\<close> is the table that \<open>malloc\<close> returned in mode 0,
  of as many entries as \<open>count_args\<close> says.
\<close>

definition gpiolib_env_init ::
  "(nat \<Rightarrow> bytes option) \<Rightarrow> (nat \<Rightarrow> u32 list option) \<Rightarrow> (nat \<Rightarrow> reg_conf list option) \<Rightarrow> nat \<Rightarrow> ub \<Rightarrow> gpio \<Rightarrow> gpio option" where
  "gpiolib_env_init malloc tmp_item regs_alloc mode u g =
     (let (assign, base, max_args, name) =
        (if mode = 0 then (assign_gpio, 16, 3, ''gpio_config'')
         else if mode = 1 then (assign_leds, 10, 4, ''led_config'')
         else (assign_buttons, 10, 4, ''button_config''))
      in do {
        env \<leftarrow> getenv (cstr (str name)) u;
        (case env of
           None \<Rightarrow> Some (if mode = 0 then board_gpiolib_defaults g else g)
         | Some k \<Rightarrow> do {
             let env = drop k (env_mem u);
             reg_count \<leftarrow> count_args env;
             (case (if mode = 0 then regs_alloc reg_count else Some []) of
                None \<Rightarrow> Some g
              | Some regs \<Rightarrow> do {
                  (ret, n, regs, g) \<leftarrow> gpiolib_parse_config malloc tmp_item assign base max_args env (regs, g);
                  if ret < 0 then Some g
                  else if mode = 0 then Some (gpiolib_apply_config (take n regs) g)
                  else Some g }) }) })"

section \<open>LEDs and buttons\<close>

definition gpiolib_button_read :: "nat \<Rightarrow> gpio \<Rightarrow> int option" where
  "gpiolib_button_read button_id g = do {
     b \<leftarrow> rd (gpiolib_buttons g) button_id;
     if disable b = 1 then Some (-1)
     else if led_bit b < 32 then
       Some (if drop_bit (unat (led_bit b)) (board_get_gpio_input g) AND 1 = polarity b then 1 else 0)
     else None }"

fun led_switch_loop :: "u32 \<Rightarrow> u32 \<Rightarrow> gpio_led_desc list \<Rightarrow> gpio \<Rightarrow> gpio option" where
  "led_switch_loop led_no state [] g = Some g"
| "led_switch_loop led_no state (l # ls) g =
     (if disable l \<noteq> 1 \<and> led_id l = led_no then
        if (if polarity l = 0 then 1 else 0) XOR state \<noteq> 0
        then board_gpio_set (led_bit l) g else board_gpio_clear (led_bit l) g
      else led_switch_loop led_no state ls g)"

definition gpiolib_led_switch :: "u32 \<Rightarrow> u32 \<Rightarrow> gpio \<Rightarrow> gpio option" where
  "gpiolib_led_switch led_no state g = led_switch_loop led_no state (gpiolib_leds g) g"

fun leds_off_loop :: "u32 \<Rightarrow> gpio_led_desc list \<Rightarrow> gpio \<Rightarrow> gpio option" where
  "leds_off_loop i [] g = Some g"
| "leds_off_loop i (l # ls) g = do {
     g \<leftarrow> (if disable l \<noteq> 1 then gpiolib_led_switch i 0 g else Some g);
     leds_off_loop (i + 1) ls g }"

definition gpiolib_leds_off :: "gpio \<Rightarrow> gpio option" where
  "gpiolib_leds_off g = leds_off_loop 0 (gpiolib_leds g) g"

definition gpiolib_customized_init ::
  "(nat \<Rightarrow> bytes option) \<Rightarrow> (nat \<Rightarrow> u32 list option) \<Rightarrow> (nat \<Rightarrow> reg_conf list option) \<Rightarrow> ub \<Rightarrow> gpio \<Rightarrow> gpio option" where
  "gpiolib_customized_init malloc tmp_item regs_alloc u g = do {
     g \<leftarrow> gpiolib_env_init malloc tmp_item regs_alloc 0 u g;
     g \<leftarrow> gpiolib_env_init malloc tmp_item regs_alloc 1 u g;
     g \<leftarrow> gpiolib_env_init malloc tmp_item regs_alloc 2 u g;
     gpiolib_leds_off g }"

section \<open>The reference parser\<close>

fun split_on :: "byte \<Rightarrow> bytes \<Rightarrow> bytes list" where
  "split_on c [] = [[]]"
| "split_on c (x # xs) = (if x = c then [] # split_on c xs
     else (case split_on c xs of [] \<Rightarrow> [] | y # ys \<Rightarrow> (x # y) # ys))"

definition field_val :: "u32 \<Rightarrow> bytes \<Rightarrow> u32" where
  "field_val base f = fst (the (simple_strtol (cstr f) base))"

text \<open>Records with the wrong number of fields are skipped.\<close>

fun run_records :: "assign_fn \<Rightarrow> u32 \<Rightarrow> nat \<Rightarrow> bytes list \<Rightarrow> nat \<Rightarrow> reg_conf list \<times> gpio \<Rightarrow> (nat \<times> reg_conf list \<times> gpio) option" where
  "run_records assign base max_args [] n st = Some (n, st)"
| "run_records assign base max_args (r # rs) n st =
     (let vs = map (field_val base) (split_on 58 r)
      in if length vs = max_args then do {
           st \<leftarrow> assign_item assign n vs st;
           run_records assign base max_args rs (Suc n) st }
         else run_records assign base max_args rs n st)"

lemma split_on_not_Nil [simp]: "split_on c s \<noteq> []"
  by (induction s) (auto split: list.splits)

lemma split_on_absent: "c \<notin> set s \<Longrightarrow> split_on c s = [s]"
  by (induction s) auto

lemma split_on_present:
  "c \<in> set s \<Longrightarrow> split_on c s = takeWhile (\<lambda>x. x \<noteq> c) s # split_on c (drop (Suc (length (takeWhile (\<lambda>x. x \<noteq> c) s))) s)"
  by (induction s) auto

lemma split_on_length: "length (split_on c s) \<le> Suc (length s)"
  by (induction s) (auto split: list.splits)

lemma nonul_split: "nonul s \<Longrightarrow> f \<in> set (split_on c s) \<Longrightarrow> nonul f"
proof (induction s arbitrary: f)
  case (Cons x s)
  then show ?case by (cases "split_on c s") (auto split: if_splits)
qed simp

lemma simple_strtol_field: "\<exists>e. simple_strtol (f @ 0 # r) base = Some (field_val base f, e)"
proof (cases "f \<noteq> [] \<and> hd f = ch (CHR ''-'')")
  case True
  then obtain f' where f: "f = ch (CHR ''-'') # f'" by (cases f) auto
  obtain v a where "\<forall>r. simple_strtoul (f' @ 0 # r) base = Some (v, drop a f' @ 0 # r)"
    using simple_strtoul_any_rest by blast
  then show ?thesis by (simp add: f field_val_def simple_strtol_def cstr_def)
next
  case False
  obtain v a where "\<forall>r. simple_strtoul (f @ 0 # r) base = Some (v, drop a f @ 0 # r)"
    using simple_strtoul_any_rest by blast
  then show ?thesis using False by (cases f) (auto simp: field_val_def simple_strtol_def cstr_def ch_def)
qed

lemma strsep_last:
  "nonul s \<Longrightarrow> c \<noteq> 0 \<Longrightarrow> c \<notin> set s \<Longrightarrow> drop p m = s @ 0 # r \<Longrightarrow> strsep m (Some p) [c, 0] = Some (Some p, None, m)"
  using strpbrk_cstr [of s "[c]" r "[]"] by (simp add: strsep_def)

lemma strsep_next:
  assumes "nonul s" "c \<noteq> 0" "c \<in> set s" "drop p m = s @ 0 # r" "a = takeWhile (\<lambda>x. x \<noteq> c) s"
  shows "\<exists>m'. strsep m (Some p) [c, 0] = Some (Some p, Some (p + length a + 1), m') \<and>
    drop p m' = a @ 0 # drop (Suc (length a)) s @ 0 # r \<and>
    drop (p + length a + 1) m' = drop (Suc (length a)) s @ 0 # r"
proof -
  obtain a' b where ab: "s = a' @ c # b" "c \<notin> set a'" using split_list_first [OF assms(3)] by blast
  then have "takeWhile (\<lambda>x. x \<noteq> c) s = a'" by (auto simp: takeWhile_tail)
  then have s: "s = a @ c # b" using ab assms(5) by simp
  have "p < length m" using assms(4) s by (metis append_is_Nil_conv drop_eq_Nil list.distinct(1) not_le)
  then have p: "length (take p m) = p" by simp
  define t where "t = take p m @ a"
  have m: "m = t @ c # b @ 0 # r" "length t = p + length a"
    using assms(4) s p append_take_drop_id [of p m] by (auto simp: t_def)
  have "wr m (p + length a) 0 = Some (t @ 0 # b @ 0 # r)"
    unfolding m(2) [symmetric] by (subst m(1)) (simp add: wr_def)
  then have "wr m (p + length a) 0 = Some (take p m @ a @ 0 # b @ 0 # r)" by (simp add: t_def)
  moreover have "strpbrk (drop p m) [c, 0] = Some (Some (length a))"
    using strpbrk_cstr [of s "[c]" r "[]"] assms by auto
  ultimately show ?thesis using p s by (auto simp: strsep_def)
qed


lemma field_loop_None: "0 < fuel \<Longrightarrow> field_loop fuel base max_args m None n tmp = Some (n, tmp)"
  by (cases fuel) (auto simp: strsep_def)

lemma sep_strings: "cstr (str '':'') = [58, 0]" "cstr (str ''/'') = [47, 0]"
  by (simp_all add: str_def ch_def)

lemma list_update_snoc: "n < length tmp \<Longrightarrow> take (Suc n) (tmp[n := v]) = take n tmp @ [v]"
  by (simp add: take_Suc_conv_app_nth)

lemma field_loop_eq:
  "nonul s \<Longrightarrow> drop p m = s @ 0 # r \<Longrightarrow> length tmp = max_args \<Longrightarrow> n \<le> max_args \<Longrightarrow> max_args + 2 \<le> fuel + n \<Longrightarrow>
   \<exists>tmp'. field_loop fuel base max_args m (Some p) n tmp = Some (min (n + length (split_on 58 s)) (Suc max_args), tmp') \<and>
     length tmp' = max_args \<and>
     (n + length (split_on 58 s) = max_args \<longrightarrow> tmp' = take n tmp @ map (field_val base) (split_on 58 s))"
proof (induction fuel arbitrary: s p m n tmp)
  case (Suc fuel)
  let ?a = "takeWhile (\<lambda>x. x \<noteq> 58) s"
  show ?case
  proof (cases "58 \<in> set s")
    case False
    have sep: "strsep m (Some p) [58, 0] = Some (Some p, None, m)"
      using False Suc.prems by (intro strsep_last) auto
    obtain e where v: "simple_strtol (drop p m) base = Some (field_val base s, e)"
      using simple_strtol_field [of s r base] Suc.prems(2) by auto
    show ?thesis
    proof (cases "n = max_args")
      case True
      then show ?thesis using sep Suc.prems(3) False by (simp add: sep_strings split_on_absent)
    next
      case neq: False
      then have n: "n < max_args" "0 < fuel" using Suc.prems by auto
      then have "field_loop (Suc fuel) base max_args m (Some p) n tmp = Some (Suc n, tmp[n := field_val base s])"
        using sep v Suc.prems(3) by (simp add: sep_strings field_loop_None)
      moreover have "Suc n = max_args \<Longrightarrow> tmp[n := field_val base s] = take n tmp @ [field_val base s]"
        using list_update_snoc [of n tmp "field_val base s"] Suc.prems(3) n by simp
      ultimately show ?thesis using False Suc.prems(3) n by (simp add: split_on_absent)
    qed
  next
    case True
    obtain m' where m': "strsep m (Some p) [58, 0] = Some (Some p, Some (p + length ?a + 1), m')"
      "drop p m' = ?a @ 0 # drop (Suc (length ?a)) s @ 0 # r" "drop (p + length ?a + 1) m' = drop (Suc (length ?a)) s @ 0 # r"
      using strsep_next [OF Suc.prems(1) _ True Suc.prems(2) refl] by auto
    obtain e where v: "simple_strtol (drop p m') base = Some (field_val base ?a, e)"
      using simple_strtol_field [of ?a "drop (Suc (length ?a)) s @ 0 # r" base] m'(2) by auto
    note sp = split_on_present [OF True]
    show ?thesis
    proof (cases "n = max_args")
      case True
      then show ?thesis using m'(1) Suc.prems(3) sp by (simp add: sep_strings)
    next
      case False
      then have n: "n < max_args" using Suc.prems by auto
      let ?tmp = "tmp[n := field_val base ?a]" and ?s = "drop (Suc (length ?a)) s"
      have step: "field_loop (Suc fuel) base max_args m (Some p) n tmp =
          field_loop fuel base max_args m' (Some (p + length ?a + 1)) (Suc n) ?tmp"
        using m'(1) v Suc.prems(3) n by (simp add: sep_strings)
      obtain tmp' where t: "field_loop fuel base max_args m' (Some (p + length ?a + 1)) (Suc n) ?tmp =
          Some (min (Suc n + length (split_on 58 ?s)) (Suc max_args), tmp')" "length tmp' = max_args"
        "Suc n + length (split_on 58 ?s) = max_args \<longrightarrow> tmp' = take (Suc n) ?tmp @ map (field_val base) (split_on 58 ?s)"
        using Suc.IH [of ?s "p + length ?a + 1" m' ?tmp "Suc n"] m'(3) Suc.prems n by auto
      have "take (Suc n) ?tmp = take n tmp @ [field_val base ?a]"
        using list_update_snoc [of n tmp "field_val base ?a"] Suc.prems(3) n by simp
      then show ?thesis using t sp step by auto
    qed
  qed
qed simp

text \<open>An allocator that returns objects of the requested size.\<close>

definition allocates :: "(nat \<Rightarrow> 'a list option) \<Rightarrow> bool" where
  "allocates malloc \<longleftrightarrow> (\<forall>n. \<exists>b. malloc n = Some b \<and> length b = n)"

lemma strdup_ok:
  assumes "allocates malloc" "nonul s"
  shows "strdup malloc (Some (s @ 0 # r)) = Some (Some (s @ [0]))"
proof -
  obtain b where "malloc (length s + 1) = Some b" "length b = length s + 1"
    using assms(1) unfolding allocates_def by blast
  then show ?thesis using assms(2) by (simp add: strdup_def strcpy_cstr)
qed

lemma record_loop_None: "0 < fuel \<Longrightarrow> record_loop fuel malloc assign base max_args m None n tmp st = Some (n, st)"
  by (cases fuel) (auto simp: strsep_def)

lemma record_fields_eq:
  assumes "allocates malloc" "nonul f" "length tmp = max_args"
  shows "\<exists>k tmp'. record_fields malloc base max_args (f @ 0 # r) tmp = Some (k, tmp') \<and>
     length tmp' = max_args \<and> (k = max_args \<longleftrightarrow> length (split_on 58 f) = max_args) \<and>
     (k = max_args \<longrightarrow> tmp' = map (field_val base) (split_on 58 f))"
proof -
  obtain tmp' where "field_loop (max_args + 2) base max_args (f @ [0]) (Some 0) 0 tmp =
      Some (min (length (split_on 58 f)) (Suc max_args), tmp')" "length tmp' = max_args"
    "length (split_on 58 f) = max_args \<longrightarrow> tmp' = map (field_val base) (split_on 58 f)"
    using field_loop_eq [of f 0 "f @ [0]" "[]" tmp max_args 0 "max_args + 2" base] assms by auto
  then show ?thesis using strdup_ok [OF assms(1,2), of r] by (auto simp: record_fields_def min_def)
qed

lemma record_loop_eq:
  "nonul s \<Longrightarrow> drop p m = s @ 0 # r \<Longrightarrow> length tmp = max_args \<Longrightarrow> allocates malloc \<Longrightarrow>
   length (split_on 47 s) < fuel \<Longrightarrow>
   record_loop fuel malloc assign base max_args m (Some p) n tmp st =
     run_records assign base max_args (split_on 47 s) n st"
proof (induction fuel arbitrary: s p m n tmp st)
  case (Suc fuel)
  let ?a = "takeWhile (\<lambda>x. x \<noteq> 47) s"
  show ?case
  proof (cases "47 \<in> set s")
    case False
    have sep: "strsep m (Some p) [47, 0] = Some (Some p, None, m)"
      using False Suc.prems by (intro strsep_last) auto
    obtain k tmp' where k: "record_fields malloc base max_args (drop p m) tmp = Some (k, tmp')"
      "k = max_args \<longleftrightarrow> length (split_on 58 s) = max_args"
      "k = max_args \<longrightarrow> tmp' = map (field_val base) (split_on 58 s)"
      using record_fields_eq [OF Suc.prems(4,1,3)] unfolding Suc.prems(2) by blast
    have "0 < fuel" using Suc.prems(5) False by (simp add: split_on_absent)
    then have "record_loop fuel malloc assign base max_args m None n' t = (\<lambda>st. Some (n', st))" for n' t
      by (intro ext) (simp add: record_loop_None)
    moreover have "run_records assign base max_args [] n' = (\<lambda>st. Some (n', st))" for n'
      by (intro ext) simp
    ultimately show ?thesis using sep k False
      by (auto simp: sep_strings split_on_absent Let_def)
  next
    case True
    obtain m' where m': "strsep m (Some p) [47, 0] = Some (Some p, Some (p + length ?a + 1), m')"
      "drop p m' = ?a @ 0 # drop (Suc (length ?a)) s @ 0 # r" "drop (p + length ?a + 1) m' = drop (Suc (length ?a)) s @ 0 # r"
      using strsep_next [OF Suc.prems(1) _ True Suc.prems(2) refl] by auto
    have na: "nonul ?a" "nonul (drop (Suc (length ?a)) s)"
      using Suc.prems(1) by (auto simp: nonul_def dest: set_takeWhileD in_set_dropD)
    obtain k tmp' where k: "record_fields malloc base max_args (drop p m') tmp = Some (k, tmp')"
      "length tmp' = max_args" "k = max_args \<longleftrightarrow> length (split_on 58 ?a) = max_args"
      "k = max_args \<longrightarrow> tmp' = map (field_val base) (split_on 58 ?a)"
      using record_fields_eq [OF Suc.prems(4) na(1) Suc.prems(3)] unfolding m'(2) by blast
    have ih: "record_loop fuel malloc assign base max_args m' (Some (p + length ?a + 1)) n' tmp' st' =
        run_records assign base max_args (split_on 47 (drop (Suc (length ?a)) s)) n' st'" for n' st'
      using Suc.IH [OF na(2) m'(3) k(2) Suc.prems(4)] Suc.prems(5) split_on_present [OF True] by simp
    have ih': "record_loop fuel malloc assign base max_args m' (Some (p + length ?a + 1)) n' tmp' =
        run_records assign base max_args (split_on 47 (drop (Suc (length ?a)) s)) n'" for n'
      by (intro ext) (rule ih)
    have "record_loop (Suc fuel) malloc assign base max_args m (Some p) n tmp st =
        (if k = max_args then assign_item assign n tmp' st \<bind>
           run_records assign base max_args (split_on 47 (drop (Suc (length ?a)) s)) (Suc n)
         else run_records assign base max_args (split_on 47 (drop (Suc (length ?a)) s)) n st)"
      using m'(1) k(1) by (simp add: sep_strings ih' [simplified])
    then show ?thesis using k(3,4) unfolding split_on_present [OF True] by (cases "k = max_args") (simp_all add: Let_def)
  qed
qed simp

lemma gpiolib_parse_config_eq:
  assumes "allocates malloc" "allocates tmp_item" "nonul s"
  shows "gpiolib_parse_config malloc tmp_item assign base max_args (s @ 0 # r) st =
    map_option (\<lambda>(n, st). (0, n, st)) (run_records assign base max_args (split_on 47 s) 0 st)"
proof -
  obtain tmp where tmp: "tmp_item max_args = Some tmp" "length tmp = max_args"
    using assms(2) unfolding allocates_def by blast
  have "record_loop (length (s @ 0 # r) + 2) malloc assign base max_args (s @ [0]) (Some 0) 0 tmp st =
      run_records assign base max_args (split_on 47 s) 0 st"
    using assms tmp split_on_length [of 47 s] by (intro record_loop_eq [where r = "[]"]) auto
  then show ?thesis using strdup_ok [OF assms(1,3), of r] tmp
    by (simp add: gpiolib_parse_config_def map_option_case split: option.split)
qed

lemma count_from_eq: "nonul s \<Longrightarrow> count_from (s @ 0 # r) n = Some (n + length (split_on 47 s) - 1)"
proof (induction "length s" arbitrary: s n rule: less_induct)
  case less
  let ?k = "length (takeWhile (\<lambda>x. x \<noteq> 47) s)"
  show ?case
  proof (cases "47 \<in> set s")
    case True
    then obtain a b where "s = a @ 47 # b" "47 \<notin> set a" using split_list_first by metis
    then have "takeWhile (\<lambda>x. x \<noteq> 47) s = a" by (auto simp: takeWhile_tail)
    then have k: "?k < length s" using \<open>s = a @ 47 # b\<close> by simp
    then have "count_from (drop (Suc ?k) s @ 0 # r) (Suc n) = Some (Suc n + length (split_on 47 (drop (Suc ?k) s)) - 1)"
      using less.prems by (intro less.hyps) auto
    then show ?thesis
      using True less.prems k split_on_present [OF True] strchr_cstr [of s 47 r]
      by (subst count_from.simps) (simp add: ch_def)
  next
    case False
    then show ?thesis
      using less.prems strchr_cstr [of s 47 r] by (subst count_from.simps) (simp add: ch_def split_on_absent)
  qed
qed

lemma count_args_eq: "nonul s \<Longrightarrow> count_args (s @ 0 # r) = Some (length (split_on 47 s))"
  by (simp add: count_args_def count_from_eq)

section \<open>What a configuration does\<close>

text \<open>The records of a configuration that have the right number of fields, as numbers.\<close>

definition config_records :: "u32 \<Rightarrow> nat \<Rightarrow> bytes list \<Rightarrow> u32 list list" where
  "config_records base k rs = filter (\<lambda>vs. length vs = k) (map (\<lambda>r. map (field_val base) (split_on 58 r)) rs)"

definition reg_of :: "u32 list \<Rightarrow> reg_conf" where
  "reg_of vs = \<lparr>addr = vs ! 0, set_mask = vs ! 1, clear_mask = vs ! 2\<rparr>"

definition put_desc :: "u32 list \<Rightarrow> gpio_led_desc list \<Rightarrow> gpio_led_desc list" where
  "put_desc vs ds = (if 0 \<le> sint (vs ! 0) \<and> sint (vs ! 0) < int (length ds)
     then ds[unat (vs ! 0) := \<lparr>led_id = vs ! 0, led_bit = vs ! 1, polarity = vs ! 2, disable = vs ! 3\<rparr>] else ds)"

lemma config_records_simps [simp]:
  "config_records base k [] = []"
  "config_records base k (r # rs) =
     (let vs = map (field_val base) (split_on 58 r)
      in if length vs = k then vs # config_records base k rs else config_records base k rs)"
  by (simp_all add: config_records_def Let_def)

lemma config_records_le: "length (config_records base k rs) \<le> length rs"
  by (induction rs) (auto simp: Let_def)

lemma run_records_gpio:
  "n + length (config_records base 3 rs) \<le> length regs \<Longrightarrow>
   run_records assign_gpio base 3 rs n (regs, g) =
     Some (n + length (config_records base 3 rs),
       take n regs @ map reg_of (config_records base 3 rs) @ drop (n + length (config_records base 3 rs)) regs, g)"
proof (induction rs arbitrary: n regs)
  case (Cons r rs)
  show ?case
  proof (cases "length (split_on 58 r) = 3")
    case True
    let ?vs = "map (field_val base) (split_on 58 r)"
    have n: "n < length regs" using Cons.prems True by (simp add: Let_def)
    have "assign_item assign_gpio n ?vs (regs, g) = Some (regs[n := reg_of ?vs], g)"
      using True n by (simp add: rd_def wr_def reg_of_def)
    then show ?thesis
      using Cons.IH [of "Suc n" "regs[n := reg_of ?vs]"] Cons.prems True n list_update_snoc [of n regs "reg_of ?vs"]
      by (simp add: Let_def)
  next
    case False
    then show ?thesis using Cons by (simp add: Let_def)
  qed
qed simp

lemma desc_of_eq: "length vs = 4 \<Longrightarrow> desc_of vs =
    Some \<lparr>led_id = vs ! 0, led_bit = vs ! 1, polarity = vs ! 2, disable = vs ! 3\<rparr>"
  by (simp add: desc_of_def rd_def)

lemma run_records_leds:
  "run_records assign_leds base 4 rs n (regs, g) =
     Some (n + length (config_records base 4 rs), regs,
       g\<lparr>gpiolib_leds := fold put_desc (config_records base 4 rs) (gpiolib_leds g)\<rparr>)"
  by (induction rs arbitrary: n g) (auto simp: Let_def desc_of_eq rd_def put_desc_def)

lemma run_records_buttons:
  "run_records assign_buttons base 4 rs n (regs, g) =
     Some (n + length (config_records base 4 rs), regs,
       g\<lparr>gpiolib_buttons := fold put_desc (config_records base 4 rs) (gpiolib_buttons g)\<rparr>)"
  by (induction rs arbitrary: n g) (auto simp: Let_def desc_of_eq rd_def put_desc_def)

text \<open>The variable read in each mode.\<close>

definition config_var :: "nat \<Rightarrow> bytes" where
  "config_var mode = str (if mode = 0 then ''gpio_config'' else if mode = 1 then ''led_config'' else ''button_config'')"

lemma ok_config_var [simp]: "ok_name (config_var mode)"
  by (simp add: ok_name_def config_var_def str_def ch_def)

lemma env_init_unset:
  assumes "env_ready u es" "map_of es (config_var mode) = None"
  shows "gpiolib_env_init malloc tmp_item regs_alloc mode u g = Some (if mode = 0 then board_gpiolib_defaults g else g)"
proof -
  have "getenv (config_var mode @ [0]) u = Some None"
    using getenv_map_of [OF assms(1) ok_config_var [of mode], of "[]"] assms(2) by auto
  then show ?thesis by (auto simp: gpiolib_env_init_def config_var_def cstr_def)
qed

lemma env_init_set:
  assumes "env_ready u es" "allocates malloc" "allocates tmp_item" "allocates regs_alloc"
    "map_of es (config_var mode) = Some s"
  shows "gpiolib_env_init malloc tmp_item regs_alloc mode u g = Some
    (if mode = 0 then gpiolib_apply_config (map reg_of (config_records 16 3 (split_on 47 s))) g
     else if mode = 1 then g\<lparr>gpiolib_leds := fold put_desc (config_records 10 4 (split_on 47 s)) (gpiolib_leds g)\<rparr>
     else g\<lparr>gpiolib_buttons := fold put_desc (config_records 10 4 (split_on 47 s)) (gpiolib_buttons g)\<rparr>)"
proof -
  obtain k r where k: "getenv (config_var mode @ [0]) u = Some (Some k)"
    "drop k (env_mem u) = s @ 0 # r" and s: "nonul s"
    using getenv_present [OF assms(1) ok_config_var assms(5), of "[]"] env_readyD(1) [OF assms(1)] by auto
  obtain regs where regs: "regs_alloc (length (split_on 47 s)) = Some regs" "length regs = length (split_on 47 s)"
    using assms(4) unfolding allocates_def by blast
  note parse = gpiolib_parse_config_eq [OF assms(2,3) s]
  show ?thesis
    using k regs config_records_le [of 16 3 "split_on 47 s"]
    by (auto simp: gpiolib_env_init_def config_var_def cstr_def Let_def count_args_eq s parse run_records_gpio run_records_leds run_records_buttons)
qed

section \<open>Properties\<close>

text \<open>An environment with the three configuration variables, and the board at start-up.\<close>

definition conf_vars :: "var list" where
  "conf_vars = [(str ''gpio_config'', str ''18040000:800:0/bad/18041000:1:2''),
     (str ''led_config'', str ''3:12:1:0/9:1:1:0''), (str ''button_config'', str ''1:4:1:0'')]"

definition conf_ub :: ub where
  "conf_ub = demo_ub\<lparr>env_data := enc_vars conf_vars @ 0 # replicate 25 0\<rparr>"

definition board_gpio :: gpio where
  "board_gpio = \<lparr>gpiolib_leds = board_leds, gpiolib_buttons = board_buttons, mmio = (\<lambda>_. 0), wlog = []\<rparr>"

definition fresh :: "'a \<Rightarrow> nat \<Rightarrow> 'a list option" where
  "fresh x n = Some (replicate n x)"

lemma fresh_allocates [simp]: "allocates (fresh x)"
  by (simp add: allocates_def fresh_def)

lemma conf_ready: "env_ready conf_ub conf_vars"
proof -
  have "encodes (env_data conf_ub) conf_vars"
    by (auto simp: encodes_def conf_ub_def conf_vars_def image_of_def ok_vars_def ok_var_def ok_name_def
        str_def ch_def)
  then show ?thesis by (simp add: env_ready_def) (simp add: conf_ub_def demo_ub_def)
qed

text \<open>The descriptor of number \<open>i\<close> has the id \<open>i\<close>.\<close>

definition ids_ok :: "gpio_led_desc list \<Rightarrow> bool" where
  "ids_ok ls \<longleftrightarrow> length ls < 2 ^ 31 \<and> (\<forall>i<length ls. led_id (ls ! i) = of_nat i)"

lemma put_desc_ids: "ids_ok ls \<Longrightarrow> ids_ok (put_desc vs ls)"
proof -
  assume "ids_ok ls"
  then have "led_id (ls[unat w := \<lparr>led_id = w, led_bit = b, polarity = p, disable = d\<rparr>] ! i) = of_nat i"
    if "i < length ls" for w b p d i
    using that by (cases "unat w = i") (auto simp: ids_ok_def)
  then show ?thesis using \<open>ids_ok ls\<close> by (auto simp: put_desc_def ids_ok_def)
qed

lemma fold_put_desc: "ids_ok ls \<Longrightarrow> ids_ok (fold put_desc vss ls) \<and> length (fold put_desc vss ls) = length ls"
  by (induction vss arbitrary: ls) (auto simp: put_desc_ids, simp add: put_desc_def)

definition led_write :: "gpio_led_desc \<Rightarrow> u32 \<Rightarrow> u32 \<times> u32" where
  "led_write l state = (if (polarity l = 0) = (state = 0) then AR7240_GPIO_SET else AR7240_GPIO_CLEAR,
     push_bit (unat (led_bit l)) 1)"

lemma led_switch_loop_find:
  "state \<in> {0, 1} \<Longrightarrow> led_switch_loop n state ls g =
    (case find (\<lambda>l. disable l \<noteq> 1 \<and> led_id l = n) ls of
       None \<Rightarrow> Some g
     | Some l \<Rightarrow> if led_bit l < 32 then Some (case_prod reg_wr (led_write l state) g) else None)"
  by (induction ls) (auto simp: led_write_def board_gpio_set_def board_gpio_clear_def shl1_def)

lemma find_id:
  assumes "ids_ok ls" "i < length ls" "disable (ls ! i) \<noteq> 1"
  shows "find (\<lambda>l. disable l \<noteq> 1 \<and> led_id l = of_nat i) ls = Some (ls ! i)"
proof -
  have "led_id (ls ! j) \<noteq> of_nat i" if "j < i" for j
  proof -
    have "(of_nat j :: u32) \<noteq> of_nat i"
      using assms(1,2) that by (simp add: ids_ok_def word_unat_eq_iff unat_of_nat take_bit_nat_eq_self_iff)
    then show ?thesis using assms that by (auto simp: ids_ok_def)
  qed
  then show ?thesis using assms by (auto simp: find_Some_iff ids_ok_def)
qed

lemma reg_wr_fields [simp]:
  "gpiolib_leds (reg_wr a v g) = gpiolib_leds g" "gpiolib_buttons (reg_wr a v g) = gpiolib_buttons g"
  "wlog (reg_wr a v g) = wlog g @ [(a, v)]"
  by (simp_all add: reg_wr_def)

lemma leds_off_loop_log:
  "ids_ok (gpiolib_leds g) \<Longrightarrow> drop i (gpiolib_leds g) = ls \<Longrightarrow>
   \<forall>l\<in>set ls. disable l \<noteq> 1 \<longrightarrow> led_bit l < 32 \<Longrightarrow>
   \<exists>g'. leds_off_loop (of_nat i) ls g = Some g' \<and> gpiolib_leds g' = gpiolib_leds g \<and>
     wlog g' = wlog g @ map (\<lambda>l. led_write l 0) (filter (\<lambda>l. disable l \<noteq> 1) ls)"
proof (induction ls arbitrary: i g)
  case (Cons l ls)
  have i: "i < length (gpiolib_leds g)" "gpiolib_leds g ! i = l" "drop (Suc i) (gpiolib_leds g) = ls"
    using Cons.prems(2) by (auto simp: drop_Cons_iff)
  show ?case
  proof (cases "disable l = 1")
    case True
    then show ?thesis using Cons.IH [of g "Suc i"] Cons.prems i by (simp add: add.commute)
  next
    case False
    let ?g = "case_prod reg_wr (led_write l 0) g"
    have g: "gpiolib_leds ?g = gpiolib_leds g" "wlog ?g = wlog g @ [led_write l 0]"
      by (simp_all split: prod.split)
    have "gpiolib_led_switch (of_nat i) 0 g = Some ?g"
      using Cons.prems False i find_id [of "gpiolib_leds g" i]
      by (simp add: gpiolib_led_switch_def led_switch_loop_find)
    then show ?thesis using Cons.IH [of ?g "Suc i"] Cons.prems i g False by (simp add: add.commute)
  qed
qed simp

definition gpio_reg :: "u32 \<Rightarrow> bool" where
  "gpio_reg a \<longleftrightarrow> 0x18040000 \<le> a \<and> a \<le> 0x18040044 \<and> a mod 4 = 0"

lemma board_set_gpio_regs_log:
  "\<exists>L. wlog (snd (board_set_gpio_regs a s c g)) = wlog g @ L \<and> (\<forall>(a, v)\<in>set L. gpio_reg a)"
  by (auto simp: board_set_gpio_regs_def gpio_reg_def)

lemma gpiolib_apply_config_log:
  "\<exists>L. wlog (gpiolib_apply_config regs g) = wlog g @ L \<and> (\<forall>(a, v)\<in>set L. gpio_reg a)"
proof (induction regs arbitrary: g)
  case (Cons r rs)
  obtain L where "wlog (snd (board_set_gpio_regs (addr r) (set_mask r) (clear_mask r) g)) = wlog g @ L"
    "\<forall>(a, v)\<in>set L. gpio_reg a"
    using board_set_gpio_regs_log by blast
  moreover obtain L' where "wlog (gpiolib_apply_config (r # rs) g) =
      wlog (snd (board_set_gpio_regs (addr r) (set_mask r) (clear_mask r) g)) @ L'" "\<forall>(a, v)\<in>set L'. gpio_reg a"
    using Cons.IH by auto
  ultimately show ?case by (intro exI [of _ "L @ L'"]) auto
qed simp

lemma defaults_log: "\<exists>L. wlog (board_gpiolib_defaults g) = wlog g @ L \<and> (\<forall>(a, v)\<in>set L. gpio_reg a)"
  by (auto simp: board_gpiolib_defaults_def Let_def gpio_reg_def)

lemma tables_kept [simp]:
  "gpiolib_leds (gpiolib_apply_config regs g) = gpiolib_leds g"
  "gpiolib_leds (board_gpiolib_defaults g) = gpiolib_leds g"
proof -
  show "gpiolib_leds (gpiolib_apply_config regs g) = gpiolib_leds g"
    by (induction regs arbitrary: g) (auto simp: board_set_gpio_regs_def)
qed (simp add: board_gpiolib_defaults_def Let_def)

text \<open>The table of LEDs after \<open>led_config\<close> was read.\<close>

definition led_table :: "var list \<Rightarrow> gpio_led_desc list \<Rightarrow> gpio_led_desc list" where
  "led_table es ls = (case map_of es (config_var 1) of
     None \<Rightarrow> ls | Some s \<Rightarrow> fold put_desc (config_records 10 4 (split_on 47 s)) ls)"

lemma led_table_ids: "ids_ok ls \<Longrightarrow> ids_ok (led_table es ls)"
  by (simp add: led_table_def fold_put_desc split: option.split)

lemma env_init_0:
  assumes "env_ready u es" "allocates malloc" "allocates tmp_item" "allocates regs_alloc"
  shows "\<exists>g' L. gpiolib_env_init malloc tmp_item regs_alloc 0 u g = Some g' \<and> wlog g' = wlog g @ L \<and>
    (\<forall>(a, v)\<in>set L. gpio_reg a) \<and> gpiolib_leds g' = gpiolib_leds g"
proof (cases "map_of es (config_var 0)")
  case None
  then show ?thesis using env_init_unset [OF assms(1), of 0] defaults_log [of g] by auto
next
  case (Some s)
  then show ?thesis using env_init_set [OF assms, of 0 s g]
      gpiolib_apply_config_log [of "map reg_of (config_records 16 3 (split_on 47 s))" g] by auto
qed

lemma env_init_tables:
  assumes "env_ready u es" "allocates malloc" "allocates tmp_item" "allocates regs_alloc" "mode \<noteq> 0"
  shows "\<exists>g'. gpiolib_env_init malloc tmp_item regs_alloc mode u g = Some g' \<and> wlog g' = wlog g \<and>
    gpiolib_leds g' = (if mode = 1 then led_table es (gpiolib_leds g) else gpiolib_leds g)"
proof (cases "map_of es (config_var mode)")
  case None
  then show ?thesis using env_init_unset [OF assms(1), of mode] assms(5) by (auto simp: led_table_def)
next
  case (Some s)
  then show ?thesis using env_init_set [OF assms(1-4), of mode s g] assms(5) by (auto simp: led_table_def)
qed

text \<open>
  C27: \<open>gpiolib_env_init\<close> reads its configuration as the grammar says. For every value of the
  variable, the table of registers that was allocated for it is not overrun, the records with three
  hexadecimal fields are applied in order and the others are skipped; in the other two modes the
  records with four decimal fields replace descriptors, and an id outside the table changes nothing.
\<close>

theorem gpio_config_reference:
  assumes "env_ready u es" "allocates malloc" "allocates tmp_item" "allocates regs_alloc"
    "map_of es (config_var mode) = Some s"
  shows "gpiolib_env_init malloc tmp_item regs_alloc mode u g = Some
    (if mode = 0 then gpiolib_apply_config (map reg_of (config_records 16 3 (split_on 47 s))) g
     else if mode = 1 then g\<lparr>gpiolib_leds := fold put_desc (config_records 10 4 (split_on 47 s)) (gpiolib_leds g)\<rparr>
     else g\<lparr>gpiolib_buttons := fold put_desc (config_records 10 4 (split_on 47 s)) (gpiolib_buttons g)\<rparr>)"
  using env_init_set [OF assms] .

theorem gpio_config_reference_witness:
  "gpiolib_env_init (fresh 0) (fresh 0) (fresh \<lparr>addr = 0, set_mask = 0, clear_mask = 0\<rparr>) 0 conf_ub board_gpio =
     Some (gpiolib_apply_config (map reg_of (config_records 16 3
       (split_on 47 (str ''18040000:800:0/bad/18041000:1:2'')))) board_gpio)"
proof -
  have "map_of conf_vars (config_var 0) = Some (str ''18040000:800:0/bad/18041000:1:2'')"
    by (simp add: conf_vars_def config_var_def)
  then show ?thesis
    using gpio_config_reference [OF conf_ready fresh_allocates fresh_allocates fresh_allocates, of 0] by simp
qed

text \<open>
  C28: whatever \<open>gpio_config\<close> contains, and also when it is not set, the start-up code returns and
  writes only to aligned registers of the GPIO block.
\<close>

theorem gpio_config_stays_in_block:
  assumes "env_ready u es" "allocates malloc" "allocates tmp_item" "allocates regs_alloc"
  shows "\<exists>g' L. gpiolib_env_init malloc tmp_item regs_alloc 0 u g = Some g' \<and> wlog g' = wlog g @ L \<and>
    (\<forall>(a, v)\<in>set L. 0x18040000 \<le> a \<and> a \<le> 0x18040044 \<and> a mod 4 = 0)"
  using env_init_0 [OF assms, of g] unfolding gpio_reg_def by blast

theorem gpio_config_stays_in_block_witness:
  "\<exists>g' L. gpiolib_env_init (fresh 0) (fresh 0) (fresh \<lparr>addr = 0, set_mask = 0, clear_mask = 0\<rparr>) 0 conf_ub board_gpio =
     Some g' \<and> wlog g' = L \<and> (\<forall>(a, v)\<in>set L. 0x18040000 \<le> a \<and> a \<le> 0x18040044 \<and> a mod 4 = 0)"
  using gpio_config_stays_in_block [OF conf_ready fresh_allocates fresh_allocates fresh_allocates, of _ _ _ board_gpio]
  by (simp add: board_gpio_def)

text \<open>
  Start-up ends with all LEDs off. If the descriptors of the enabled LEDs, as configured, name
  pins below 32, \<open>gpiolib_customized_init\<close> returns with the configured table, its descriptors still
  have their index as id, and its last writes turn off each enabled LED, in order, by setting the pin of a
  LED that is active low and clearing the pin of one that is active high.
\<close>

lemma customized_init_leds_off:
  assumes u: "env_ready u es" "allocates malloc" "allocates tmp_item" "allocates regs_alloc"
    and ids: "ids_ok (gpiolib_leds g)"
    and bits: "\<forall>l\<in>set (led_table es (gpiolib_leds g)). disable l \<noteq> 1 \<longrightarrow> led_bit l < 32"
  shows "\<exists>g' L. gpiolib_customized_init malloc tmp_item regs_alloc u g = Some g' \<and>
    gpiolib_leds g' = led_table es (gpiolib_leds g) \<and> ids_ok (gpiolib_leds g') \<and>
    wlog g' = L @ map (\<lambda>l. (if polarity l = 0 then AR7240_GPIO_SET else AR7240_GPIO_CLEAR,
      push_bit (unat (led_bit l)) 1)) (filter (\<lambda>l. disable l \<noteq> 1) (gpiolib_leds g'))"
proof -
  obtain g1 where g1: "gpiolib_env_init malloc tmp_item regs_alloc 0 u g = Some g1" "gpiolib_leds g1 = gpiolib_leds g"
    using env_init_0 [OF u] by blast
  obtain g2 where g2: "gpiolib_env_init malloc tmp_item regs_alloc 1 u g1 = Some g2"
    "gpiolib_leds g2 = led_table es (gpiolib_leds g)"
    using env_init_tables [OF u, of 1 g1] g1 by auto
  obtain g3 where g3: "gpiolib_env_init malloc tmp_item regs_alloc 2 u g2 = Some g3"
    "gpiolib_leds g3 = led_table es (gpiolib_leds g)"
    using env_init_tables [OF u, of 2 g2] g2 by auto
  have ok: "ids_ok (gpiolib_leds g3)" using led_table_ids [OF ids] g3 by simp
  then obtain g4 where "gpiolib_leds_off g3 = Some g4" "gpiolib_leds g4 = gpiolib_leds g3"
    "wlog g4 = wlog g3 @ map (\<lambda>l. led_write l 0) (filter (\<lambda>l. disable l \<noteq> 1) (gpiolib_leds g3))"
    using leds_off_loop_log [of g3 0 "gpiolib_leds g3"] bits g3 unfolding gpiolib_leds_off_def by auto
  then show ?thesis using g1 g2 g3 ok by (auto simp: gpiolib_customized_init_def led_write_def)
qed

end
