(* ===== verification/UsbBoot.thy ===== *)
theory UsbBoot
  imports Gpio
begin

text \<open>
  Booting and recovery from USB storage and the factory mode: \<open>common/usb_boot.c\<close>,
  \<open>common/factory.c\<close> and \<open>do_run\<close> of \<open>common/main.c\<close>. The state is the environment, the GPIO block and
  the sequence of calls that leave this code. What these calls answer is an argument (\<open>io\<close>): the
  FAT file system, the USB stack, the command interpreter, TFTP and \<open>bootm\<close>. A step gives
  \<open>None\<close> where C behaviour is undefined and \<open>Some (None, _)\<close> where control does not come back.
\<close>

section \<open>State\<close>

datatype event =
    EvLed u32 u32
  | EvBlkDev bytes
  | EvFatRead bytes int
  | EvBootm bytes
  | EvRun bytes
  | EvTftp bytes bytes
  | EvUsbStop
  | EvUsbInit
  | EvUsbScan
  | EvReset

record machine =
  m_ub :: ub
  m_gpio :: gpio
  m_trace :: "event list"

record stor_dev =
  part_type :: nat
  part_ok :: "nat \<Rightarrow> bool"

text \<open>
  The answers of the environment of this code. \<open>fat_read\<close> is \<open>do_fat_read_at\<close> for a partition, a
  file and a limit; \<open>bootm\<close> is \<open>None\<close> if the image is started; \<open>interpret_cmd\<close> is the command
  interpreter (its effect on the state and its result); \<open>junk\<close> is what the stack contains.
\<close>

record io =
  fat_read :: "bytes \<Rightarrow> bytes \<Rightarrow> int \<Rightarrow> int"
  bootm :: "bytes \<Rightarrow> int option"
  interpret_cmd :: "bytes \<Rightarrow> ub \<Rightarrow> int \<times> ub"
  tftp :: "ub \<Rightarrow> int \<times> ub"
  usb_init_ret :: int
  stor_devs :: "stor_dev list"
  junk :: byte

type_synonym 'a outcome = "('a option \<times> machine) option"

abbreviation (input) back_with :: "'a \<Rightarrow> machine \<Rightarrow> 'a outcome" where
  "back_with x m \<equiv> Some (Some x, m)"

fun cont :: "'a outcome \<Rightarrow> ('a \<Rightarrow> machine \<Rightarrow> 'b outcome) \<Rightarrow> 'b outcome" where
  "cont None k = None"
| "cont (Some (None, m)) k = Some (None, m)"
| "cont (Some (Some x, m)) k = k x m"

definition note_ev :: "event \<Rightarrow> machine \<Rightarrow> machine" where
  "note_ev e m = m\<lparr>m_trace := m_trace m @ [e]\<rparr>"

definition do_reset :: "machine \<Rightarrow> 'a outcome" where
  "do_reset m = Some (None, note_ev EvReset m)"

definition call_bootm :: "io \<Rightarrow> bytes \<Rightarrow> machine \<Rightarrow> int outcome" where
  "call_bootm w a m = Some (bootm w a, note_ev (EvBootm a) m)"

text \<open>\<open>do_run\<close>: every argument names a variable whose value is interpreted.\<close>

fun run_args :: "io \<Rightarrow> bytes list \<Rightarrow> machine \<Rightarrow> int outcome" where
  "run_args w [] m = back_with 0 m"
| "run_args w (a # as) m = (case getenv a (m_ub m) of
      None \<Rightarrow> None
    | Some None \<Rightarrow> back_with 1 m
    | Some (Some k) \<Rightarrow>
        let cmd = str_at (env_mem (m_ub m)) k;
            (ret, u) = interpret_cmd w cmd (m_ub m);
            m = (note_ev (EvRun cmd) m)\<lparr>m_ub := u\<rparr>
        in if ret \<noteq> 0 then back_with 1 m else run_args w as m)"

definition do_run :: "io \<Rightarrow> bytes list \<Rightarrow> machine \<Rightarrow> int outcome" where
  "do_run w argv m = (if length argv < 2 then back_with 1 m else run_args w (tl argv) m)"

section \<open>USB boot\<close>

abbreviation (input) CFG_MAX_USB_BOOT_FILE_SIZE :: int where "CFG_MAX_USB_BOOT_FILE_SIZE \<equiv> 30 * 1024 * 1024"
abbreviation (input) CFG_MAX_USB_RECOVERY_FILE_SIZE :: int where "CFG_MAX_USB_RECOVERY_FILE_SIZE \<equiv> 0xfa0000"
abbreviation (input) CFG_USB_BOOT_MAX_PARTITIONS_SCAN :: nat where "CFG_USB_BOOT_MAX_PARTITIONS_SCAN \<equiv> 16"
abbreviation (input) PART_TYPE_DOS :: nat where "PART_TYPE_DOS \<equiv> 2"

definition led_switch :: "u32 \<Rightarrow> u32 \<Rightarrow> machine \<Rightarrow> unit outcome" where
  "led_switch led state m = (case gpiolib_led_switch led state (m_gpio m) of
      None \<Rightarrow> None
    | Some g \<Rightarrow> back_with () (note_ev (EvLed led state) (m\<lparr>m_gpio := g\<rparr>)))"

fun blink :: "nat \<Rightarrow> machine \<Rightarrow> unit outcome" where
  "blink 0 m = back_with () m"
| "blink (Suc cnt) m =
     cont (led_switch 3 1 m) (\<lambda>_ m. cont (led_switch 3 0 m) (\<lambda>_. blink cnt))"

definition usbboot_indicate_recovery :: "int \<Rightarrow> machine \<Rightarrow> unit outcome" where
  "usbboot_indicate_recovery type m = blink (if type \<noteq> 0 then 2 else 4) m"

definition usbboot_boot :: "io \<Rightarrow> bytes \<Rightarrow> bytes \<Rightarrow> machine \<Rightarrow> int outcome" where
  "usbboot_boot w boot_dev_part boot_file_name m =
     (let m = note_ev (EvBlkDev boot_dev_part) m;
          ret = fat_read w boot_dev_part boot_file_name CFG_MAX_USB_BOOT_FILE_SIZE;
          m = note_ev (EvFatRead boot_file_name CFG_MAX_USB_BOOT_FILE_SIZE) m
      in if ret > 0 then cont (call_bootm w (str ''0x82000000'') m) (\<lambda>_. back_with (-1))
         else back_with (-1) m)"

text \<open>
  The two strings of \<open>usbboot_recovery\<close>, formatted into arrays of 16 and 128 bytes; of the second
  only the string is used later.
\<close>

definition image_size :: "byte \<Rightarrow> int \<Rightarrow> bytes option" where
  "image_size j n = map_option fst (sprintf (replicate 16 j) (cstr (str ''%x'')) [VInt (word_of_int n)])"

definition flash_cmd :: "byte \<Rightarrow> bytes \<Rightarrow> bytes option" where
  "flash_cmd j sz = map_option (\<lambda>(b, _). takeWhile (\<lambda>c. c \<noteq> 0) b)
     (sprintf (replicate 128 j) (cstr (str ''erase %s +%s; cp.b %s %s %s''))
        (map (\<lambda>s. VStr (Some s)) [cstr (str ''0x9f050000''), sz, cstr (str ''0x82000000''), cstr (str ''0x9f050000''), sz]))"

definition usbboot_recovery :: "io \<Rightarrow> bytes \<Rightarrow> bytes \<Rightarrow> machine \<Rightarrow> int outcome" where
  "usbboot_recovery w boot_dev_part boot_file_name m =
     (let m = note_ev (EvBlkDev boot_dev_part) m;
          ret = fat_read w boot_dev_part boot_file_name CFG_MAX_USB_RECOVERY_FILE_SIZE;
          m = note_ev (EvFatRead boot_file_name CFG_MAX_USB_RECOVERY_FILE_SIZE) m
      in if ret > 0 then
           cont (usbboot_indicate_recovery 0 m) (\<lambda>_ m.
             (case do { sz \<leftarrow> image_size (junk w) ret;
                        cmd \<leftarrow> flash_cmd (junk w) sz;
                        setenv (cstr (str ''recovery_flash_cmd'')) (Some (cstr cmd)) (m_ub m) } of
                None \<Rightarrow> None
              | Some u \<Rightarrow>
                  cont (do_run w [cstr (str ''run''), cstr (str ''recovery_flash_cmd'')] (m\<lparr>m_ub := u\<rparr>))
                    (\<lambda>flash_ret m. cont (usbboot_indicate_recovery 1 m) (\<lambda>_ m. do_reset m))))
         else back_with (-1) m)"

text \<open>A device or partition: first recovery, then boot.\<close>

definition try_part :: "io \<Rightarrow> bytes \<Rightarrow> bytes \<Rightarrow> bytes \<Rightarrow> machine \<Rightarrow> unit outcome" where
  "try_part w part_id recovery_file_name boot_file_name m =
     cont (usbboot_recovery w part_id recovery_file_name m) (\<lambda>_ m.
       cont (usbboot_boot w part_id boot_file_name m) (\<lambda>_. back_with ()))"

definition part_id :: "byte \<Rightarrow> nat \<Rightarrow> nat \<Rightarrow> bytes option" where
  "part_id j devno i = map_option (\<lambda>(b, _). takeWhile (\<lambda>c. c \<noteq> 0) b)
     (sprintf (replicate 8 j) (cstr (str ''%d:%d'')) [VInt (of_nat devno), VInt (of_nat i)])"

fun scan_parts :: "io \<Rightarrow> bytes \<Rightarrow> bytes \<Rightarrow> stor_dev \<Rightarrow> nat \<Rightarrow> nat list \<Rightarrow> machine \<Rightarrow> unit outcome" where
  "scan_parts w rf bf dev devno [] m = back_with () m"
| "scan_parts w rf bf dev devno (i # is) m =
     (if part_ok dev i then
        (case part_id (junk w) devno i of
           None \<Rightarrow> None
         | Some p \<Rightarrow> cont (try_part w p rf bf m) (\<lambda>_. scan_parts w rf bf dev devno is))
      else scan_parts w rf bf dev devno is m)"

fun scan_devs :: "io \<Rightarrow> bytes \<Rightarrow> bytes \<Rightarrow> nat \<Rightarrow> stor_dev list \<Rightarrow> machine \<Rightarrow> unit outcome" where
  "scan_devs w rf bf devno [] m = back_with () m"
| "scan_devs w rf bf devno (dev # devs) m =
     (case part_id (junk w) devno 0 of
        None \<Rightarrow> None
      | Some p \<Rightarrow> cont (try_part w p rf bf m) (\<lambda>_ m.
          if part_type dev \<noteq> PART_TYPE_DOS then scan_devs w rf bf (Suc devno) devs m
          else cont (scan_parts w rf bf dev devno [1..<CFG_USB_BOOT_MAX_PARTITIONS_SCAN + 1] m)
                 (\<lambda>_. scan_devs w rf bf (Suc devno) devs)))"

text \<open>
  A variable or a default. The code keeps pointers into the environment; it only changes the
  environment on paths that do not come back.
\<close>

definition env_or :: "string \<Rightarrow> bytes option \<Rightarrow> ub \<Rightarrow> bytes option option" where
  "env_or name dflt u = map_option (\<lambda>v. case v of None \<Rightarrow> dflt | Some k \<Rightarrow> Some (str_at (env_mem u) k))
     (getenv (cstr (str name)) u)"

definition usbboot_scan :: "io \<Rightarrow> machine \<Rightarrow> int outcome" where
  "usbboot_scan w m =
     (case do { bf \<leftarrow> env_or ''bootfile'' (Some (str ''8dev_uimage.bin'')) (m_ub m);
                rf \<leftarrow> env_or ''recoveryfile'' (Some (str ''8dev_recovery.bin'')) (m_ub m);
                bd \<leftarrow> env_or ''bootdev'' None (m_ub m);
                bf \<leftarrow> bf; rf \<leftarrow> rf; Some (bf, rf, bd) } of
        None \<Rightarrow> None
      | Some (bf, rf, bd) \<Rightarrow>
          let m = note_ev EvUsbInit (note_ev EvUsbStop m)
          in if usb_init_ret w < 0 then back_with (-1) m
             else
               let m = note_ev EvUsbScan m
               in (case bd of
                     Some p \<Rightarrow> cont (try_part w p rf bf m) (\<lambda>_. back_with (-2))
                   | None \<Rightarrow> cont (scan_devs w rf bf 0 (stor_devs w) m) (\<lambda>_. back_with (-1))))"

definition CFG_USB_BOOT_BUTTON_ID :: nat where "CFG_USB_BOOT_BUTTON_ID = 0"

definition do_usb_boot :: "io \<Rightarrow> machine \<Rightarrow> unit outcome" where
  "do_usb_boot w m =
     (case do { mode \<leftarrow> getenv (cstr (str ''usbboot'')) (m_ub m);
                (case mode of
                   None \<Rightarrow> Some (False, True, False)
                 | Some k \<Rightarrow> do {
                     let v = drop k (env_mem (m_ub m));
                     f \<leftarrow> streq v (cstr (str ''force''));
                     g \<leftarrow> streq v (cstr (str ''gpio''));
                     n \<leftarrow> streq v (cstr (str ''never''));
                     Some (f, g \<or> (f \<and> \<not> n), n) }) } of
        None \<Rightarrow> None
      | Some (s_force, s_gpio, s_never) \<Rightarrow>
          if s_never then back_with () m
          else
            cont (if s_force then cont (usbboot_scan w m) (\<lambda>_. back_with ()) else back_with () m) (\<lambda>_ m.
              if s_gpio then
                (case gpiolib_button_read CFG_USB_BOOT_BUTTON_ID (m_gpio m) of
                   None \<Rightarrow> None
                 | Some b \<Rightarrow> if b = 1 then cont (usbboot_scan w m) (\<lambda>_. back_with ()) else back_with () m)
              else back_with () m))"

section \<open>Factory mode\<close>

text \<open>\<open>if (!getenv(name)) setenv(name, value)\<close>.\<close>

definition set_default :: "string \<Rightarrow> string \<Rightarrow> ub \<Rightarrow> ub option" where
  "set_default name val u = do {
     v \<leftarrow> getenv (cstr (str name)) u;
     if v = None then setenv (cstr (str name)) (Some (cstr (str val))) u else Some u }"

definition ping_command :: "ub \<Rightarrow> bytes option" where
  "ping_command u = do {
     v \<leftarrow> getenv (cstr (str ''serverip'')) u;
     k \<leftarrow> v;
     t \<leftarrow> strncpy (replicate 27 0) (drop k (env_mem u)) 16;
     Some (str ''ping '' @ t) }"

definition carambola_factory_load_image :: "io \<Rightarrow> machine \<Rightarrow> unit outcome" where
  "carambola_factory_load_image w m =
     (case do { u \<leftarrow> set_default ''ipaddr'' ''192.168.2.100'' (m_ub m);
                u \<leftarrow> set_default ''serverip'' ''192.168.2.254'' u;
                p \<leftarrow> ping_command u;
                n \<leftarrow> strlen p;
                let (_, u) = interpret_cmd w (take n p) u;
                u \<leftarrow> setenv (cstr (str ''netretry'')) (Some (cstr (str ''once''))) u;
                Some (take n p, u) } of
        None \<Rightarrow> None
      | Some (p, u) \<Rightarrow>
          let (ret, u) = tftp w u;
              m = note_ev (EvTftp (str ''0x80F00000'') (str ''carambola2.bin'')) (note_ev (EvRun p) (m\<lparr>m_ub := u\<rparr>))
          in if ret = 0 then cont (call_bootm w (str ''0x80F00000'') m) (\<lambda>_. do_reset)
             else do_reset m)"

definition carambola_factory_mode :: "io \<Rightarrow> machine \<Rightarrow> unit outcome" where
  "carambola_factory_mode w m =
     (case getenv (cstr (str ''production'')) (m_ub m) of
        None \<Rightarrow> None
      | Some None \<Rightarrow> back_with () m
      | Some (Some k) \<Rightarrow>
          (case strncmp (drop k (env_mem (m_ub m))) (cstr (str ''yes'')) 3 of
             None \<Rightarrow> None
           | Some d \<Rightarrow> if d = 0 then carambola_factory_load_image w m else back_with () m))"

section \<open>Formatting\<close>

lemma string_conversion:
  assumes "nonul s" "length s < 2 ^ 32 - 1"
  shows "conversion (115 # fmt) (VStr (Some (s @ 0 # r)) # args) = Some (Emit s, fmt, args)"
proof -
  have "min 4294967295 (length s) = length s" using assms by simp
  then show ?thesis using assms
    by (simp add: ch_def conversion_def flag_of_def fmt_width_def fmt_precision_def fmt_qualifier_def
        conv_letter_def conv_string_def size_of_int_def)
qed

text \<open>The command that is run to flash an image of \<open>n\<close> bytes.\<close>

definition erase_and_copy :: "int \<Rightarrow> bytes" where
  "erase_and_copy n = str ''erase 0x9f050000 +'' @ hex_of n @ str ''; cp.b 0x82000000 0x9f050000 '' @ hex_of n"

lemma image_size_eq: "image_size j n = Some (hex_of n @ 0 # drop (Suc (length (hex_of n))) (replicate 16 j))"
  using hex_of_props(2) [of n]
  by (simp add: image_size_def sprintf_def vsprintf_def hex_conversion hex_of_def overlay_def)

lemma flash_cmd_eq: "nonul h \<Longrightarrow> length h \<le> 8 \<Longrightarrow> flash_cmd j (h @ 0 # r) =
    Some (str ''erase 0x9f050000 +'' @ h @ str ''; cp.b 0x82000000 0x9f050000 '' @ h)"
proof -
  assume h: "nonul h" "length h \<le> 8"
  have "vsprintf_loop 0 (cstr (str ''erase %s +%s; cp.b %s %s %s''))
        (map (\<lambda>s. VStr (Some s)) [cstr (str ''0x9f050000''), h @ 0 # r, cstr (str ''0x82000000''), cstr (str ''0x9f050000''), h @ 0 # r]) =
      Some (str ''erase 0x9f050000 +'' @ h @ str ''; cp.b 0x82000000 0x9f050000 '' @ h, [])"
    using h by (simp add: str_def ch_def string_conversion
        string_conversion [of "[48,120,57,102,48,53,48,48,48,48]" _ "[]", simplified]
        string_conversion [of "[48,120,56,50,48,48,48,48,48,48]" _ "[]", simplified])
  then show ?thesis using h takeWhile_cstr [of "str ''erase 0x9f050000 +'' @ h @ str ''; cp.b 0x82000000 0x9f050000 '' @ h"]
    by (simp add: flash_cmd_def sprintf_def vsprintf_def overlay_def str_def ch_def)
qed

section \<open>Recovery\<close>

text \<open>The pins of all enabled LEDs can be driven.\<close>

definition leds_ok :: "gpio \<Rightarrow> bool" where
  "leds_ok g \<longleftrightarrow> (\<forall>l\<in>set (gpiolib_leds g). disable l \<noteq> 1 \<longrightarrow> led_bit l < 32)"

lemma led_switch_ok:
  assumes "leds_ok g" "state \<in> {0, 1}"
  shows "\<exists>g'. gpiolib_led_switch n state g = Some g' \<and> gpiolib_leds g' = gpiolib_leds g"
  using assms
  by (auto simp: gpiolib_led_switch_def led_switch_loop_find leds_ok_def find_Some_iff split: option.split prod.split)

definition blinks :: "nat \<Rightarrow> event list" where
  "blinks n = concat (replicate n [EvLed 3 1, EvLed 3 0])"

lemma blink_ok:
  "leds_ok (m_gpio m) \<Longrightarrow> \<exists>g'. gpiolib_leds g' = gpiolib_leds (m_gpio m) \<and>
     blink n m = back_with () (m\<lparr>m_gpio := g', m_trace := m_trace m @ blinks n\<rparr>)"
proof (induction n arbitrary: m)
  case (Suc n)
  obtain g1 where g1: "gpiolib_led_switch 3 1 (m_gpio m) = Some g1" "gpiolib_leds g1 = gpiolib_leds (m_gpio m)"
    using led_switch_ok [OF Suc.prems, of 1 3] by auto
  then obtain g2 where g2: "gpiolib_led_switch 3 0 g1 = Some g2" "gpiolib_leds g2 = gpiolib_leds (m_gpio m)"
    using led_switch_ok [of g1 0 3] Suc.prems by (auto simp: leds_ok_def)
  let ?m = "m\<lparr>m_gpio := g2, m_trace := m_trace m @ [EvLed 3 1, EvLed 3 0]\<rparr>"
  have "blink (Suc n) m = blink n ?m" using g1 g2 by (simp add: led_switch_def note_ev_def)
  then show ?case using Suc.IH [of ?m] Suc.prems g2 by (auto simp: leds_ok_def blinks_def)
qed (auto simp: blinks_def)

lemma indicate_ok:
  assumes "leds_ok (m_gpio m)"
  shows "\<exists>g'. gpiolib_leds g' = gpiolib_leds (m_gpio m) \<and> usbboot_indicate_recovery type m =
    back_with () (m\<lparr>m_gpio := g', m_trace := m_trace m @ blinks (if type = 0 then 4 else 2)\<rparr>)"
  using blink_ok [OF assms] by (simp add: usbboot_indicate_recovery_def)

abbreviation (input) flash_var :: bytes where "flash_var \<equiv> str ''recovery_flash_cmd''"

lemma flash_var_ok: "ok_name flash_var" "ordinary flash_var"
  by (simp_all add: ok_name_def ordinary_def str_def ch_def)

lemma erase_and_copy_nonul: "nonul (erase_and_copy n)"
  using hex_of_props(1) [of n] by (simp add: erase_and_copy_def str_def ch_def)

lemma cmd_of_size:
  "do { sz \<leftarrow> image_size j n; flash_cmd j sz } = Some (erase_and_copy n)"
  using flash_cmd_eq [OF hex_of_props(1,2)] by (simp add: image_size_eq erase_and_copy_def)

text \<open>Storing the command in the environment and running it.\<close>

lemma store_and_run:
  assumes "env_ready u es"
  shows "\<exists>u' m'. setenv (cstr flash_var) (Some (cstr (erase_and_copy n))) u = Some u' \<and>
    (\<exists>r. do_run w [cstr (str ''run''), cstr flash_var] (m\<lparr>m_ub := u'\<rparr>) = back_with r m') \<and>
    m_gpio m' = m_gpio m \<and>
    m_trace m' = m_trace m @ (if env_fits u es flash_var (erase_and_copy n) then [EvRun (erase_and_copy n)] else [])"
proof (cases "env_fits u es flash_var (erase_and_copy n)")
  case True
  obtain u' where u': "env_assign flash_var (erase_and_copy n) u = Some u'"
    "env_ready u' (del_var flash_var es @ [(flash_var, erase_and_copy n)])"
    using assign_ready [OF assms flash_var_ok(1) erase_and_copy_nonul flash_var_ok(2) True] by blast
  have "map_of (del_var flash_var es @ [(flash_var, erase_and_copy n)]) flash_var = Some (erase_and_copy n)"
    by (simp only: map_of_redefine) simp
  then obtain k r where k: "getenv (flash_var @ [0]) u' = Some (Some k)" "drop k (env_mem u') = erase_and_copy n @ 0 # r"
    using getenv_present [OF u'(2) flash_var_ok(1), of "erase_and_copy n" "[]"] env_readyD(1) [OF u'(2)] by auto
  then have "str_at (env_mem u') k = erase_and_copy n"
    using erase_and_copy_nonul by (simp add: str_at_def takeWhile_cstr)
  then show ?thesis using u'(1) k True
    by (cases "interpret_cmd w (erase_and_copy n) u'")
      (auto simp: env_assign_def cstr_def do_run_def note_ev_def Let_def)
next
  case False
  obtain u' where u': "do_setenv_worker (argv_of flash_var [erase_and_copy n]) u = Some (1, u')" "env_ready u' (del_var flash_var es)"
    using setenv_overflows [OF assms flash_var_ok(1), of "[erase_and_copy n]"] False flash_var_ok(2) erase_and_copy_nonul
    by (auto simp: settable_def)
  have "getenv (flash_var @ [0]) u' = Some None"
    using getenv_map_of [OF u'(2) flash_var_ok(1), of "[]"] map_of_del_same [of flash_var es] by auto
  then show ?thesis using u'(1) False by (auto simp: setenv_def cstr_def argv_of_def do_run_def)
qed

text \<open>
  C29: recovery from a USB file. Once a non-empty recovery file was read, control never comes back:
  the LED blinks four times, the command that erases the firmware area and copies the image (whose
  size is printed in hexadecimal and is parsed back by the command) is run once, the LED blinks
  twice, and the board resets, whatever the command returned. If the environment has no room
  for the command, nothing is flashed and the rest happens all the same.
\<close>

theorem usb_recovery_flashes_and_resets:
  assumes n: "fat_read w part fname 0xfa0000 = n" "0 < n" and l: "leds_ok (m_gpio m)" and u: "env_ready (m_ub m) es"
  shows "\<exists>m'. usbboot_recovery w part fname m = Some (None, m') \<and>
    m_trace m' = m_trace m @ [EvBlkDev part, EvFatRead fname 0xfa0000] @ blinks 4 @
      (if env_fits (m_ub m) es (str ''recovery_flash_cmd'') (erase_and_copy n) then [EvRun (erase_and_copy n)] else []) @
      blinks 2 @ [EvReset] \<and>
    erase_and_copy n = str ''erase 0x9f050000 +'' @ hex_of n @ str ''; cp.b 0x82000000 0x9f050000 '' @ hex_of n \<and>
    simple_strtoul (cstr (hex_of n)) 16 = Some (word_of_int n, [0])"
proof -
  let ?m = "note_ev (EvFatRead fname 0xfa0000) (note_ev (EvBlkDev part) m)"
  obtain g1 where g1: "gpiolib_leds g1 = gpiolib_leds (m_gpio m)" "usbboot_indicate_recovery 0 ?m =
      back_with () (?m\<lparr>m_gpio := g1, m_trace := m_trace ?m @ blinks 4\<rparr>)"
    using indicate_ok [of ?m 0] l by (auto simp: note_ev_def)
  let ?m1 = "?m\<lparr>m_gpio := g1, m_trace := m_trace ?m @ blinks 4\<rparr>"
  obtain u' m2 r where u': "setenv (cstr flash_var) (Some (cstr (erase_and_copy n))) (m_ub ?m1) = Some u'"
    "do_run w [cstr (str ''run''), cstr flash_var] (?m1\<lparr>m_ub := u'\<rparr>) = back_with r m2" "m_gpio m2 = g1"
    "m_trace m2 = m_trace ?m1 @ (if env_fits (m_ub m) es flash_var (erase_and_copy n) then [EvRun (erase_and_copy n)] else [])"
    using store_and_run [OF u, of n w ?m1] by (auto simp: note_ev_def)
  obtain g3 where g3: "usbboot_indicate_recovery 1 m2 = back_with () (m2\<lparr>m_gpio := g3, m_trace := m_trace m2 @ blinks 2\<rparr>)"
    using indicate_ok [of m2 1] l g1(1) u'(3) by (auto simp: leds_ok_def)
  have c: "image_size (junk w) n \<bind> (\<lambda>sz. flash_cmd (junk w) sz \<bind> f) = f (erase_and_copy n)" for f :: "bytes \<Rightarrow> ub option"
    using cmd_of_size [of "junk w" n] by (auto simp: bind_eq_Some_conv split: option.splits)
  have "usbboot_recovery w part fname m =
      do_reset (m2\<lparr>m_gpio := g3, m_trace := m_trace m2 @ blinks 2\<rparr>)"
    using n(2) g1(2) u'(1,2) g3 by (simp add: usbboot_recovery_def n(1) Let_def c)
  moreover have "simple_strtoul (cstr (hex_of n)) 16 = Some (word_of_int n, [0])"
    unfolding hex_of_def cstr_def by (rule simple_strtoul_numeral_of [OF small_digit_table]) auto
  ultimately show ?thesis using u'(4) by (simp add: do_reset_def note_ev_def erase_and_copy_def)
qed

definition demo_io :: io where
  "demo_io = \<lparr>fat_read = (\<lambda>p f m. if p = str ''0:1'' \<and> f = str ''8dev_recovery.bin'' then 0x3fa000 else 0),
     bootm = (\<lambda>_. Some 1), interpret_cmd = (\<lambda>_ u. (0, u)), tftp = (\<lambda>u. (0, u)), usb_init_ret = 0,
     stor_devs = [\<lparr>part_type = 2, part_ok = (\<lambda>i. i = 1)\<rparr>], junk = 7\<rparr>"

definition demo_machine :: machine where
  "demo_machine = \<lparr>m_ub = demo_ub, m_gpio = board_gpio, m_trace = []\<rparr>"

lemma demo_leds: "leds_ok board_gpio"
  by (simp add: leds_ok_def board_gpio_def board_leds_def)

theorem usb_recovery_flashes_and_resets_witness:
  "\<exists>m'. usbboot_recovery demo_io (str ''0:1'') (str ''8dev_recovery.bin'') demo_machine = Some (None, m') \<and>
    last (m_trace m') = EvReset"
  using usb_recovery_flashes_and_resets [where w = demo_io and part = "str ''0:1''" and fname = "str ''8dev_recovery.bin''" and n = "0x3fa000"
      and m = demo_machine and es = demo_vars]
    demo_ready demo_leds
  by (auto simp: demo_io_def demo_machine_def)

section \<open>The order of the scan\<close>

lemma part_id_eq:
  assumes "d < 10000" "i < 100"
  shows "part_id j d i = Some (dec_of d @ 58 # dec_of i)"
proof -
  have l: "nonul (dec_of d)" "length (dec_of d) \<le> 4" "nonul (dec_of i)" "length (dec_of i) \<le> 2"
    using dec_of_props [of d 4] dec_of_props [of i 2] assms by auto
  have "vsprintf_loop 0 (cstr (str ''%d:%d'')) [VInt (of_nat d), VInt (of_nat i)] = Some (dec_of d @ 58 # dec_of i, [])"
    using assms by (simp add: str_def ch_def decimal_conversion)
  then show ?thesis using l takeWhile_cstr [of "dec_of d @ 58 # dec_of i"]
    by (simp add: part_id_def sprintf_def vsprintf_def overlay_def nonul_def)
qed

text \<open>What is looked for on one device or partition, and on all devices.\<close>

definition probe :: "bytes \<Rightarrow> bytes \<Rightarrow> bytes \<Rightarrow> event list" where
  "probe rf bf p = [EvBlkDev p, EvFatRead rf CFG_MAX_USB_RECOVERY_FILE_SIZE,
     EvBlkDev p, EvFatRead bf CFG_MAX_USB_BOOT_FILE_SIZE]"

definition probe_dev :: "bytes \<Rightarrow> bytes \<Rightarrow> nat \<times> stor_dev \<Rightarrow> event list" where
  "probe_dev rf bf = (\<lambda>(d, dev). concat (map (\<lambda>i. probe rf bf (dec_of d @ 58 # dec_of i))
     (0 # (if part_type dev = PART_TYPE_DOS then filter (part_ok dev) [1..<17] else []))))"

definition nothing_found :: "io \<Rightarrow> bool" where
  "nothing_found w \<longleftrightarrow> (\<forall>p f k. fat_read w p f k \<le> 0)"

lemma try_part_miss:
  "nothing_found w \<Longrightarrow> try_part w p rf bf m = back_with () (m\<lparr>m_trace := m_trace m @ probe rf bf p\<rparr>)"
  by (simp add: try_part_def nothing_found_def usbboot_recovery_def usbboot_boot_def Let_def note_ev_def probe_def linorder_not_less [symmetric])

lemma scan_parts_miss:
  "nothing_found w \<Longrightarrow> d < 10000 \<Longrightarrow> \<forall>i\<in>set is. i < 100 \<Longrightarrow>
   scan_parts w rf bf dev d is m = back_with () (m\<lparr>m_trace := m_trace m @
     concat (map (\<lambda>i. probe rf bf (dec_of d @ 58 # dec_of i)) (filter (part_ok dev) is))\<rparr>)"
  by (induction "is" arbitrary: m) (auto simp: part_id_eq try_part_miss)

lemma scan_devs_miss:
  "nothing_found w \<Longrightarrow> d + length devs \<le> 10000 \<Longrightarrow>
   scan_devs w rf bf d devs m = back_with () (m\<lparr>m_trace := m_trace m @
     concat (map (probe_dev rf bf) (zip [d..<d + length devs] devs))\<rparr>)"
proof (induction devs arbitrary: d m)
  case (Cons dev devs)
  have up: "[d..<d + length (dev # devs)] = d # [Suc d..<Suc d + length devs]"
    by (simp add: upt_rec)
  show ?case
  proof (cases "part_type dev = 2")
    case True
    then show ?thesis using Cons.prems unfolding up
      by (simp add: part_id_eq try_part_miss scan_parts_miss Cons.IH probe_dev_def)
  next
    case False
    then show ?thesis using Cons.prems unfolding up
      by (simp add: part_id_eq try_part_miss Cons.IH probe_dev_def)
  qed
qed simp

lemma env_or_eq:
  assumes "env_ready u es" "ok_name (str name)"
  shows "env_or name d u = Some (case map_of es (str name) of None \<Rightarrow> d | Some v \<Rightarrow> Some v)"
  using getenv_map_of [OF assms, of "[]"] env_readyD(1) [OF assms(1)]
  by (auto simp: env_or_def cstr_def split: option.splits)

lemma boot_names [simp]:
  "ok_name (str ''bootfile'')" "ok_name (str ''recoveryfile'')" "ok_name (str ''bootdev'')" "ok_name (str ''usbboot'')"
  by (simp_all add: ok_name_def str_def ch_def)

definition var_or :: "var list \<Rightarrow> string \<Rightarrow> string \<Rightarrow> bytes" where
  "var_or es name d = (case map_of es (str name) of None \<Rightarrow> str d | Some v \<Rightarrow> v)"

definition scan_events :: "io \<Rightarrow> var list \<Rightarrow> event list" where
  "scan_events w es =
     (let rf = var_or es ''recoveryfile'' ''8dev_recovery.bin''; bf = var_or es ''bootfile'' ''8dev_uimage.bin''
      in [EvUsbStop, EvUsbInit, EvUsbScan] @
         (case map_of es (str ''bootdev'') of
            Some p \<Rightarrow> probe rf bf p
          | None \<Rightarrow> concat (map (probe_dev rf bf) (zip [0..<length (stor_devs w)] (stor_devs w)))))"

lemma usbboot_scan_miss:
  assumes "env_ready (m_ub m) es" "nothing_found w" "length (stor_devs w) \<le> 10000" "0 \<le> usb_init_ret w"
  shows "\<exists>r. usbboot_scan w m = back_with r (m\<lparr>m_trace := m_trace m @ scan_events w es\<rparr>)"
  using assms scan_devs_miss [OF assms(2), of 0 "stor_devs w"]
  by (auto simp: usbboot_scan_def env_or_eq Let_def note_ev_def scan_events_def var_or_def try_part_miss split: option.split)

text \<open>How often the storage is scanned, depending on the variable and the button.\<close>

definition scan_count :: "bytes option \<Rightarrow> bool \<Rightarrow> nat" where
  "scan_count mode pressed =
     (if mode = Some (str ''never'') then 0
      else (if mode = Some (str ''force'') then 1 else 0) +
           (if pressed \<and> mode \<in> {None, Some (str ''gpio''), Some (str ''force'')} then 1 else 0))"

lemma mode_names [simp]: "nonul (str ''force'')" "nonul (str ''gpio'')" "nonul (str ''never'')"
  by (simp_all add: str_def ch_def)

lemma do_usb_boot_mode:
  assumes "env_ready (m_ub m) es"
  shows "do_usb_boot w m = (let mode = map_of es (str ''usbboot'') in
     if mode = Some (str ''never'') then back_with () m
     else cont (if mode = Some (str ''force'') then cont (usbboot_scan w m) (\<lambda>_. back_with ()) else back_with () m) (\<lambda>_ m.
       if mode \<in> {None, Some (str ''gpio''), Some (str ''force'')} then
         (case gpiolib_button_read CFG_USB_BOOT_BUTTON_ID (m_gpio m) of
            None \<Rightarrow> None
          | Some b \<Rightarrow> if b = 1 then cont (usbboot_scan w m) (\<lambda>_. back_with ()) else back_with () m)
       else back_with () m))"
proof (cases "map_of es (str ''usbboot'')")
  case None
  then have "getenv (cstr (str ''usbboot'')) (m_ub m) = Some None"
    using getenv_map_of [OF assms boot_names(4), of "[]"] by (auto simp: cstr_def)
  then show ?thesis using None by (simp add: do_usb_boot_def Let_def)
next
  case (Some v)
  then obtain k r where k: "getenv (cstr (str ''usbboot'')) (m_ub m) = Some (Some k)"
    "drop k (env_mem (m_ub m)) = v @ 0 # r" "nonul v"
    using getenv_present [OF assms boot_names(4) Some, of "[]"] env_readyD(1) [OF assms] by (auto simp: cstr_def)
  then have s: "streq (drop k (env_mem (m_ub m))) (cstr t) = Some (v = t)" if "nonul t" for t
    using that by (simp add: cstr_def)
  have d: "str ''force'' \<noteq> str ''never''" "str ''gpio'' \<noteq> str ''never''" "str ''gpio'' \<noteq> str ''force''"
    by (simp_all add: str_def ch_def)
  show ?thesis using Some k(1) d by (auto simp: do_usb_boot_def Let_def s)
qed

text \<open>
  C30: what \<open>do_usb_boot\<close> does if no storage device has an image. It returns, the environment and the
  GPIO block are unchanged, and the storage is scanned never (mode \<open>never\<close>, an unknown mode, or the
  button is not pressed), once, or twice (mode \<open>force\<close> with the button pressed). A scan looks at each
  device, first as a whole and then, with a DOS partition table, at its partitions 1 to 16, and asks
  for the recovery file before the boot file.
\<close>

theorem usb_boot_scan_order:
  assumes u: "env_ready (m_ub m) es" and n: "nothing_found w" "length (stor_devs w) \<le> 10000" "0 \<le> usb_init_ret w"
    and b: "gpiolib_button_read 0 (m_gpio m) = Some b"
  shows "do_usb_boot w m = Some (Some (), m\<lparr>m_trace := m_trace m @
    concat (replicate (scan_count (map_of es (str ''usbboot'')) (b = 1)) (scan_events w es))\<rparr>)"
proof -
  have scan: "\<exists>r. usbboot_scan w m' = back_with r (m'\<lparr>m_trace := m_trace m' @ scan_events w es\<rparr>)"
    if "m_ub m' = m_ub m" for m'
    using usbboot_scan_miss [of m' es w] u n that by simp
  obtain r where r: "usbboot_scan w m = back_with r (m\<lparr>m_trace := m_trace m @ scan_events w es\<rparr>)"
    using scan by blast
  obtain r' where r': "usbboot_scan w (m\<lparr>m_trace := m_trace m @ scan_events w es\<rparr>) =
      back_with r' (m\<lparr>m_trace := m_trace m @ scan_events w es @ scan_events w es\<rparr>)"
    using scan [of "m\<lparr>m_trace := m_trace m @ scan_events w es\<rparr>"] by auto
  show ?thesis using r r' b
    by (auto simp: do_usb_boot_mode [OF u] scan_count_def Let_def CFG_USB_BOOT_BUTTON_ID_def numeral_eq_Suc)
qed

theorem usb_boot_scan_order_witness:
  "do_usb_boot (demo_io\<lparr>fat_read := \<lambda>_ _ _. 0\<rparr>) demo_machine = Some (Some (), demo_machine\<lparr>m_trace :=
    scan_events (demo_io\<lparr>fat_read := \<lambda>_ _ _. 0\<rparr>) demo_vars\<rparr>)"
proof -
  have b: "gpiolib_button_read 0 (m_gpio demo_machine) = Some 1"
    by (simp add: gpiolib_button_read_def demo_machine_def board_gpio_def board_buttons_def board_get_gpio_input_def rd_def)
  have "scan_count (map_of demo_vars (str ''usbboot'')) True = 1"
    by (simp add: scan_count_def demo_vars_def str_def ch_def)
  then show ?thesis
    using usb_boot_scan_order [of demo_machine demo_vars "demo_io\<lparr>fat_read := \<lambda>_ _ _. 0\<rparr>" 1] b demo_ready
    by (simp add: nothing_found_def demo_io_def demo_machine_def)
qed

section \<open>Factory mode\<close>

lemma factory_names [simp]:
  "ok_name (str ''production'')" "ok_name (str ''ipaddr'')" "ok_name (str ''serverip'')" "ok_name (str ''netretry'')"
  "ordinary (str ''ipaddr'')" "ordinary (str ''serverip'')" "ordinary (str ''netretry'')"
  "nonul (str ''yes'')" "nonul (str ''once'')" "nonul (str ''192.168.2.100'')" "nonul (str ''192.168.2.254'')"
  by (simp_all add: ok_name_def ordinary_def str_def ch_def)

text \<open>\<open>setenv\<close> of an ordinary variable always leaves a well-formed environment.\<close>

lemma setenv_keeps:
  assumes "env_ready u es" "ok_name n" "ordinary n" "nonul v"
  shows "\<exists>u' es'. setenv (cstr n) (Some (cstr v)) u = Some u' \<and> env_ready u' es' \<and>
    (\<forall>k. k \<noteq> n \<longrightarrow> map_of es' k = map_of es k) \<and> (env_fits u es n v \<longrightarrow> map_of es' n = Some v) \<and>
    ENV_SIZE u' = ENV_SIZE u"
proof (cases "env_fits u es n v")
  case True
  obtain u' where "env_assign n v u = Some u'" "env_ready u' (del_var n es @ [(n, v)])" "ENV_SIZE u' = ENV_SIZE u"
    using assign_ready [OF assms(1,2,4,3) True] by blast
  then show ?thesis
    by (intro exI [of _ u'] exI [of _ "del_var n es @ [(n, v)]"]) (simp add: env_assign_def cstr_def map_of_redefine del: map_of_append)
next
  case False
  obtain u' where "do_setenv_worker (argv_of n [v]) u = Some (1, u')" "env_ready u' (del_var n es)" "ENV_SIZE u' = ENV_SIZE u"
    using setenv_overflows [OF assms(1,2), of "[v]"] False assms(3,4) by (auto simp: settable_def)
  then show ?thesis using False
    by (intro exI [of _ u'] exI [of _ "del_var n es"]) (simp add: setenv_def cstr_def argv_of_def map_of_del_other)
qed

lemma set_default_keeps:
  assumes "env_ready u es" "ok_name (str name)" "ordinary (str name)" "nonul (str v)"
  shows "\<exists>u' es'. set_default name v u = Some u' \<and> env_ready u' es' \<and>
    (\<forall>k. k \<noteq> str name \<longrightarrow> map_of es' k = map_of es k) \<and>
    (map_of es (str name) \<noteq> None \<longrightarrow> es' = es)"
proof -
  obtain k where k: "getenv (cstr (str name)) u = Some k" "map_option (str_at (env_data u)) k = map_of es (str name)"
    using getenv_map_of [OF assms(1,2), of "[]"] by (auto simp: cstr_def)
  show ?thesis
  proof (cases k)
    case None
    then show ?thesis using setenv_keeps [OF assms] k by (auto simp: set_default_def)
  next
    case (Some i)
    then show ?thesis using k assms(1) by (auto simp: set_default_def)
  qed
qed

lemma ping_command_eq:
  assumes "env_ready u es" "map_of es (str ''serverip'') = Some ip"
  shows "\<exists>t. ping_command u = Some (str ''ping '' @ take 16 ip @ 0 # t)"
proof -
  obtain k r where k: "getenv (cstr (str ''serverip'')) u = Some (Some k)" "drop k (env_mem u) = ip @ 0 # r" "nonul ip"
    using getenv_present [OF assms(1) factory_names(3) assms(2), of "[]"] env_readyD(1) [OF assms(1)] by (auto simp: cstr_def)
  have "\<exists>t. strncpy (replicate 27 0) (ip @ 0 # r) 16 = Some (take 16 ip @ 0 # t)"
  proof (cases "length ip < 16")
    case True
    then show ?thesis using strncpy_cstr [OF k(3), of "replicate 27 0" r 16] by (auto simp: Let_def)
  next
    case False
    then have "take 16 (ip @ [0]) = take 16 ip" by simp
    moreover have "replicate 11 (0::byte) = 0 # replicate 10 0" by (simp add: numeral_eq_Suc)
    ultimately show ?thesis using strncpy_cstr [OF k(3), of "replicate 27 0" r 16] False by (auto simp: Let_def)
  qed
  then show ?thesis using k by (auto simp: ping_command_def)
qed

text \<open>The command interpreter leaves a well-formed environment.\<close>

definition keeps_env :: "io \<Rightarrow> bool" where
  "keeps_env w \<longleftrightarrow> (\<forall>c u es. env_ready u es \<longrightarrow> (\<exists>es'. env_ready (snd (interpret_cmd w c u)) es'))"

lemma factory_image:
  assumes u: "env_ready (m_ub m) es" and ip: "map_of es (str ''serverip'') = Some ip" and k: "keeps_env w"
  shows "\<exists>m' u'. carambola_factory_load_image w m = Some (None, m') \<and>
    m_trace m' = m_trace m @ [EvRun (str ''ping '' @ take 16 ip), EvTftp (str ''0x80F00000'') (str ''carambola2.bin'')] @
      (if fst (tftp w u') = 0 then EvBootm (str ''0x80F00000'') #
         (if bootm w (str ''0x80F00000'') = None then [] else [EvReset]) else [EvReset])"
proof -
  define p where "p = str ''ping '' @ take 16 ip"
  obtain u1 es1 where u1: "set_default ''ipaddr'' ''192.168.2.100'' (m_ub m) = Some u1" "env_ready u1 es1"
    "map_of es1 (str ''serverip'') = Some ip"
  proof -
    have "str ''serverip'' \<noteq> str ''ipaddr''" by (simp add: str_def ch_def)
    then show ?thesis using set_default_keeps [OF u, of "''ipaddr''" "''192.168.2.100''"] ip that by auto
  qed
  obtain u2 where u2: "set_default ''serverip'' ''192.168.2.254'' u1 = Some u2" "env_ready u2 es1"
    using set_default_keeps [OF u1(2), of "''serverip''" "''192.168.2.254''"] u1(3) by auto
  obtain t where t: "ping_command u2 = Some (p @ 0 # t)" using ping_command_eq [OF u2(2) u1(3)] by (auto simp: p_def)
  have "nonul ip" using getenv_present [OF u2(2) factory_names(3) u1(3), of "[]"] by auto
  then have n: "nonul p" by (auto simp: p_def nonul_def str_def ch_def dest: in_set_takeD)
  obtain es3 where u3: "env_ready (snd (interpret_cmd w p u2)) es3" using k u2(2) by (auto simp: keeps_env_def)
  obtain u4 where u4: "setenv (cstr (str ''netretry'')) (Some (cstr (str ''once''))) (snd (interpret_cmd w p u2)) = Some u4"
    using setenv_keeps [OF u3, of "str ''netretry''" "str ''once''"] by auto
  have "carambola_factory_load_image w m =
      (let (ret, u) = tftp w u4;
           m = note_ev (EvTftp (str ''0x80F00000'') (str ''carambola2.bin'')) (note_ev (EvRun p) (m\<lparr>m_ub := u\<rparr>))
       in if ret = 0 then cont (call_bootm w (str ''0x80F00000'') m) (\<lambda>_. do_reset) else do_reset m)"
    using u1(1) u2(1) t n u4 by (cases "interpret_cmd w p u2") (simp add: carambola_factory_load_image_def)
  then show ?thesis unfolding p_def [symmetric]
    by (cases "bootm w (str ''0x80F00000'')"; cases "tftp w u4"; cases "fst (tftp w u4) = 0")
      (auto simp: note_ev_def call_bootm_def do_reset_def Let_def intro!: exI [of _ u4])
qed

text \<open>
  C31: the factory mode is entered only if the variable \<open>production\<close> starts with \<open>yes\<close>; otherwise
  nothing happens. In factory mode control never comes back: the server is pinged with an address of
  at most sixteen characters, the image is asked for over TFTP, and then it is started or the board
  resets.
\<close>

theorem factory_mode_only_if_yes:
  assumes u: "env_ready (m_ub m) es" and ip: "map_of es (str ''serverip'') = Some ip" and k: "keeps_env w"
  shows "if \<exists>v. map_of es (str ''production'') = Some v \<and> take 3 v = str ''yes''
    then \<exists>m' u'. carambola_factory_mode w m = Some (None, m') \<and>
      m_trace m' = m_trace m @ [EvRun (str ''ping '' @ take 16 ip), EvTftp (str ''0x80F00000'') (str ''carambola2.bin'')] @
        (if fst (tftp w u') = 0 then EvBootm (str ''0x80F00000'') #
           (if bootm w (str ''0x80F00000'') = None then [] else [EvReset]) else [EvReset])
    else carambola_factory_mode w m = Some (Some (), m)"
proof (cases "map_of es (str ''production'')")
  case None
  then have "getenv (cstr (str ''production'')) (m_ub m) = Some None"
    using getenv_map_of [OF u factory_names(1), of "[]"] by (auto simp: cstr_def)
  then show ?thesis using None by (simp add: carambola_factory_mode_def)
next
  case (Some v)
  then obtain i r where i: "getenv (cstr (str ''production'')) (m_ub m) = Some (Some i)"
    "drop i (env_mem (m_ub m)) = v @ 0 # r" "nonul v"
    using getenv_present [OF u factory_names(1) Some, of "[]"] env_readyD(1) [OF u] by (auto simp: cstr_def)
  obtain d where d: "strncmp (v @ 0 # r) (cstr (str ''yes'')) 3 = Some d"
    using strncmp_loop_total [OF i(3) factory_names(8), of r "[]" 3 0] by (auto simp: strncmp_def cstr_def)
  have "d = 0 \<longleftrightarrow> take 3 v = str ''yes''"
    using strncmp_cstr [OF i(3) factory_names(8), of r "[]" 3] d by (auto simp: cstr_def str_def)
  then show ?thesis using i d Some factory_image [OF u ip k] by (simp add: carambola_factory_mode_def)
qed

definition factory_vars :: "var list" where
  "factory_vars = [(str ''production'', str ''yes''), (str ''serverip'', str ''10.0.0.1'')]"

definition factory_ub :: ub where
  "factory_ub = demo_ub\<lparr>env_data := enc_vars factory_vars @ 0 # replicate 60 0\<rparr>"

lemma factory_ready: "env_ready factory_ub factory_vars"
proof -
  have "encodes (env_data factory_ub) factory_vars"
    by (auto simp: encodes_def factory_ub_def factory_vars_def image_of_def ok_vars_def ok_var_def ok_name_def
        str_def ch_def)
  then show ?thesis by (simp add: env_ready_def) (simp add: factory_ub_def demo_ub_def)
qed

theorem factory_mode_only_if_yes_witness:
  "\<exists>m'. carambola_factory_mode demo_io (demo_machine\<lparr>m_ub := factory_ub\<rparr>) = Some (None, m') \<and>
    m_trace m' = [EvRun (str ''ping 10.0.0.1''), EvTftp (str ''0x80F00000'') (str ''carambola2.bin''),
      EvBootm (str ''0x80F00000''), EvReset]"
proof -
  have k: "keeps_env demo_io" by (auto simp: keeps_env_def demo_io_def)
  have p: "\<exists>v. map_of factory_vars (str ''production'') = Some v \<and> take 3 v = str ''yes''"
    by (simp add: factory_vars_def str_def)
  have s: "map_of factory_vars (str ''serverip'') = Some (str ''10.0.0.1'')"
    by (simp add: factory_vars_def str_def ch_def)
  show ?thesis
    using factory_mode_only_if_yes [OF _ s k, of "demo_machine\<lparr>m_ub := factory_ub\<rparr>"] factory_ready p
    by (simp add: demo_machine_def demo_io_def str_def)
qed

end
