(* ===== verification/EthRing.thy ===== *)
theory EthRing
  imports Environment
begin

text \<open>
  The ring of Ethernet devices, \<open>net/eth.c\<close>: registration, selection and rotation of the current
  device, and its name in the environment variable \<open>ethact\<close>. The successor of the last device is
  the first. What a driver's \<open>init\<close> routine returns is an argument of \<open>eth_init\<close>; the devices that
  the board's driver registers are the argument of \<open>eth_initialize\<close>.
\<close>

definition ethact :: bytes where "ethact = str ''ethact''"

definition eth_next :: "eth \<Rightarrow> nat \<Rightarrow> nat" where
  "eth_next e d = (if Suc d < length (eth_devices e) then Suc d else 0)"

fun dev_by_name :: "bytes \<Rightarrow> eth_device list \<Rightarrow> nat \<Rightarrow> nat option option" where
  "dev_by_name devname [] i = Some None"
| "dev_by_name devname (dev # devs) i = do {
     eq \<leftarrow> streq devname (eth_name dev);
     if eq then Some (Some i) else dev_by_name devname devs (Suc i) }"

definition eth_get_dev_by_name :: "bytes \<Rightarrow> eth \<Rightarrow> nat option option" where
  "eth_get_dev_by_name devname e = dev_by_name devname (eth_devices e) 0"

definition eth_get_dev_index :: "eth \<Rightarrow> int" where
  "eth_get_dev_index e = (if eth_devices e = [] then -1 else int (eth_current e))"

text \<open>The name of the current device goes to the environment if it differs.\<close>

definition update_ethact :: "ub \<Rightarrow> ub option" where
  "update_ethact u = do {
     dev \<leftarrow> rd (eth_devices (eths u)) (eth_current (eths u));
     act \<leftarrow> getenv (cstr ethact) u;
     same \<leftarrow> (case act of None \<Rightarrow> Some False | Some k \<Rightarrow> streq (drop k (env_mem u)) (eth_name dev));
     if same then Some u else setenv (cstr ethact) (Some (eth_name dev)) u }"

definition eth_register :: "eth_device \<Rightarrow> ub \<Rightarrow> ub option" where
  "eth_register dev u =
     (let dev' = dev\<lparr>eth_state := ETH_STATE_INIT\<rparr>; e = eths u
      in if eth_devices e = [] then
           do {
             u \<leftarrow> update_ethact (u\<lparr>eths := e\<lparr>eth_devices := [dev], eth_current := 0\<rparr>\<rparr>);
             Some (u\<lparr>eths := (eths u)\<lparr>eth_devices := [(eth_devices (eths u) ! 0)\<lparr>eth_state := ETH_STATE_INIT\<rparr>]\<rparr>\<rparr>) }
         else Some (u\<lparr>eths := e\<lparr>eth_devices := eth_devices e @ [dev']\<rparr>\<rparr>))"

fun register_all :: "eth_device list \<Rightarrow> ub \<Rightarrow> ub option" where
  "register_all [] u = Some u"
| "register_all (dev # devs) u = do { u \<leftarrow> eth_register dev u; register_all devs u }"

text \<open>The scan for the device that \<open>ethprime\<close> names; the last match wins.\<close>

fun find_prime :: "bytes option \<Rightarrow> eth_device list \<Rightarrow> nat \<Rightarrow> nat \<Rightarrow> nat option" where
  "find_prime prime [] i cur = Some cur"
| "find_prime None (dev # devs) i cur = Some cur"
| "find_prime (Some p) (dev # devs) i cur = do {
     eq \<leftarrow> streq (eth_name dev) p;
     find_prime (Some p) devs (Suc i) (if eq then i else cur) }"

definition eth_initialize :: "eth_device list \<Rightarrow> ub \<Rightarrow> (nat \<times> ub) option" where
  "eth_initialize devs u = do {
     u \<leftarrow> register_all devs (u\<lparr>eths := (eths u)\<lparr>eth_devices := [], eth_current := 0\<rparr>\<rparr>);
     if eth_devices (eths u) = [] then Some (0, u)
     else do {
       p \<leftarrow> getenv (cstr (str ''ethprime'')) u;
       cur \<leftarrow> find_prime (map_option (\<lambda>k. drop k (env_mem u)) p) (eth_devices (eths u)) 0 (eth_current (eths u));
       u \<leftarrow> update_ethact (u\<lparr>eths := (eths u)\<lparr>eth_current := cur\<rparr>\<rparr>);
       Some (length (eth_devices (eths u)), u) } }"

definition eth_try_another :: "bool \<Rightarrow> ub \<Rightarrow> ub option" where
  "eth_try_another first_restart u =
     (if eth_devices (eths u) = [] then Some u
      else
        let e = eths u;
            e = (if first_restart then e\<lparr>first_failed := Some (eth_current e)\<rparr> else e)
        in do {
          u \<leftarrow> update_ethact (u\<lparr>eths := e\<lparr>eth_current := eth_next e (eth_current e)\<rparr>\<rparr>);
          Some (if first_failed (eths u) = Some (eth_current (eths u))
                then u\<lparr>eths := (eths u)\<lparr>NetRestartWrap := True\<rparr>\<rparr> else u) })"

definition set_state :: "eth_state \<Rightarrow> eth \<Rightarrow> eth" where
  "set_state s e = e\<lparr>eth_devices := (eth_devices e)[eth_current e := (eth_devices e ! eth_current e)\<lparr>eth_state := s\<rparr>]\<rparr>"

text \<open>
  \<open>eth_init\<close>: each device is tried once, beginning with the current one; \<open>works d\<close> is what the
  \<open>init\<close> routine of device \<open>d\<close> returns. The number of tries is bounded by the number of devices.
\<close>

fun init_loop :: "nat \<Rightarrow> (nat \<Rightarrow> bool) \<Rightarrow> nat \<Rightarrow> ub \<Rightarrow> (int \<times> ub) option" where
  "init_loop 0 works old u = None"
| "init_loop (Suc fuel) works old u =
     (if works (eth_current (eths u)) then Some (1, u\<lparr>eths := set_state ETH_STATE_ACTIVE (eths u)\<rparr>)
      else do {
        u \<leftarrow> eth_try_another False u;
        if eth_current (eths u) \<noteq> old then init_loop fuel works old u else Some (0, u) })"

definition eth_init :: "(nat \<Rightarrow> bool) \<Rightarrow> ub \<Rightarrow> (int \<times> ub) option" where
  "eth_init works u =
     (if eth_devices (eths u) = [] then Some (0, u)
      else init_loop (length (eth_devices (eths u))) works (eth_current (eths u)) u)"

definition eth_halt :: "ub \<Rightarrow> ub" where
  "eth_halt u =
     (if eth_devices (eths u) = [] then u else u\<lparr>eths := set_state ETH_STATE_PASSIVE (eths u)\<rparr>)"

text \<open>The rotation of \<open>eth_set_current\<close>: at most once around the ring.\<close>

fun seek_act :: "nat \<Rightarrow> bytes \<Rightarrow> nat \<Rightarrow> eth \<Rightarrow> (bool \<times> eth) option" where
  "seek_act 0 act old e = None"
| "seek_act (Suc fuel) act old e = do {
     dev \<leftarrow> rd (eth_devices e) (eth_current e);
     eq \<leftarrow> streq (eth_name dev) act;
     if eq then Some (True, e)
     else (let e = e\<lparr>eth_current := eth_next e (eth_current e)\<rparr>
           in if eth_current e \<noteq> old then seek_act fuel act old e else Some (False, e)) }"

definition eth_set_current :: "ub \<Rightarrow> ub option" where
  "eth_set_current u =
     (if eth_devices (eths u) = [] then Some u
      else do {
        act \<leftarrow> getenv (cstr ethact) u;
        (found, e) \<leftarrow>
          (case act of
             None \<Rightarrow> Some (False, eths u)
           | Some k \<Rightarrow> seek_act (length (eth_devices (eths u))) (drop k (env_mem u)) (eth_current (eths u)) (eths u));
        let u = u\<lparr>eths := e\<rparr>;
        if found then Some u
        else do {
          dev \<leftarrow> rd (eth_devices e) (eth_current e);
          setenv (cstr ethact) (Some (eth_name dev)) u } })"

definition eth_get_name :: "eth \<Rightarrow> bytes" where
  "eth_get_name e =
     (if eth_devices e = [] then cstr (str ''unknown'') else eth_name (eth_devices e ! eth_current e))"

section \<open>The environment does not reach back\<close>

lemma ethact_name: "ok_name ethact" "nonul ethact" "ordinary ethact" "cstr ethact = ethact @ 0 # []"
  by (simp_all add: ethact_def ok_name_def ordinary_def str_def ch_def cstr_def)

lemma env_store_eths: "env_store m u = Some u' \<Longrightarrow> eths u' = eths u"
  by (auto simp: env_store_def split: if_splits)

lemma setenv_delete_eths: "setenv_delete (cstr ethact) argv u = Some (s, u') \<Longrightarrow> eths u' = eths u"
  by (auto simp: setenv_delete_def bind_Some_iff ethact_name setenv_checks_ordinary
      split: option.splits dest!: env_store_eths)

lemma setenv_eth_ethact: "setenv_eth (cstr ethact) val e = Some e"
proof -
  have "strncmp (ethact @ 0 # []) (str ''eth'' @ 0 # []) 3 = Some 0"
    by (subst strncmp_cstr) (simp_all add: ethact_def str_def ch_def)
  moreover have "simple_strtoul (str ''act'' @ 0 # []) 10 = Some (0, str ''act'' @ 0 # [])"
    by (simp add: simple_strtoul_def str_def ch_def digit_val_def toupper_def ctype_iff)
  moreover have "drop 3 (cstr ethact) = str ''act'' @ 0 # []" by (simp add: ethact_def str_def)
  moreover have "named (str ''act'' @ 0 # []) ''addr'' = Some False"
    by (subst named_cstr) (simp_all add: str_def ch_def)
  ultimately show ?thesis by (simp add: setenv_eth_def cstr_def)
qed

lemma setenv_follow_ethact: "setenv_follow (cstr ethact) val u = Some u"
  by (simp add: setenv_follow_def ethact_def cstr_def) (simp add: str_def ch_def)

lemma ethact_frame:
  assumes "setenv (cstr ethact) val u = Some u'"
  shows "eths u' = eths u"
proof -
  obtain rc where "do_setenv_worker [Some (cstr (str ''setenv'')), Some (cstr ethact), val] u = Some (rc, u')"
    using assms by (auto simp: setenv_def)
  then show ?thesis
    by (auto simp: do_setenv_worker_def arg_def c_mem_iff setenv_eth_ethact setenv_define_def
        setenv_follow_ethact env_crc_update_def split: option.splits if_splits
        dest!: setenv_delete_eths env_store_eths)
qed

section \<open>The current device and its name\<close>

text \<open>
  The invariant: a valid current device, terminated device names, and room in the environment for
  any of them.
\<close>

definition eth_ok :: "ub \<Rightarrow> bool" where
  "eth_ok u \<longleftrightarrow> env_inv u \<and> eth_current (eths u) < length (eth_devices (eths u)) \<and>
     (\<forall>d\<in>set (eth_devices (eths u)). \<exists>nm. eth_name d = cstr nm \<and> nonul nm \<and> env_room u ethact nm)"

definition cur_name :: "ub \<Rightarrow> bytes" where
  "cur_name u = cbytes (eth_name (eth_devices (eths u) ! eth_current (eths u)))"

lemma env_mem_frame [simp]: "env_mem (u\<lparr>eths := e\<rparr>) = env_mem u"
  by (simp add: env_mem_def cong: env_loc.case_cong)

lemma env_frame [simp]:
  "env_inv (u\<lparr>eths := e\<rparr>) = env_inv u" "env_room (u\<lparr>eths := e\<rparr>) n v = env_room u n v"
  "var_of (u\<lparr>eths := e\<rparr>) n = var_of u n"
  by (simp_all add: env_inv_def env_ready_def env_room_def env_fits_def var_of_def getenv_def cong: option.case_cong)

lemma getenv_inv:
  assumes "env_inv u" "ok_name n"
  shows "\<exists>k. getenv (n @ [0]) u = Some k \<and>
    (case k of None \<Rightarrow> var_of u n = None
      | Some k \<Rightarrow> \<exists>v r. drop k (env_mem u) = v @ 0 # r \<and> nonul v \<and> var_of u n = Some v)"
proof -
  obtain es where es: "env_ready u es" using assms(1) by (auto simp: env_inv_def)
  show ?thesis
  proof (cases "map_of es n")
    case None
    then show ?thesis using getenv_map_of [OF es assms(2), of "[]"] var_of_map_of [OF es assms(2)] by force
  next
    case (Some v)
    then show ?thesis
      using getenv_present [OF es assms(2) Some, of "[]"] var_of_map_of [OF es assms(2)] env_readyD(1) [OF es] by force
  qed
qed

lemma update_ethact_eq:
  assumes u: "env_inv u" and d: "rd (eth_devices (eths u)) (eth_current (eths u)) = Some dev"
    and nm: "eth_name dev = cstr nm" "nonul nm"
  shows "update_ethact u = (if var_of u ethact = Some nm then Some u else env_assign ethact nm u)"
proof -
  obtain k where k: "getenv (ethact @ [0]) u = Some k"
    "case k of None \<Rightarrow> var_of u ethact = None
      | Some k \<Rightarrow> \<exists>v r. drop k (env_mem u) = v @ 0 # r \<and> nonul v \<and> var_of u ethact = Some v"
    using getenv_inv [OF u ethact_name(1)] by blast
  show ?thesis
  proof (cases k)
    case None
    then show ?thesis using k d nm by (simp add: update_ethact_def env_assign_def cstr_def)
  next
    case (Some i)
    then obtain v r where "drop i (env_mem u) = v @ 0 # r" "nonul v" "var_of u ethact = Some v" using k by auto
    then show ?thesis using k Some d nm by (simp add: update_ethact_def env_assign_def cstr_def)
  qed
qed

lemma cur_name_cstr: "eth_name (eth_devices (eths u) ! eth_current (eths u)) = cstr nm \<Longrightarrow> nonul nm \<Longrightarrow> cur_name u = nm"
  by (simp add: cur_name_def cbytes_def cstr_def takeWhile_cstr)

lemma update_ethact_ok:
  assumes "eth_ok u"
  shows "\<exists>u'. update_ethact u = Some u' \<and> eth_ok u' \<and> eths u' = eths u \<and> var_of u' ethact = Some (cur_name u) \<and>
    (\<forall>k. ok_name k \<longrightarrow> k \<noteq> ethact \<longrightarrow> var_of u' k = var_of u k)"
proof -
  let ?dev = "eth_devices (eths u) ! eth_current (eths u)"
  have c: "eth_current (eths u) < length (eth_devices (eths u))" and inv: "env_inv u"
    using assms by (auto simp: eth_ok_def)
  then obtain nm where nm: "eth_name ?dev = cstr nm" "nonul nm" "env_room u ethact nm"
    using assms by (meson eth_ok_def nth_mem)
  let ?go = "if var_of u ethact = Some nm then Some u else env_assign ethact nm u"
  have up: "update_ethact u = ?go" using update_ethact_eq [OF inv _ nm(1,2)] c by simp
  obtain u' where u': "?go = Some u'" "env_inv u'" "var_of u' ethact = Some nm"
    "\<forall>k. ok_name k \<longrightarrow> k \<noteq> ethact \<longrightarrow> var_of u' k = var_of u k"
    using ubenv.sync [OF inv ethact_name(1) nm(2) ethact_name(3) nm(3)] by blast
  have e: "eths u' = eths u"
    using u'(1) ethact_frame [of "Some (cstr nm)" u u'] by (auto simp: env_assign_def cstr_def split: if_splits)
  have "env_room u' ethact w" if "env_room u ethact w" for w
    using that u'(1) ubenv.assign_room [OF inv ethact_name(1) nm(2) ethact_name(3) nm(3), of u' w]
    by (auto split: if_splits)
  then have "eth_ok u'" using assms e u'(2) unfolding eth_ok_def by metis
  then show ?thesis using up u' e cur_name_cstr [OF nm(1,2)] by auto
qed

lemma eth_try_another_ok:
  assumes u: "eth_ok u"
  shows "\<exists>u'. eth_try_another fr u = Some u' \<and> eth_ok u' \<and>
    eth_devices (eths u') = eth_devices (eths u) \<and>
    eth_current (eths u') = Suc (eth_current (eths u)) mod length (eth_devices (eths u)) \<and>
    first_failed (eths u') = (if fr then Some (eth_current (eths u)) else first_failed (eths u)) \<and>
    NetRestartWrap (eths u') = (NetRestartWrap (eths u) \<or> first_failed (eths u') = Some (eth_current (eths u'))) \<and>
    var_of u' ethact = Some (cur_name u')"
proof -
  have c: "eth_current (eths u) < length (eth_devices (eths u))" using u by (simp add: eth_ok_def)
  define e where "e = (if fr then (eths u)\<lparr>first_failed := Some (eth_current (eths u))\<rparr> else eths u)"
  define e' where "e' = e\<lparr>eth_current := eth_next e (eth_current e)\<rparr>"
  have e: "eth_devices e' = eth_devices (eths u)" "NetRestartWrap e' = NetRestartWrap (eths u)"
    "first_failed e' = (if fr then Some (eth_current (eths u)) else first_failed (eths u))"
    "eth_current e' = Suc (eth_current (eths u)) mod length (eth_devices (eths u))"
    using c by (auto simp: e'_def e_def eth_next_def mod_Suc)
  have "eth_ok (u\<lparr>eths := e'\<rparr>)"
    using u e(1) e(4) c by (auto simp: eth_ok_def intro: mod_less_divisor)
  then obtain u1 where u1: "update_ethact (u\<lparr>eths := e'\<rparr>) = Some u1" "eth_ok u1" "eths u1 = e'"
    "var_of u1 ethact = Some (cur_name (u\<lparr>eths := e'\<rparr>))"
    using update_ethact_ok [of "u\<lparr>eths := e'\<rparr>"] by auto
  have nm: "cur_name (u\<lparr>eths := e'\<rparr>) = cur_name u1" using u1(3) by (simp add: cur_name_def)
  define u2 where "u2 = (if first_failed e' = Some (eth_current e') then u1\<lparr>eths := e'\<lparr>NetRestartWrap := True\<rparr>\<rparr> else u1)"
  have "eth_try_another fr u = Some u2"
    using u1(1,3) c by (auto simp: eth_try_another_def Let_def e'_def e_def u2_def)
  moreover have "eth_ok u2" using u1(2,3) by (auto simp: eth_ok_def u2_def)
  moreover have "var_of u2 ethact = Some (cur_name u2)" using u1(3,4) nm by (simp add: cur_name_def u2_def)
  moreover have "eth_devices (eths u2) = eth_devices e'" "eth_current (eths u2) = eth_current e'"
    "first_failed (eths u2) = first_failed e'"
    "NetRestartWrap (eths u2) = (NetRestartWrap e' \<or> first_failed e' = Some (eth_current e'))"
    using u1(3) by (auto simp: u2_def)
  ultimately show ?thesis using e by (intro exI [of _ u2]) simp
qed

text \<open>\<open>k\<close> is the first position, from \<open>i\<close> on and below \<open>n\<close>, that satisfies \<open>P\<close>.\<close>

definition first_from :: "(nat \<Rightarrow> bool) \<Rightarrow> nat \<Rightarrow> nat \<Rightarrow> nat \<Rightarrow> bool" where
  "first_from P i n k \<longleftrightarrow> i \<le> k \<and> k < n \<and> P k \<and> (\<forall>j. i \<le> j \<longrightarrow> j < k \<longrightarrow> \<not> P j)"

lemma first_from_Suc: "\<not> P i \<Longrightarrow> first_from P (Suc i) n k \<longleftrightarrow> first_from P i n k"
  by (auto simp: first_from_def) (metis le_antisym not_less_eq_eq, metis Suc_leI le_neq_implies_less)

lemma init_loop_ok:
  assumes "eth_ok u" "n = length (eth_devices (eths u))" "i < n" "eth_current (eths u) = (c + i) mod n" "c < n"
  shows "\<exists>rc u'. init_loop (n - i) works c u = Some (rc, u') \<and> length (eth_devices (eths u')) = n \<and>
    (if \<exists>j. i \<le> j \<and> j < n \<and> works ((c + j) mod n)
     then rc = 1 \<and> (\<exists>j. first_from (\<lambda>j. works ((c + j) mod n)) i n j \<and> eth_current (eths u') = (c + j) mod n \<and>
       eth_state (eth_devices (eths u') ! eth_current (eths u')) = ETH_STATE_ACTIVE)
     else rc = 0 \<and> eth_current (eths u') = c)"
  using assms
proof (induction "n - i" arbitrary: u i)
  case 0
  then show ?case by simp
next
  case (Suc fuel)
  let ?P = "\<lambda>j. works ((c + j) mod n)"
  have fuel: "n - i = Suc fuel" using Suc.hyps(2) by simp
  show ?case
  proof (cases "?P i")
    case True
    let ?u = "u\<lparr>eths := set_state ETH_STATE_ACTIVE (eths u)\<rparr>"
    have "init_loop (n - i) works c u = Some (1, ?u)" using True Suc.prems(4) by (simp add: fuel)
    moreover have "first_from ?P i n i" using True Suc.prems(3) by (simp add: first_from_def)
    ultimately show ?thesis using True Suc.prems by (auto simp: set_state_def eth_ok_def)
  next
    case False
    obtain u1 where u1: "eth_try_another False u = Some u1" "eth_ok u1" "length (eth_devices (eths u1)) = n"
      "eth_current (eths u1) = Suc (eth_current (eths u)) mod n"
      using eth_try_another_ok [OF Suc.prems(1), of False] Suc.prems(2) by auto
    have cur: "eth_current (eths u1) = (c + Suc i) mod n" using u1(4) Suc.prems(4) by (simp add: mod_Suc_eq)
    have ret: "(c + Suc i) mod n = c \<longleftrightarrow> Suc i = n"
    proof
      assume "(c + Suc i) mod n = c"
      then have "(c + Suc i) mod n = (c + 0) mod n" using Suc.prems(5) by simp
      then have "n dvd Suc i" by (metis add_diff_cancel_left' add_0_right mod_eq_dvd_iff_nat le_add1)
      then show "Suc i = n" using Suc.prems(3) by (auto dest: dvd_imp_le)
    qed (use Suc.prems(5) in auto)
    show ?thesis
    proof (cases "Suc i = n")
      case True
      have "init_loop (n - i) works c u = Some (0, u1)"
        using False Suc.prems(4) u1(1) cur ret True by (simp add: fuel)
      moreover have "\<not> (\<exists>j. i \<le> j \<and> j < n \<and> ?P j)" using False True by (metis le_antisym less_Suc_eq_le)
      ultimately show ?thesis using u1 cur ret True by auto
    next
      case neq: False
      have "init_loop (n - i) works c u = init_loop (n - Suc i) works c u1"
      proof -
        have "fuel = n - Suc i" using fuel by simp
        then show ?thesis using False Suc.prems(4) u1(1) cur ret neq by (simp add: fuel)
      qed
      moreover have ex: "(\<exists>j. Suc i \<le> j \<and> j < n \<and> ?P j) \<longleftrightarrow> (\<exists>j. i \<le> j \<and> j < n \<and> ?P j)"
        using False by (metis Suc_leD le_eq_less_or_eq less_eq_Suc_le)
      moreover have "fuel = n - Suc i" "Suc i < n" "n = length (eth_devices (eths u1))"
        using fuel neq Suc.prems(3) u1(3) by auto
      note Suc.hyps(1) [OF this(1) u1(2) this(3,2) cur Suc.prems(5)]
      ultimately show ?thesis by (simp only: first_from_Suc [of ?P i n, OF False] ex)
    qed
  qed
qed

section \<open>Properties\<close>

text \<open>
  C24: \<open>eth_try_another\<close> moves to the next device of the ring, after the last one to the first, keeps
  the invariant, and leaves the name of the new device in \<open>ethact\<close>. \<open>NetRestartWrap\<close> is set when the
  device that failed first is reached again.
\<close>

theorem eth_try_another_rotates:
  assumes "eth_ok u"
  shows "\<exists>u'. eth_try_another fr u = Some u' \<and> eth_ok u' \<and>
    eth_devices (eths u') = eth_devices (eths u) \<and>
    eth_current (eths u') = Suc (eth_current (eths u)) mod length (eth_devices (eths u)) \<and>
    NetRestartWrap (eths u') = (NetRestartWrap (eths u) \<or>
      (if fr then Some (eth_current (eths u)) else first_failed (eths u)) = Some (eth_current (eths u'))) \<and>
    var_of u' ethact = Some (cur_name u')"
  using eth_try_another_ok [OF assms, of fr] by force

definition two_devs :: ub where
  "two_devs = demo_ub\<lparr>eths := \<lparr>eth_devices =
       [\<lparr>eth_name = cstr (str ''eth0''), enetaddr = replicate 6 0, eth_state = ETH_STATE_INIT\<rparr>,
        \<lparr>eth_name = cstr (str ''eth1''), enetaddr = replicate 6 0, eth_state = ETH_STATE_INIT\<rparr>],
       eth_current = 1, first_failed = None, NetRestartWrap = False\<rparr>\<rparr>"

lemma two_devs_ok: "eth_ok two_devs"
proof -
  have "env_room two_devs ethact (str x)" if "length x = 4" for x
  proof -
    have "env_ready two_devs demo_vars" using demo_ready by (simp add: two_devs_def env_ready_def)
    moreover have "env_fits two_devs demo_vars ethact (str x)"
      using that by (simp add: env_fits_def two_devs_def demo_ub_def demo_vars_def del_var_def enc_var_def ethact_def str_def ch_def)
    ultimately show ?thesis by (auto simp: env_room_def)
  qed
  then have "env_room two_devs ethact (str ''eth0'')" "env_room two_devs ethact (str ''eth1'')" by simp_all
  moreover have "nonul (str ''eth0'')" "nonul (str ''eth1'')" by (simp_all add: str_def ch_def)
  moreover have "env_inv demo_ub" using demo_ready by (auto simp: env_inv_def)
  then have "env_inv two_devs" by (simp only: two_devs_def env_frame)
  ultimately show ?thesis by (simp add: eth_ok_def two_devs_def) blast
qed

theorem eth_try_another_rotates_witness:
  "\<exists>u'. eth_try_another True two_devs = Some u' \<and> eth_current (eths u') = 0"
  using eth_try_another_rotates [OF two_devs_ok, of True] by (auto simp: two_devs_def)

text \<open>
  C25: \<open>eth_init\<close> returns, after trying each device at most once in ring order from the current one:
  1 with the first device whose driver comes up as the current one, marked active; 0, with the
  current device as it was, if none does.
\<close>

theorem eth_init_tries_ring_once:
  assumes u: "eth_ok u" and n: "n = length (eth_devices (eths u))" and c: "c = eth_current (eths u)"
  shows "\<exists>rc u'. eth_init works u = Some (rc, u') \<and>
    (if \<exists>j<n. works ((c + j) mod n)
     then rc = 1 \<and> (\<exists>j<n. works ((c + j) mod n) \<and> (\<forall>k<j. \<not> works ((c + k) mod n)) \<and>
       eth_current (eths u') = (c + j) mod n \<and>
       eth_state (eth_devices (eths u') ! eth_current (eths u')) = ETH_STATE_ACTIVE)
     else rc = 0 \<and> eth_current (eths u') = c)"
proof -
  have c': "c < n" "eth_devices (eths u) \<noteq> []" using u n c by (auto simp: eth_ok_def)
  then have "eth_init works u = init_loop (n - 0) works c u" using n c by (simp add: eth_init_def)
  moreover obtain rc u' where r: "init_loop (n - 0) works c u = Some (rc, u')"
    "if \<exists>j. 0 \<le> j \<and> j < n \<and> works ((c + j) mod n)
     then rc = 1 \<and> (\<exists>j. first_from (\<lambda>j. works ((c + j) mod n)) 0 n j \<and> eth_current (eths u') = (c + j) mod n \<and>
       eth_state (eth_devices (eths u') ! eth_current (eths u')) = ETH_STATE_ACTIVE)
     else rc = 0 \<and> eth_current (eths u') = c"
    using init_loop_ok [OF u n, of 0 c works] c' c by auto
  ultimately show ?thesis
    using r(2) by (intro exI [of _ rc] exI [of _ u']) (auto simp: first_from_def split: if_splits)
qed

theorem eth_init_tries_ring_once_witness:
  "\<exists>rc u'. eth_init (\<lambda>d. d = 0) two_devs = Some (rc, u') \<and> rc = 1 \<and> eth_current (eths u') = 0"
proof -
  have "2 = length (eth_devices (eths two_devs))" "1 = eth_current (eths two_devs)"
    by (simp_all add: two_devs_def)
  then obtain rc u' where r: "eth_init (\<lambda>d. d = 0) two_devs = Some (rc, u')"
    "if \<exists>j<2. (1 + j) mod 2 = (0 :: nat) then rc = 1 \<and> (\<exists>j<2. (1 + j) mod 2 = 0 \<and> (\<forall>k<j. (1 + k) mod 2 \<noteq> 0) \<and>
       eth_current (eths u') = (1 + j) mod 2 \<and>
       eth_state (eth_devices (eths u') ! eth_current (eths u')) = ETH_STATE_ACTIVE)
     else rc = 0 \<and> eth_current (eths u') = (1 :: nat)"
    using eth_init_tries_ring_once [OF two_devs_ok, of 2 1 "\<lambda>d. d = 0"] by blast
  moreover have "\<exists>j<2. (1 + j) mod 2 = (0 :: nat)" by (intro exI [of _ 1]) simp
  ultimately show ?thesis by auto
qed

end
