(* ===== verification/NetPacket.thy ===== *)
theory NetPacket
  imports EthRing
begin

text \<open>
  Frames on the wire: the checksum, the Ethernet, VLAN, IP and UDP headers and the conversion of
  addresses of \<open>net/net.c\<close>. A packet buffer is the list of its bytes; the target is big-endian, so
  \<open>htons\<close> and \<open>ntohs\<close> are the identity and a 16-bit access to memory is \<open>rd16\<close>.
\<close>

section \<open>Access to buffers\<close>

definition be16 :: "u16 \<Rightarrow> bytes" where
  "be16 w = [ucast (drop_bit 8 w), ucast w]"

definition put :: "bytes \<Rightarrow> nat \<Rightarrow> bytes \<Rightarrow> bytes option" where
  "put m i w = (if i + length w \<le> length m then Some (overlay m i w) else None)"

definition window :: "bytes \<Rightarrow> nat \<Rightarrow> nat \<Rightarrow> bytes option" where
  "window m i n = (if i + n \<le> length m then Some (take n (drop i m)) else None)"

definition rd16 :: "bytes \<Rightarrow> nat \<Rightarrow> u16 option" where
  "rd16 m i = do { a \<leftarrow> rd m i; b \<leftarrow> rd m (i + 1); Some (push_bit 8 (ucast a) OR ucast b) }"

definition NetReadIP :: "bytes \<Rightarrow> nat \<Rightarrow> u32 option" where
  "NetReadIP m i = map_option of_be32 (window m i 4)"

section \<open>The checksum\<close>

text \<open>The sum of \<open>len\<close> half-words.\<close>

fun sum16 :: "bytes \<Rightarrow> nat \<Rightarrow> u32 option" where
  "sum16 m 0 = Some 0"
| "sum16 m (Suc len) = do { v \<leftarrow> rd16 m 0; s \<leftarrow> sum16 (drop 2 m) len; Some (ucast v + s) }"

definition fold16 :: "u32 \<Rightarrow> u32" where
  "fold16 x = (x AND 0xffff) + drop_bit 16 x"

definition NetCksum :: "bytes \<Rightarrow> nat \<Rightarrow> u32 option" where
  "NetCksum m len = map_option (\<lambda>x. fold16 (fold16 x) AND 0xffff) (sum16 m len)"

definition NetCksumOk :: "bytes \<Rightarrow> nat \<Rightarrow> bool option" where
  "NetCksumOk m len = map_option (\<lambda>c. (c + 1) AND 0xfffe = 0) (NetCksum m len)"

section \<open>Headers\<close>

abbreviation (input) ETHER_HDR_SIZE :: nat where "ETHER_HDR_SIZE \<equiv> 14"
abbreviation (input) E802_HDR_SIZE :: nat where "E802_HDR_SIZE \<equiv> 22"
abbreviation (input) VLAN_ETHER_HDR_SIZE :: nat where "VLAN_ETHER_HDR_SIZE \<equiv> 18"
abbreviation (input) IP_HDR_SIZE_NO_UDP :: nat where "IP_HDR_SIZE_NO_UDP \<equiv> 20"
abbreviation (input) IP_HDR_SIZE :: nat where "IP_HDR_SIZE \<equiv> 28"
abbreviation (input) ARP_HDR_SIZE :: nat where "ARP_HDR_SIZE \<equiv> 28"
abbreviation (input) PROT_IP :: u16 where "PROT_IP \<equiv> 0x0800"
abbreviation (input) PROT_ARP :: u16 where "PROT_ARP \<equiv> 0x0806"
abbreviation (input) PROT_RARP :: u16 where "PROT_RARP \<equiv> 0x8035"
abbreviation (input) PROT_VLAN :: u16 where "PROT_VLAN \<equiv> 0x8100"
abbreviation (input) VLAN_NONE :: u16 where "VLAN_NONE \<equiv> 4095"
abbreviation (input) VLAN_IDMASK :: u16 where "VLAN_IDMASK \<equiv> 0x0fff"

definition NetBcastAddr :: bytes where "NetBcastAddr = replicate 6 0xff"
definition NetEtherNullAddr :: bytes where "NetEtherNullAddr = replicate 6 0"

text \<open>\<open>(ushort)-1\<close> stands for no VLAN.\<close>

definition my_vlan :: "u16 \<Rightarrow> u16" where
  "my_vlan v = (if v = 0xffff then VLAN_NONE else v)"

definition vlan_off :: "u16 \<Rightarrow> bool" where
  "vlan_off v \<longleftrightarrow> my_vlan v AND VLAN_IDMASK = VLAN_NONE"

definition NetEthHdrSize :: "u16 \<Rightarrow> nat" where
  "NetEthHdrSize vlan = (if vlan_off vlan then ETHER_HDR_SIZE else VLAN_ETHER_HDR_SIZE)"

text \<open>\<open>NetSetEther\<close> at the start of a buffer, for our VLAN and address: the size of the header and the buffer.\<close>

definition NetSetEther :: "u16 \<Rightarrow> bytes \<Rightarrow> bytes \<Rightarrow> bytes \<Rightarrow> u16 \<Rightarrow> (nat \<times> bytes) option" where
  "NetSetEther vlan ours xet dest prot = do {
     d \<leftarrow> window dest 0 6;
     xet \<leftarrow> put xet 0 d;
     s \<leftarrow> window ours 0 6;
     xet \<leftarrow> put xet 6 s;
     if vlan_off vlan then do {
       xet \<leftarrow> put xet 12 (be16 prot);
       Some (ETHER_HDR_SIZE, xet) }
     else do {
       xet \<leftarrow> put xet 12 (be16 PROT_VLAN @ be16 (my_vlan vlan AND VLAN_IDMASK) @ be16 prot);
       Some (VLAN_ETHER_HDR_SIZE, xet) } }"

text \<open>The IP and UDP headers as they are before the checksum is stored.\<close>

definition ip_udp_header :: "u32 \<Rightarrow> u32 \<Rightarrow> u32 \<Rightarrow> u32 \<Rightarrow> u32 \<Rightarrow> nat \<Rightarrow> bytes" where
  "ip_udp_header ours ipid dest dport sport len =
     [0x45, 0] @ be16 (of_nat (IP_HDR_SIZE + len)) @ be16 (ucast ipid) @ be16 0x4000 @ [255, 17] @ be16 0 @
     be32 ours @ be32 dest @ be16 (ucast sport) @ be16 (ucast dport) @ be16 (of_nat (8 + len)) @ be16 0"

definition put_sum :: "bytes \<Rightarrow> nat \<Rightarrow> bytes option" where
  "put_sum m i = do {
     c \<leftarrow> NetCksum (drop i m) (IP_HDR_SIZE_NO_UDP div 2);
     put m (i + 10) (be16 (ucast (NOT c))) }"

definition NetSetIP :: "u32 \<Rightarrow> u32 \<Rightarrow> bytes \<Rightarrow> nat \<Rightarrow> u32 \<Rightarrow> u32 \<Rightarrow> u32 \<Rightarrow> nat \<Rightarrow> bytes option" where
  "NetSetIP ours ipid m i dest dport sport len = do {
     m \<leftarrow> (if odd len then put m (i + IP_HDR_SIZE + len) [0] else Some m);
     m \<leftarrow> put m i (ip_udp_header ours ipid dest dport sport len);
     put_sum m i }"

section \<open>Addresses as text\<close>

definition ip_to_string :: "u32 \<Rightarrow> bytes \<Rightarrow> bytes option" where
  "ip_to_string x s = map_option fst (sprintf s (cstr (str ''%d.%d.%d.%d''))
     [VInt (drop_bit 24 x AND 0xff), VInt (drop_bit 16 x AND 0xff), VInt (drop_bit 8 x AND 0xff), VInt (x AND 0xff)])"

fun ip_octets :: "nat \<Rightarrow> bytes \<Rightarrow> u32 \<Rightarrow> u32 option" where
  "ip_octets 0 s a = Some a"
| "ip_octets (Suc n) s a = do {
     (val, e) \<leftarrow> simple_strtoul s 10;
     c \<leftarrow> rd e 0;
     ip_octets n (if c \<noteq> 0 then drop 1 e else e) (push_bit 8 a OR (val AND 0xff)) }"

definition string_to_ip :: "bytes option \<Rightarrow> u32 option" where
  "string_to_ip s = (case s of None \<Rightarrow> Some 0 | Some s \<Rightarrow> ip_octets 4 s 0)"

definition VLAN_to_string :: "u16 \<Rightarrow> bytes \<Rightarrow> bytes option" where
  "VLAN_to_string x s = (let x = my_vlan x in
     if x = VLAN_NONE then strcpy s (cstr (str ''none''))
     else map_option fst (sprintf s (cstr (str ''%d'')) [VInt (ucast (x AND VLAN_IDMASK))]))"

definition string_to_VLAN :: "bytes option \<Rightarrow> u16 option" where
  "string_to_VLAN s = (case s of
      None \<Rightarrow> Some VLAN_NONE
    | Some s \<Rightarrow> do {
        c \<leftarrow> rd s 0;
        if scast c <s (48 :: u32) \<or> (57 :: u32) <s scast c then Some VLAN_NONE
        else do { (v, _) \<leftarrow> simple_strtoul s 10; Some (ucast v) } })"

definition getenv_ptr :: "string \<Rightarrow> ub \<Rightarrow> bytes option option" where
  "getenv_ptr var u = map_option (map_option (\<lambda>k. drop k (env_mem u))) (getenv (cstr (str var)) u)"

definition getenv_IPaddr :: "string \<Rightarrow> ub \<Rightarrow> u32 option" where
  "getenv_IPaddr var u = do { p \<leftarrow> getenv_ptr var u; string_to_ip p }"

definition getenv_VLAN :: "string \<Rightarrow> ub \<Rightarrow> u16 option" where
  "getenv_VLAN var u = do { p \<leftarrow> getenv_ptr var u; string_to_VLAN p }"

section \<open>The checksum of a header\<close>

lemma be16_length [simp]: "length (be16 w) = 2"
  by (simp add: be16_def)

lemma of_be16: "push_bit 8 (ucast (ucast (drop_bit 8 w) :: byte)) OR ucast (ucast w :: byte) = (w :: u16)"
proof (rule bit_eqI)
  fix n
  assume "possible_bit TYPE(u16) n"
  then have n: "n < 16" by simp
  then consider "n < 8" | "8 \<le> n" by linarith
  then show "bit (push_bit 8 (ucast (ucast (drop_bit 8 w) :: byte)) OR ucast (ucast w :: byte) :: u16) n = bit w n"
    using n by cases (auto simp: bit_simps)
qed

lemma rd16_be16 [simp]: "rd16 (be16 w @ r) 0 = Some w"
  by (simp add: rd16_def be16_def of_be16 [simplified])

lemma rd16_drop: "rd16 (drop i m) j = rd16 m (i + j)"
  by (auto simp: rd16_def rd_def)

lemma rd16_at: "drop i m = be16 w @ r \<Longrightarrow> rd16 m i = Some w"
  using rd16_drop [of i m 0] by simp

lemma sum16_words:
  "sum16 (concat (map be16 ws) @ r) (length ws) = Some (sum_list (map ucast ws))"
  by (induction ws) (auto simp: be16_def [symmetric])

lemma unat_sum_words:
  "length ws \<le> 65536 \<Longrightarrow> unat (sum_list (map ucast ws) :: u32) = sum_list (map unat (ws :: u16 list)) \<and>
     sum_list (map unat ws) \<le> length ws * 65535"
proof (induction ws)
  case (Cons w ws)
  have w: "unat w \<le> 65535" using unsigned_less [of w, where ?'a = nat] by simp
  have c: "unat (ucast w :: u32) = unat w" using w by (simp add: unsigned_ucast_eq take_bit_nat_eq_self_iff)
  show ?case using Cons w by (simp add: c unat_word_ariths)
qed simp

definition nfold :: "nat \<Rightarrow> nat" where
  "nfold x = x mod 65536 + x div 65536"

lemma unat_fold16: "unat (fold16 x) = nfold (unat x)"
proof -
  have a: "unat (x AND 0xffff) = unat x mod 65536"
    by (simp add: take_bit_eq_mask [symmetric, where n = 16 and a = x, unfolded mask_eq_exp_minus_1, simplified] unsigned_take_bit_eq take_bit_nat_def)
  have b: "unat (drop_bit 16 x) = unat x div 65536"
    using unsigned_less [of x, where ?'a = nat] by (simp add: unsigned_drop_bit_eq drop_bit_nat_def take_bit_nat_eq_self)
  have "unat x < 2 ^ 32" using unsigned_less [of x, where ?'a = nat] by simp
  then have "unat x mod 65536 + unat x div 65536 < 2 ^ 32" by (simp add: less_mult_imp_div_less)
  then show ?thesis unfolding fold16_def nfold_def by (simp add: unat_word_ariths a b)
qed

lemma nfold_mod: "nfold x mod 65535 = x mod 65535"
proof -
  have "x = nfold x + 65535 * (x div 65536)"
    unfolding nfold_def using div_mult_mod_eq [of x 65536] by linarith
  then show ?thesis by (metis mod_mult_self2)
qed

lemma nfold_twice: "x < 2 ^ 32 \<Longrightarrow> nfold (nfold x) < 65536"
proof -
  assume "x < 2 ^ 32"
  then have "x div 65536 < 65536" by (simp add: less_mult_imp_div_less)
  then have "nfold x < 131071" unfolding nfold_def using mod_less_divisor [of 65536 x] by linarith
  then consider "nfold x < 65536" | "65536 \<le> nfold x" "nfold x < 131071" by linarith
  then show ?thesis
  proof cases
    case 1
    then show ?thesis by (simp add: nfold_def [of "nfold x"])
  next
    case 2
    then have "nfold x div 65536 = 1" "nfold x mod 65536 = nfold x - 65536"
      by (auto simp: div_nat_eqI mod_nat_eqI)
    then show ?thesis using 2 by (simp add: nfold_def [of "nfold x"])
  qed
qed

lemma NetCksum_words:
  assumes "length ws \<le> 65536"
  shows "\<exists>c. NetCksum (concat (map be16 ws) @ r) (length ws) = Some c \<and>
    unat c = nfold (nfold (sum_list (map unat ws)))"
proof -
  let ?x = "sum_list (map ucast ws) :: u32"
  have "unat (fold16 (fold16 ?x)) = nfold (nfold (unat ?x))" by (simp add: unat_fold16)
  moreover have "nfold (nfold (unat ?x)) < 65536"
    using unsigned_less [of ?x, where ?'a = nat] by (intro nfold_twice) simp
  moreover have "unat (y AND 0xffff) = unat y mod 65536" for y :: u32
    by (simp add: take_bit_eq_mask [symmetric, where n = 16 and a = y, unfolded mask_eq_exp_minus_1, simplified] unsigned_take_bit_eq take_bit_nat_def)
  ultimately show ?thesis using unat_sum_words [OF assms] by (auto simp: NetCksum_def sum16_words)
qed

lemma sum_words_bound: "length ws \<le> 65536 \<Longrightarrow> sum_list (map unat (ws :: u16 list)) < 2 ^ 32"
proof -
  assume l: "length ws \<le> 65536"
  then have "length ws * 65535 \<le> 65536 * 65535" by (rule mult_le_mono1)
  moreover have "sum_list (map unat ws) \<le> length ws * 65535" using unat_sum_words [OF l] by simp
  ultimately show ?thesis by simp
qed

lemma mod_up_to: "n \<le> m \<Longrightarrow> 0 < m \<Longrightarrow> n mod m = (0::nat) \<longleftrightarrow> n = 0 \<or> n = m"
  by (cases "n = m") auto

text \<open>The check accepts exactly the half-words whose sum is a multiple of 65535.\<close>

lemma NetCksumOk_iff:
  assumes "length ws \<le> 65536"
  shows "NetCksumOk (concat (map be16 ws) @ r) (length ws) = Some (sum_list (map unat ws) mod 65535 = 0)"
proof -
  let ?s = "sum_list (map unat ws)"
  obtain c where c: "NetCksum (concat (map be16 ws) @ r) (length ws) = Some c" "unat c = nfold (nfold ?s)"
    using NetCksum_words [OF assms] by blast
  have "?s < 2 ^ 32" using sum_words_bound [OF assms] .
  then have lt: "unat c < 65536" using c(2) nfold_twice by simp
  have md: "unat c mod 65535 = ?s mod 65535" using c(2) nfold_mod by simp
  have "(c + 1) AND 0xfffe = 0 \<longleftrightarrow> c = 0 \<or> c = 0xffff"
  proof -
    have "(c + 1) AND 0xfffe = 0 \<longleftrightarrow> unat ((c + 1) AND 0xfffe) = 0" by (simp add: unat_eq_zero)
    also have "unat ((c + 1) AND 0xfffe) = (unat c + 1) AND 0xfffe"
      using lt by (simp add: unsigned_and_eq unat_word_ariths)
    also have "(unat c + 1) AND 0xfffe = 2 * (((unat c + 1) div 2) mod 2 ^ 15)"
    proof -
      have "(n AND 0xfffe) = 2 * ((n div 2) AND 0x7fff)" for n :: nat
        by (simp add: and_rec [of n "0xfffe"])
      moreover have "(n AND 0x7fff) = n mod 2 ^ 15" for n :: nat
        using take_bit_eq_mask [of 15 n] by (simp add: take_bit_nat_def mask_eq_exp_minus_1)
      ultimately show ?thesis by simp
    qed
    also have "(2 * (((unat c + 1) div 2) mod 2 ^ 15) = 0) = (unat c = 0 \<or> unat c = 65535)"
      using lt mod_up_to [of "(unat c + 1) div 2" "2 ^ 15"] by auto
    finally show ?thesis by (simp add: word_unat_eq_iff)
  qed
  also have "\<dots> \<longleftrightarrow> unat c mod 65535 = 0"
    using lt mod_up_to [of "unat c" 65535] by (auto simp: word_unat_eq_iff)
  finally show ?thesis using c(1) md by (simp add: NetCksumOk_def)
qed

lemma unat_not_sum: "unat c < 65536 \<Longrightarrow> unat (ucast (NOT (c :: u32)) :: u16) = 65535 - unat c"
proof -
  assume c: "unat c < 65536"
  have "NOT c = 0xffffffff - c" by (simp add: not_eq_complement)
  moreover have "unat (0xffffffff - c) = 0xffffffff - unat c"
  proof -
    have "c \<le> 0xffffffff" using c by (simp add: word_le_nat_alt)
    then show ?thesis by (simp add: unat_sub)
  qed
  ultimately have "unat (NOT c) = 65535 * 65536 + (65535 - unat c)" using c by simp
  moreover have "(65535 * 65536 + (65535 - unat c)) mod 65536 = 65535 - unat c"
    by (subst mod_mult_self3) (simp add: less_Suc_eq_le)
  ultimately show ?thesis by (simp add: unsigned_ucast_eq take_bit_nat_def)
qed

lemma stored_sum_ok:
  assumes "length (ws @ 0 # ws') \<le> 65536"
    and "NetCksum (concat (map be16 (ws @ 0 # ws')) @ r) (length (ws @ 0 # ws')) = Some c"
  shows "NetCksumOk (concat (map be16 (ws @ ucast (NOT c) # ws')) @ r) (length (ws @ 0 # ws')) = Some True"
proof -
  let ?s = "sum_list (map unat (ws @ 0 # ws'))"
  have c: "unat c = nfold (nfold ?s)" using NetCksum_words [OF assms(1), of r] assms(2) by auto
  have s: "?s < 2 ^ 32" using sum_words_bound [OF assms(1)] .
  then have lt: "unat c < 65536" using c nfold_twice by simp
  have md: "unat c mod 65535 = ?s mod 65535" using c nfold_mod by simp
  have "sum_list (map unat (ws @ ucast (NOT c) # ws')) = ?s + (65535 - unat c)"
    using unat_not_sum [OF lt] by simp
  moreover have "(?s + (65535 - unat c)) mod 65535 = 0"
  proof -
    have "(?s + (65535 - unat c) + unat c) mod 65535 = unat c mod 65535" using lt md by simp
    then have "65535 dvd ?s + (65535 - unat c)" by (metis add_diff_cancel_right' le_add2 mod_eq_dvd_iff_nat)
    then show ?thesis by (rule dvd_imp_mod_0)
  qed
  ultimately show ?thesis using NetCksumOk_iff [of "ws @ ucast (NOT c) # ws'" r] assms(1) by (simp only: length_append list.size) simp
qed

section \<open>The headers of a datagram\<close>

lemma be32_be16: "be32 w = be16 (ucast (drop_bit 16 w)) @ be16 (ucast w)"
proof -
  have "(ucast (drop_bit 24 w) :: byte) = ucast (drop_bit 8 (ucast (drop_bit 16 w) :: u16))"
    "(ucast (drop_bit 16 w) :: byte) = ucast (ucast (drop_bit 16 w) :: u16)"
    "(ucast (drop_bit 8 w) :: byte) = ucast (drop_bit 8 (ucast w :: u16))"
    "(ucast w :: byte) = ucast (ucast w :: u16)"
    by (rule bit_eqI, auto simp: bit_simps)+
  then show ?thesis by (simp add: be32_def be16_def)
qed

text \<open>The half-words of the IP header around the checksum.\<close>

definition ip_front :: "u32 \<Rightarrow> nat \<Rightarrow> u16 list" where
  "ip_front ipid len = [0x4500, of_nat (IP_HDR_SIZE + len), ucast ipid, 0x4000, 0xff11]"

definition ip_addrs :: "u32 \<Rightarrow> u32 \<Rightarrow> u16 list" where
  "ip_addrs ours dest = [ucast (drop_bit 16 ours), ucast ours, ucast (drop_bit 16 dest), ucast dest]"

definition udp_part :: "u32 \<Rightarrow> u32 \<Rightarrow> nat \<Rightarrow> bytes" where
  "udp_part dport sport len = be16 (ucast sport) @ be16 (ucast dport) @ be16 (of_nat (8 + len)) @ be16 0"

definition ip_udp_words :: "u32 \<Rightarrow> u32 \<Rightarrow> u32 \<Rightarrow> u32 \<Rightarrow> u32 \<Rightarrow> nat \<Rightarrow> u16 \<Rightarrow> bytes" where
  "ip_udp_words ours ipid dest dport sport len x =
     concat (map be16 (ip_front ipid len @ x # ip_addrs ours dest)) @ udp_part dport sport len"

lemma ip_udp_header_words:
  "ip_udp_header ours ipid dest dport sport len = ip_udp_words ours ipid dest dport sport len 0"
  by (simp add: ip_udp_header_def ip_udp_words_def ip_front_def ip_addrs_def udp_part_def be32_be16)
    (simp add: be16_def)

lemma ip_udp_words_length [simp]: "length (ip_udp_words ours ipid dest dport sport len x) = 28"
  by (simp add: ip_udp_words_def ip_front_def ip_addrs_def udp_part_def)

lemma overlay_at: "length a = i \<Longrightarrow> length b = length b' \<Longrightarrow> overlay (a @ b @ c) i b' = a @ b' @ c"
  by (simp add: overlay_def)

lemma NetSetIP_eq:
  assumes "i + IP_HDR_SIZE + len + (if odd len then 1 else 0) \<le> length m"
  shows "\<exists>x r. NetSetIP ours ipid m i dest dport sport len =
      Some (take i m @ ip_udp_words ours ipid dest dport sport len x @ take len (drop (i + IP_HDR_SIZE) m) @ r) \<and>
    length r = length m - (i + IP_HDR_SIZE + len) \<and>
    (\<forall>t. NetCksumOk (ip_udp_words ours ipid dest dport sport len x @ t) 10 = Some True)"
proof -
  let ?h = "ip_udp_words ours ipid dest dport sport len" and ?p = "take len (drop (i + 28) m)"
  define r where "r = (if odd len then 0 # drop (i + 28 + len + 1) m else drop (i + 28 + len) m)"
  have m: "m = take i m @ take 28 (drop i m) @ ?p @ drop (i + 28 + len) m"
    by (metis add.commute append_take_drop_id drop_drop)
  have l: "length (take i m) = i" "length (take 28 (drop i m)) = 28" "length ?p = len" using assms by auto
  have m1: "(if odd len then put m (i + 28 + len) [0] else Some m) = Some (take i m @ take 28 (drop i m) @ ?p @ r)"
  proof (cases "odd len")
    case True
    then have "put m (i + 28 + len) [0] = Some (take (i + 28 + len) m @ [0] @ drop (i + 28 + len + 1) m)"
      using assms by (simp add: put_def overlay_def)
    moreover have "take (i + 28 + len) m = take i m @ take 28 (drop i m) @ ?p"
      by (simp only: take_add append_assoc)
    ultimately show ?thesis using True by (simp add: r_def)
  next
    case False
    then show ?thesis using m by (simp add: r_def)
  qed
  have m2: "put (take i m @ take 28 (drop i m) @ ?p @ r) i (?h 0) = Some (take i m @ ?h 0 @ ?p @ r)"
    using l overlay_at [of "take i m" i "take 28 (drop i m)" "?h 0" "?p @ r"] by (simp add: put_def)
  let ?ws = "ip_front ipid len" and ?as = "ip_addrs ours dest" and ?u = "udp_part dport sport len"
  have ten: "length (?ws @ x # ?as) = 10" for x by (simp add: ip_front_def ip_addrs_def)
  then obtain c where c: "NetCksum (concat (map be16 (?ws @ 0 # ?as)) @ ?u @ ?p @ r) 10 = Some c"
    using NetCksum_words [of "?ws @ 0 # ?as" "?u @ ?p @ r"] by auto
  have ok: "NetCksumOk (?h (ucast (NOT c)) @ t) 10 = Some True" for t
  proof -
    have "NetCksum (concat (map be16 (?ws @ 0 # ?as)) @ ?u @ t) 10 = Some c"
      using c sum16_words [of "?ws @ 0 # ?as"] unfolding ten NetCksum_def by simp
    then show ?thesis using stored_sum_ok [of ?ws ?as "?u @ t" c] unfolding ten by (simp add: ip_udp_words_def)
  qed
  have "overlay (take i m @ ?h 0 @ ?p @ r) (i + 10) (be16 (ucast (NOT c))) = take i m @ ?h (ucast (NOT c)) @ ?p @ r"
    using l overlay_at [of "take i m @ concat (map be16 ?ws)" "i + 10" "be16 0" "be16 (ucast (NOT c))" "concat (map be16 ?as) @ ?u @ ?p @ r"]
    by (simp add: ip_udp_words_def ip_front_def)
  then have "put_sum (take i m @ ?h 0 @ ?p @ r) i = Some (take i m @ ?h (ucast (NOT c)) @ ?p @ r)"
  proof -
    have "NetCksum (drop i (take i m @ ?h 0 @ ?p @ r)) 10 = Some c" using c l by (simp add: ip_udp_words_def)
    moreover have "i + 10 + 2 \<le> length (take i m @ ?h 0 @ ?p @ r)" using l by simp
    ultimately show ?thesis using \<open>overlay _ _ _ = _\<close> by (simp add: put_sum_def put_def)
  qed
  then have "NetSetIP ours ipid m i dest dport sport len = Some (take i m @ ?h (ucast (NOT c)) @ ?p @ r)"
    using m1 m2 by (simp add: NetSetIP_def ip_udp_header_words)
  moreover have "length r = length m - (i + 28 + len)" using assms by (auto simp: r_def)
  ultimately show ?thesis using ok by blast
qed

end
