(* ===== verification/Net.thy ===== *)
theory Net
  imports NetPacket
begin

text \<open>
  The network core of \<open>net/net.c\<close>: transmission with address resolution, reception, ping, retries.
  The state is the globals of \<open>net.c\<close> and the statics of the protocols, with the environment and the
  ring of devices in \<open>nub\<close>, the frames handed to the driver in \<open>sent\<close> and the clock in \<open>now\<close>.
  The current packet handler is called through an argument, as the code calls it through a
  pointer. Whether the \<open>init\<close> routine of a device succeeds is \<open>drv_up\<close>.
\<close>

section \<open>State\<close>

datatype netstate = NETLOOP_CONTINUE | NETLOOP_RESTART | NETLOOP_SUCCESS | NETLOOP_FAIL

datatype rxhand = TftpHandler_h | PingHandler_h | startAgainHandler_h | DhcpHandler_h | RarpHandler_h | NfsHandler_h

datatype thand = TftpTimeout_t | PingTimeout_t | startAgainTimeout_t | BootpTimeout_t | RarpTimeout_t | NfsTimeout_t

text \<open>The objects that pointers to hardware addresses point to.\<close>

datatype mac_ref = AtServerEther | AtPingMac | AtBcastAddr

datatype tftp_state = STATE_RRQ | STATE_DATA | STATE_TOO_LARGE | STATE_BAD_MAGIC | STATE_OACK

datatype dhcp_state_t = INIT | INIT_REBOOT | REBOOTING | SELECTING | REQUESTING | REBINDING | BOUND | RENEWING

text \<open>The variables of \<open>net/bootp.c\<close> and those of \<open>net.c\<close> that only BOOTP and DHCP assign.\<close>

record bootp_vars =
  BootpID :: u32
  BootpTry :: nat
  dhcp_state :: dhcp_state_t
  dhcp_leasetime :: u32
  NetDHCPServerIP :: u32
  NetOurDNSIP :: u32
  NetOurNISDomain :: bytes
  NetOurHostName :: bytes
  NetOurRootPath :: bytes

datatype nfs_state = STATE_PRCLOOKUP_PROG_MOUNT_REQ | STATE_PRCLOOKUP_PROG_NFS_REQ | STATE_MOUNT_REQ |
  STATE_UMOUNT_REQ | STATE_LOOKUP_REQ | STATE_READ_REQ | STATE_READLINK_REQ

text \<open>
  The statics of \<open>net/nfs.c\<close>. \<open>nfs_path\<close> always points to the start of \<open>nfs_path_buff\<close>;
  \<open>nfs_filename\<close> is an index into it.
\<close>

record nfs_vars =
  fs_mounted :: bool
  rpc_id :: u32
  nfs_offset :: u32
  nfs_len :: u32
  dirfh :: bytes
  filefh :: bytes
  NfsDownloadState :: netstate
  NfsServerIP :: u32
  NfsSrvMountPort :: u32
  NfsSrvNfsPort :: u32
  NfsOurPort :: u32
  NfsState :: nfs_state
  nfs_path_buff :: bytes
  nfs_filename :: nat

record net =
  nub :: ub
  NetOurIP :: u32
  NetServerIP :: u32
  NetOurGatewayIP :: u32
  NetOurSubnetMask :: u32
  NetOurEther :: bytes
  NetServerEther :: bytes
  NetOurVLAN :: u16
  NetOurNativeVLAN :: u16
  NetIPID :: u32
  NetTxPacket :: bytes
  NetArpWaitPacketIP :: u32
  NetArpWaitReplyIP :: u32
  NetArpWaitPacketMAC :: "mac_ref option"
  NetArpWaitTxPacket :: bytes
  NetArpWaitTxPacketSize :: nat
  NetArpWaitTimerStart :: u32
  NetArpWaitTry :: nat
  NetState :: netstate
  NetRestarted :: bool
  NetDevExists :: bool
  NetPingIP :: u32
  PingSeqNo :: u16
  ping_mac :: bytes
  packetHandler :: "rxhand option"
  timeHandler :: "thand option"
  timeStart :: u32
  timeDelta :: u32
  NetBootFileXferSize :: u32
  TftpServerPort :: u32
  TftpOurPort :: u32
  TftpTimeoutCount :: nat
  TftpBlock :: u32
  TftpLastBlock :: u32
  TftpBlockWrap :: u32
  TftpBlockWrapOffset :: u32
  TftpState :: tftp_state
  tftp_filename :: bytes
  NetRxPkt :: bytes
  bootp_st :: bootp_vars
  RarpTry :: nat
  nfs_st :: nfs_vars
  mem :: "u32 \<Rightarrow> byte"
  sent :: "bytes list"
  now :: u32
  drv_up :: "nat \<Rightarrow> bool"

definition CFG_HZ :: u32 where "CFG_HZ = 200000000"

abbreviation no_devices :: "net \<Rightarrow> bool" where
  "no_devices n \<equiv> eth_devices (eths (nub n)) = []"

definition eth_send :: "bytes \<Rightarrow> nat \<Rightarrow> net \<Rightarrow> net option" where
  "eth_send pkt len n = do {
     f \<leftarrow> window pkt 0 len;
     Some (if no_devices n then n else n\<lparr>sent := sent n @ [f]\<rparr>) }"

fun read_mac :: "mac_ref \<Rightarrow> net \<Rightarrow> bytes" where
  "read_mac AtServerEther n = NetServerEther n"
| "read_mac AtPingMac n = ping_mac n"
| "read_mac AtBcastAddr n = NetBcastAddr"

fun write_mac :: "mac_ref \<Rightarrow> bytes \<Rightarrow> net \<Rightarrow> net" where
  "write_mac AtServerEther m n = n\<lparr>NetServerEther := m\<rparr>"
| "write_mac AtPingMac m n = n\<lparr>ping_mac := m\<rparr>"
| "write_mac AtBcastAddr m n = n"

section \<open>Timers and handlers\<close>

definition NetSetHandler :: "rxhand \<Rightarrow> net \<Rightarrow> net" where
  "NetSetHandler f n = n\<lparr>packetHandler := Some f\<rparr>"

definition NetSetTimeout :: "u32 \<Rightarrow> thand \<Rightarrow> net \<Rightarrow> net" where
  "NetSetTimeout iv f n =
     (if iv = 0 then n\<lparr>timeHandler := None\<rparr>
      else n\<lparr>timeHandler := Some f, timeStart := now n, timeDelta := iv\<rparr>)"

definition startAgainTimeout :: "net \<Rightarrow> net" where
  "startAgainTimeout n = n\<lparr>NetState := NETLOOP_RESTART\<rparr>"

definition startAgainHandler :: "net \<Rightarrow> net" where
  "startAgainHandler n = n"

definition NetStartAgain :: "net \<Rightarrow> net option" where
  "NetStartAgain n = do {
     nretry \<leftarrow> getenv_ptr ''netretry'' (nub n);
     noretry \<leftarrow> (case nretry of None \<Rightarrow> Some False | Some p \<Rightarrow> streq p (cstr (str ''no'')));
     once \<leftarrow> (case nretry of None \<Rightarrow> Some False | Some p \<Rightarrow> streq p (cstr (str ''once'')));
     if noretry then Some (n\<lparr>nub := eth_halt (nub n), NetState := NETLOOP_FAIL\<rparr>)
     else do {
       u \<leftarrow> eth_try_another (\<not> NetRestarted n) (eth_halt (nub n));
       (_, u) \<leftarrow> eth_init (drv_up n) u;
       if NetRestartWrap (eths u) then
         let n = n\<lparr>nub := u\<lparr>eths := (eths u)\<lparr>NetRestartWrap := False\<rparr>\<rparr>\<rparr>
         in if NetDevExists n \<and> \<not> once
            then Some (NetSetHandler startAgainHandler_h (NetSetTimeout (10 * CFG_HZ) startAgainTimeout_t n))
            else Some (n\<lparr>NetState := NETLOOP_FAIL\<rparr>)
       else Some (n\<lparr>nub := u, NetState := NETLOOP_RESTART\<rparr>) } }"

section \<open>Address resolution\<close>

definition ArpRequest :: "net \<Rightarrow> net option" where
  "ArpRequest n = do {
     (k, pkt) \<leftarrow> NetSetEther (NetOurVLAN n) (NetOurEther n) (NetTxPacket n) NetBcastAddr PROT_ARP;
     ours \<leftarrow> window (NetOurEther n) 0 6;
     let reply =
       (if NetArpWaitPacketIP n AND NetOurSubnetMask n \<noteq> NetOurIP n AND NetOurSubnetMask n
        then (if NetOurGatewayIP n = 0 then NetArpWaitPacketIP n else NetOurGatewayIP n)
        else NetArpWaitPacketIP n);
     pkt \<leftarrow> put pkt k (be16 1 @ be16 PROT_IP @ [6, 4] @ be16 1 @ ours @ be32 (NetOurIP n) @
                      replicate 6 0 @ be32 reply);
     eth_send pkt (k + ARP_HDR_SIZE) (n\<lparr>NetTxPacket := pkt, NetArpWaitReplyIP := reply\<rparr>) }"

abbreviation (input) ARP_TIMEOUT_COUNT :: nat where "ARP_TIMEOUT_COUNT \<equiv> 2"

definition ArpTimeoutCheck :: "net \<Rightarrow> net option" where
  "ArpTimeoutCheck n =
     (if NetArpWaitPacketIP n = 0 then Some n
      else if now n - NetArpWaitTimerStart n > 2 * CFG_HZ then
        let n = n\<lparr>NetArpWaitTry := NetArpWaitTry n + 1\<rparr>
        in if NetArpWaitTry n \<ge> ARP_TIMEOUT_COUNT then NetStartAgain (n\<lparr>NetArpWaitTry := 0\<rparr>)
           else ArpRequest (n\<lparr>NetArpWaitTimerStart := now n\<rparr>)
      else Some n)"

section \<open>Transmission\<close>

definition NetSendPacket :: "bytes \<Rightarrow> nat \<Rightarrow> net \<Rightarrow> net option" where
  "NetSendPacket pkt len n = eth_send pkt len n"

text \<open>A datagram whose payload of \<open>len\<close> bytes is in the transmit packet; 1 if it waits for a reply to ARP.\<close>

definition NetSendUDPPacket :: "mac_ref \<Rightarrow> u32 \<Rightarrow> u32 \<Rightarrow> u32 \<Rightarrow> nat \<Rightarrow> net \<Rightarrow> (int \<times> net) option" where
  "NetSendUDPPacket ether dest dport sport len n =
     (let dest = (if dest = 0 then 0xffffffff else dest);
          ether = (if dest = 0xffffffff then AtBcastAddr else ether)
      in do {
        eq \<leftarrow> memcmp (read_mac ether n) NetEtherNullAddr 6;
        if eq = 0 then do {
          (k, pkt) \<leftarrow> NetSetEther (NetOurVLAN n) (NetOurEther n) (NetArpWaitTxPacket n) (read_mac ether n) PROT_IP;
          pkt \<leftarrow> NetSetIP (NetOurIP n) (NetIPID n) pkt k dest dport sport len;
          payload \<leftarrow> window (NetTxPacket n) (k + IP_HDR_SIZE) len;
          pkt \<leftarrow> put pkt (k + IP_HDR_SIZE) payload;
          n \<leftarrow> ArpRequest (n\<lparr>NetArpWaitPacketIP := dest, NetArpWaitPacketMAC := Some ether, NetArpWaitTxPacket := pkt,
                           NetIPID := NetIPID n + 1, NetArpWaitTxPacketSize := k + IP_HDR_SIZE + len,
                           NetArpWaitTry := 1, NetArpWaitTimerStart := now n\<rparr>);
          Some (1, n) }
        else do {
          (k, pkt) \<leftarrow> NetSetEther (NetOurVLAN n) (NetOurEther n) (NetTxPacket n) (read_mac ether n) PROT_IP;
          pkt \<leftarrow> NetSetIP (NetOurIP n) (NetIPID n) pkt k dest dport sport len;
          n \<leftarrow> eth_send pkt (k + IP_HDR_SIZE + len) (n\<lparr>NetTxPacket := pkt, NetIPID := NetIPID n + 1\<rparr>);
          Some (0, n) } })"

section \<open>Ping\<close>

definition PingSend :: "net \<Rightarrow> (int \<times> net) option" where
  "PingSend n = do {
     let n = n\<lparr>ping_mac := NetEtherNullAddr, NetArpWaitPacketIP := NetPingIP n, NetArpWaitPacketMAC := Some AtPingMac\<rparr>;
     (k, pkt) \<leftarrow> NetSetEther (NetOurVLAN n) (NetOurEther n) (NetArpWaitTxPacket n) (ping_mac n) PROT_IP;
     pkt \<leftarrow> put pkt k ([0x45, 0] @ be16 (of_nat (IP_HDR_SIZE_NO_UDP + 8)) @ be16 (ucast (NetIPID n)) @ be16 0x4000 @
                      [255, 1] @ be16 0 @ be32 (NetOurIP n) @ be32 (NetPingIP n));
     pkt \<leftarrow> put_sum pkt k;
     pkt \<leftarrow> put pkt (k + 20) (be16 0x0800 @ be16 0 @ be16 0 @ be16 (PingSeqNo n));
     c \<leftarrow> NetCksum (drop (k + 20) pkt) 4;
     pkt \<leftarrow> put pkt (k + 22) (be16 (ucast (NOT c)));
     n \<leftarrow> ArpRequest (n\<lparr>NetArpWaitTxPacket := pkt, NetIPID := NetIPID n + 1, PingSeqNo := PingSeqNo n + 1,
                      NetArpWaitTxPacketSize := k + IP_HDR_SIZE_NO_UDP + 8,
                      NetArpWaitTry := 1, NetArpWaitTimerStart := now n\<rparr>);
     Some (1, n) }"

definition PingTimeout :: "net \<Rightarrow> net" where
  "PingTimeout n = n\<lparr>nub := eth_halt (nub n), NetState := NETLOOP_FAIL\<rparr>"

definition PingHandler :: "bytes option \<Rightarrow> net \<Rightarrow> net option" where
  "PingHandler pkt n = do {
     ip \<leftarrow> pkt;
     src \<leftarrow> NetReadIP ip 12;
     Some (if src \<noteq> NetPingIP n then n else n\<lparr>NetState := NETLOOP_SUCCESS\<rparr>) }"

definition PingStart :: "net \<Rightarrow> net option" where
  "PingStart n = map_option snd (PingSend (NetSetHandler PingHandler_h (NetSetTimeout (10 * CFG_HZ) PingTimeout_t n)))"

section \<open>Reception\<close>

type_synonym handle = "rxhand \<Rightarrow> bytes option \<Rightarrow> u32 \<Rightarrow> u32 \<Rightarrow> u32 \<Rightarrow> net \<Rightarrow> net option"

text \<open>\<open>(*packetHandler)(pkt, dest, src, len)\<close>.\<close>

definition call_handler :: "handle \<Rightarrow> bytes option \<Rightarrow> u32 \<Rightarrow> u32 \<Rightarrow> u32 \<Rightarrow> net \<Rightarrow> net option" where
  "call_handler call pkt dest src len n = do { h \<leftarrow> packetHandler n; call h pkt dest src len n }"

text \<open>
  The link layer: the protocol, the offset of its header, the remaining length and the VLAN, or
  \<open>None\<close> inside if the frame is dropped.
\<close>

definition link_layer :: "u16 \<Rightarrow> bytes \<Rightarrow> int \<Rightarrow> (u16 \<times> nat \<times> int \<times> u16) option option" where
  "link_layer vlan inpkt len =
     (if len < int ETHER_HDR_SIZE then Some None
      else do {
        x \<leftarrow> rd16 inpkt 12;
        if x < 1514 then do {
          x \<leftarrow> rd16 inpkt 20;
          Some (Some (x, E802_HDR_SIZE, len - int E802_HDR_SIZE, VLAN_NONE)) }
        else if x \<noteq> PROT_VLAN then Some (Some (x, ETHER_HDR_SIZE, len - int ETHER_HDR_SIZE, VLAN_NONE))
        else if len < int VLAN_ETHER_HDR_SIZE then Some None
        else if vlan AND VLAN_IDMASK = VLAN_NONE then Some None
        else do {
          cti \<leftarrow> rd16 inpkt 14;
          x \<leftarrow> rd16 inpkt 16;
          Some (Some (x, VLAN_ETHER_HDR_SIZE, len - int VLAN_ETHER_HDR_SIZE, cti AND VLAN_IDMASK)) } })"

definition vlan_match :: "u16 \<Rightarrow> u16 \<Rightarrow> u16 \<Rightarrow> bool" where
  "vlan_match vlan native vlanid \<longleftrightarrow>
     (if my_vlan vlan AND VLAN_IDMASK \<noteq> VLAN_NONE
      then (if vlanid = VLAN_NONE then my_vlan native AND VLAN_IDMASK else vlanid) = my_vlan vlan AND VLAN_IDMASK
      else True)"

text \<open>An ARP frame whose ARP header is at offset \<open>k\<close>.\<close>

definition arp_receive :: "bytes \<Rightarrow> nat \<Rightarrow> int \<Rightarrow> net \<Rightarrow> net option" where
  "arp_receive inpkt k len n =
     (if len < int ARP_HDR_SIZE then Some n
      else do {
        hrd \<leftarrow> rd16 inpkt k; pro \<leftarrow> rd16 inpkt (k + 2); hln \<leftarrow> rd inpkt (k + 4); pln \<leftarrow> rd inpkt (k + 5);
        op \<leftarrow> rd16 inpkt (k + 6); target \<leftarrow> NetReadIP inpkt (k + 24);
        if hrd \<noteq> 1 \<or> pro \<noteq> PROT_IP \<or> hln \<noteq> 6 \<or> pln \<noteq> 4 \<or> NetOurIP n = 0 \<or> target \<noteq> NetOurIP n then Some n
        else if op = 1 then do {
          src \<leftarrow> window inpkt 6 6;
          (h, pkt) \<leftarrow> NetSetEther (NetOurVLAN n) (NetOurEther n) inpkt src PROT_ARP;
          pkt \<leftarrow> put pkt (k + 6) (be16 2);
          sender \<leftarrow> window pkt (k + 8) 10;
          pkt \<leftarrow> put pkt (k + 18) sender;
          ours \<leftarrow> window (NetOurEther n) 0 6;
          pkt \<leftarrow> put pkt (k + 8) (ours @ be32 (NetOurIP n));
          eth_send pkt (h + ARP_HDR_SIZE) n }
        else if op = 2 then
          (case NetArpWaitPacketMAC n of
             None \<Rightarrow> Some n
           | Some ref \<Rightarrow>
               if NetArpWaitPacketIP n = 0 then Some n
               else do {
                 sender \<leftarrow> NetReadIP inpkt (k + 14);
                 if sender = NetArpWaitReplyIP n then do {
                   mac \<leftarrow> window inpkt (k + 8) 6;
                   let n = write_mac ref mac n;
                   pkt \<leftarrow> put (NetArpWaitTxPacket n) 0 (read_mac ref n);
                   n \<leftarrow> eth_send pkt (NetArpWaitTxPacketSize n) (n\<lparr>NetArpWaitTxPacket := pkt\<rparr>);
                   Some (n\<lparr>NetArpWaitPacketIP := 0, NetArpWaitTxPacketSize := 0, NetArpWaitPacketMAC := None\<rparr>) }
                 else Some n })
        else Some n })"

definition rarp_receive :: "handle \<Rightarrow> bytes \<Rightarrow> nat \<Rightarrow> int \<Rightarrow> net \<Rightarrow> net option" where
  "rarp_receive call inpkt k len n =
     (if len < int ARP_HDR_SIZE then Some n
      else do {
        hrd \<leftarrow> rd16 inpkt k; pro \<leftarrow> rd16 inpkt (k + 2); hln \<leftarrow> rd inpkt (k + 4); pln \<leftarrow> rd inpkt (k + 5);
        op \<leftarrow> rd16 inpkt (k + 6);
        if op \<noteq> 4 \<or> hrd \<noteq> 1 \<or> pro \<noteq> PROT_IP \<or> hln \<noteq> 6 \<or> pln \<noteq> 4 then Some n
        else do {
          ours \<leftarrow> NetReadIP inpkt (k + 24);
          server \<leftarrow> NetReadIP inpkt (k + 14);
          mac \<leftarrow> window inpkt (k + 8) 6;
          call_handler call None 0 0 0
            (n\<lparr>NetOurIP := ours, NetServerIP := (if NetServerIP n = 0 then server else NetServerIP n),
              NetServerEther := mac\<rparr>) } })"

text \<open>The first comparison of the length is unsigned, the second signed.\<close>

definition ip_receive :: "handle \<Rightarrow> bytes \<Rightarrow> nat \<Rightarrow> int \<Rightarrow> net \<Rightarrow> net option" where
  "ip_receive call inpkt k len n =
     (if len mod 2 ^ 32 < int IP_HDR_SIZE then Some n
      else do {
        ip_len \<leftarrow> rd16 inpkt (k + 2);
        if len < uint ip_len then Some n
        else do {
          hl_v \<leftarrow> rd inpkt k;
          off \<leftarrow> rd16 inpkt (k + 6);
          if hl_v AND 0xf0 \<noteq> 0x40 \<or> off AND 0x1fff \<noteq> 0 then Some n
          else do {
            ok \<leftarrow> NetCksumOk (drop k inpkt) (IP_HDR_SIZE_NO_UDP div 2);
            dst \<leftarrow> NetReadIP inpkt (k + 16);
            if \<not> ok \<or> (NetOurIP n \<noteq> 0 \<and> dst \<noteq> NetOurIP n \<and> dst \<noteq> 0xffffffff) then Some n
            else do {
              proto \<leftarrow> rd inpkt (k + 9);
              if proto = 1 then do {
                type \<leftarrow> rd inpkt (k + 20);
                if type = 0 then call_handler call (Some (drop k inpkt)) 0 0 0 n else Some n }
              else if proto \<noteq> 17 then Some n
              else do {
                dport \<leftarrow> rd16 inpkt (k + 22); sport \<leftarrow> rd16 inpkt (k + 20); udp_len \<leftarrow> rd16 inpkt (k + 24);
                call_handler call (Some (drop (k + IP_HDR_SIZE) inpkt)) (ucast dport) (ucast sport) (ucast udp_len - 8) n } } } } })"

definition NetReceive :: "handle \<Rightarrow> bytes \<Rightarrow> int \<Rightarrow> net \<Rightarrow> net option" where
  "NetReceive call inpkt len n = do {
     let n = n\<lparr>NetRxPkt := inpkt\<rparr>;
     l \<leftarrow> link_layer (NetOurVLAN n) inpkt len;
     (case l of
        None \<Rightarrow> Some n
      | Some (x, k, len, vlanid) \<Rightarrow>
          if \<not> vlan_match (NetOurVLAN n) (NetOurNativeVLAN n) vlanid then Some n
          else if x = PROT_ARP then arp_receive inpkt k len n
          else if x = PROT_RARP then rarp_receive call inpkt k len n
          else if x = PROT_IP then ip_receive call inpkt k len n
          else Some n) }"

section \<open>What is sent\<close>

definition eth_header :: "u16 \<Rightarrow> bytes \<Rightarrow> bytes \<Rightarrow> u16 \<Rightarrow> bytes" where
  "eth_header vlan ours dest prot = dest @ ours @
     (if vlan_off vlan then be16 prot else be16 PROT_VLAN @ be16 (my_vlan vlan AND VLAN_IDMASK) @ be16 prot)"

lemma eth_header_length [simp]:
  "length ours = 6 \<Longrightarrow> length dest = 6 \<Longrightarrow> length (eth_header vlan ours dest prot) = NetEthHdrSize vlan"
  by (simp add: eth_header_def NetEthHdrSize_def)

lemma NetEthHdrSize_le: "NetEthHdrSize vlan \<le> 18" "14 \<le> NetEthHdrSize vlan"
  by (auto simp: NetEthHdrSize_def)

lemma put_front: "length w \<le> length m \<Longrightarrow> put m 0 w = Some (w @ drop (length w) m)"
  by (simp add: put_def overlay_def)

lemma put_after: "length a = i \<Longrightarrow> length w \<le> length m \<Longrightarrow> put (a @ m) i w = Some (a @ w @ drop (length w) m)"
  by (simp add: put_def overlay_def)

lemma window_all [simp]: "length m = k \<Longrightarrow> window m 0 k = Some m"
  by (simp add: window_def)

lemma NetSetEther_eq:
  assumes "length ours = 6" "length dest = 6" "18 \<le> length m"
  shows "NetSetEther vlan ours m dest prot =
    Some (NetEthHdrSize vlan, eth_header vlan ours dest prot @ drop (NetEthHdrSize vlan) m)"
proof -
  have 1: "put m 0 dest = Some (dest @ drop 6 m)" using assms by (simp add: put_front)
  have 2: "put (dest @ drop 6 m) 6 ours = Some ((dest @ ours) @ drop 12 m)"
    using assms by (simp add: put_after)
  have 3: "length w \<le> 6 \<Longrightarrow> put ((dest @ ours) @ drop 12 m) 12 w = Some ((dest @ ours) @ w @ drop (length w + 12) m)" for w
    using assms by (subst put_after) auto
  show ?thesis using assms 1 2 3
    by (simp add: NetSetEther_def NetEthHdrSize_def eth_header_def)
qed

text \<open>Buffers of the sizes the code allocates.\<close>

definition net_ok :: "net \<Rightarrow> bool" where
  "net_ok n \<longleftrightarrow> length (NetOurEther n) = 6 \<and> length (NetServerEther n) = 6 \<and> length (ping_mac n) = 6 \<and>
     length (NetTxPacket n) = 1536 \<and> length (NetArpWaitTxPacket n) = 1536"

lemma read_mac_length: "net_ok n \<Longrightarrow> length (read_mac r n) = 6"
  by (cases r) (auto simp: net_ok_def NetBcastAddr_def)

text \<open>The frame of a datagram.\<close>

definition udp_frame :: "net \<Rightarrow> bytes \<Rightarrow> u32 \<Rightarrow> u32 \<Rightarrow> u32 \<Rightarrow> u16 \<Rightarrow> bytes \<Rightarrow> bytes" where
  "udp_frame n mac dest dport sport x payload = eth_header (NetOurVLAN n) (NetOurEther n) mac PROT_IP @
     ip_udp_words (NetOurIP n) (NetIPID n) dest dport sport (length payload) x @ payload"

lemma null_addr: "length a = 6 \<Longrightarrow> \<exists>d. memcmp a NetEtherNullAddr 6 = Some d \<and> (d = 0 \<longleftrightarrow> a = NetEtherNullAddr)"
proof -
  assume a: "length a = 6"
  obtain d where "memcmp a NetEtherNullAddr 6 = Some d"
    using memcmp_total [of 6 a NetEtherNullAddr] a by (auto simp: NetEtherNullAddr_def)
  then show ?thesis using memcmp_eq [of 6 a NetEtherNullAddr] a by (auto simp: NetEtherNullAddr_def)
qed

lemma NetSetIP_frame:
  assumes "length a = k" "k + 29 + length p \<le> length a + 28 + length p + length t" "length b = 28"
  shows "\<exists>x r. NetSetIP ours ipid (a @ b @ p @ t) k dest dport sport (length p) =
      Some (a @ ip_udp_words ours ipid dest dport sport (length p) x @ p @ r) \<and> length r = length t \<and>
    (\<forall>t. NetCksumOk (ip_udp_words ours ipid dest dport sport (length p) x @ t) 10 = Some True)"
proof -
  have "k + 28 + length p + (if odd (length p) then 1 else 0) \<le> length (a @ b @ p @ t)"
    using assms by auto
  from NetSetIP_eq [OF this, of ours ipid dest dport sport] show ?thesis
    using assms by auto
qed

lemma send_known:
  assumes n: "net_ok n" and l: "length p \<le> 1400" and d: "dest \<noteq> 0" "dest \<noteq> 0xffffffff"
    and tx: "window (NetTxPacket n) (NetEthHdrSize (NetOurVLAN n) + 28) (length p) = Some p"
    and m: "read_mac ether n \<noteq> NetEtherNullAddr"
    and dev: "\<not> no_devices n"
  shows "\<exists>x r. NetSendUDPPacket ether dest dport sport (length p) n =
      Some (0, n\<lparr>NetTxPacket := udp_frame n (read_mac ether n) dest dport sport x p @ r, NetIPID := NetIPID n + 1,
        sent := sent n @ [udp_frame n (read_mac ether n) dest dport sport x p]\<rparr>) \<and>
    length (udp_frame n (read_mac ether n) dest dport sport x p @ r) = 1536 \<and>
    (\<forall>t. NetCksumOk (ip_udp_words (NetOurIP n) (NetIPID n) dest dport sport (length p) x @ t) 10 = Some True)"
proof -
  let ?h = "NetEthHdrSize (NetOurVLAN n)" and ?mac = "read_mac ether n" and ?tx = "NetTxPacket n"
  let ?e = "eth_header (NetOurVLAN n) (NetOurEther n) ?mac PROT_IP"
  have h: "?h \<le> 18" using NetEthHdrSize_le by simp
  have len: "length (NetOurEther n) = 6" "length ?mac = 6" "length ?tx = 1536"
    using n read_mac_length by (auto simp: net_ok_def)
  obtain d' where d': "memcmp ?mac NetEtherNullAddr 6 = Some d'" "d' \<noteq> 0" using null_addr [OF len(2)] m by auto
  have p: "take (length p) (drop (?h + 28) ?tx) = p" using tx by (simp add: window_def split: if_splits)
  have "drop ?h ?tx = take 28 (drop ?h ?tx) @ p @ drop (?h + 28 + length p) ?tx"
    by (metis add.commute append_take_drop_id drop_drop p)
  then have e: "NetSetEther (NetOurVLAN n) (NetOurEther n) ?tx ?mac PROT_IP =
      Some (?h, ?e @ take 28 (drop ?h ?tx) @ p @ drop (?h + 28 + length p) ?tx)"
    using NetSetEther_eq [of "NetOurEther n" ?mac ?tx "NetOurVLAN n"] len by simp
  obtain x r where x: "NetSetIP (NetOurIP n) (NetIPID n) (?e @ take 28 (drop ?h ?tx) @ p @ drop (?h + 28 + length p) ?tx)
      ?h dest dport sport (length p) = Some (?e @ ip_udp_words (NetOurIP n) (NetIPID n) dest dport sport (length p) x @ p @ r)"
    "length r = length (drop (?h + 28 + length p) ?tx)"
    "\<forall>t. NetCksumOk (ip_udp_words (NetOurIP n) (NetIPID n) dest dport sport (length p) x @ t) 10 = Some True"
    using NetSetIP_frame [of ?e ?h p "drop (?h + 28 + length p) ?tx" "take 28 (drop ?h ?tx)"
        "NetOurIP n" "NetIPID n" dest dport sport] len l h by auto
  show ?thesis using d d' e x len l h dev
    by (intro exI [of _ x] exI [of _ r])
      (auto simp: NetSendUDPPacket_def udp_frame_def eth_send_def window_def)
qed

section \<open>What is received\<close>

lemma rd_after: "length a = k \<Longrightarrow> rd (a @ g) (k + j) = rd g j"
  by (auto simp: rd_def)

lemma rd16_after: "length a = k \<Longrightarrow> rd16 (a @ g) (k + j) = rd16 g j"
  using rd_after [of a k g j] rd_after [of a k g "Suc j"] by (simp add: rd16_def)

lemma window_after: "length a = k \<Longrightarrow> window (a @ g) (k + j) w = window g j w"
  by (simp add: window_def)

lemma NetReadIP_after: "length a = k \<Longrightarrow> NetReadIP (a @ g) (k + j) = NetReadIP g j"
  by (simp add: NetReadIP_def window_after)

lemmas after_simps = rd_after rd16_after NetReadIP_after

text \<open>The fields of a received datagram.\<close>

lemma ip_fields:
  assumes g_def: "g = ip_udp_words src ipid dest dport sport len x @ p @ t"
  shows "rd16 g 2 = Some (of_nat (28 + len))" "rd g 0 = Some 0x45" "rd16 g 6 = Some 0x4000"
    "rd g 9 = Some 17" "NetReadIP g 16 = Some dest"
    "rd16 g 20 = Some (ucast sport)" "rd16 g 22 = Some (ucast dport)" "rd16 g 24 = Some (of_nat (8 + len))"
    "drop 28 g = p @ t"
proof -
  let ?w = "ip_front ipid len" and ?a = "ip_addrs src dest" and ?u = "udp_part dport sport len"
  have g: "g = concat (map be16 ?w) @ be16 x @ concat (map be16 ?a) @ ?u @ p @ t" by (simp add: g_def ip_udp_words_def)
  have "rd16 (a @ b) (length a) = rd16 b 0" for a b using rd16_after [of a "length a" b 0] by simp
  then have at: "rd16 (a @ b @ c) k = rd16 (b @ c) 0" if "length a = k" for a b c k using that by metis
  show "rd g 0 = Some 0x45" "rd g 9 = Some 17"
    by (simp_all add: g ip_front_def be16_def rd_def nth_Cons')
  show "rd16 g 2 = Some (of_nat (28 + len))"
    unfolding g ip_front_def using at [of "be16 0x4500" 2] by simp
  show "rd16 g 6 = Some 0x4000"
    unfolding g ip_front_def using at [of "be16 0x4500 @ be16 (of_nat (28 + len)) @ be16 (ucast ipid)" 6] by simp
  have l20: "length (concat (map be16 ?w) @ be16 x @ concat (map be16 ?a)) = 20" by (simp add: ip_front_def ip_addrs_def)
  have u: "g = (concat (map be16 ?w) @ be16 x @ concat (map be16 ?a)) @ ?u @ p @ t" using g by simp
  show "rd16 g 20 = Some (ucast sport)" "rd16 g 22 = Some (ucast dport)" "rd16 g 24 = Some (of_nat (8 + len))"
    unfolding u using rd16_after [OF l20, of "?u @ p @ t" 0] rd16_after [OF l20, of "?u @ p @ t" 2] rd16_after [OF l20, of "?u @ p @ t" 4]
      at [of "be16 (ucast sport)" 2] at [of "be16 (ucast sport) @ be16 (ucast dport)" 4] by (simp_all add: udp_part_def)
  have l16: "length (concat (map be16 ?w) @ be16 x @ be32 src) = 16" by (simp add: ip_front_def)
  have "g = (concat (map be16 ?w) @ be16 x @ be32 src) @ be32 dest @ ?u @ p @ t"
    by (simp add: g ip_addrs_def be32_be16)
  moreover have "NetReadIP (be32 dest @ r) 0 = Some dest" for r
    using of_be32_be32 [of dest "[]"] by (simp add: NetReadIP_def window_def)
  ultimately show "NetReadIP g 16 = Some dest"
    using NetReadIP_after [OF l16, of "be32 dest @ ?u @ p @ t" 0] by (metis add_0_right)
  have l28: "length (ip_udp_words src ipid dest dport sport len x) = 28" by simp
  show "drop 28 g = p @ t" unfolding g_def using l28 by (simp only: drop_append) simp
qed

lemma of_nat_u16: "k < 65536 \<Longrightarrow> uint (of_nat k :: u16) = int k" "k < 65536 \<Longrightarrow> (ucast (of_nat k :: u16) :: u32) = of_nat k"
proof -
  assume k: "k < 65536"
  show "uint (of_nat k :: u16) = int k" using k by (simp add: unsigned_of_nat take_bit_nat_eq_self_iff)
  then show "(ucast (of_nat k :: u16) :: u32) = of_nat k" using k
    by (simp add: word_unat_eq_iff unsigned_ucast_eq unsigned_of_nat take_bit_nat_eq_self)
qed

lemma ip_receive_udp:
  assumes g: "inpkt = e @ ip_udp_words src ipid dest dport sport (length p) x @ p @ t" "length e = k"
    and l: "28 + length p < 65536" "int (28 + length p) \<le> len" "len < 2 ^ 31"
    and c: "\<forall>t. NetCksumOk (ip_udp_words src ipid dest dport sport (length p) x @ t) 10 = Some True"
    and ip: "NetOurIP n = 0 \<or> dest = NetOurIP n \<or> dest = 0xffffffff"
    and ports: "dport < 65536" "sport < 65536"
  shows "ip_receive call inpkt k len n = call_handler call (Some (p @ t)) dport sport (of_nat (length p)) n"
proof -
  note f = ip_fields [OF refl, of src ipid dest dport sport "length p" x p t]
  have len: "len mod 2 ^ 32 = len" using l by simp
  have u: "ucast (ucast w :: u16) = w" if "w < 65536" for w :: u32
    using that by (simp add: word_unat_eq_iff unsigned_ucast_eq unsigned_take_bit_eq take_bit_nat_eq_self_iff word_less_nat_alt)
  have pl: "ucast (of_nat (8 + length p) :: u16) - 8 = (of_nat (length p) :: u32)"
    using of_nat_u16(2) [of "8 + length p"] l by simp
  have d: "drop (k + 28) inpkt = p @ t" using g f(9) by (metis append_eq_conv_conj drop_drop add.commute)
  have ck: "NetCksumOk (drop k inpkt) 10 = Some True" using c g by simp
  have r: "rd16 inpkt (k + j) = rd16 (ip_udp_words src ipid dest dport sport (length p) x @ p @ t) j"
    "rd inpkt (k + j) = rd (ip_udp_words src ipid dest dport sport (length p) x @ p @ t) j"
    "NetReadIP inpkt (k + j) = NetReadIP (ip_udp_words src ipid dest dport sport (length p) x @ p @ t) j" for j
    using after_simps [OF g(2)] by (simp_all add: g(1))
  have f': "rd16 inpkt (k + 2) = Some (of_nat (28 + length p))" "rd inpkt k = Some 0x45" "rd16 inpkt (k + 6) = Some 0x4000"
    "rd inpkt (k + 9) = Some 17" "NetReadIP inpkt (k + 16) = Some dest" "rd16 inpkt (k + 20) = Some (ucast sport)"
    "rd16 inpkt (k + 22) = Some (ucast dport)" "rd16 inpkt (k + 24) = Some (of_nat (8 + length p))"
    using f r(2) [of 0] by (simp_all only: r add_0_right)
  have "\<not> len < uint (of_nat (28 + length p) :: u16)" using of_nat_u16(1) [of "28 + length p"] l by simp
  moreover have "\<not> len mod 2 ^ 32 < 28" using l len by simp
  ultimately show ?thesis
    using f' ip ck d u [OF ports(1)] u [OF ports(2)] pl
    unfolding ip_receive_def by (auto simp del: of_nat_add)
qed

lemma my_vlan_mask: "my_vlan v AND 0xfff = v AND 0xfff"
  by (simp add: my_vlan_def)

lemma link_layer_own:
  assumes "length ours = 6" "length dest = 6" "int (NetEthHdrSize vlan) \<le> len" "1514 \<le> prot" "prot \<noteq> PROT_VLAN"
  shows "link_layer vlan (eth_header vlan ours dest prot @ g) len =
    Some (Some (prot, NetEthHdrSize vlan, len - int (NetEthHdrSize vlan),
      if vlan_off vlan then VLAN_NONE else my_vlan vlan AND VLAN_IDMASK))"
proof -
  have at: "rd16 (dest @ ours @ w) (12 + j) = rd16 w j" for w j
    using rd16_after [of "dest @ ours" 12 w j] assms by simp
  have two: "rd16 (be16 a @ be16 b @ r) 2 = Some b" "rd16 (be16 a @ be16 b @ be16 c @ r) 4 = Some c" for a b c r
    using rd16_after [of "be16 a" 2 "be16 b @ r" 0] rd16_after [of "be16 a @ be16 b" 4 "be16 c @ r" 0] by simp_all
  show ?thesis
  proof (cases "vlan_off vlan")
    case True
    then show ?thesis using assms at [of _ 0]
      by (simp add: link_layer_def eth_header_def NetEthHdrSize_def linorder_not_le [symmetric])
  next
    case False
    then have m: "vlan AND 0xfff \<noteq> 4095" by (simp add: vlan_off_def my_vlan_mask)
    have "rd16 (eth_header vlan ours dest prot @ g) 12 = Some 0x8100"
      "rd16 (eth_header vlan ours dest prot @ g) 14 = Some (my_vlan vlan AND 0xfff)"
      "rd16 (eth_header vlan ours dest prot @ g) 16 = Some prot"
      using False at [of _ 0] at [of _ 2] at [of _ 4] two by (simp_all add: eth_header_def)
    then show ?thesis using False assms m
      by (simp add: link_layer_def NetEthHdrSize_def and.assoc)
  qed
qed

lemma vlan_match_own: "vlan_match vlan native (if vlan_off vlan then VLAN_NONE else my_vlan vlan AND VLAN_IDMASK)"
  by (simp add: vlan_match_def vlan_off_def)

section \<open>Properties\<close>

text \<open>
  C9: a datagram that one host sends is what the other host's handler gets. If the hardware
  address is known, \<open>NetSendUDPPacket\<close> hands one frame to the driver, and \<open>NetReceive\<close> on a host
  in the same VLAN with the destination address (or none yet) accepts its checksum and calls the
  current handler with the payload, whatever padding follows, the ports and the exact length, with
  the frame in \<open>NetRxPkt\<close>.
\<close>

theorem udp_send_receive_roundtrip:
  assumes n: "net_ok n" "\<not> no_devices n" and p: "length p \<le> 1400"
    and d: "dest \<noteq> 0" "dest \<noteq> 0xffffffff" "read_mac ether n \<noteq> NetEtherNullAddr"
    and tx: "window (NetTxPacket n) (NetEthHdrSize (NetOurVLAN n) + 28) (length p) = Some p"
    and ports: "dport < 65536" "sport < 65536"
    and peer: "NetOurVLAN r = NetOurVLAN n" "NetOurIP r = 0 \<or> NetOurIP r = dest" "packetHandler r = Some h"
  shows "\<exists>f n'. NetSendUDPPacket ether dest dport sport (length p) n = Some (0, n') \<and> sent n' = sent n @ [f] \<and>
    (\<forall>t. length t \<le> 100 \<longrightarrow> NetReceive call (f @ t) (int (length (f @ t))) r =
       call h (Some (p @ t)) dport sport (of_nat (length p)) (r\<lparr>NetRxPkt := f @ t\<rparr>))"
proof -
  let ?f = "udp_frame n (read_mac ether n) dest dport sport" and ?h = "NetEthHdrSize (NetOurVLAN n)"
  obtain x rest where x: "NetSendUDPPacket ether dest dport sport (length p) n =
      Some (0, n\<lparr>NetTxPacket := ?f x p @ rest, NetIPID := NetIPID n + 1, sent := sent n @ [?f x p]\<rparr>)"
    "\<forall>t. NetCksumOk (ip_udp_words (NetOurIP n) (NetIPID n) dest dport sport (length p) x @ t) 10 = Some True"
    using send_known [OF n(1) p d(1,2) tx d(3) n(2)] by blast
  have len: "length (NetOurEther n) = 6" "length (read_mac ether n) = 6"
    using n read_mac_length by (auto simp: net_ok_def)
  have "NetReceive call (?f x p @ t) (int (length (?f x p @ t))) r = call h (Some (p @ t)) dport sport (of_nat (length p))
      (r\<lparr>NetRxPkt := ?f x p @ t\<rparr>)"
    if t: "length t \<le> 100" for t
  proof -
    let ?e = "eth_header (NetOurVLAN n) (NetOurEther n) (read_mac ether n) PROT_IP"
    let ?l = "int (length (?f x p @ t))"
    have fl: "length (?f x p @ t) = ?h + 28 + length p + length t" using len by (simp add: udp_frame_def)
    have ll: "link_layer (NetOurVLAN n) (?f x p @ t) ?l = Some (Some (PROT_IP, ?h, ?l - int ?h,
        if vlan_off (NetOurVLAN n) then VLAN_NONE else my_vlan (NetOurVLAN n) AND VLAN_IDMASK))"
      unfolding udp_frame_def append_assoc using len fl
      by (subst link_layer_own) (auto simp: udp_frame_def)
    have "ip_receive call (?f x p @ t) ?h (?l - int ?h) (r\<lparr>NetRxPkt := ?f x p @ t\<rparr>) =
        call_handler call (Some (p @ t)) dport sport (of_nat (length p)) (r\<lparr>NetRxPkt := ?f x p @ t\<rparr>)"
      using p t fl NetEthHdrSize_le(1) [of "NetOurVLAN n"] x(2) ports peer len
      by (intro ip_receive_udp [where e = ?e]) (auto simp: udp_frame_def)
    then show ?thesis using ll peer vlan_match_own by (simp add: NetReceive_def call_handler_def del: length_append)
  qed
  then show ?thesis using x(1) by auto
qed

text \<open>A host with the two devices of the ring, the address 10.0.0.2 and a known server 10.0.0.1.\<close>

definition demo_bootp :: bootp_vars where
  "demo_bootp = \<lparr>BootpID = 0, BootpTry = 0, dhcp_state = INIT, dhcp_leasetime = 0, NetDHCPServerIP = 0, NetOurDNSIP = 0,
     NetOurNISDomain = replicate 32 0, NetOurHostName = replicate 32 0, NetOurRootPath = replicate 64 0\<rparr>"

definition demo_nfs :: nfs_vars where
  "demo_nfs = \<lparr>fs_mounted = False, rpc_id = 0, nfs_offset = - 1, nfs_len = 0, dirfh = replicate 32 0, filefh = replicate 32 0,
     NfsDownloadState = NETLOOP_CONTINUE, NfsServerIP = 0, NfsSrvMountPort = 0, NfsSrvNfsPort = 0, NfsOurPort = 0,
     NfsState = STATE_PRCLOOKUP_PROG_MOUNT_REQ, nfs_path_buff = replicate 2048 0, nfs_filename = 0\<rparr>"

definition demo_net :: net where
  "demo_net = \<lparr>nub = two_devs, NetOurIP = 0x0a000002, NetServerIP = 0x0a000001, NetOurGatewayIP = 0, NetOurSubnetMask = 0,
     NetOurEther = [2, 0, 0, 0, 0, 2], NetServerEther = [2, 0, 0, 0, 0, 1], NetOurVLAN = 0xffff, NetOurNativeVLAN = 0xffff,
     NetIPID = 0, NetTxPacket = replicate 1536 0, NetArpWaitPacketIP = 0, NetArpWaitReplyIP = 0, NetArpWaitPacketMAC = None,
     NetArpWaitTxPacket = replicate 1536 0, NetArpWaitTxPacketSize = 0, NetArpWaitTimerStart = 0, NetArpWaitTry = 0,
     NetState = NETLOOP_CONTINUE, NetRestarted = False, NetDevExists = True, NetPingIP = 0, PingSeqNo = 0,
     ping_mac = replicate 6 0, packetHandler = Some TftpHandler_h, timeHandler = None, timeStart = 0, timeDelta = 0,
     NetBootFileXferSize = 0, TftpServerPort = 69, TftpOurPort = 1069, TftpTimeoutCount = 0, TftpBlock = 0,
     TftpLastBlock = 0, TftpBlockWrap = 0, TftpBlockWrapOffset = 0, TftpState = STATE_RRQ, tftp_filename = [97, 0],
     NetRxPkt = [], bootp_st = demo_bootp, RarpTry = 0, nfs_st = demo_nfs, mem = (\<lambda>_. 0), sent = [], now = 0, drv_up = (\<lambda>_. True)\<rparr>"

lemma demo_net_sel [simp]:
  "nub demo_net = two_devs" "NetOurEther demo_net = [2, 0, 0, 0, 0, 2]" "NetServerEther demo_net = [2, 0, 0, 0, 0, 1]"
  "ping_mac demo_net = replicate 6 0" "NetTxPacket demo_net = replicate 1536 0" "NetArpWaitTxPacket demo_net = replicate 1536 0"
  "sent demo_net = []" "packetHandler demo_net = Some TftpHandler_h" "NetOurVLAN demo_net = 0xffff" "NetOurIP demo_net = 0x0a000002"
  "bootp_st demo_net = demo_bootp" "nfs_st demo_net = demo_nfs" "NetOurSubnetMask demo_net = 0" "now demo_net = 0" "NetIPID demo_net = 0"
  "TftpState demo_net = STATE_RRQ" "TftpOurPort demo_net = 1069" "NetServerIP demo_net = 0x0a000001" "NetBootFileXferSize demo_net = 0"
  by (simp_all only: demo_net_def net.simps)

lemma demo_net_ok: "net_ok demo_net" "\<not> no_devices demo_net"
  unfolding net_ok_def by simp_all (simp add: two_devs_def)

theorem udp_send_receive_roundtrip_witness:
  "\<exists>f n'. NetSendUDPPacket AtServerEther 0x0a000001 69 1069 4 demo_net = Some (0, n') \<and> sent n' = [f] \<and>
    NetReceive (\<lambda>h p d s l n. Some (n\<lparr>TftpBlock := l\<rparr>)) (f @ [0, 0]) (int (length (f @ [0, 0])))
      (demo_net\<lparr>NetOurIP := 0x0a000001\<rparr>) =
      Some (demo_net\<lparr>NetOurIP := 0x0a000001, NetRxPkt := f @ [0, 0], TftpBlock := 4\<rparr>)"
proof -
  have m: "read_mac AtServerEther demo_net \<noteq> NetEtherNullAddr"
    by (simp add: NetEtherNullAddr_def numeral_eq_Suc)
  have tx: "window (NetTxPacket demo_net) (NetEthHdrSize (NetOurVLAN demo_net) + 28) (length (replicate 4 (0 :: byte))) = Some (replicate 4 0)"
    using NetEthHdrSize_le(1) [of "NetOurVLAN demo_net"] by (simp add: window_def)
  have p: "length (replicate 4 (0 :: byte)) \<le> 1400" by simp
  have peer: "NetOurVLAN (demo_net\<lparr>NetOurIP := 0x0a000001\<rparr>) = NetOurVLAN demo_net"
    "NetOurIP (demo_net\<lparr>NetOurIP := 0x0a000001\<rparr>) = 0 \<or> NetOurIP (demo_net\<lparr>NetOurIP := 0x0a000001\<rparr>) = 0x0a000001"
    "packetHandler (demo_net\<lparr>NetOurIP := 0x0a000001\<rparr>) = Some TftpHandler_h"
    by simp_all
  obtain f n' where "NetSendUDPPacket AtServerEther 0x0a000001 69 1069 (length (replicate 4 (0 :: byte))) demo_net = Some (0, n')"
    "sent n' = sent demo_net @ [f]" and r: "\<forall>t. length t \<le> 100 \<longrightarrow>
      NetReceive (\<lambda>h p d s l n. Some (n\<lparr>TftpBlock := l\<rparr>)) (f @ t) (int (length (f @ t))) (demo_net\<lparr>NetOurIP := 0x0a000001\<rparr>) =
      Some (demo_net\<lparr>NetOurIP := 0x0a000001, NetRxPkt := f @ t, TftpBlock := of_nat (length (replicate 4 (0 :: byte)))\<rparr>)"
    using udp_send_receive_roundtrip [OF demo_net_ok p _ _ m tx _ _ peer, of 69 1069 "\<lambda>h p d s l n. Some (n\<lparr>TftpBlock := l\<rparr>)"]
    by auto
  then show ?thesis using r [rule_format, of "[0, 0]"]
    by (intro exI [of _ f] exI [of _ n']) (simp del: length_append)
qed

end
