(* ===== verification/Tftp.thy ===== *)
theory Tftp
  imports Net
begin

text \<open>
  The TFTP client, \<open>net/tftp.c\<close>. Memory at the load address is the function \<open>mem\<close>; the received packet is an object of its own.
\<close>

section \<open>Storing a block\<close>

definition mem_store :: "u32 \<Rightarrow> bytes \<Rightarrow> (u32 \<Rightarrow> byte) \<Rightarrow> u32 \<Rightarrow> byte" where
  "mem_store a bs m = (\<lambda>x. if unat (x - a) < length bs then bs ! unat (x - a) else m x)"

abbreviation (input) TFTP_BLOCK_SIZE :: u32 where "TFTP_BLOCK_SIZE \<equiv> 512"
abbreviation (input) TFTP_SEQUENCE_SIZE :: u32 where "TFTP_SEQUENCE_SIZE \<equiv> 65536"

definition store_block :: "u32 \<Rightarrow> bytes \<Rightarrow> u32 \<Rightarrow> net \<Rightarrow> net option" where
  "store_block block src len n = do {
     let offset = block * TFTP_BLOCK_SIZE + TftpBlockWrapOffset n;
     let newsize = offset + len;
     bs \<leftarrow> window src 0 (unat len);
     let n = n\<lparr>mem := mem_store (load_addr (nub n) + offset) bs (mem n)\<rparr>;
     Some (if NetBootFileXferSize n < newsize then n\<lparr>NetBootFileXferSize := newsize\<rparr> else n) }"

section \<open>Sending\<close>

abbreviation (input) TIMEOUT :: u32 where "TIMEOUT \<equiv> 5"
abbreviation (input) TIMEOUT_COUNT :: nat where "TIMEOUT_COUNT \<equiv> 10"

definition tftp_payload :: "net \<Rightarrow> bytes option" where
  "tftp_payload n = (case TftpState n of
      STATE_RRQ \<Rightarrow> do {
        l \<leftarrow> strlen (tftp_filename n);
        Some (be16 1 @ take l (tftp_filename n) @ [0] @ cstr (str ''octet'') @ cstr (str ''timeout'') @ cstr (str ''5'')) }
    | STATE_DATA \<Rightarrow> Some (be16 4 @ be16 (ucast (TftpBlock n)))
    | STATE_OACK \<Rightarrow> Some (be16 4 @ be16 (ucast (TftpBlock n)))
    | STATE_TOO_LARGE \<Rightarrow> Some (be16 5 @ be16 3 @ cstr (str ''File too large''))
    | STATE_BAD_MAGIC \<Rightarrow> Some (be16 5 @ be16 2 @ cstr (str ''File has bad magic'')))"

definition TftpSend :: "net \<Rightarrow> net option" where
  "TftpSend n = do {
     p \<leftarrow> tftp_payload n;
     pkt \<leftarrow> put (NetTxPacket n) (NetEthHdrSize (NetOurVLAN n) + IP_HDR_SIZE) p;
     (_, n) \<leftarrow> NetSendUDPPacket AtServerEther (NetServerIP n) (TftpServerPort n) (TftpOurPort n) (length p)
        (n\<lparr>NetTxPacket := pkt\<rparr>);
     Some n }"

section \<open>Receiving\<close>

text \<open>The block whose number was stored in \<open>TftpBlock\<close>, unless it is the last one again.\<close>

definition tftp_accept :: "bytes \<Rightarrow> u32 \<Rightarrow> net \<Rightarrow> net option" where
  "tftp_accept data len n =
     (if TftpBlock n = TftpLastBlock n then Some n
      else do {
        let n = NetSetTimeout (TIMEOUT * CFG_HZ) TftpTimeout_t (n\<lparr>TftpLastBlock := TftpBlock n\<rparr>);
        n \<leftarrow> store_block (TftpBlock n - 1) data len n;
        n \<leftarrow> TftpSend n;
        Some (if len < TFTP_BLOCK_SIZE then n\<lparr>NetState := NETLOOP_SUCCESS\<rparr> else n) })"

text \<open>A data packet: \<open>len\<close> is what is left after the opcode.\<close>

definition tftp_data :: "bytes \<Rightarrow> u32 \<Rightarrow> u32 \<Rightarrow> net \<Rightarrow> net option" where
  "tftp_data pkt src len n =
     (if len < 2 then Some n
      else do {
        let len = len - 2;
        b \<leftarrow> rd16 pkt 0;
        let n = n\<lparr>TftpBlock := ucast b\<rparr>;
        let n = (if TftpBlock n = 0
                 then n\<lparr>TftpBlockWrap := TftpBlockWrap n + 1,
                        TftpBlockWrapOffset := TftpBlockWrapOffset n + TFTP_BLOCK_SIZE * TFTP_SEQUENCE_SIZE\<rparr>
                 else n);
        let first = (TftpState n = STATE_RRQ \<or> TftpState n = STATE_OACK);
        let n = (if first
                 then n\<lparr>TftpState := STATE_DATA, TftpServerPort := src, TftpLastBlock := 0,
                        TftpBlockWrap := 0, TftpBlockWrapOffset := 0\<rparr>
                 else n);
        if first \<and> TftpBlock n \<noteq> 1 then NetStartAgain n
        else tftp_accept (drop 2 pkt) len n })"

definition TftpHandler :: "bytes option \<Rightarrow> u32 \<Rightarrow> u32 \<Rightarrow> u32 \<Rightarrow> net \<Rightarrow> net option" where
  "TftpHandler pkt dest src len n =
     (if dest \<noteq> TftpOurPort n then Some n
      else if TftpState n \<noteq> STATE_RRQ \<and> src \<noteq> TftpServerPort n then Some n
      else if len < 2 then Some n
      else do {
        p \<leftarrow> pkt;
        proto \<leftarrow> rd16 p 0;
        if proto = 6 then TftpSend (n\<lparr>TftpState := STATE_OACK, TftpServerPort := src\<rparr>)
        else if proto = 3 then tftp_data (drop 2 p) src (len - 2) n
        else if proto = 5 then NetStartAgain n
        else Some n })"

definition TftpTimeout :: "net \<Rightarrow> net option" where
  "TftpTimeout n =
     (let n = n\<lparr>TftpTimeoutCount := TftpTimeoutCount n + 1\<rparr>
      in if TftpTimeoutCount n > TIMEOUT_COUNT then NetStartAgain n
         else TftpSend (NetSetTimeout (TIMEOUT * CFG_HZ) TftpTimeout_t n))"

definition default_filename :: "u32 \<Rightarrow> bytes option" where
  "default_filename ip = map_option fst (sprintf (replicate 13 0) (cstr (str ''%02lX%02lX%02lX%02lX.img''))
     [VInt (ip AND 0xff), VInt (drop_bit 8 ip AND 0xff), VInt (drop_bit 16 ip AND 0xff), VInt (drop_bit 24 ip AND 0xff)])"

definition TftpStart :: "net \<Rightarrow> net option" where
  "TftpStart n = do {
     c \<leftarrow> rd (BootFile (nub n)) 0;
     name \<leftarrow> (if c = 0 then default_filename (NetOurIP n) else Some (BootFile (nub n)));
     let n = NetSetHandler TftpHandler_h (NetSetTimeout (TIMEOUT * CFG_HZ) TftpTimeout_t n);
     TftpSend (n\<lparr>tftp_filename := name, TftpServerPort := 69, TftpTimeoutCount := 0, TftpState := STATE_RRQ,
       TftpOurPort := 1024 + now n mod 3072, TftpBlock := 0, NetServerEther := replicate 6 0\<rparr>) }"

section \<open>Memory and blocks\<close>

lemma unat_small: "k < 2 ^ 32 \<Longrightarrow> unat (of_nat k :: u32) = k"
  by (simp add: unsigned_of_nat take_bit_nat_eq_self)

lemma unat_minus_small:
  "k < 2 ^ 32 \<Longrightarrow> unat (y - of_nat k :: u32) = (if k \<le> unat y then unat y - k else unat y + 2 ^ 32 - k)"
  using unat_small [of k] by (simp only: unat_sub_if_size) (simp add: word_le_nat_alt word_size)

lemma mem_store_append:
  assumes "length a + length b \<le> 2 ^ 32"
  shows "mem_store (la + of_nat (length a)) b (mem_store la a m) = mem_store la (a @ b) m"
proof (cases "b = []")
  case False
  then have "0 < length b" by simp
  then have la: "length a < 2 ^ 32" using assms by linarith
  show ?thesis
  proof
    fix x :: u32
    define y where "y = x - la"
    have y: "unat y < 2 ^ 32" using unsigned_less [of y, where ?'a = nat] by simp
    have x: "x - (la + of_nat (length a)) = y - of_nat (length a)" by (simp add: y_def diff_diff_eq)
    show "mem_store (la + of_nat (length a)) b (mem_store la a m) x = mem_store la (a @ b) m x"
      unfolding mem_store_def x y_def [symmetric] unat_minus_small [OF la]
      using y assms by (auto simp: nth_append)
  qed
qed (auto simp: mem_store_def)

text \<open>Block \<open>k\<close> of a file, counting from 0, and the packet that carries it.\<close>

definition file_block :: "bytes \<Rightarrow> nat \<Rightarrow> bytes" where
  "file_block f k = take 512 (drop (512 * k) f)"

definition data_pkt :: "bytes \<Rightarrow> nat \<Rightarrow> bytes" where
  "data_pkt f k = be16 3 @ be16 (of_nat (k + 1)) @ file_block f k"

lemma block_number: "(ucast (of_nat k :: u16) :: u32) = of_nat (k mod 65536)"
  by (simp add: word_unat_eq_iff unsigned_ucast_eq unsigned_of_nat take_bit_nat_def)

lemma unat_mod_small: "unat (of_nat (k mod 65536) :: u32) = k mod 65536"
  using mod_less_divisor [of 65536 k] by (intro unat_small) (rule less_trans, auto)

lemma block_number_zero: "(of_nat (k mod 65536) :: u32) = 0 \<longleftrightarrow> k mod 65536 = 0"
  using unat_mod_small [of k] by (simp add: word_unat_eq_iff)

lemma block_numbers_differ: "(of_nat (Suc k mod 65536) :: u32) \<noteq> of_nat (k mod 65536)"
proof -
  have "Suc k mod 65536 \<noteq> k mod 65536" by (auto simp: mod_Suc)
  then show ?thesis using unat_mod_small by metis
qed

lemma block_offset:
  "(of_nat (Suc k mod 65536) - 1) * 512 + (of_nat (Suc k div 65536 * 33554432) :: u32) = of_nat (512 * k)"
proof -
  have "512 * (Suc k mod 65536) + Suc k div 65536 * 33554432 = 512 * Suc k"
  proof -
    define q r where "q = Suc k div 65536" and "r = Suc k mod 65536"
    have "Suc k = q * 65536 + r" unfolding q_def r_def by (rule div_mult_mod_eq [symmetric])
    then show ?thesis unfolding q_def [symmetric] r_def [symmetric] by simp
  qed
  then have "of_nat (512 * (Suc k mod 65536) + Suc k div 65536 * 33554432) = (of_nat (512 * Suc k) :: u32)" by (rule arg_cong)
  then show ?thesis by (simp add: algebra_simps)
qed

lemma wrap_offset:
  "(of_nat (Suc k div 65536 * 33554432) :: u32) =
     of_nat (k div 65536 * 33554432) + (if Suc k mod 65536 = 0 then 33554432 else 0)"
  by (simp add: div_Suc)

section \<open>The transfer\<close>

text \<open>A client that can send: buffers allocated, a device, and the server's addresses known.\<close>

definition tftp_alive :: "net \<Rightarrow> bool" where
  "tftp_alive n \<longleftrightarrow> net_ok n \<and> \<not> no_devices n \<and> NetServerEther n \<noteq> NetEtherNullAddr \<and>
     NetServerIP n \<noteq> 0 \<and> NetServerIP n \<noteq> 0xffffffff"

text \<open>Sending an acknowledgement only uses the transmit buffer, the packet counter and the driver.\<close>

lemma TftpSend_ack:
  assumes "tftp_alive n" "TftpState n = STATE_DATA \<or> TftpState n = STATE_OACK"
  shows "\<exists>b i s. TftpSend n = Some (n\<lparr>NetTxPacket := b, NetIPID := i, sent := s\<rparr>) \<and> length b = 1536 \<and>
    (\<exists>e. s = sent n @ [e @ be16 4 @ be16 (ucast (TftpBlock n))])"
proof -
  let ?h = "NetEthHdrSize (NetOurVLAN n)" and ?p = "be16 4 @ be16 (ucast (TftpBlock n))"
  define pkt where "pkt = overlay (NetTxPacket n) (?h + 28) ?p"
  have h: "?h \<le> 18" by (rule NetEthHdrSize_le)
  have tx: "length (NetTxPacket n) = 1536" using assms by (simp add: tftp_alive_def net_ok_def)
  then have pkt: "put (NetTxPacket n) (?h + 28) ?p = Some pkt" "length pkt = 1536"
    using h by (simp_all add: put_def pkt_def)
  let ?n = "n\<lparr>NetTxPacket := pkt\<rparr>"
  have w: "window pkt (?h + 28) (length ?p) = Some ?p"
    using tx h by (simp add: window_def pkt_def overlay_def)
  have ok: "net_ok ?n" using assms pkt by (simp add: tftp_alive_def net_ok_def)
  obtain x r where "NetSendUDPPacket AtServerEther (NetServerIP n) (TftpServerPort n) (TftpOurPort n) (length ?p) ?n =
      Some (0, ?n\<lparr>NetTxPacket := udp_frame ?n (NetServerEther n) (NetServerIP n) (TftpServerPort n) (TftpOurPort n) x ?p @ r,
        NetIPID := NetIPID n + 1,
        sent := sent n @ [udp_frame ?n (NetServerEther n) (NetServerIP n) (TftpServerPort n) (TftpOurPort n) x ?p]\<rparr>)"
    "length (udp_frame ?n (NetServerEther n) (NetServerIP n) (TftpServerPort n) (TftpOurPort n) x ?p @ r) = 1536"
    using send_known [OF ok, of ?p "NetServerIP n" AtServerEther "TftpServerPort n" "TftpOurPort n"] w assms
    by (auto simp: tftp_alive_def)
  then show ?thesis using assms(2) pkt
    by (intro exI [of _ "udp_frame ?n (NetServerEther n) (NetServerIP n) (TftpServerPort n) (TftpOurPort n) x ?p @ r"]
        exI [of _ "NetIPID n + 1"]
        exI [of _ "sent n @ [udp_frame ?n (NetServerEther n) (NetServerIP n) (TftpServerPort n) (TftpOurPort n) x ?p]"])
      (auto simp: TftpSend_def tftp_payload_def udp_frame_def)
qed

text \<open>
  What is true after \<open>k\<close> blocks of the file: the client expects block \<open>k + 1\<close>, and the first \<open>k\<close>
  blocks are in memory.
\<close>

definition tftp_inv :: "bytes \<Rightarrow> u32 \<Rightarrow> net \<Rightarrow> nat \<Rightarrow> net \<Rightarrow> bool" where
  "tftp_inv f sp n0 k n \<longleftrightarrow> tftp_alive n \<and> load_addr (nub n) = load_addr (nub n0) \<and> TftpState n = STATE_DATA \<and>
     TftpServerPort n = sp \<and> TftpOurPort n = TftpOurPort n0 \<and>
     TftpBlock n = of_nat (k mod 65536) \<and>
     TftpLastBlock n = of_nat (k mod 65536) \<and> TftpBlockWrapOffset n = of_nat (k div 65536 * 33554432) \<and>
     NetBootFileXferSize n = of_nat (length (take (512 * k) f)) \<and>
     mem n = mem_store (load_addr (nub n0)) (take (512 * k) f) (mem n0) \<and>
     (length f < 512 * k \<longrightarrow> NetState n = NETLOOP_SUCCESS)"

lemma store_block_at:
  assumes off: "block * 512 + TftpBlockWrapOffset n = of_nat off" and sm: "off + length b < 2 ^ 32"
    and sz: "NetBootFileXferSize n = of_nat off"
  shows "store_block block (b @ junk) (of_nat (length b)) n =
    Some (n\<lparr>mem := mem_store (load_addr (nub n) + of_nat off) b (mem n), NetBootFileXferSize := of_nat (off + length b)\<rparr>)"
proof -
  have u: "unat (of_nat off :: u32) = off" "unat (of_nat (length b) :: u32) = length b"
    "unat (of_nat (off + length b) :: u32) = off + length b"
    using sm by (auto intro: unat_small simp del: of_nat_add)
  have "(of_nat off :: u32) < of_nat (off + length b) \<longleftrightarrow> 0 < length b"
    by (simp only: word_less_nat_alt u) simp
  moreover have "window (b @ junk) 0 (length b) = Some b" by (simp add: window_def)
  moreover have "n\<lparr>mem := m\<rparr> = n\<lparr>mem := m, NetBootFileXferSize := of_nat off\<rparr>" for m
    unfolding sz [symmetric] by simp
  ultimately show ?thesis unfolding store_block_def Let_def off u
    by (cases "b = []") (simp_all add: sz del: of_nat_add flip: of_nat_add)
qed

text \<open>Accepting the next block.\<close>

lemma tftp_accept_next:
  assumes inv: "tftp_alive n" "load_addr (nub n) = la" "TftpState n = STATE_DATA"
      "TftpLastBlock n = of_nat (k mod 65536)" "TftpBlock n = of_nat (Suc k mod 65536)"
      "TftpBlockWrapOffset n = of_nat (Suc k div 65536 * 33554432)"
      "NetBootFileXferSize n = of_nat (length (take (512 * k) f))"
      "mem n = mem_store la (take (512 * k) f) m0"
    and f: "length f < 2 ^ 32" "k \<le> length f div 512"
  shows "\<exists>n'. tftp_accept (file_block f k @ junk) (of_nat (length (file_block f k))) n = Some n' \<and>
    tftp_alive n' \<and> nub n' = nub n \<and> TftpState n' = STATE_DATA \<and> TftpServerPort n' = TftpServerPort n \<and>
    TftpOurPort n' = TftpOurPort n \<and> TftpBlock n' = TftpBlock n \<and>
    TftpLastBlock n' = TftpBlock n \<and> TftpBlockWrapOffset n' = TftpBlockWrapOffset n \<and>
    NetBootFileXferSize n' = of_nat (length (take (512 * Suc k) f)) \<and>
    mem n' = mem_store la (take (512 * Suc k) f) m0 \<and>
    (length f < 512 * Suc k \<longrightarrow> NetState n' = NETLOOP_SUCCESS)"
proof -
  let ?b = "file_block f k" and ?a = "take (512 * k) f"
  have k: "512 * k \<le> length f" using f(2) by (metis div_times_less_eq_dividend le_trans mult.commute mult_le_mono2)
  then have a: "length ?a = 512 * k" by simp
  have ab: "take (512 * Suc k) f = ?a @ ?b" by (simp add: file_block_def take_add [symmetric] add.commute)
  then have lab: "length (take (512 * Suc k) f) = 512 * k + length ?b" using a by simp
  have small: "512 * k + length ?b < 2 ^ 32" using lab f(1) by (metis length_take less_le_trans min.cobounded1 not_le)
  have b: "unat (of_nat (length ?b) :: u32) = length ?b" using small by (intro unat_small) linarith
  have off: "(TftpBlock n - 1) * 512 + TftpBlockWrapOffset n = of_nat (512 * k)"
    using inv(5,6) block_offset [of k] by simp
  define n1 where "n1 = NetSetTimeout (5 * CFG_HZ) TftpTimeout_t (n\<lparr>TftpLastBlock := TftpBlock n\<rparr>)"
  define n2 where "n2 = n1\<lparr>mem := mem_store la (take (512 * Suc k) f) m0,
      NetBootFileXferSize := of_nat (length (take (512 * Suc k) f))\<rparr>"
  have n1: "n1 = n\<lparr>TftpLastBlock := TftpBlock n, timeHandler := Some TftpTimeout_t, timeStart := now n, timeDelta := 5 * CFG_HZ\<rparr>"
    by (simp add: n1_def NetSetTimeout_def CFG_HZ_def)
  have sel: "TftpBlock n1 = TftpBlock n" "TftpBlockWrapOffset n1 = TftpBlockWrapOffset n" "nub n1 = nub n" "mem n1 = mem n"
    "NetBootFileXferSize n1 = NetBootFileXferSize n"
    by (simp_all add: n1)
  have ms: "mem_store (la + of_nat (512 * k)) ?b (mem_store la ?a m0) = mem_store la (take (512 * Suc k) f) m0"
    unfolding ab using mem_store_append [of ?a ?b la m0] small a by simp
  have "store_block (TftpBlock n1 - 1) (?b @ junk) (of_nat (length ?b)) n1 = Some n2"
  proof -
    have "store_block (TftpBlock n1 - 1) (?b @ junk) (of_nat (length ?b)) n1 =
        Some (n1\<lparr>mem := mem_store (load_addr (nub n1) + of_nat (512 * k)) ?b (mem n1), NetBootFileXferSize := of_nat (512 * k + length ?b)\<rparr>)"
      using off small inv(7) a by (intro store_block_at) (simp_all only: sel)
    then show ?thesis unfolding n2_def lab ms [symmetric] using inv(2,8) by (simp only: sel)
  qed
  moreover obtain b' i s where ts: "TftpSend n2 = Some (n2\<lparr>NetTxPacket := b', NetIPID := i, sent := s\<rparr>)" "length b' = 1536"
    using TftpSend_ack [of n2] inv(1,3) by (auto simp: n2_def n1 tftp_alive_def net_ok_def)
  moreover have "TftpBlock n \<noteq> TftpLastBlock n" using inv(4,5) block_numbers_differ by simp
  moreover have "(of_nat (length ?b) :: u32) < 512 \<longleftrightarrow> length f < 512 * Suc k"
    using b lab k by (auto simp: word_less_nat_alt file_block_def)
  ultimately show ?thesis using inv(1-3) ts(2)
    by (auto simp: tftp_accept_def n1_def [symmetric] Let_def)
      (auto simp: n2_def n1 tftp_alive_def net_ok_def)
qed

text \<open>Before the first block: the request was sent, and the server may have acknowledged its options.\<close>

definition tftp_pre :: "u32 \<Rightarrow> net \<Rightarrow> net \<Rightarrow> bool" where
  "tftp_pre sp n0 n \<longleftrightarrow> tftp_alive n \<and> (TftpState n = STATE_RRQ \<or> TftpState n = STATE_OACK \<and> TftpServerPort n = sp) \<and>
     load_addr (nub n) = load_addr (nub n0) \<and> TftpOurPort n = TftpOurPort n0 \<and> NetBootFileXferSize n = 0 \<and> mem n = mem n0"

definition tftp_reached :: "bytes \<Rightarrow> u32 \<Rightarrow> net \<Rightarrow> nat \<Rightarrow> net \<Rightarrow> bool" where
  "tftp_reached f sp n0 k n \<longleftrightarrow> (if k = 0 then tftp_pre sp n0 n else tftp_inv f sp n0 k n)"

lemma handler_data:
  assumes "TftpState n = STATE_RRQ \<or> TftpServerPort n = sp"
  shows "TftpHandler (Some (data_pkt f k @ junk)) (TftpOurPort n) sp (of_nat (4 + length (file_block f k))) n =
    tftp_data (be16 (of_nat (k + 1)) @ file_block f k @ junk) sp (of_nat (2 + length (file_block f k))) n"
proof -
  have b: "length (file_block f k) \<le> 512" by (simp add: file_block_def)
  have "unat (of_nat (4 + length (file_block f k)) :: u32) = 4 + length (file_block f k)"
    using b by (intro unat_small) simp
  then have "\<not> (of_nat (4 + length (file_block f k)) :: u32) < 2"
    by (simp only: word_less_nat_alt) simp
  then show ?thesis using assms by (auto simp: TftpHandler_def data_pkt_def)
qed

lemma data_number:
  "tftp_data (be16 (of_nat (k + 1)) @ bs) src (of_nat (2 + l)) n =
    (let n = n\<lparr>TftpBlock := of_nat (Suc k mod 65536)\<rparr>;
         n = (if Suc k mod 65536 = 0
              then n\<lparr>TftpBlockWrap := TftpBlockWrap n + 1, TftpBlockWrapOffset := TftpBlockWrapOffset n + 33554432\<rparr> else n);
         first = (TftpState n = STATE_RRQ \<or> TftpState n = STATE_OACK);
         n = (if first then n\<lparr>TftpState := STATE_DATA, TftpServerPort := src, TftpLastBlock := 0,
                 TftpBlockWrap := 0, TftpBlockWrapOffset := 0\<rparr> else n)
     in if first \<and> Suc k mod 65536 \<noteq> 1 then NetStartAgain n else tftp_accept bs (of_nat l) n)"
  if "l \<le> 512"
proof -
  have "unat (of_nat (2 + l) :: u32) = 2 + l" using that by (intro unat_small) simp
  then have l: "\<not> (of_nat (2 + l) :: u32) < 2" "(of_nat (2 + l) :: u32) - 2 = of_nat l"
    by (simp_all only: word_less_nat_alt) simp_all
  have one: "(of_nat (Suc k mod 65536) :: u32) = 1 \<longleftrightarrow> Suc k mod 65536 = 1"
    using unat_mod_small [of "Suc k"] by (simp add: word_unat_eq_iff)
  have b: "rd16 (be16 (of_nat (k + 1)) @ bs) 0 = Some (of_nat (k + 1))" "drop 2 (be16 (of_nat (k + 1)) @ bs) = bs" by simp_all
  have c: "ucast (of_nat (k + 1) :: u16) = (of_nat (Suc k mod 65536) :: u32)" by (simp only: block_number) simp
  have z: "(of_nat (Suc k mod 65536) :: u32) = 0 \<longleftrightarrow> Suc k mod 65536 = 0" by (rule block_number_zero)
  show ?thesis unfolding tftp_data_def if_not_P [OF l(1)] b bind.bind_lunit c Let_def l(2)
    by (cases "Suc k mod 65536 = 0") (simp_all add: one z)
qed

lemma handler_block:
  assumes "TftpState n = STATE_RRQ \<or> TftpServerPort n = sp"
  shows "TftpHandler (Some (data_pkt f k @ junk)) (TftpOurPort n) sp (of_nat (4 + length (file_block f k))) n =
    (let n = n\<lparr>TftpBlock := of_nat (Suc k mod 65536)\<rparr>;
         n = (if Suc k mod 65536 = 0
              then n\<lparr>TftpBlockWrap := TftpBlockWrap n + 1, TftpBlockWrapOffset := TftpBlockWrapOffset n + 33554432\<rparr> else n);
         first = (TftpState n = STATE_RRQ \<or> TftpState n = STATE_OACK);
         n = (if first then n\<lparr>TftpState := STATE_DATA, TftpServerPort := sp, TftpLastBlock := 0,
                 TftpBlockWrap := 0, TftpBlockWrapOffset := 0\<rparr> else n)
     in if first \<and> Suc k mod 65536 \<noteq> 1 then NetStartAgain n
        else tftp_accept (file_block f k @ junk) (of_nat (length (file_block f k))) n)"
proof -
  have "length (file_block f k) \<le> 512" by (simp add: file_block_def)
  from data_number [OF this] handler_data [OF assms] show ?thesis by (simp only:)
qed

lemma tftp_next:
  assumes r: "tftp_reached f sp n0 k n" and f: "length f < 2 ^ 32" "k \<le> length f div 512"
  shows "\<exists>n'. TftpHandler (Some (data_pkt f k @ junk)) (TftpOurPort n) sp (of_nat (4 + length (file_block f k))) n = Some n' \<and>
    tftp_inv f sp n0 (Suc k) n'"
proof -
  show ?thesis
  proof (cases "k = 0")
    case True
    then have pre: "tftp_pre sp n0 n" using r by (simp add: tftp_reached_def)
    let ?n = "n\<lparr>TftpBlock := 1, TftpState := STATE_DATA, TftpServerPort := sp, TftpLastBlock := 0, TftpBlockWrap := 0, TftpBlockWrapOffset := 0\<rparr>"
    have h: "TftpHandler (Some (data_pkt f k @ junk)) (TftpOurPort n) sp (of_nat (4 + length (file_block f k))) n =
        tftp_accept (file_block f k @ junk) (of_nat (length (file_block f k))) ?n"
    proof -
      have a: "TftpState n = STATE_RRQ \<or> TftpServerPort n = sp" using pre by (auto simp: tftp_pre_def)
      show ?thesis unfolding handler_block [OF a]
        using pre True by (auto simp: tftp_pre_def Let_def)
    qed
    show ?thesis unfolding h
      using tftp_accept_next [of ?n "load_addr (nub n0)" k f "mem n0" junk] pre True f
      by (auto simp: tftp_pre_def tftp_inv_def tftp_alive_def net_ok_def mem_store_def)
  next
    case False
    then have inv: "tftp_inv f sp n0 k n" using r by (simp add: tftp_reached_def)
    let ?n = "n\<lparr>TftpBlock := of_nat (Suc k mod 65536),
       TftpBlockWrap := (if Suc k mod 65536 = 0 then TftpBlockWrap n + 1 else TftpBlockWrap n),
       TftpBlockWrapOffset := TftpBlockWrapOffset n + (if Suc k mod 65536 = 0 then 33554432 else 0)\<rparr>"
    have h: "TftpHandler (Some (data_pkt f k @ junk)) (TftpOurPort n) sp (of_nat (4 + length (file_block f k))) n =
        tftp_accept (file_block f k @ junk) (of_nat (length (file_block f k))) ?n"
    proof -
      have st: "TftpState n = STATE_DATA" and a: "TftpState n = STATE_RRQ \<or> TftpServerPort n = sp"
        using inv by (auto simp: tftp_inv_def)
      show ?thesis unfolding handler_block [OF a]
        by (cases "Suc k mod 65536 = 0") (simp_all add: st Let_def)
    qed
    show ?thesis unfolding h
      using tftp_accept_next [of ?n "load_addr (nub n0)" k f "mem n0" junk] inv f wrap_offset [of k]
      by (auto simp: tftp_inv_def tftp_alive_def net_ok_def)
  qed
qed

text \<open>
  The executions in which a server sends the blocks of a file in order. Between them the last block
  may arrive again (unless its number is 0), packets for other ports or from other hosts may arrive,
  the server may acknowledge the options, and the client may time out.
\<close>

inductive tftp_run :: "bytes \<Rightarrow> u32 \<Rightarrow> net \<Rightarrow> nat \<Rightarrow> net \<Rightarrow> bool" for f sp n0 where
  start: "tftp_run f sp n0 0 n0"
| oack: "tftp_run f sp n0 0 n \<Longrightarrow>
    TftpHandler (Some (be16 6 @ opts)) (TftpOurPort n) sp (of_nat (2 + length opts)) n = Some n' \<Longrightarrow> length opts < 65536 \<Longrightarrow>
    tftp_run f sp n0 0 n'"
| block: "tftp_run f sp n0 k n \<Longrightarrow> k \<le> length f div 512 \<Longrightarrow>
    TftpHandler (Some (data_pkt f k @ junk)) (TftpOurPort n) sp (of_nat (4 + length (file_block f k))) n = Some n' \<Longrightarrow>
    tftp_run f sp n0 (Suc k) n'"
| again: "tftp_run f sp n0 (Suc k) n \<Longrightarrow> Suc k mod 65536 \<noteq> 0 \<Longrightarrow>
    TftpHandler (Some (data_pkt f k @ junk)) (TftpOurPort n) sp (of_nat (4 + length (file_block f k))) n = Some n' \<Longrightarrow>
    tftp_run f sp n0 (Suc k) n'"
| stray: "tftp_run f sp n0 k n \<Longrightarrow>
    dest \<noteq> TftpOurPort n \<or> TftpState n \<noteq> STATE_RRQ \<and> src \<noteq> TftpServerPort n \<Longrightarrow>
    TftpHandler pkt dest src len n = Some n' \<Longrightarrow> tftp_run f sp n0 k n'"
| timeout: "tftp_run f sp n0 (Suc k) n \<Longrightarrow> TftpTimeoutCount n < 10 \<Longrightarrow> TftpTimeout n = Some n' \<Longrightarrow>
    tftp_run f sp n0 (Suc k) n'"

lemma tftp_again:
  assumes inv: "tftp_inv f sp n0 (Suc k) n" and k: "Suc k mod 65536 \<noteq> 0"
  shows "TftpHandler (Some (data_pkt f k @ junk)) (TftpOurPort n) sp (of_nat (4 + length (file_block f k))) n = Some n"
proof -
  have st: "TftpState n = STATE_DATA" "TftpServerPort n = sp" "TftpBlock n = of_nat (Suc k mod 65536)"
    "TftpLastBlock n = of_nat (Suc k mod 65536)"
    using inv by (auto simp: tftp_inv_def)
  then have a: "TftpState n = STATE_RRQ \<or> TftpServerPort n = sp" by simp
  have "n\<lparr>TftpBlock := of_nat (Suc k mod 65536)\<rparr> = n" unfolding st(3) [symmetric] by simp
  then show ?thesis unfolding handler_block [OF a] using k by (simp add: Let_def st tftp_accept_def)
qed

lemma tftp_oack:
  assumes pre: "tftp_pre sp n0 n" and l: "length opts < 65536"
  shows "\<exists>n'. TftpHandler (Some (be16 6 @ opts)) (TftpOurPort n) sp (of_nat (2 + length opts)) n = Some n' \<and> tftp_pre sp n0 n'"
proof -
  have "unat (of_nat (2 + length opts) :: u32) = 2 + length opts" using l by (intro unat_small) simp
  then have "\<not> (of_nat (2 + length opts) :: u32) < 2" by (simp only: word_less_nat_alt) simp
  then have h: "TftpHandler (Some (be16 6 @ opts)) (TftpOurPort n) sp (of_nat (2 + length opts)) n =
      TftpSend (n\<lparr>TftpState := STATE_OACK, TftpServerPort := sp\<rparr>)"
    using pre by (auto simp: TftpHandler_def tftp_pre_def)
  obtain b i s where "TftpSend (n\<lparr>TftpState := STATE_OACK, TftpServerPort := sp\<rparr>) =
      Some (n\<lparr>TftpState := STATE_OACK, TftpServerPort := sp, NetTxPacket := b, NetIPID := i, sent := s\<rparr>)" "length b = 1536"
    using TftpSend_ack [of "n\<lparr>TftpState := STATE_OACK, TftpServerPort := sp\<rparr>"] pre
    by (auto simp: tftp_pre_def tftp_alive_def net_ok_def)
  then show ?thesis unfolding h using pre by (auto simp: tftp_pre_def tftp_alive_def net_ok_def)
qed

lemma tftp_timeout_inv:
  assumes inv: "tftp_inv f sp n0 k n" and c: "TftpTimeoutCount n < 10"
  shows "\<exists>n'. TftpTimeout n = Some n' \<and> tftp_inv f sp n0 k n'"
proof -
  define n1 where "n1 = n\<lparr>TftpTimeoutCount := TftpTimeoutCount n + 1, timeHandler := Some TftpTimeout_t,
      timeStart := now n, timeDelta := 5 * CFG_HZ\<rparr>"
  have t: "TftpTimeout n = TftpSend n1"
    using c by (simp add: TftpTimeout_def n1_def NetSetTimeout_def CFG_HZ_def)
  have "tftp_alive n1" "TftpState n1 = STATE_DATA" using inv by (auto simp: n1_def tftp_inv_def tftp_alive_def net_ok_def)
  then obtain b i s where "TftpSend n1 = Some (n1\<lparr>NetTxPacket := b, NetIPID := i, sent := s\<rparr>)" "length b = 1536"
    using TftpSend_ack [of n1] by blast
  then show ?thesis unfolding t using inv by (auto simp: n1_def tftp_inv_def tftp_alive_def net_ok_def)
qed

lemma tftp_stray:
  "dest \<noteq> TftpOurPort n \<or> TftpState n \<noteq> STATE_RRQ \<and> src \<noteq> TftpServerPort n \<Longrightarrow> TftpHandler pkt dest src len n = Some n"
  by (auto simp: TftpHandler_def)

lemma tftp_run_reached:
  assumes "tftp_run f sp n0 k n" "tftp_pre sp n0 n0" "length f < 2 ^ 32"
  shows "tftp_reached f sp n0 k n"
  using assms(1)
proof induction
  case start
  show ?case using assms(2) by (simp add: tftp_reached_def)
next
  case (oack n opts n')
  then show ?case using tftp_oack [of sp n0 n opts] by (auto simp: tftp_reached_def)
next
  case (block k n junk n')
  then show ?case using tftp_next [of f sp n0 k n junk] assms(3) by (auto simp: tftp_reached_def)
next
  case (again k n junk n')
  then show ?case using tftp_again [of f sp n0 k n junk] by (auto simp: tftp_reached_def)
next
  case (stray k n dest src pkt len n')
  then show ?case using tftp_stray [of dest n src pkt len] by auto
next
  case (timeout k n n')
  then show ?case using tftp_timeout_inv [of f sp n0 "Suc k" n] by (auto simp: tftp_reached_def)
qed

lemma tftp_progress:
  assumes "tftp_run f sp n0 k n" "tftp_pre sp n0 n0" "length f < 2 ^ 32" "k \<le> length f div 512"
  shows "\<exists>n'. TftpHandler (Some (data_pkt f k @ junk)) (TftpOurPort n) sp (of_nat (4 + length (file_block f k))) n = Some n' \<and>
    tftp_run f sp n0 (Suc k) n'"
  using tftp_next [OF tftp_run_reached [OF assms(1-3)] assms(3,4), of junk] tftp_run.block [OF assms(1,4), of junk] by blast

lemma tftp_run_exists:
  assumes "tftp_pre sp n0 n0" "length f < 2 ^ 32" "k \<le> Suc (length f div 512)"
  shows "\<exists>n. tftp_run f sp n0 k n"
  using assms(3)
proof (induction k)
  case 0
  show ?case using tftp_run.start by blast
next
  case (Suc k)
  then show ?case using tftp_progress [OF _ assms(1,2), of k _ "[]"] by auto
qed

lemma mem_store_nth: "i < length bs \<Longrightarrow> length bs \<le> 2 ^ 32 \<Longrightarrow> mem_store a bs m (a + of_nat i) = bs ! i"
  by (simp add: mem_store_def unat_small)

section \<open>Properties\<close>

text \<open>
  C5: the TFTP transfer, over every execution in which the server sends the blocks of a file in
  order, with repeated blocks, stray packets, option acknowledgements and timeouts in between, and
  with the 16-bit block number wrapping around. After \<open>k\<close> blocks exactly these are in memory from the
  load address on and the size is right; the client always accepts the next block; and after the
  last block, which is shorter than 512 bytes, the file is complete and the transfer is successful.
\<close>

theorem tftp_transfer_correct:
  assumes run: "tftp_run f sp n0 k n"
    and start: "tftp_alive n0" "TftpState n0 = STATE_RRQ" "NetBootFileXferSize n0 = 0" and f: "length f < 2 ^ 32"
  shows "(0 < k \<longrightarrow> NetBootFileXferSize n = of_nat (min (length f) (512 * k)) \<and>
      mem n = mem_store (load_addr (nub n0)) (take (512 * k) f) (mem n0)) \<and>
    (k \<le> length f div 512 \<longrightarrow>
      (\<exists>n'. TftpHandler (Some (data_pkt f k)) (TftpOurPort n) sp (of_nat (4 + length (file_block f k))) n = Some n' \<and>
        tftp_run f sp n0 (Suc k) n')) \<and>
    (k = Suc (length f div 512) \<longrightarrow> NetState n = NETLOOP_SUCCESS \<and> NetBootFileXferSize n = of_nat (length f) \<and>
      (\<forall>i<length f. mem n (load_addr (nub n0) + of_nat i) = f ! i))"
proof -
  have pre: "tftp_pre sp n0 n0" using start by (simp add: tftp_pre_def)
  have r: "tftp_reached f sp n0 k n" using tftp_run_reached [OF run pre f] .
  have 1: "0 < k \<longrightarrow> NetBootFileXferSize n = of_nat (min (length f) (512 * k)) \<and>
      mem n = mem_store (load_addr (nub n0)) (take (512 * k) f) (mem n0)"
    using r by (cases "k = 0") (simp_all add: tftp_reached_def tftp_inv_def)
  have 2: "k \<le> length f div 512 \<longrightarrow>
      (\<exists>n'. TftpHandler (Some (data_pkt f k)) (TftpOurPort n) sp (of_nat (4 + length (file_block f k))) n = Some n' \<and>
        tftp_run f sp n0 (Suc k) n')"
    using tftp_progress [OF run pre f, of "[]"] by simp
  have 3: "NetState n = NETLOOP_SUCCESS \<and> NetBootFileXferSize n = of_nat (length f) \<and>
      (\<forall>i<length f. mem n (load_addr (nub n0) + of_nat i) = f ! i)" if "k = Suc (length f div 512)"
  proof -
    have l: "length f < 512 * k" unfolding that by (simp add: div_less_iff_less_mult [symmetric] mult.commute)
    then have "take (512 * k) f = f" by simp
    then have "mem n = mem_store (load_addr (nub n0)) f (mem n0)" "NetBootFileXferSize n = of_nat (length f)"
      using 1 that l by auto
    then show ?thesis using r that l f by (simp add: tftp_reached_def tftp_inv_def mem_store_nth)
  qed
  show ?thesis using 1 2 3 by blast
qed

lemma demo_alive: "tftp_alive demo_net"
proof -
  have "NetServerEther demo_net \<noteq> NetEtherNullAddr"
    unfolding NetEtherNullAddr_def by (simp add: numeral_eq_Suc)
  then show ?thesis using demo_net_ok unfolding tftp_alive_def by simp
qed

theorem tftp_transfer_correct_witness:
  "\<exists>n. tftp_run (replicate 700 7) 69 demo_net 2 n \<and> NetState n = NETLOOP_SUCCESS \<and> NetBootFileXferSize n = 700"
proof -
  have pre: "tftp_pre 69 demo_net demo_net" using demo_alive by (simp add: tftp_pre_def)
  obtain n where n: "tftp_run (replicate 700 7) 69 demo_net 2 n"
    using tftp_run_exists [OF pre, of "replicate 700 7" 2] by auto
  then show ?thesis using tftp_transfer_correct [OF n demo_alive] by auto
qed

text \<open>
  A repeated block is ignored, except if its number is 0, which happens at every multiple of 32
  MiB: then the duplicate is ignored too, but the wrap-around is counted twice, and all later
  blocks are stored 32 MiB too far up.
\<close>

lemma tftp_duplicate_at_wrap:
  assumes run: "tftp_run f sp n0 (Suc k) n"
    and start: "tftp_alive n0" "TftpState n0 = STATE_RRQ" "NetBootFileXferSize n0 = 0" and f: "length f < 2 ^ 32"
  shows "TftpHandler (Some (data_pkt f k)) (TftpOurPort n) sp (of_nat (4 + length (file_block f k))) n =
    Some (if Suc k mod 65536 \<noteq> 0 then n
          else n\<lparr>TftpBlockWrap := TftpBlockWrap n + 1, TftpBlockWrapOffset := TftpBlockWrapOffset n + 512 * 65536\<rparr>)"
proof -
  have "tftp_pre sp n0 n0" using start by (simp add: tftp_pre_def)
  then have inv: "tftp_inv f sp n0 (Suc k) n" using tftp_run_reached [OF run _ f] by (simp add: tftp_reached_def)
  then have st: "TftpState n = STATE_DATA" "TftpServerPort n = sp" "TftpBlock n = of_nat (Suc k mod 65536)"
    "TftpLastBlock n = of_nat (Suc k mod 65536)"
    by (auto simp: tftp_inv_def)
  then have a: "TftpState n = STATE_RRQ \<or> TftpServerPort n = sp" by simp
  have "n\<lparr>TftpBlock := of_nat (Suc k mod 65536)\<rparr> = n" unfolding st(3) [symmetric] by simp
  then show ?thesis using handler_block [OF a, of f k "[]"] st by (simp add: Let_def tftp_accept_def)
qed

end
