(* ===== verification/Nfs.thy ===== *)
theory Nfs
  imports Tftp
begin

text \<open>
  The NFS client, \<open>net/nfs.c\<close>: port lookup, mount, lookup, read and readlink by RPC over UDP. A message
  is a list of bytes; words are big-endian, so \<open>htonl\<close> and \<open>ntohl\<close> are the identity. What a reply
  does not contain is not initialised in the copy the code makes of it: reading it is \<open>None\<close>.
\<close>

section \<open>Messages\<close>

definition NetReadLong :: "bytes \<Rightarrow> nat \<Rightarrow> u32 option" where
  "NetReadLong m i = map_option of_be32 (window m i 4)"

text \<open>A message as the sequence of its words.\<close>

definition be32s :: "u32 list \<Rightarrow> bytes" where "be32s ws = concat (map be32 ws)"

abbreviation (input) SUNRPC_PORT :: u32 where "SUNRPC_PORT \<equiv> 111"
abbreviation (input) PROG_PORTMAP :: u32 where "PROG_PORTMAP \<equiv> 100000"
abbreviation (input) PROG_NFS :: u32 where "PROG_NFS \<equiv> 100003"
abbreviation (input) PROG_MOUNT :: u32 where "PROG_MOUNT \<equiv> 100005"
abbreviation (input) MSG_CALL :: u32 where "MSG_CALL \<equiv> 0"
abbreviation (input) PORTMAP_GETPORT :: u32 where "PORTMAP_GETPORT \<equiv> 3"
abbreviation (input) MOUNT_ADDENTRY :: u32 where "MOUNT_ADDENTRY \<equiv> 1"
abbreviation (input) MOUNT_UMOUNTALL :: u32 where "MOUNT_UMOUNTALL \<equiv> 4"
abbreviation (input) NFS_LOOKUP :: u32 where "NFS_LOOKUP \<equiv> 4"
abbreviation (input) NFS_READLINK :: u32 where "NFS_READLINK \<equiv> 5"
abbreviation (input) NFS_READ :: u32 where "NFS_READ \<equiv> 6"
abbreviation (input) NFS_FHSIZE :: nat where "NFS_FHSIZE \<equiv> 32"
abbreviation (input) NFS_READ_SIZE :: u32 where "NFS_READ_SIZE \<equiv> 1024"
abbreviation (input) NFS_TIMEOUT :: u32 where "NFS_TIMEOUT \<equiv> 60"

section \<open>Paths\<close>

text \<open>The index \<open>basename\<close> returns, \<open>-1\<close> being one before the path.\<close>

fun last_component :: "bytes \<Rightarrow> nat \<Rightarrow> int" where
  "last_component path 0 = -1"
| "last_component path (Suc i) = (if path ! i = ch (CHR ''/'') then int i + 1 else last_component path i)"

definition basename :: "bytes \<Rightarrow> int option" where
  "basename path = map_option (last_component path) (strlen path)"

definition dirname :: "bytes \<Rightarrow> bytes option" where
  "dirname path = do {
     fname \<leftarrow> basename path;
     if fname - 1 < 0 then None else wr path (nat (fname - 1)) 0 }"

section \<open>Requests\<close>

text \<open>AUTH_UNIX with an empty host name, and an AUTH_NONE verifier.\<close>

definition rpc_add_credentials :: bytes where
  "rpc_add_credentials = be32s [1, 20, 0, 0, 0, 0, 0, 0, 0]"

text \<open>A string with its length, padded to a multiple of four.\<close>

definition xdr_string :: "bytes \<Rightarrow> bytes" where
  "xdr_string s = be32 (of_nat (length s)) @ s @ replicate ((length s + 3) div 4 * 4 - length s) 0"

definition rpc_req :: "u32 \<Rightarrow> u32 \<Rightarrow> bytes \<Rightarrow> net \<Rightarrow> net option" where
  "rpc_req rpc_prog rpc_proc data n = do {
     let n = nfs_st_update (\<lambda>v. v\<lparr>rpc_id := rpc_id v + 1\<rparr>) n;
     let v = nfs_st n;
     let pkt = be32s [rpc_id v, MSG_CALL, 2, rpc_prog, 2, rpc_proc] @ data;
     tx \<leftarrow> put (NetTxPacket n) (NetEthHdrSize (NetOurVLAN n) + IP_HDR_SIZE) pkt;
     let sport = (if rpc_prog = PROG_PORTMAP then SUNRPC_PORT
                  else if rpc_prog = PROG_MOUNT then NfsSrvMountPort v else NfsSrvNfsPort v);
     (_, n) \<leftarrow> NetSendUDPPacket AtServerEther (NfsServerIP v) sport (NfsOurPort v) (length pkt)
        (n\<lparr>NetTxPacket := tx\<rparr>);
     Some n }"

definition rpc_lookup_req :: "u32 \<Rightarrow> u32 \<Rightarrow> net \<Rightarrow> net option" where
  "rpc_lookup_req rpc_prog ver = rpc_req PROG_PORTMAP PORTMAP_GETPORT (be32s [0, 0, 0, 0, rpc_prog, ver, 17, 0])"

definition nfs_mount_req :: "bytes \<Rightarrow> net \<Rightarrow> net option" where
  "nfs_mount_req path n = do {
     pathlen \<leftarrow> strlen path;
     rpc_req PROG_MOUNT MOUNT_ADDENTRY (rpc_add_credentials @ xdr_string (take pathlen path)) n }"

definition nfs_umountall_req :: "net \<Rightarrow> net option" where
  "nfs_umountall_req n =
     (if NfsSrvMountPort (nfs_st n) = -1 \<or> \<not> fs_mounted (nfs_st n) then Some n
      else rpc_req PROG_MOUNT MOUNT_UMOUNTALL rpc_add_credentials n)"

definition nfs_readlink_req :: "net \<Rightarrow> net option" where
  "nfs_readlink_req n = do {
     fh \<leftarrow> window (filefh (nfs_st n)) 0 NFS_FHSIZE;
     rpc_req PROG_NFS NFS_READLINK (rpc_add_credentials @ fh) n }"

definition nfs_lookup_req :: "bytes \<Rightarrow> net \<Rightarrow> net option" where
  "nfs_lookup_req fname n = do {
     fnamelen \<leftarrow> strlen fname;
     fh \<leftarrow> window (dirfh (nfs_st n)) 0 NFS_FHSIZE;
     rpc_req PROG_NFS NFS_LOOKUP (rpc_add_credentials @ fh @ xdr_string (take fnamelen fname)) n }"

definition nfs_read_req :: "u32 \<Rightarrow> u32 \<Rightarrow> net \<Rightarrow> net option" where
  "nfs_read_req offset readlen n = do {
     fh \<leftarrow> window (filefh (nfs_st n)) 0 NFS_FHSIZE;
     rpc_req PROG_NFS NFS_READ (rpc_add_credentials @ fh @ be32s [offset, readlen, 0]) n }"

definition NfsSend :: "net \<Rightarrow> net option" where
  "NfsSend n = (let v = nfs_st n in case NfsState v of
      STATE_PRCLOOKUP_PROG_MOUNT_REQ \<Rightarrow> rpc_lookup_req PROG_MOUNT 1 n
    | STATE_PRCLOOKUP_PROG_NFS_REQ \<Rightarrow> rpc_lookup_req PROG_NFS 2 n
    | STATE_MOUNT_REQ \<Rightarrow> nfs_mount_req (nfs_path_buff v) n
    | STATE_UMOUNT_REQ \<Rightarrow> nfs_umountall_req n
    | STATE_LOOKUP_REQ \<Rightarrow> nfs_lookup_req (drop (nfs_filename v) (nfs_path_buff v)) n
    | STATE_READ_REQ \<Rightarrow> nfs_read_req (nfs_offset v) (nfs_len v) n
    | STATE_READLINK_REQ \<Rightarrow> nfs_readlink_req n)"

section \<open>Replies\<close>

text \<open>
  The reply as a union of 2048 bytes: \<open>id\<close> at 0, \<open>rstatus\<close> at 8, \<open>verifier\<close> at 12, \<open>astatus\<close> at 20 and
  \<open>data\<close> from 24 on.
\<close>

definition rpc_pkt :: "bytes \<Rightarrow> u32 \<Rightarrow> bytes option" where
  "rpc_pkt pkt len = (if unat len \<le> 2048 then window pkt 0 (unat len) else None)"

text \<open>The three words that are compared with 0, in the order of the code.\<close>

definition rpc_refused :: "bytes \<Rightarrow> bool option" where
  "rpc_refused r = do {
     rstatus \<leftarrow> NetReadLong r 8;
     if rstatus \<noteq> 0 then Some True
     else do {
       verifier \<leftarrow> NetReadLong r 12;
       if verifier \<noteq> 0 then Some True
       else do { astatus \<leftarrow> NetReadLong r 20; Some (astatus \<noteq> 0) } } }"

definition rpc_failed :: "bytes \<Rightarrow> bool option" where
  "rpc_failed r = do {
     bad \<leftarrow> rpc_refused r;
     if bad then Some True else do { status \<leftarrow> NetReadLong r 24; Some (status \<noteq> 0) } }"

text \<open>The reply if it answers the last request and \<open>failed\<close> does not hold, else \<open>None\<close> inside.\<close>

definition rpc_accept :: "(bytes \<Rightarrow> bool option) \<Rightarrow> bytes \<Rightarrow> u32 \<Rightarrow> net \<Rightarrow> bytes option option" where
  "rpc_accept failed pkt len n = do {
     r \<leftarrow> rpc_pkt pkt len;
     i \<leftarrow> NetReadLong r 0;
     if i \<noteq> rpc_id (nfs_st n) then Some None
     else do { bad \<leftarrow> failed r; Some (if bad then None else Some r) } }"

definition rpc_lookup_reply :: "u32 \<Rightarrow> bytes \<Rightarrow> u32 \<Rightarrow> net \<Rightarrow> (int \<times> net) option" where
  "rpc_lookup_reply rpc_prog pkt len n = do {
     a \<leftarrow> rpc_accept rpc_refused pkt len n;
     (case a of
        None \<Rightarrow> Some (-1, n)
      | Some r \<Rightarrow> do {
          port \<leftarrow> NetReadLong r 24;
          Some (0, nfs_st_update (if rpc_prog = PROG_MOUNT then (\<lambda>v. v\<lparr>NfsSrvMountPort := port\<rparr>)
                                  else (\<lambda>v. v\<lparr>NfsSrvNfsPort := port\<rparr>)) n) }) }"

definition nfs_mount_reply :: "bytes \<Rightarrow> u32 \<Rightarrow> net \<Rightarrow> (int \<times> net) option" where
  "nfs_mount_reply pkt len n = do {
     a \<leftarrow> rpc_accept rpc_failed pkt len n;
     (case a of
        None \<Rightarrow> Some (-1, n)
      | Some r \<Rightarrow> do {
          fh \<leftarrow> window r 28 NFS_FHSIZE;
          Some (0, nfs_st_update (\<lambda>v. v\<lparr>fs_mounted := True, dirfh := fh\<rparr>) n) }) }"

definition nfs_umountall_reply :: "bytes \<Rightarrow> u32 \<Rightarrow> net \<Rightarrow> (int \<times> net) option" where
  "nfs_umountall_reply pkt len n = do {
     a \<leftarrow> rpc_accept rpc_refused pkt len n;
     Some (case a of
        None \<Rightarrow> (-1, n)
      | Some r \<Rightarrow> (0, nfs_st_update (\<lambda>v. v\<lparr>fs_mounted := False, dirfh := replicate NFS_FHSIZE 0\<rparr>) n)) }"

definition nfs_lookup_reply :: "bytes \<Rightarrow> u32 \<Rightarrow> net \<Rightarrow> (int \<times> net) option" where
  "nfs_lookup_reply pkt len n = do {
     a \<leftarrow> rpc_accept rpc_failed pkt len n;
     (case a of
        None \<Rightarrow> Some (-1, n)
      | Some r \<Rightarrow> do {
          fh \<leftarrow> window r 28 NFS_FHSIZE;
          Some (0, nfs_st_update (\<lambda>v. v\<lparr>filefh := fh\<rparr>) n) }) }"

definition nfs_readlink_reply :: "bytes \<Rightarrow> u32 \<Rightarrow> net \<Rightarrow> (int \<times> net) option" where
  "nfs_readlink_reply pkt len n = do {
     a \<leftarrow> rpc_accept rpc_failed pkt len n;
     (case a of
        None \<Rightarrow> Some (-1, n)
      | Some r \<Rightarrow> do {
          rlen \<leftarrow> NetReadLong r 28;
          c \<leftarrow> rd r 32;
          let path = nfs_path_buff (nfs_st n);
          path \<leftarrow> (if c \<noteq> ch (CHR ''/'') then do {
              path \<leftarrow> strcat path (cstr (str ''/''));
              pathlen \<leftarrow> strlen path;
              link \<leftarrow> window r 32 (unat rlen);
              path \<leftarrow> put path pathlen link;
              wr path (pathlen + unat rlen + 1) 0 }
            else do {
              link \<leftarrow> window r 32 (unat rlen);
              path \<leftarrow> put path 0 link;
              wr path (unat rlen) 0 });
          Some (0, nfs_st_update (\<lambda>v. v\<lparr>nfs_path_buff := path\<rparr>) n) }) }"

definition nfs_store_block :: "bytes \<Rightarrow> u32 \<Rightarrow> u32 \<Rightarrow> net \<Rightarrow> net option" where
  "nfs_store_block src offset len n = do {
     let newsize = offset + len;
     bs \<leftarrow> window src 0 (unat len);
     let n = n\<lparr>mem := mem_store (load_addr (nub n) + offset) bs (mem n)\<rparr>;
     Some (if NetBootFileXferSize n < offset + len then n\<lparr>NetBootFileXferSize := newsize\<rparr> else n) }"

text \<open>The fixed part of the reply, 100 bytes, is copied whatever the length of the packet.\<close>

definition nfs_read_reply :: "bytes \<Rightarrow> u32 \<Rightarrow> net \<Rightarrow> (u32 \<times> net) option" where
  "nfs_read_reply pkt len n = do {
     r \<leftarrow> window pkt 0 100;
     i \<leftarrow> NetReadLong r 0;
     rstatus \<leftarrow> NetReadLong r 8; verifier \<leftarrow> NetReadLong r 12; astatus \<leftarrow> NetReadLong r 20; status \<leftarrow> NetReadLong r 24;
     if i \<noteq> rpc_id (nfs_st n) then Some (-1, n)
     else if rstatus \<noteq> 0 \<or> verifier \<noteq> 0 \<or> astatus \<noteq> 0 \<or> status \<noteq> 0 then
       Some (if rstatus \<noteq> 0 \<or> astatus \<noteq> 0 then - 9999 else - status, n)
     else do {
       rlen \<leftarrow> NetReadLong r 96;
       n \<leftarrow> nfs_store_block (drop 100 pkt) (nfs_offset (nfs_st n)) rlen n;
       Some (rlen, n) } }"

section \<open>The client\<close>

definition NfsTimeout :: "net \<Rightarrow> net" where
  "NfsTimeout n = n\<lparr>NetState := NETLOOP_FAIL\<rparr>"

text \<open>The next state and the request that goes with it.\<close>

definition nfs_goto :: "nfs_state \<Rightarrow> net \<Rightarrow> net option" where
  "nfs_goto s n = NfsSend (nfs_st_update (\<lambda>v. v\<lparr>NfsState := s\<rparr>) n)"

definition NfsHandler :: "bytes option \<Rightarrow> u32 \<Rightarrow> u32 \<Rightarrow> u32 \<Rightarrow> net \<Rightarrow> net option" where
  "NfsHandler pkt dest src len n =
     (if dest \<noteq> NfsOurPort (nfs_st n) then Some n
      else do {
        p \<leftarrow> pkt;
        (case NfsState (nfs_st n) of
           STATE_PRCLOOKUP_PROG_MOUNT_REQ \<Rightarrow> do {
             (_, n) \<leftarrow> rpc_lookup_reply PROG_MOUNT p len n;
             nfs_goto STATE_PRCLOOKUP_PROG_NFS_REQ n }
         | STATE_PRCLOOKUP_PROG_NFS_REQ \<Rightarrow> do {
             (_, n) \<leftarrow> rpc_lookup_reply PROG_NFS p len n;
             nfs_goto STATE_MOUNT_REQ n }
         | STATE_MOUNT_REQ \<Rightarrow> do {
             (r, n) \<leftarrow> nfs_mount_reply p len n;
             nfs_goto (if r \<noteq> 0 then STATE_UMOUNT_REQ else STATE_LOOKUP_REQ) n }
         | STATE_UMOUNT_REQ \<Rightarrow> do {
             (r, n) \<leftarrow> nfs_umountall_reply p len n;
             Some (n\<lparr>NetState := (if r \<noteq> 0 then NETLOOP_FAIL else NfsDownloadState (nfs_st n))\<rparr>) }
         | STATE_LOOKUP_REQ \<Rightarrow> do {
             (r, n) \<leftarrow> nfs_lookup_reply p len n;
             if r \<noteq> 0 then nfs_goto STATE_UMOUNT_REQ n
             else nfs_goto STATE_READ_REQ (nfs_st_update (\<lambda>v. v\<lparr>nfs_offset := 0, nfs_len := NFS_READ_SIZE\<rparr>) n) }
         | STATE_READLINK_REQ \<Rightarrow> do {
             (r, n) \<leftarrow> nfs_readlink_reply p len n;
             if r \<noteq> 0 then nfs_goto STATE_UMOUNT_REQ n
             else do {
               fname \<leftarrow> basename (nfs_path_buff (nfs_st n));
               path \<leftarrow> dirname (nfs_path_buff (nfs_st n));
               nfs_goto STATE_MOUNT_REQ (nfs_st_update (\<lambda>v. v\<lparr>nfs_filename := nat fname, nfs_path_buff := path\<rparr>) n) } }
         | STATE_READ_REQ \<Rightarrow> do {
             (rlen, n) \<leftarrow> nfs_read_reply p len n;
             let n = NetSetTimeout (NFS_TIMEOUT * CFG_HZ) NfsTimeout_t n;
             if 0 <s rlen then NfsSend (nfs_st_update (\<lambda>v. v\<lparr>nfs_offset := nfs_offset v + rlen\<rparr>) n)
             else if rlen = - 21 \<or> rlen = - 22 then nfs_goto STATE_READLINK_REQ n
             else nfs_goto STATE_UMOUNT_REQ
               (if rlen = 0 then nfs_st_update (\<lambda>v. v\<lparr>NfsDownloadState := NETLOOP_SUCCESS\<rparr>) n else n) }) })"

definition nfs_default_filename :: "u32 \<Rightarrow> bytes option" where
  "nfs_default_filename ip = map_option fst (sprintf (replicate 64 0) (cstr (str ''/nfsroot/%02lX%02lX%02lX%02lX.img''))
     [VInt (ip AND 0xff), VInt (drop_bit 8 ip AND 0xff), VInt (drop_bit 16 ip AND 0xff), VInt (drop_bit 24 ip AND 0xff)])"

text \<open>The server and the path of the boot file: \<open>[server:]path\<close>.\<close>

definition nfs_source :: "net \<Rightarrow> (u32 \<times> bytes) option" where
  "nfs_source n = do {
     c \<leftarrow> rd (BootFile (nub n)) 0;
     if c = 0 then do {
       name \<leftarrow> nfs_default_filename (NetOurIP n);
       path \<leftarrow> strcpy (nfs_path_buff (nfs_st n)) name;
       Some (NetServerIP n, path) }
     else do {
       p \<leftarrow> strchr (BootFile (nub n)) (ch (CHR '':''));
       (case p of
          None \<Rightarrow> do {
            path \<leftarrow> strcpy (nfs_path_buff (nfs_st n)) (BootFile (nub n));
            Some (NetServerIP n, path) }
        | Some k \<Rightarrow> do {
            ip \<leftarrow> string_to_ip (Some (BootFile (nub n)));
            path \<leftarrow> strcpy (nfs_path_buff (nfs_st n)) (drop (k + 1) (BootFile (nub n)));
            Some (ip, path) }) } }"

definition NfsStart :: "net \<Rightarrow> net option" where
  "NfsStart n = do {
     (server, path) \<leftarrow> nfs_source n;
     fname \<leftarrow> basename path;
     path \<leftarrow> dirname path;
     let n = NetSetHandler NfsHandler_h (NetSetTimeout (NFS_TIMEOUT * CFG_HZ) NfsTimeout_t n);
     NfsSend (nfs_st_update (\<lambda>v. v\<lparr>NfsDownloadState := NETLOOP_FAIL, NfsServerIP := server, nfs_path_buff := path,
         nfs_filename := nat fname, NfsState := STATE_PRCLOOKUP_PROG_MOUNT_REQ, NfsOurPort := 1000\<rparr>) n
       \<lparr>NetServerEther := replicate 6 0\<rparr>) }"

section \<open>Words of a message\<close>

lemma be32s_simps: "be32s [] = []" "be32s (w # ws) = be32 w @ be32s ws"
  by (simp_all add: be32s_def)

lemma be32s_length [simp]: "length (be32s ws) = 4 * length ws"
  by (induction ws) (auto simp: be32s_simps)

lemma NetReadLong_be32 [simp]: "NetReadLong (be32 w @ r) 0 = Some w"
  using of_be32_be32 [of w "[]"] by (simp add: NetReadLong_def window_def)

lemma NetReadLong_after: "length a = k \<Longrightarrow> NetReadLong (a @ g) (k + j) = NetReadLong g j"
  by (simp add: NetReadLong_def window_after)

lemma NetReadLong_word: "i < length ws \<Longrightarrow> k = 4 * i \<Longrightarrow> NetReadLong (be32s ws @ r) k = Some (ws ! i)"
proof (induction ws arbitrary: i k)
  case (Cons w ws)
  show ?case
  proof (cases i)
    case (Suc j)
    then show ?thesis using Cons NetReadLong_after [of "be32 w" 4 "be32s ws @ r" "4 * j"] by (simp add: be32s_simps)
  qed (use Cons in \<open>simp add: be32s_simps\<close>)
qed simp

section \<open>Sending\<close>

text \<open>A client that can send: buffers allocated, a device, and the server's addresses known.\<close>

definition nfs_alive :: "net \<Rightarrow> bool" where
  "nfs_alive n \<longleftrightarrow> net_ok n \<and> \<not> no_devices n \<and> NetServerEther n \<noteq> NetEtherNullAddr \<and>
     NfsServerIP (nfs_st n) \<noteq> 0 \<and> NfsServerIP (nfs_st n) \<noteq> 0xffffffff"

lemma send_payload:
  assumes n: "net_ok n" "\<not> no_devices n" "NetServerEther n \<noteq> NetEtherNullAddr" "dest \<noteq> 0" "dest \<noteq> 0xffffffff"
    and p: "length p \<le> 1400"
  shows "\<exists>tx b e. put (NetTxPacket n) (NetEthHdrSize (NetOurVLAN n) + 28) p = Some tx \<and>
    NetSendUDPPacket AtServerEther dest dport sport (length p) (n\<lparr>NetTxPacket := tx\<rparr>) =
      Some (0, n\<lparr>NetTxPacket := b, NetIPID := NetIPID n + 1, sent := sent n @ [e @ p]\<rparr>) \<and> length b = 1536"
proof -
  let ?h = "NetEthHdrSize (NetOurVLAN n)"
  define tx where "tx = overlay (NetTxPacket n) (?h + 28) p"
  let ?n = "n\<lparr>NetTxPacket := tx\<rparr>"
  have h: "?h \<le> 18" by (rule NetEthHdrSize_le)
  have l: "length (NetTxPacket n) = 1536" using n by (simp add: net_ok_def)
  then have pkt: "put (NetTxPacket n) (?h + 28) p = Some tx" "length tx = 1536"
    using h p by (simp_all add: put_def tx_def)
  have w: "window tx (?h + 28) (length p) = Some p" using l h p by (simp add: window_def tx_def overlay_def)
  have ok: "net_ok ?n" using n pkt by (simp add: net_ok_def)
  obtain x r where "NetSendUDPPacket AtServerEther dest dport sport (length p) ?n =
      Some (0, ?n\<lparr>NetTxPacket := udp_frame ?n (NetServerEther n) dest dport sport x p @ r, NetIPID := NetIPID n + 1,
        sent := sent n @ [udp_frame ?n (NetServerEther n) dest dport sport x p]\<rparr>)"
    "length (udp_frame ?n (NetServerEther n) dest dport sport x p @ r) = 1536"
    using send_known [OF ok p n(4,5), of AtServerEther dport sport] w n by auto
  then show ?thesis using pkt
    by (intro exI [of _ tx] exI [of _ "udp_frame ?n (NetServerEther n) dest dport sport x p @ r"]
        exI [of _ "eth_header (NetOurVLAN n) (NetOurEther n) (NetServerEther n) PROT_IP @
           ip_udp_words (NetOurIP n) (NetIPID n) dest dport sport (length p) x"])
      (auto simp: udp_frame_def)
qed

text \<open>A request only changes the number of the request, the transmit buffer and the counter of packets.\<close>

lemma rpc_req_sent:
  assumes "nfs_alive n" "length data \<le> 1300"
  shows "\<exists>b e. rpc_req p proc data n =
      Some (nfs_st_update (\<lambda>v. v\<lparr>rpc_id := rpc_id v + 1\<rparr>) n \<lparr>NetTxPacket := b, NetIPID := NetIPID n + 1,
        sent := sent n @ [e @ be32s [rpc_id (nfs_st n) + 1, MSG_CALL, 2, p, 2, proc] @ data]\<rparr>) \<and> length b = 1536"
proof -
  define m where "m = nfs_st_update (\<lambda>v. v\<lparr>rpc_id := rpc_id v + 1\<rparr>) n"
  define q where "q = be32s [rpc_id (nfs_st n) + 1, MSG_CALL, 2, p, 2, proc] @ data"
  define port where "port = (if p = PROG_PORTMAP then SUNRPC_PORT
     else if p = PROG_MOUNT then NfsSrvMountPort (nfs_st n) else NfsSrvNfsPort (nfs_st n))"
  have m: "NfsServerIP (nfs_st m) = NfsServerIP (nfs_st n)" "NfsOurPort (nfs_st m) = NfsOurPort (nfs_st n)"
    "NfsSrvMountPort (nfs_st m) = NfsSrvMountPort (nfs_st n)" "NfsSrvNfsPort (nfs_st m) = NfsSrvNfsPort (nfs_st n)"
    "rpc_id (nfs_st m) = rpc_id (nfs_st n) + 1" "NetIPID m = NetIPID n" "sent m = sent n" "NetTxPacket m = NetTxPacket n"
    "NetOurVLAN m = NetOurVLAN n"
    by (simp_all add: m_def)
  have "net_ok m" "\<not> no_devices m" "NetServerEther m \<noteq> NetEtherNullAddr" "NfsServerIP (nfs_st m) \<noteq> 0"
    "NfsServerIP (nfs_st m) \<noteq> 0xffffffff"
    using assms(1) by (simp_all add: m_def nfs_alive_def net_ok_def)
  moreover have "length q \<le> 1400" using assms(2) by (simp add: q_def)
  ultimately obtain tx b e where "put (NetTxPacket m) (NetEthHdrSize (NetOurVLAN m) + 28) q = Some tx"
    "NetSendUDPPacket AtServerEther (NfsServerIP (nfs_st m)) port (NfsOurPort (nfs_st m)) (length q) (m\<lparr>NetTxPacket := tx\<rparr>) =
      Some (0, m\<lparr>NetTxPacket := b, NetIPID := NetIPID m + 1, sent := sent m @ [e @ q]\<rparr>)" "length b = 1536"
    using send_payload [of m "NfsServerIP (nfs_st m)" q port "NfsOurPort (nfs_st m)"] by blast
  then have "rpc_req p proc data n = Some (m\<lparr>NetTxPacket := b, NetIPID := NetIPID n + 1, sent := sent n @ [e @ q]\<rparr>)"
    by (simp only: rpc_req_def m_def [symmetric] Let_def m q_def [symmetric] port_def [symmetric] bind.bind_lunit prod.case)
  then show ?thesis using \<open>length b = 1536\<close> by (auto simp: m_def q_def)
qed

section \<open>Reading a file\<close>

text \<open>The reply to a read request: 68 bytes of attributes, the count and the data.\<close>

definition read_reply :: "u32 \<Rightarrow> bytes \<Rightarrow> bytes \<Rightarrow> bytes" where
  "read_reply i attr b = be32s [i, 1, 0, 0, 0, 0, 0] @ attr @ be32 (of_nat (length b)) @ b"

definition status_reply :: "u32 \<Rightarrow> bytes" where
  "status_reply i = be32s [i, 1, 0, 0, 0, 0]"

lemma NetReadLong_all: "i < length ws \<Longrightarrow> k = 4 * i \<Longrightarrow> NetReadLong (be32s ws) k = Some (ws ! i)"
  using NetReadLong_word [of i ws k "[]"] by simp

lemmas reply_words = NetReadLong_word [of 0 _ 0] NetReadLong_word [of 2 _ 8] NetReadLong_word [of 3 _ 12]
  NetReadLong_word [of 5 _ 20] NetReadLong_word [of 6 _ 24]
  NetReadLong_all [of 0 _ 0] NetReadLong_all [of 2 _ 8] NetReadLong_all [of 3 _ 12] NetReadLong_all [of 5 _ 20]

lemma read_reply_eq:
  assumes a: "length attr = 68" and l: "off + length b < 2 ^ 32" and v: "nfs_offset (nfs_st n) = of_nat off"
    and s: "NetBootFileXferSize n = of_nat off"
  shows "nfs_read_reply (read_reply (rpc_id (nfs_st n)) attr b @ junk) len n =
    Some (of_nat (length b), n\<lparr>mem := mem_store (load_addr (nub n) + of_nat off) b (mem n),
      NetBootFileXferSize := of_nat (off + length b)\<rparr>)"
proof -
  let ?w = "[rpc_id (nfs_st n), 1, 0, 0, 0, 0, 0]" and ?c = "of_nat (length b) :: u32"
  define h where "h = be32s ?w @ attr @ be32 ?c"
  have h: "length h = 100" using a by (simp add: h_def)
  have p: "read_reply (rpc_id (nfs_st n)) attr b @ junk = h @ b @ junk" by (simp add: read_reply_def h_def)
  have u: "unat (of_nat off :: u32) = off" "unat ?c = length b" "unat (of_nat (off + length b) :: u32) = off + length b"
    using l by (auto intro: unat_small simp del: of_nat_add)
  have w: "NetReadLong h 0 = Some (rpc_id (nfs_st n))" "NetReadLong h 8 = Some 0" "NetReadLong h 12 = Some 0"
    "NetReadLong h 20 = Some 0" "NetReadLong h 24 = Some 0"
    unfolding h_def by (simp_all add: reply_words)
  have "length (be32s ?w @ attr) = 96" using a by (simp)
  then have "NetReadLong h 96 = Some ?c"
    using NetReadLong_after [of "be32s ?w @ attr" 96 "be32 ?c" 0] NetReadLong_be32 [of ?c "[]"]
    by (simp add: h_def)
  moreover have "(of_nat off :: u32) < of_nat (off + length b) \<longleftrightarrow> 0 < length b" by (simp only: word_less_nat_alt u) simp
  ultimately show ?thesis using w h v s u
    by (auto simp: nfs_read_reply_def p nfs_store_block_def window_def)
qed

text \<open>
  Executions of a transfer with the replies of a server that has the file \<open>f\<close>: \<open>k\<close> counts the replies
  that were accepted. Packets for other ports arrive at any time.
\<close>

inductive nfs_run :: "bytes \<Rightarrow> net \<Rightarrow> nat \<Rightarrow> net \<Rightarrow> bool" for f n0 where
  nfs_start: "nfs_run f n0 0 n0"
| nfs_block: "nfs_run f n0 k n \<Longrightarrow> NfsState (nfs_st n) = STATE_READ_REQ \<Longrightarrow> length attr = 68 \<Longrightarrow>
    b = take 1024 (drop (unat (nfs_offset (nfs_st n))) f) \<Longrightarrow>
    NfsHandler (Some (read_reply (rpc_id (nfs_st n)) attr b @ junk)) (NfsOurPort (nfs_st n)) src len n = Some n' \<Longrightarrow>
    nfs_run f n0 (Suc k) n'"
| nfs_unmounted: "nfs_run f n0 k n \<Longrightarrow> NfsState (nfs_st n) = STATE_UMOUNT_REQ \<Longrightarrow> NetState n = NETLOOP_CONTINUE \<Longrightarrow>
    NfsHandler (Some (status_reply (rpc_id (nfs_st n)) @ junk)) (NfsOurPort (nfs_st n)) src 24 n = Some n' \<Longrightarrow>
    nfs_run f n0 (Suc k) n'"
| nfs_stray: "nfs_run f n0 k n \<Longrightarrow> dest \<noteq> NfsOurPort (nfs_st n) \<Longrightarrow> NfsHandler pkt dest src len n = Some n' \<Longrightarrow>
    nfs_run f n0 k n'"

definition nfs_ready :: "net \<Rightarrow> bool" where
  "nfs_ready n \<longleftrightarrow> nfs_alive n \<and> length (filefh (nfs_st n)) = 32 \<and> NfsState (nfs_st n) = STATE_READ_REQ \<and>
     NfsDownloadState (nfs_st n) = NETLOOP_FAIL \<and> NetState n = NETLOOP_CONTINUE \<and>
     fs_mounted (nfs_st n) \<and> NfsSrvMountPort (nfs_st n) \<noteq> - 1"

text \<open>What is true while the file is read, and afterwards.\<close>

definition nfs_loaded :: "net \<Rightarrow> bytes \<Rightarrow> net \<Rightarrow> bool" where
  "nfs_loaded n0 b n \<longleftrightarrow> load_addr (nub n) = load_addr (nub n0) \<and> NetBootFileXferSize n = of_nat (length b) \<and>
     mem n = mem_store (load_addr (nub n0)) b (mem n0)"

definition nfs_reading :: "bytes \<Rightarrow> net \<Rightarrow> nat \<Rightarrow> net \<Rightarrow> bool" where
  "nfs_reading f n0 k n \<longleftrightarrow> nfs_ready n \<and> nfs_loaded n0 (take (1024 * k) f) n \<and>
     nfs_offset (nfs_st n) = of_nat (length (take (1024 * k) f))"

definition nfs_finished :: "bytes \<Rightarrow> net \<Rightarrow> netstate \<Rightarrow> net \<Rightarrow> bool" where
  "nfs_finished f n0 s n \<longleftrightarrow> nfs_loaded n0 f n \<and> NfsState (nfs_st n) = STATE_UMOUNT_REQ \<and>
     NfsDownloadState (nfs_st n) = NETLOOP_SUCCESS \<and> NetState n = s"

text \<open>The timeout of 60 seconds, in ticks, does not fit in 32 bits.\<close>

lemma nfs_timer [simp]:
  "NetSetTimeout (NFS_TIMEOUT * CFG_HZ) NfsTimeout_t n =
     n\<lparr>timeHandler := Some NfsTimeout_t, timeStart := now n, timeDelta := 3410065408\<rparr>"
  by (simp add: NetSetTimeout_def CFG_HZ_def)

lemma nfs_read_sent:
  assumes "nfs_alive q" "length (filefh (nfs_st q)) = 32" "NfsState (nfs_st q) = STATE_READ_REQ"
  shows "\<exists>x e. NfsSend q = Some (nfs_st_update (\<lambda>v. v\<lparr>rpc_id := rpc_id v + 1\<rparr>) q \<lparr>NetTxPacket := x,
      NetIPID := NetIPID q + 1, sent := e\<rparr>) \<and> length x = 1536"
proof -
  let ?d = "rpc_add_credentials @ filefh (nfs_st q) @ be32s [nfs_offset (nfs_st q), nfs_len (nfs_st q), 0]"
  have "NfsSend q = rpc_req PROG_NFS NFS_READ ?d q"
    using assms by (simp add: NfsSend_def Let_def nfs_read_req_def)
  moreover have "length ?d \<le> 1300" using assms by (simp add: rpc_add_credentials_def)
  then obtain b e where "rpc_req PROG_NFS NFS_READ ?d q = Some (nfs_st_update (\<lambda>v. v\<lparr>rpc_id := rpc_id v + 1\<rparr>) q
      \<lparr>NetTxPacket := b, NetIPID := NetIPID q + 1, sent := e\<rparr>)" "length b = 1536"
    using rpc_req_sent [OF assms(1), of ?d PROG_NFS NFS_READ] by blast
  ultimately show ?thesis by (intro exI [of _ b] exI [of _ e]) simp
qed

lemma of_nat_spos: "0 < k \<Longrightarrow> k < 2 ^ 31 \<Longrightarrow> 0 <s (of_nat k :: u32)"
  by (simp add: word_sless_alt signed_of_nat signed_take_bit_int_eq_self)

lemma nfs_read_more:
  assumes k: "nfs_reading f n0 k n" "1024 * k < length f" "length f < 2 ^ 32" and a: "length attr = 68"
    and b: "b = take 1024 (drop (unat (nfs_offset (nfs_st n))) f)"
  shows "\<exists>n'. NfsHandler (Some (read_reply (rpc_id (nfs_st n)) attr b @ junk)) (NfsOurPort (nfs_st n)) src len n = Some n' \<and>
    nfs_reading f n0 (Suc k) n'"
proof -
  let ?off = "1024 * k"
  have st: "nfs_offset (nfs_st n) = of_nat ?off" "NetBootFileXferSize n = of_nat ?off" "nfs_alive n"
    "length (filefh (nfs_st n)) = 32" "NfsState (nfs_st n) = STATE_READ_REQ"
    "mem n = mem_store (load_addr (nub n0)) (take ?off f) (mem n0)" "load_addr (nub n) = load_addr (nub n0)"
    using k by (auto simp: nfs_reading_def nfs_ready_def nfs_loaded_def)
  have "unat (of_nat ?off :: u32) = ?off" using k by (intro unat_small) linarith
  then have b: "b = take 1024 (drop ?off f)" using b st by simp
  have l: "length b = min 1024 (length f - ?off)" "0 < length b" using k b by auto
  have e: "take ?off f @ b = take (1024 * Suc k) f" unfolding b by (simp add: take_add [symmetric] add.commute)
  have lo: "length (take ?off f) = ?off" using k by simp
  have lt: "length (take ?off f) + length b \<le> 2 ^ 32" "?off + length b < 2 ^ 32" using lo l k by simp_all
  define g where "g = take (1024 * Suc k) f"
  define m where "m = n\<lparr>mem := mem_store (load_addr (nub n0)) g (mem n0), NetBootFileXferSize := of_nat (length g)\<rparr>"
  have ms: "mem_store (load_addr (nub n) + of_nat ?off) b (mem n) = mem_store (load_addr (nub n0)) g (mem n0)"
    unfolding st(6,7) g_def e [symmetric]
    using mem_store_append [of "take ?off f" b "load_addr (nub n0)" "mem n0"] lo lt by metis
  have le: "?off + length b = length g" using e lo by (metis length_append g_def)
  have r: "nfs_read_reply (read_reply (rpc_id (nfs_st n)) attr b @ junk) len n = Some (of_nat (length b), m)"
    unfolding m_def ms [symmetric] le [symmetric] by (rule read_reply_eq [OF a lt(2) st(1,2)])
  define q where "q = nfs_st_update (\<lambda>v. v\<lparr>nfs_offset := nfs_offset v + of_nat (length b)\<rparr>)
    (NetSetTimeout (NFS_TIMEOUT * CFG_HZ) NfsTimeout_t m)"
  have pos: "0 <s (of_nat (length b) :: u32)"
    using l by (intro of_nat_spos) auto
  have "nfs_offset (nfs_st q) = of_nat ?off + of_nat (length b)" by (simp only: q_def nfs_timer) (simp add: m_def st)
  then have o: "nfs_offset (nfs_st q) = of_nat (length g)" by (simp only: le [symmetric] of_nat_add)
  have q: "nfs_ready q" "nfs_loaded n0 g q"
    using k(1) by (simp_all add: q_def m_def nfs_reading_def nfs_ready_def nfs_alive_def net_ok_def nfs_loaded_def)
  then obtain x e where x: "NfsSend q = Some (nfs_st_update (\<lambda>v. v\<lparr>rpc_id := rpc_id v + 1\<rparr>) q \<lparr>NetTxPacket := x,
      NetIPID := NetIPID q + 1, sent := e\<rparr>)" "length x = 1536"
    using nfs_read_sent [of q] unfolding nfs_ready_def by blast
  have "NfsHandler (Some (read_reply (rpc_id (nfs_st n)) attr b @ junk)) (NfsOurPort (nfs_st n)) src len n = NfsSend q"
    using st(5) r pos by (simp add: NfsHandler_def Let_def q_def)
  moreover have "nfs_reading f n0 (Suc k) (nfs_st_update (\<lambda>v. v\<lparr>rpc_id := rpc_id v + 1\<rparr>) q \<lparr>NetTxPacket := x,
      NetIPID := NetIPID q + 1, sent := e\<rparr>)"
    unfolding nfs_reading_def g_def [symmetric] using q x o by (simp add: nfs_ready_def nfs_loaded_def nfs_alive_def net_ok_def)
  ultimately show ?thesis using x by auto
qed

lemma nfs_read_end:
  assumes k: "nfs_reading f n0 k n" "length f \<le> 1024 * k" "length f < 2 ^ 32" and a: "length attr = 68"
    and b: "b = take 1024 (drop (unat (nfs_offset (nfs_st n))) f)"
  shows "\<exists>n'. NfsHandler (Some (read_reply (rpc_id (nfs_st n)) attr b @ junk)) (NfsOurPort (nfs_st n)) src len n = Some n' \<and>
    nfs_finished f n0 NETLOOP_CONTINUE n'"
proof -
  have st: "nfs_offset (nfs_st n) = of_nat (length f)" "NetBootFileXferSize n = of_nat (length f)" "nfs_loaded n0 f n" "nfs_ready n"
    using k by (auto simp: nfs_reading_def nfs_loaded_def)
  have "unat (of_nat (length f) :: u32) = length f" using k by (intro unat_small) linarith
  then have b: "b = []" using b st by simp
  have r: "nfs_read_reply (read_reply (rpc_id (nfs_st n)) attr b @ junk) len n = Some (0, n)"
    using read_reply_eq [OF a _ st(1,2), of "[]" junk len] st(2) k(3) by (simp add: b mem_store_def)
  define q where "q = nfs_st_update (\<lambda>v. v\<lparr>NfsState := STATE_UMOUNT_REQ\<rparr>)
    (nfs_st_update (\<lambda>v. v\<lparr>NfsDownloadState := NETLOOP_SUCCESS\<rparr>) (NetSetTimeout (NFS_TIMEOUT * CFG_HZ) NfsTimeout_t n))"
  have q: "nfs_finished f n0 NETLOOP_CONTINUE q" "nfs_alive q" "fs_mounted (nfs_st q)" "NfsSrvMountPort (nfs_st q) \<noteq> - 1"
    using st by (simp_all add: q_def nfs_finished_def nfs_loaded_def nfs_ready_def nfs_alive_def net_ok_def)
  have "length rpc_add_credentials \<le> 1300" by (simp add: rpc_add_credentials_def)
  then obtain x e where x: "rpc_req PROG_MOUNT MOUNT_UMOUNTALL rpc_add_credentials q = Some
      (nfs_st_update (\<lambda>v. v\<lparr>rpc_id := rpc_id v + 1\<rparr>) q \<lparr>NetTxPacket := x, NetIPID := NetIPID q + 1, sent := e\<rparr>)"
    using rpc_req_sent [OF q(2), of rpc_add_credentials PROG_MOUNT MOUNT_UMOUNTALL] by blast
  have "NfsState (nfs_st q) = STATE_UMOUNT_REQ" by (simp add: q_def)
  then have "NfsSend q = rpc_req PROG_MOUNT MOUNT_UMOUNTALL rpc_add_credentials q"
    using q by (simp add: NfsSend_def Let_def nfs_umountall_req_def)
  moreover have "NfsHandler (Some (read_reply (rpc_id (nfs_st n)) attr b @ junk)) (NfsOurPort (nfs_st n)) src len n = NfsSend q"
    using st(4) r by (simp add: NfsHandler_def Let_def q_def nfs_ready_def nfs_goto_def)
  ultimately show ?thesis using x q(1) by (simp add: nfs_finished_def nfs_loaded_def)
qed

lemma nfs_umounted:
  assumes "nfs_finished f n0 NETLOOP_CONTINUE n"
  shows "\<exists>n'. NfsHandler (Some (status_reply (rpc_id (nfs_st n)) @ junk)) (NfsOurPort (nfs_st n)) src 24 n = Some n' \<and>
    nfs_finished f n0 NETLOOP_SUCCESS n'"
proof -
  have "rpc_pkt (status_reply (rpc_id (nfs_st n)) @ junk) 24 = Some (status_reply (rpc_id (nfs_st n)))"
    by (simp add: rpc_pkt_def window_def status_reply_def)
  moreover have "NetReadLong (status_reply i) 0 = Some i" "NetReadLong (status_reply i) 8 = Some 0"
    "NetReadLong (status_reply i) 12 = Some 0" "NetReadLong (status_reply i) 20 = Some 0" for i
    by (simp_all add: status_reply_def reply_words)
  ultimately show ?thesis using assms
    by (simp add: NfsHandler_def nfs_finished_def nfs_umountall_reply_def rpc_accept_def rpc_refused_def nfs_loaded_def)
qed

text \<open>The number of replies with data.\<close>

definition nfs_blocks :: "bytes \<Rightarrow> nat" where
  "nfs_blocks f = (length f + 1023) div 1024"

lemma nfs_blocks_le: "k \<le> nfs_blocks f \<Longrightarrow> k < nfs_blocks f \<longleftrightarrow> 1024 * k < length f"
  by (auto simp: nfs_blocks_def)

definition nfs_at :: "bytes \<Rightarrow> net \<Rightarrow> nat \<Rightarrow> net \<Rightarrow> bool" where
  "nfs_at f n0 k n \<longleftrightarrow> (if k \<le> nfs_blocks f then nfs_reading f n0 k n
     else k \<le> nfs_blocks f + 2 \<and> nfs_finished f n0 (if k = nfs_blocks f + 1 then NETLOOP_CONTINUE else NETLOOP_SUCCESS) n)"

lemma nfs_at_block:
  assumes n: "nfs_at f n0 k n" "NfsState (nfs_st n) = STATE_READ_REQ" "length f < 2 ^ 32" and a: "length attr = 68"
    and b: "b = take 1024 (drop (unat (nfs_offset (nfs_st n))) f)"
  shows "\<exists>n'. NfsHandler (Some (read_reply (rpc_id (nfs_st n)) attr b @ junk)) (NfsOurPort (nfs_st n)) src len n = Some n' \<and>
    nfs_at f n0 (Suc k) n'"
proof -
  have r: "k \<le> nfs_blocks f" "nfs_reading f n0 k n" using n by (auto simp: nfs_at_def nfs_finished_def split: if_splits)
  show ?thesis
  proof (cases "k < nfs_blocks f")
    case True
    then show ?thesis using nfs_read_more [OF r(2) _ n(3) a b, of junk src len] nfs_blocks_le [OF r(1)] by (auto simp: nfs_at_def)
  next
    case False
    then have "k = nfs_blocks f" using r by simp
    then show ?thesis using nfs_read_end [OF r(2) _ n(3) a b, of junk src len] nfs_blocks_le [OF r(1)] by (auto simp: nfs_at_def)
  qed
qed

lemma nfs_at_unmount:
  assumes n: "nfs_at f n0 k n" "NfsState (nfs_st n) = STATE_UMOUNT_REQ" "NetState n = NETLOOP_CONTINUE"
  shows "\<exists>n'. NfsHandler (Some (status_reply (rpc_id (nfs_st n)) @ junk)) (NfsOurPort (nfs_st n)) src 24 n = Some n' \<and>
    nfs_at f n0 (Suc k) n'"
proof -
  have "k = nfs_blocks f + 1" "nfs_finished f n0 NETLOOP_CONTINUE n"
    using n by (auto simp: nfs_at_def nfs_reading_def nfs_ready_def nfs_finished_def split: if_splits)
  then show ?thesis using nfs_umounted [of f n0 n junk src] by (auto simp: nfs_at_def)
qed

lemma nfs_run_at:
  assumes "nfs_run f n0 k n" "nfs_at f n0 0 n0" "length f < 2 ^ 32"
  shows "nfs_at f n0 k n"
  using assms
proof (induction rule: nfs_run.induct)
  case (nfs_block k n attr b junk src len n')
  then show ?case using nfs_at_block [of f n0 k n attr b junk src len] by auto
next
  case (nfs_unmounted k n junk src n')
  then show ?case using nfs_at_unmount [of f n0 k n junk src] by auto
next
  case (nfs_stray k n dest pkt src len n')
  then show ?case by (simp add: NfsHandler_def)
qed simp

lemma nfs_at_start:
  "nfs_ready n0 \<Longrightarrow> nfs_offset (nfs_st n0) = 0 \<Longrightarrow> NetBootFileXferSize n0 = 0 \<Longrightarrow> nfs_at f n0 0 n0"
  by (simp add: nfs_at_def nfs_reading_def nfs_loaded_def mem_store_def)

section \<open>Paths of the boot file\<close>

lemma last_component_none: "(\<And>j. j < i \<Longrightarrow> path ! j \<noteq> ch (CHR ''/'')) \<Longrightarrow> last_component path i = - 1"
  by (induction i) auto

lemma dirname_none:
  assumes "strlen path = Some l" "ch (CHR ''/'') \<notin> set (take l path)"
  shows "dirname path = None"
proof -
  have "l \<le> length path" using assms(1) strlen_split by fastforce
  then have "last_component path l = - 1"
    using assms(2) by (intro last_component_none) (auto simp: in_set_conv_nth)
  then show ?thesis using assms(1) by (simp add: dirname_def basename_def)
qed

text \<open>A copy of a string without a slash has no directory.\<close>

lemma strcpy_dirname:
  assumes "nonul s" "ch (CHR ''/'') \<notin> set s" "strcpy dst (s @ 0 # r) = Some path"
  shows "dirname path = None"
  using assms by (intro dirname_none [of _ "length s"]) (auto simp: strcpy_cstr split: if_splits)

lemma takeWhile_shorter: "c \<in> set s \<Longrightarrow> length (takeWhile (\<lambda>x. x \<noteq> c) s) < length s"
  by (induction s) auto

lemma ch_nz: "ch (CHR '':'') \<noteq> 0" "ch (CHR ''/'') \<noteq> 0"
  by (simp_all add: ch_def)

section \<open>Properties\<close>

text \<open>
  C6: the file arrives. Over every execution of a transfer from a server that has the file, with
  packets for other ports at any time, the client never fails; it has succeeded exactly when the
  server has answered every read request, an empty read and the unmount request, and then the file is
  in memory at the load address and its size is recorded. Until then the next reply is accepted.
\<close>

theorem nfs_transfer_correct:
  assumes run: "nfs_run f n0 k n" and ready: "nfs_ready n0" "nfs_offset (nfs_st n0) = 0" "NetBootFileXferSize n0 = 0"
    and f: "length f < 2 ^ 32"
  shows "NetState n = (if k = nfs_blocks f + 2 then NETLOOP_SUCCESS else NETLOOP_CONTINUE) \<and> k \<le> nfs_blocks f + 2 \<and>
    (NetState n = NETLOOP_SUCCESS \<longrightarrow> NetBootFileXferSize n = of_nat (length f) \<and>
       (\<forall>i<length f. mem n (load_addr (nub n0) + of_nat i) = f ! i)) \<and>
    (k < nfs_blocks f + 2 \<longrightarrow> (\<exists>n'. nfs_run f n0 (Suc k) n'))"
proof -
  have at: "nfs_at f n0 k n" using nfs_run_at [OF run nfs_at_start [OF ready] f] .
  have 1: "NetState n = (if k = nfs_blocks f + 2 then NETLOOP_SUCCESS else NETLOOP_CONTINUE)" "k \<le> nfs_blocks f + 2"
    using at by (auto simp: nfs_at_def nfs_reading_def nfs_ready_def nfs_finished_def split: if_splits)
  have 2: "NetBootFileXferSize n = of_nat (length f) \<and> (\<forall>i<length f. mem n (load_addr (nub n0) + of_nat i) = f ! i)"
    if "NetState n = NETLOOP_SUCCESS"
    using at 1 that f by (auto simp: nfs_at_def nfs_finished_def nfs_loaded_def mem_store_nth split: if_splits)
  have 3: "\<exists>n'. nfs_run f n0 (Suc k) n'" if "k < nfs_blocks f + 2"
  proof (cases "k \<le> nfs_blocks f")
    case True
    then have "NfsState (nfs_st n) = STATE_READ_REQ" using at by (simp add: nfs_at_def nfs_reading_def nfs_ready_def)
    then show ?thesis using nfs_at_block [OF at _ f length_replicate refl, of 0 "[]" 0 0] nfs_block [OF run _ length_replicate refl]
      by blast
  next
    case False
    then have "NfsState (nfs_st n) = STATE_UMOUNT_REQ" "NetState n = NETLOOP_CONTINUE"
      using at 1 that by (auto simp: nfs_at_def nfs_finished_def)
    then show ?thesis using nfs_at_unmount [OF at, of "[]" 0] nfs_unmounted [OF run] by blast
  qed
  show ?thesis using 1 2 3 by blast
qed

text \<open>A client that has looked up a file.\<close>

definition demo_reading :: net where
  "demo_reading = demo_net\<lparr>nfs_st := demo_nfs\<lparr>fs_mounted := True, nfs_offset := 0, nfs_len := 1024, NfsServerIP := 0x0a000001,
     NfsState := STATE_READ_REQ, NfsDownloadState := NETLOOP_FAIL\<rparr>\<rparr>"

lemma demo_reading_ready: "nfs_ready demo_reading" "nfs_offset (nfs_st demo_reading) = 0" "NetBootFileXferSize demo_reading = 0"
proof -
  have "NetServerEther demo_net \<noteq> NetEtherNullAddr" using demo_alive by (simp add: tftp_alive_def)
  moreover have "NetState demo_net = NETLOOP_CONTINUE" by (simp only: demo_net_def net.simps)
  ultimately show "nfs_ready demo_reading" using demo_net_ok
    by (simp add: nfs_ready_def nfs_alive_def net_ok_def demo_reading_def demo_nfs_def)
qed (simp_all add: demo_reading_def)

theorem nfs_transfer_correct_witness:
  "\<exists>n. nfs_run [1, 2, 3] demo_reading 1 n \<and> NetState n = NETLOOP_CONTINUE"
proof -
  have f: "length [1, 2, 3 :: byte] < 2 ^ 32" by simp
  obtain n where n: "nfs_run [1, 2, 3] demo_reading (Suc 0) n"
    using nfs_transfer_correct [OF nfs_start demo_reading_ready f] by auto
  have "NetState n = NETLOOP_CONTINUE"
    using nfs_transfer_correct [OF n demo_reading_ready f] by (simp add: nfs_blocks_def)
  then show ?thesis using n by auto
qed

text \<open>
  C37: a boot file without a slash. \<open>basename\<close> then returns a pointer to before the path, and \<open>dirname\<close>
  stores a NUL two bytes before the buffer: whatever the server and the rest of the state, \<open>NfsStart\<close>
  writes out of bounds.
\<close>

theorem nfs_name_without_slash:
  assumes b: "BootFile (nub n) = s @ 0 # r" "nonul s" "s \<noteq> []" and slash: "ch (CHR ''/'') \<notin> set s"
  shows "NfsStart n = None"
proof -
  have c: "rd (BootFile (nub n)) 0 = Some (hd s)" "hd s \<noteq> 0" using b by (cases s; simp add: rd_def nonul_def)+
  have "dirname path = None" if src: "nfs_source n = Some (server, path)" for server path
  proof (cases "ch (CHR '':'') \<in> set s")
    case False
    then have "strchr (BootFile (nub n)) (ch (CHR '':'')) = Some None" using b ch_nz by (simp add: strchr_cstr)
    then show ?thesis using src c b slash
      by (auto simp: nfs_source_def bind_eq_Some_conv intro: strcpy_dirname)
  next
    case True
    define k where "k = length (takeWhile (\<lambda>x. x \<noteq> ch (CHR '':'')) s)"
    have k: "strchr (BootFile (nub n)) (ch (CHR '':'')) = Some (Some k)" using True b ch_nz by (simp add: strchr_cstr k_def)
    have "k < length s" unfolding k_def by (rule takeWhile_shorter [OF True])
    then have "drop (k + 1) (BootFile (nub n)) = drop (k + 1) s @ 0 # r" using b by simp
    moreover have "nonul (drop (k + 1) s)" "ch (CHR ''/'') \<notin> set (drop (k + 1) s)"
      using b slash by (auto simp: nonul_def dest: in_set_dropD)
    ultimately show ?thesis using src c k
      by (auto simp: nfs_source_def bind_eq_Some_conv intro: strcpy_dirname)
  qed
  then show ?thesis by (auto simp: NfsStart_def bind_eq_None_conv split: prod.splits)
qed

theorem nfs_name_without_slash_witness:
  "NfsStart (demo_net\<lparr>nub := two_devs\<lparr>BootFile := cstr (str ''vmlinux'') @ replicate 120 0\<rparr>\<rparr>) = None"
  by (rule nfs_name_without_slash [where s = "str ''vmlinux''" and r = "replicate 120 0"])
    (simp_all add: cstr_def str_def ch_def nonul_def)

text \<open>
  A relative symbolic link. The terminator is stored one byte too far, so the path that is mounted and
  looked up next ends with one byte of what was in the buffer: if the link is shorter than the name
  of the file it replaces, the client asks for another file.
\<close>

lemma nfs_relative_link_one_byte_more:
  assumes v: "nfs_path_buff (nfs_st n) = dir @ 0 # name @ 0 # rest" "nonul dir"
    and l: "link \<noteq> []" "hd link \<noteq> ch (CHR ''/'')" "length link < length name" "nonul link"
    and r: "r = be32s [rpc_id (nfs_st n), 1, 0, 0, 0, 0, 0, of_nat (length link)] @ link @ pad" "length r \<le> 2048"
  shows "\<exists>tail. nfs_readlink_reply (r @ junk) (of_nat (length r)) n =
    Some (0, nfs_st_update (\<lambda>v. v\<lparr>nfs_path_buff := dir @ ch (CHR ''/'') # link @ [name ! length link, 0] @ tail\<rparr>) n)"
proof -
  let ?w = "[rpc_id (nfs_st n), 1, 0, 0, 0, 0, 0, of_nat (length link)]" and ?s = "ch (CHR ''/'')"
  define h where "h = be32s ?w"
  have h: "length h = 32" "r = h @ link @ pad" by (simp_all add: h_def r)
  have u: "unat (of_nat (length r) :: u32) = length r" "unat (of_nat (length link) :: u32) = length link"
    by (rule unat_small, use r h in simp)+
  have p: "rpc_pkt (r @ junk) (of_nat (length r)) = Some r" using u r(2) by (simp add: rpc_pkt_def window_def)
  have w: "NetReadLong r 0 = Some (rpc_id (nfs_st n))" "NetReadLong r 8 = Some 0" "NetReadLong r 12 = Some 0"
    "NetReadLong r 20 = Some 0" "NetReadLong r 24 = Some 0" "NetReadLong r 28 = Some (of_nat (length link))"
    unfolding h(2) h_def by (simp_all add: reply_words NetReadLong_word [of 7 _ 28])
  have c: "rd r 32 = Some (hd link)" "window r 32 (length link) = Some link"
    using h l by (cases link; simp add: rd_def nth_append window_def)+
  define a where "a = dir @ [?s]"
  define z where "z = drop 1 (name @ 0 # rest)"
  have z: "length z = length name + length rest" "z = drop 1 name @ 0 # rest"
    using l by (auto simp: z_def)
  have cat: "strcat (dir @ 0 # name @ 0 # rest) (cstr (str ''/'')) = Some (a @ 0 # z)"
    using strcat_cstr [OF v(2), of "[?s]" "name @ 0 # rest" "[]"] ch_nz
    by (simp add: cstr_def str_def nonul_def a_def z_def)
  have na: "nonul a" using v(2) ch_nz by (simp add: a_def nonul_def)
  have len: "strlen (a @ 0 # z) = Some (length a)" using na by simp
  have put1: "put (a @ 0 # z) (length a) link = Some (a @ link @ drop (length link - 1) z)"
    using l z by (cases link) (auto simp: put_def overlay_def)
  have k: "length link - 1 < length z" "1 + (length link - 1) = length link" using l z by (cases link; simp)+
  have "z ! (length link - 1) = name ! length link"
    unfolding z_def using l k(2) by (subst nth_drop) (simp_all add: nth_append)
  then have "drop (length link - 1) z = name ! length link # drop (length link) z"
    using Cons_nth_drop_Suc [OF k(1)] k(2) by simp
  moreover have "drop (length link) z \<noteq> []" using l z by simp
  ultimately obtain y tail where t: "drop (length link - 1) z = name ! length link # y # tail" by (cases "drop (length link) z") auto
  have wr1: "wr (a @ link @ drop (length link - 1) z) (length a + length link + 1) 0 =
      Some (a @ link @ [name ! length link, 0] @ tail)"
    unfolding t by (simp add: wr_def list_update_append)
  have "nfs_readlink_reply (r @ junk) (of_nat (length r)) n =
      Some (0, nfs_st_update (\<lambda>v. v\<lparr>nfs_path_buff := a @ link @ [name ! length link, 0] @ tail\<rparr>) n)"
    using p w c cat len put1 wr1 l(2) u(2) v(1)
    by (simp add: nfs_readlink_reply_def rpc_accept_def rpc_failed_def rpc_refused_def)
  then show ?thesis by (auto simp: a_def)
qed

section \<open>Replies that end a transfer\<close>

text \<open>The result of reading the fixed part of a reply.\<close>

lemma read_reply_head:
  assumes "w = [i, t, rstatus, verifier, v2, astatus, status]" "72 < length r"
  shows "nfs_read_reply (be32s w @ r) len n =
    (if i \<noteq> rpc_id (nfs_st n) then Some (-1, n)
     else if rstatus \<noteq> 0 \<or> verifier \<noteq> 0 \<or> astatus \<noteq> 0 \<or> status \<noteq> 0
     then Some (if rstatus \<noteq> 0 \<or> astatus \<noteq> 0 then - 9999 else - status, n)
     else do { rlen \<leftarrow> NetReadLong r 68; n \<leftarrow> nfs_store_block (drop 72 r) (nfs_offset (nfs_st n)) rlen n; Some (rlen, n) })"
proof -
  have h: "window (be32s w @ r) 0 100 = Some (be32s w @ take 72 r)" using assms by (simp add: window_def)
  have "NetReadLong (be32s w @ take 72 r) 96 = NetReadLong r 68"
    using NetReadLong_after [of "be32s w" 28 "take 72 r" 68] assms
    by (simp add: NetReadLong_def window_def drop_take)
  moreover have "drop 100 (be32s w @ r) = drop 72 r" using assms by simp
  moreover have "length w = 7" "w ! 0 = i" "w ! 2 = rstatus" "w ! 3 = verifier" "w ! 5 = astatus" "w ! 6 = status"
    using assms(1) by simp_all
  ultimately show ?thesis using h by (simp add: nfs_read_reply_def reply_words)
qed

text \<open>
  A server whose verifier is not AUTH_NONE ends every transfer at once, as if the file were complete; a
  repeated or late reply ends it with a failure.
\<close>

lemma nfs_verifier_ends_transfer:
  assumes "verifier \<noteq> 0" "72 < length r"
  shows "nfs_read_reply (be32s [rpc_id (nfs_st n), 1, 0, verifier, v2, 0, 0] @ r) len n = Some (0, n)"
  using assms by (simp add: read_reply_head)

lemma nfs_stale_reply_fails:
  assumes "i \<noteq> rpc_id (nfs_st n)" "72 < length r"
  shows "nfs_read_reply (be32s [i, t, rstatus, verifier, v2, astatus, status] @ r) len n = Some (-1, n)"
  using assms by (simp add: read_reply_head)

text \<open>The count of a reply is not compared with the length of the packet.\<close>

lemma nfs_count_unchecked:
  assumes "length attr = 68" "b \<noteq> []" "length b < unat rlen"
  shows "nfs_read_reply (be32s [rpc_id (nfs_st n), 1, 0, 0, 0, 0, 0] @ attr @ be32 rlen @ b) len n = None"
proof -
  have "NetReadLong (attr @ be32 rlen @ b) 68 = Some rlen"
    using NetReadLong_after [of attr 68 "be32 rlen @ b" 0] assms by simp
  then show ?thesis using assms by (simp add: read_reply_head nfs_store_block_def window_def)
qed

end
