(* ===== verification/Bootp.thy ===== *)
theory Bootp
  imports Nfs
begin

text \<open>
  BOOTP and DHCP (\<open>net/bootp.c\<close>) and RARP (\<open>net/rarp.c\<close>), as configured: with \<open>CFG_CMD_DHCP\<close> the command
  \<open>bootp\<close> also sends DHCPDISCOVER. A packet \<open>Bootp_t\<close> is a list of bytes with \<open>bp_id\<close> at 4, the
  addresses from 12, \<open>bp_chaddr\<close> at 28, \<open>bp_file\<close> at 108 and \<open>bp_vend\<close> at 236.
\<close>

section \<open>Packets received\<close>

abbreviation (input) BOOTP_VENDOR_MAGIC :: u32 where "BOOTP_VENDOR_MAGIC \<equiv> 0x63825363"
abbreviation (input) PORT_BOOTPS :: u32 where "PORT_BOOTPS \<equiv> 67"
abbreviation (input) PORT_BOOTPC :: u32 where "PORT_BOOTPC \<equiv> 68"
abbreviation (input) OPT_SIZE :: nat where "OPT_SIZE \<equiv> 312"
abbreviation (input) BOOTP_HDR_SIZE :: nat where "BOOTP_HDR_SIZE \<equiv> 548"
abbreviation (input) BOOTP_SIZE :: nat where "BOOTP_SIZE \<equiv> 590"
abbreviation (input) OP_BOOTREQUEST :: byte where "OP_BOOTREQUEST \<equiv> 1"
abbreviation (input) OP_BOOTREPLY :: byte where "OP_BOOTREPLY \<equiv> 2"
abbreviation (input) HWT_ETHER :: byte where "HWT_ETHER \<equiv> 1"
abbreviation (input) HWL_ETHER :: byte where "HWL_ETHER \<equiv> 6"
abbreviation (input) DHCP_DISCOVER :: byte where "DHCP_DISCOVER \<equiv> 1"
abbreviation (input) DHCP_OFFER :: byte where "DHCP_OFFER \<equiv> 2"
abbreviation (input) DHCP_REQUEST :: byte where "DHCP_REQUEST \<equiv> 3"
abbreviation (input) DHCP_ACK :: byte where "DHCP_ACK \<equiv> 5"
abbreviation (input) DHCP_NAK :: byte where "DHCP_NAK \<equiv> 6"
abbreviation (input) SELECT_TIMEOUT :: u32 where "SELECT_TIMEOUT \<equiv> 3"
abbreviation (input) BOOTP_TIMEOUT_COUNT :: nat where "BOOTP_TIMEOUT_COUNT \<equiv> 5"

definition BootpCheckPkt :: "bytes option \<Rightarrow> u32 \<Rightarrow> u32 \<Rightarrow> u32 \<Rightarrow> net \<Rightarrow> int option" where
  "BootpCheckPkt pkt dest src len n =
     (if dest \<noteq> PORT_BOOTPC \<or> src \<noteq> PORT_BOOTPS then Some (-1)
      else if len < of_nat (BOOTP_HDR_SIZE - OPT_SIZE) then Some (-2)
      else do {
        bp \<leftarrow> pkt;
        bp_op \<leftarrow> rd bp 0;
        if bp_op \<notin> {OP_BOOTREQUEST, OP_BOOTREPLY, DHCP_OFFER, DHCP_ACK, DHCP_NAK} then Some (-3)
        else do {
          htype \<leftarrow> rd bp 1;
          if htype \<noteq> HWT_ETHER then Some (-4)
          else do {
            hlen \<leftarrow> rd bp 2;
            if hlen \<noteq> HWL_ETHER then Some (-5)
            else do { i \<leftarrow> NetReadLong bp 4; Some (if i \<noteq> BootpID (bootp_st n) then -6 else 0) } } } })"

definition BootpCopyNetParams :: "bytes \<Rightarrow> net \<Rightarrow> net option" where
  "BootpCopyNetParams bp n = do {
     yiaddr \<leftarrow> NetReadIP bp 16;
     siaddr \<leftarrow> NetReadIP bp 20;
     mac \<leftarrow> window (NetRxPkt n) 6 6;
     l \<leftarrow> strlen (drop 108 bp);
     b \<leftarrow> (if l > 0 then copy_filename (BootFile (nub n)) (drop 108 bp) (int (length (BootFile (nub n))))
          else Some (BootFile (nub n)));
     c \<leftarrow> rd b 0;
     let u = (nub n)\<lparr>BootFile := b\<rparr>;
     u \<leftarrow> (if c \<noteq> 0 then setenv (cstr (str ''bootfile'')) (Some b) u else Some u);
     Some (n\<lparr>nub := u, NetOurIP := yiaddr, NetServerIP := (if siaddr \<noteq> 0 then siaddr else NetServerIP n),
       NetServerEther := mac\<rparr>) }"

definition truncate_sz :: "nat \<Rightarrow> nat \<Rightarrow> nat" where
  "truncate_sz maxlen curlen = (if curlen \<ge> maxlen then maxlen - 1 else curlen)"

section \<open>Options\<close>

text \<open>An option that is stored as a string: \<open>size\<close> bytes from \<open>i\<close> on, and a terminator.\<close>

definition opt_string :: "bytes \<Rightarrow> nat \<Rightarrow> nat \<Rightarrow> bytes \<Rightarrow> bytes option" where
  "opt_string bp i oplen buf = do {
     let size = truncate_sz (length buf) oplen;
     s \<leftarrow> window bp i size;
     buf \<leftarrow> put buf 0 s;
     wr buf size 0 }"

text \<open>The option \<open>opt\<close> at \<open>popt\<close>. The boot file of the packet itself may be filled in.\<close>

definition dhcp_option :: "byte \<Rightarrow> nat \<Rightarrow> nat \<Rightarrow> bytes \<Rightarrow> net \<Rightarrow> (bytes \<times> net) option" where
  "dhcp_option opt oplen popt bp n =
     (if opt = 1 then do { ip \<leftarrow> NetReadIP bp (popt + 2); Some (bp, n\<lparr>NetOurSubnetMask := ip\<rparr>) }
      else if opt = 3 then do { ip \<leftarrow> NetReadIP bp (popt + 2); Some (bp, n\<lparr>NetOurGatewayIP := ip\<rparr>) }
      else if opt = 6 then do {
        ip \<leftarrow> NetReadIP bp (popt + 2);
        Some (bp, bootp_st_update (\<lambda>b. b\<lparr>NetOurDNSIP := ip\<rparr>) n) }
      else if opt = 12 then do {
        s \<leftarrow> opt_string bp (popt + 2) oplen (NetOurHostName (bootp_st n));
        Some (bp, bootp_st_update (\<lambda>b. b\<lparr>NetOurHostName := s\<rparr>) n) }
      else if opt = 17 then do {
        s \<leftarrow> opt_string bp (popt + 2) oplen (NetOurRootPath (bootp_st n));
        Some (bp, bootp_st_update (\<lambda>b. b\<lparr>NetOurRootPath := s\<rparr>) n) }
      else if opt = 51 then do {
        t \<leftarrow> NetReadLong bp (popt + 2);
        Some (bp, bootp_st_update (\<lambda>b. b\<lparr>dhcp_leasetime := t\<rparr>) n) }
      else if opt = 54 then do {
        ip \<leftarrow> NetReadIP bp (popt + 2);
        Some (bp, bootp_st_update (\<lambda>b. b\<lparr>NetDHCPServerIP := ip\<rparr>) n) }
      else if opt = 67 then do {
        let size = truncate_sz 128 oplen;
        c \<leftarrow> rd bp 108;
        if c = 0 \<and> size > 0 then do {
          s \<leftarrow> window bp (popt + 2) size;
          bp \<leftarrow> put bp 108 s;
          bp \<leftarrow> wr bp (108 + size) 0;
          Some (bp, n) }
        else Some (bp, n) }
      else Some (bp, n))"

text \<open>The loop from \<open>popt\<close> to \<open>fin\<close>, which is the size of a whole \<open>Bootp_t\<close> behind the first option.\<close>

function dhcp_options :: "nat \<Rightarrow> nat \<Rightarrow> bytes \<Rightarrow> net \<Rightarrow> (bytes \<times> net) option" where
  "dhcp_options popt fin bp n =
     (if popt < fin then do {
        opt \<leftarrow> rd bp popt;
        if opt = 0xff then Some (bp, n)
        else do {
          oplen \<leftarrow> rd bp (popt + 1);
          (bp, n) \<leftarrow> dhcp_option opt (unat oplen) popt bp n;
          dhcp_options (popt + unat oplen + 2) fin bp n } }
      else Some (bp, n))"
  by pat_completeness auto
termination by (relation "measure (\<lambda>(popt, fin, _). fin - popt)") auto

declare dhcp_options.simps [simp del]

definition DhcpOptionsProcess :: "nat \<Rightarrow> bytes \<Rightarrow> net \<Rightarrow> (bytes \<times> net) option" where
  "DhcpOptionsProcess popt bp n = dhcp_options popt (popt + BOOTP_HDR_SIZE) bp n"

text \<open>The options if the magic cookie is there.\<close>

definition vendor_options :: "bytes \<Rightarrow> net \<Rightarrow> (bytes \<times> net) option" where
  "vendor_options bp n = do {
     magic \<leftarrow> NetReadLong bp 236;
     if magic = BOOTP_VENDOR_MAGIC then DhcpOptionsProcess 240 bp n else Some (bp, n) }"

function dhcp_scan :: "bytes \<Rightarrow> nat \<Rightarrow> int option" where
  "dhcp_scan m popt = do {
     opt \<leftarrow> rd m popt;
     if opt = 0xff then Some (-1)
     else if opt = 53 then map_option uint (rd m (popt + 2))
     else do { oplen \<leftarrow> rd m (popt + 1); dhcp_scan m (popt + unat oplen + 2) } }"
  by pat_completeness auto
termination by (relation "measure (\<lambda>(m, popt). length m - popt)") (auto simp: rd_eq_Some)

declare dhcp_scan.simps [simp del]

definition DhcpMessageType :: "bytes \<Rightarrow> nat \<Rightarrow> int option" where
  "DhcpMessageType m popt = do {
     magic \<leftarrow> NetReadLong m popt;
     if magic \<noteq> BOOTP_VENDOR_MAGIC then Some (-1) else dhcp_scan m (popt + 4) }"

text \<open>The options of a request, padded to the minimal length.\<close>

definition DhcpExtended :: "byte \<Rightarrow> u32 \<Rightarrow> u32 \<Rightarrow> bytes" where
  "DhcpExtended message_type ServerID RequestedIP =
     (let e = [99, 130, 83, 99, 53, 1, message_type, 57, 2] @ be16 (of_nat (576 - 312 + OPT_SIZE)) @
            (if ServerID \<noteq> 0 then [54, 4] @ be32 ServerID else []) @
            (if RequestedIP \<noteq> 0 then [50, 4] @ be32 RequestedIP else []) @
            [55, 4, 1, 3, 12, 17, 255]
      in e @ replicate (64 + 1 - length e) 0)"

section \<open>Requests\<close>

text \<open>
  What \<open>BootpRequest\<close> and \<open>DhcpSendRequestPkt\<close> have in common: a packet with identifier, addresses, boot
  file if there is one and options, under IP and Ethernet headers for the broadcast address, and
  the length that is sent.
\<close>

definition bootp_packet :: "u32 \<Rightarrow> u32 list \<Rightarrow> bytes option \<Rightarrow> bytes \<Rightarrow> net \<Rightarrow> (bytes \<times> nat) option" where
  "bootp_packet bp_id addrs bfile ext n = do {
     pkt \<leftarrow> put (NetTxPacket n) 0 (replicate 1518 0);
     (k, pkt) \<leftarrow> NetSetEther (NetOurVLAN n) (NetOurEther n) pkt NetBcastAddr PROT_IP;
     let bp = k + IP_HDR_SIZE;
     pkt \<leftarrow> put pkt bp [OP_BOOTREQUEST, HWT_ETHER, HWL_ETHER, 0];
     pkt \<leftarrow> put pkt (bp + 8) (be16 (ucast (now n div CFG_HZ)));
     pkt \<leftarrow> put pkt (bp + 12) (be32s addrs);
     chaddr \<leftarrow> window (NetOurEther n) 0 6;
     pkt \<leftarrow> put pkt (bp + 28) chaddr;
     pkt \<leftarrow> (case bfile of
         None \<Rightarrow> Some pkt
       | Some b \<Rightarrow> do {
           f \<leftarrow> window pkt (bp + 108) 128;
           f \<leftarrow> copy_filename f b 128;
           put pkt (bp + 108) f });
     pkt \<leftarrow> put pkt (bp + 4) (be32 bp_id);
     pkt \<leftarrow> put pkt (bp + 236) ext;
     let pktlen = BOOTP_SIZE - OPT_SIZE + length ext;
     let iplen = BOOTP_HDR_SIZE - OPT_SIZE + length ext;
     pkt \<leftarrow> NetSetIP (NetOurIP n) (NetIPID n) pkt k 0xffffffff PORT_BOOTPS PORT_BOOTPC iplen;
     Some (pkt, pktlen) }"

definition bootp_send :: "u32 \<Rightarrow> u32 list \<Rightarrow> bytes option \<Rightarrow> bytes \<Rightarrow> net \<Rightarrow> net option" where
  "bootp_send bp_id addrs bfile ext n = do {
     (pkt, pktlen) \<leftarrow> bootp_packet bp_id addrs bfile ext n;
     NetSendPacket pkt pktlen (n\<lparr>NetTxPacket := pkt, NetIPID := NetIPID n + 1\<rparr>) }"

definition BootpRequest :: "net \<Rightarrow> net option" where
  "BootpRequest n = do {
     e \<leftarrow> window (NetOurEther n) 2 4;
     let i = of_be32 e + now n;
     let n = bootp_st_update (\<lambda>b. b\<lparr>BootpTry := BootpTry b + 1, BootpID := i, dhcp_state := SELECTING\<rparr>) n;
     let n = NetSetHandler DhcpHandler_h (NetSetTimeout (SELECT_TIMEOUT * CFG_HZ) BootpTimeout_t n);
     bootp_send i [0, 0, 0, 0] (Some (BootFile (nub n))) (DhcpExtended DHCP_DISCOVER 0 0) n }"

definition DhcpRequest :: "net \<Rightarrow> net option" where
  "DhcpRequest n = BootpRequest n"

definition BootpTimeout :: "net \<Rightarrow> net option" where
  "BootpTimeout n =
     (if BootpTry (bootp_st n) \<ge> BOOTP_TIMEOUT_COUNT then NetStartAgain n
      else BootpRequest (NetSetTimeout (TIMEOUT * CFG_HZ) BootpTimeout_t n))"

definition DhcpSendRequestPkt :: "bytes \<Rightarrow> net \<Rightarrow> net option" where
  "DhcpSendRequestPkt bp n = do {
     ciaddr \<leftarrow> NetReadIP bp 12; yiaddr \<leftarrow> NetReadIP bp 16; siaddr \<leftarrow> NetReadIP bp 20; giaddr \<leftarrow> NetReadIP bp 24;
     i \<leftarrow> NetReadLong bp 4;
     bootp_send i [ciaddr, yiaddr, siaddr, giaddr] None
       (DhcpExtended DHCP_REQUEST (NetDHCPServerIP (bootp_st n)) yiaddr) n }"

section \<open>The DHCP client\<close>

text \<open>The variable \<open>autoload\<close>: \<open>n...\<close> only configures, \<open>NFS\<close> starts the NFS client.\<close>

definition obey_autoload :: "(net \<Rightarrow> net option) \<Rightarrow> net \<Rightarrow> net option" where
  "obey_autoload otherwise n = do {
     s \<leftarrow> getenv_ptr ''autoload'' (nub n);
     (case s of
        None \<Rightarrow> otherwise n
      | Some s \<Rightarrow> do {
          c \<leftarrow> rd s 0;
          if c = ch (CHR ''n'') then Some (n\<lparr>NetState := NETLOOP_SUCCESS\<rparr>)
          else do {
            nfs \<leftarrow> streq s (cstr (str ''NFS''));
            if nfs then NfsStart n else otherwise n } }) }"

definition DhcpHandler :: "bytes option \<Rightarrow> u32 \<Rightarrow> u32 \<Rightarrow> u32 \<Rightarrow> net \<Rightarrow> net option" where
  "DhcpHandler pkt dest src len n = do {
     r \<leftarrow> BootpCheckPkt pkt dest src len n;
     if r \<noteq> 0 then Some n
     else do {
       bp \<leftarrow> pkt;
       (case dhcp_state (bootp_st n) of
          SELECTING \<Rightarrow> do {
            (bp, n) \<leftarrow> vendor_options bp (bootp_st_update (\<lambda>b. b\<lparr>dhcp_state := REQUESTING\<rparr>) n);
            n \<leftarrow> BootpCopyNetParams bp n;
            DhcpSendRequestPkt bp (NetSetTimeout (TIMEOUT * CFG_HZ) BootpTimeout_t n) }
        | REQUESTING \<Rightarrow> do {
            t \<leftarrow> DhcpMessageType bp 236;
            if t = uint DHCP_ACK then do {
              (bp, n) \<leftarrow> vendor_options bp n;
              n \<leftarrow> BootpCopyNetParams bp n;
              obey_autoload (\<lambda>n. Some (n\<lparr>NetState := NETLOOP_SUCCESS\<rparr>))
                (bootp_st_update (\<lambda>b. b\<lparr>dhcp_state := BOUND\<rparr>) n) }
            else Some n }
        | _ \<Rightarrow> Some n) } }"

section \<open>RARP\<close>

definition RarpHandler :: "net \<Rightarrow> net option" where
  "RarpHandler n = obey_autoload TftpStart n"

definition RarpRequest :: "net \<Rightarrow> net option" where
  "RarpRequest n = do {
     (k, pkt) \<leftarrow> NetSetEther (NetOurVLAN n) (NetOurEther n) (NetTxPacket n) NetBcastAddr PROT_RARP;
     ours \<leftarrow> window (NetOurEther n) 0 6;
     pkt \<leftarrow> put pkt k (be16 1 @ be16 PROT_IP @ [6, 4] @ be16 3 @ ours @ be32 (NetOurIP n) @ ours @ replicate 4 0xff);
     n \<leftarrow> NetSendPacket pkt (k + ARP_HDR_SIZE) (n\<lparr>NetTxPacket := pkt, RarpTry := RarpTry n + 1\<rparr>);
     Some (NetSetHandler RarpHandler_h (NetSetTimeout (TIMEOUT * CFG_HZ) RarpTimeout_t n)) }"

definition RarpTimeout :: "net \<Rightarrow> net option" where
  "RarpTimeout n =
     (if RarpTry n \<ge> BOOTP_TIMEOUT_COUNT then NetStartAgain n
      else RarpRequest (NetSetTimeout (TIMEOUT * CFG_HZ) RarpTimeout_t n))"

section \<open>Options as a list\<close>

text \<open>Options with their data, their encoding, and what each of them means for the boot file and the state.\<close>

type_synonym dhcp_opt = "byte \<times> bytes"

definition enc_opts :: "dhcp_opt list \<Rightarrow> bytes" where
  "enc_opts opts = concat (map (\<lambda>(c, d). c # of_nat (length d) # d) opts)"

definition ok_opt :: "dhcp_opt \<Rightarrow> bool" where
  "ok_opt = (\<lambda>(c, d). c \<noteq> 0xff \<and> length d \<le> 255 \<and> (c \<in> {1, 3, 6, 51, 54} \<longrightarrow> 4 \<le> length d))"

definition store_string :: "bytes \<Rightarrow> bytes \<Rightarrow> bytes" where
  "store_string buf d = (let s = take (length buf - 1) d in s @ 0 # drop (length s + 1) buf)"

definition dhcp_set :: "dhcp_opt \<Rightarrow> bytes \<times> net \<Rightarrow> bytes \<times> net" where
  "dhcp_set = (\<lambda>(c, d) (bfile, n).
     if c = 67 then (if hd bfile = 0 \<and> d \<noteq> [] then store_string bfile d else bfile, n)
     else (bfile,
       if c = 1 then n\<lparr>NetOurSubnetMask := of_be32 (take 4 d)\<rparr>
       else if c = 3 then n\<lparr>NetOurGatewayIP := of_be32 (take 4 d)\<rparr>
       else if c = 6 then bootp_st_update (\<lambda>b. b\<lparr>NetOurDNSIP := of_be32 (take 4 d)\<rparr>) n
       else if c = 12 then bootp_st_update (\<lambda>b. b\<lparr>NetOurHostName := store_string (NetOurHostName b) d\<rparr>) n
       else if c = 17 then bootp_st_update (\<lambda>b. b\<lparr>NetOurRootPath := store_string (NetOurRootPath b) d\<rparr>) n
       else if c = 51 then bootp_st_update (\<lambda>b. b\<lparr>dhcp_leasetime := of_be32 (take 4 d)\<rparr>) n
       else if c = 54 then bootp_st_update (\<lambda>b. b\<lparr>NetDHCPServerIP := of_be32 (take 4 d)\<rparr>) n
       else n))"

text \<open>Buffers of the sizes the code declares.\<close>

definition bootp_ok :: "bootp_vars \<Rightarrow> bool" where
  "bootp_ok b \<longleftrightarrow> length (NetOurHostName b) = 32 \<and> length (NetOurRootPath b) = 64 \<and> length (NetOurNISDomain b) = 32"

lemma store_string_length [simp]: "buf \<noteq> [] \<Longrightarrow> length (store_string buf d) = length buf"
  by (cases buf) (auto simp: store_string_def Let_def)

lemma put_wr_store:
  assumes "buf \<noteq> []"
  shows "do { m \<leftarrow> put buf 0 (take (truncate_sz (length buf) (length d)) d); wr m (truncate_sz (length buf) (length d)) 0 } =
    Some (store_string buf d)"
proof -
  let ?k = "truncate_sz (length buf) (length d)"
  have k: "?k < length buf" "take ?k d = take (length buf - 1) d" "length (take ?k d) = ?k"
    using assms by (auto simp: truncate_sz_def neq_Nil_conv)
  then have "put buf 0 (take ?k d) = Some (take ?k d @ drop ?k buf)" by (simp add: put_front)
  moreover have "wr (take ?k d @ drop ?k buf) ?k 0 = Some (take ?k d @ 0 # drop (Suc ?k) buf)"
    using k by (simp add: wr_def list_update_append) (metis Cons_nth_drop_Suc list_update_code(2))
  ultimately show ?thesis using k by (simp add: store_string_def Let_def)
qed

lemma opt_string_eq:
  assumes "bp = a @ d @ r" "length a = i" "buf \<noteq> []"
  shows "opt_string bp i (length d) buf = Some (store_string buf d)"
proof -
  have "truncate_sz (length buf) (length d) \<le> length d" by (auto simp: truncate_sz_def)
  then have "window bp i (truncate_sz (length buf) (length d)) = Some (take (truncate_sz (length buf) (length d)) d)"
    using assms by (simp add: window_def)
  then show ?thesis using put_wr_store [OF assms(3)] by (simp add: opt_string_def Let_def)
qed

lemma opt_word:
  assumes "bp = a @ d @ r" "length a = i" "4 \<le> length d"
  shows "NetReadIP bp i = Some (of_be32 (take 4 d))" "NetReadLong bp i = Some (of_be32 (take 4 d))"
  using assms by (simp_all add: NetReadIP_def NetReadLong_def window_def)

lemma put_middle:
  assumes "length h = k" "length w \<le> length m"
  shows "put (h @ m @ r) k w = Some (h @ overlay m 0 w @ r)"
  using assms by (auto simp: put_def overlay_def)

lemma bfile_option:
  assumes "bp = h @ bfile @ a @ c # l # d @ r" "length h = 108" "length bfile = 128" "popt = 236 + length a"
  shows "dhcp_option 67 (length d) popt bp n =
    Some (h @ (if hd bfile = 0 \<and> d \<noteq> [] then store_string bfile d else bfile) @ a @ c # l # d @ r, n)"
proof -
  let ?k = "truncate_sz 128 (length d)"
  have k: "?k < 128" "?k \<le> length d" by (auto simp: truncate_sz_def)
  have "window bp (popt + 2) ?k = Some (take ?k d)" using assms k by (simp add: window_def)
  moreover have "rd bp 108 = Some (hd bfile)" using assms by (cases bfile) (simp_all add: rd_def nth_append)
  moreover have "put bp 108 (take ?k d) = Some (h @ overlay bfile 0 (take ?k d) @ a @ c # l # d @ r)"
    using assms k by (simp add: put_middle)
  moreover have "wr (h @ overlay bfile 0 (take ?k d) @ a @ c # l # d @ r) (108 + ?k) 0 =
      Some (h @ store_string bfile d @ a @ c # l # d @ r)"
  proof -
    have b: "bfile \<noteq> []" using assms by auto
    then have "wr (overlay bfile 0 (take ?k d)) ?k 0 = Some (store_string bfile d)"
      using put_wr_store [OF b, of d] assms(3) k by (simp add: put_def)
    then show ?thesis using assms k by (simp add: wr_append wr_def list_update_append split: if_splits)
  qed
  moreover have "?k > 0 \<longleftrightarrow> d \<noteq> []" by (auto simp: truncate_sz_def)
  ultimately show ?thesis using assms(1) by (simp add: dhcp_option_def Let_def)
qed

lemma dhcp_option_eq:
  assumes b: "bp = h @ bfile @ a @ c # l # d @ r" "length h = 108" "length bfile = 128" "popt = 236 + length a"
    and ok: "ok_opt (c, d)" "bootp_ok (bootp_st n)" and s: "dhcp_set (c, d) (bfile, n) = (bfile', n')"
  shows "dhcp_option c (length d) popt bp n = Some (h @ bfile' @ a @ c # l # d @ r, n')"
proof (cases "c = 67")
  case True
  then show ?thesis using bfile_option [OF b, of n] s by (simp add: dhcp_set_def)
next
  case False
  have e: "bp = (h @ bfile @ a @ [c, l]) @ d @ r" "length (h @ bfile @ a @ [c, l]) = popt + 2" using b by simp_all
  have v: "c \<in> {1, 3, 6, 51, 54} \<Longrightarrow> NetReadIP bp (popt + 2) = Some (of_be32 (take 4 d))"
    "c \<in> {1, 3, 6, 51, 54} \<Longrightarrow> NetReadLong bp (popt + 2) = Some (of_be32 (take 4 d))"
    using opt_word [OF e] ok by (auto simp: ok_opt_def)
  have ne: "NetOurHostName (bootp_st n) \<noteq> []" "NetOurRootPath (bootp_st n) \<noteq> []" using ok by (auto simp: bootp_ok_def)
  have "\<exists>n'. dhcp_set (c, d) (bfile, n) = (bfile, n') \<and> dhcp_option c (length d) popt bp n = Some (bp, n')"
    unfolding dhcp_set_def dhcp_option_def using False v opt_string_eq [OF e ne(1)] opt_string_eq [OF e ne(2)]
    by (auto intro!: arg_cong2 [where f = bootp_st_update] split: if_splits)
  then show ?thesis using s b by auto
qed

lemma dhcp_set_ok:
  assumes "dhcp_set (c, d) (bfile, n) = (bfile', n')"
  shows "bootp_ok (bootp_st n) \<Longrightarrow> bootp_ok (bootp_st n')" "0 < length bfile \<Longrightarrow> length bfile' = length bfile"
proof -
  show "bootp_ok (bootp_st n')" if ok: "bootp_ok (bootp_st n)"
  proof -
    have "NetOurHostName (bootp_st n) \<noteq> []" "NetOurRootPath (bootp_st n) \<noteq> []" using ok by (auto simp: bootp_ok_def)
    then show ?thesis using assms ok by (auto simp: dhcp_set_def bootp_ok_def split: if_splits)
  qed
qed (use assms in \<open>auto simp: dhcp_set_def split: if_splits\<close>)

lemma dhcp_options_eq:
  assumes "bp = h @ bfile @ a @ enc_opts opts @ 0xff # rest" "length h = 108" "length bfile = 128"
    "popt = 236 + length a" "popt + length (enc_opts opts) < fin" "list_all ok_opt opts" "bootp_ok (bootp_st n)"
    "fold dhcp_set opts (bfile, n) = (bfile', n')"
  shows "dhcp_options popt fin bp n = Some (h @ bfile' @ a @ enc_opts opts @ 0xff # rest, n')"
  using assms
proof (induction opts arbitrary: bp bfile a popt n)
  case Nil
  have "rd bp popt = Some 0xff" using Nil.prems by (simp add: enc_opts_def rd_def nth_append)
  then show ?case using Nil.prems by (subst dhcp_options.simps) (simp add: enc_opts_def)
next
  case (Cons o' opts)
  obtain c d where cd: "o' = (c, d)" by (cases o')
  let ?l = "of_nat (length d) :: byte" and ?r = "enc_opts opts @ 0xff # rest"
  obtain bf n1 where s: "dhcp_set (c, d) (bfile, n) = (bf, n1)" by (cases "dhcp_set (c, d) (bfile, n)")
  have ok: "ok_opt (c, d)" "c \<noteq> 0xff" "length d < 256" using Cons.prems(6) by (auto simp: cd ok_opt_def)
  have l: "unat ?l = length d" using ok(3) by (simp add: unsigned_of_nat take_bit_nat_eq_self)
  have e: "enc_opts (o' # opts) = c # ?l # d @ enc_opts opts" by (simp add: enc_opts_def cd)
  have b: "bp = h @ bfile @ a @ c # ?l # d @ ?r" using Cons.prems(1) e by simp
  have x: "rd bp popt = Some c" "rd bp (popt + 1) = Some ?l" using Cons.prems b by (simp_all add: rd_def nth_append)
  have 1: "dhcp_option c (unat ?l) popt bp n = Some (h @ bf @ (a @ c # ?l # d) @ ?r, n1)"
    using dhcp_option_eq [OF b Cons.prems(2,3,4) ok(1) Cons.prems(7) s] l by simp
  have 2: "dhcp_options (popt + unat ?l + 2) fin (h @ bf @ (a @ c # ?l # d) @ ?r) n1 =
      Some (h @ bfile' @ (a @ c # ?l # d) @ ?r, n')"
    using Cons.prems dhcp_set_ok [OF s] l e s by (intro Cons.IH) (auto simp: cd)
  have "popt < fin" using Cons.prems by simp
  then show ?case using x ok 1 2 by (subst dhcp_options.simps) (simp add: e)
qed

text \<open>
  C8: the options of a DHCP packet. If the magic cookie is there and the options, however many, are
  followed by the end marker, then the loop sets what the list of options says, in order, and stops at
  the marker: mask, gateway, name server, host name and root path (cut to their buffers), lease and
  server, and the boot file only where the packet has none. Options that are not known are skipped.
\<close>

theorem dhcp_options_decode:
  assumes "length h = 108" "length bfile = 128" "length (enc_opts opts) < 548" "list_all ok_opt opts" "bootp_ok (bootp_st n)"
  shows "vendor_options (h @ bfile @ be32 BOOTP_VENDOR_MAGIC @ enc_opts opts @ 0xff # rest) n =
    (let (bfile', n') = fold dhcp_set opts (bfile, n)
     in Some (h @ bfile' @ be32 BOOTP_VENDOR_MAGIC @ enc_opts opts @ 0xff # rest, n'))"
proof -
  obtain bf n' where s: "fold dhcp_set opts (bfile, n) = (bf, n')" by (cases "fold dhcp_set opts (bfile, n)")
  let ?bp = "h @ bfile @ be32 BOOTP_VENDOR_MAGIC @ enc_opts opts @ 0xff # rest"
  have "NetReadLong ?bp 236 = Some BOOTP_VENDOR_MAGIC"
    using NetReadLong_after [of "h @ bfile" 236 "be32 BOOTP_VENDOR_MAGIC @ enc_opts opts @ 0xff # rest" 0] assms(1,2) by simp
  moreover have "dhcp_options 240 788 ?bp n = Some (h @ bf @ be32 BOOTP_VENDOR_MAGIC @ enc_opts opts @ 0xff # rest, n')"
    using assms s by (intro dhcp_options_eq [where bfile = bfile]) auto
  ultimately show ?thesis using s by (simp add: vendor_options_def DhcpOptionsProcess_def)
qed

theorem dhcp_options_decode_witness:
  "vendor_options (replicate 108 0 @ replicate 128 0 @ be32 BOOTP_VENDOR_MAGIC @ enc_opts [(53, [2]), (1, [255, 255, 255, 0])] @ [0xff])
     demo_net =
   Some (replicate 108 0 @ replicate 128 0 @ be32 BOOTP_VENDOR_MAGIC @ enc_opts [(53, [2]), (1, [255, 255, 255, 0])] @ [0xff],
     demo_net\<lparr>NetOurSubnetMask := 0xffffff00\<rparr>)"
  using dhcp_options_decode [of "replicate 108 0" "replicate 128 0" "[(53, [2]), (1, [255, 255, 255, 0])]" demo_net "[]"]
  by (simp add: enc_opts_def ok_opt_def bootp_ok_def demo_bootp_def dhcp_set_def of_be32_def)

section \<open>Packets sent\<close>

lemma put_eq: "put m i w = Some m' \<longleftrightarrow> i + length w \<le> length m \<and> m' = take i m @ w @ drop (i + length w) m"
  by (auto simp: put_def overlay_def)

lemma put_ok: "i + length w \<le> length m \<Longrightarrow> \<exists>m'. put m i w = Some m'"
  by (simp add: put_eq)

lemma put_length: "put m i w = Some m' \<Longrightarrow> length m' = length m"
  by (auto simp: put_eq)

lemma window_put_same: "put m i w = Some m' \<Longrightarrow> l = length w \<Longrightarrow> window m' i l = Some w"
  by (auto simp: put_eq window_def)

lemma window_put_other:
  assumes "put m i w = Some m'" "j + l \<le> i \<or> i + length w \<le> j"
  shows "window m' j l = window m j l"
proof (cases "j + l \<le> i")
  case True
  then have "take l (drop j (take i m @ z)) = take l (drop j m)" if "i \<le> length m" for z
    using that by (cases "l = 0") (auto simp: drop_take min_def)
  moreover obtain z where "m' = take i m @ z" "i \<le> length m" using assms(1) by (auto simp: put_eq)
  ultimately show ?thesis using put_length [OF assms(1)] by (simp only: window_def)
next
  case False
  then have "drop j m' = drop j m" using assms by (auto simp: put_eq)
  then show ?thesis using put_length [OF assms(1)] by (simp add: window_def)
qed

lemma copy_name_more: "nonul s \<Longrightarrow> copy_name dst i (s @ 0 # r) sz = copy_name dst i (s @ [0]) sz"
  by (induction s arbitrary: dst i sz) auto

lemma copy_filename_some:
  assumes "nonul s" "dst \<noteq> []" "int (length dst) = sz"
  shows "\<exists>dst'. copy_filename dst (s @ 0 # r) sz = Some dst' \<and> length dst' = length dst"
proof -
  have "copy_filename dst (s @ 0 # r) sz = copy_filename dst (s @ [0]) sz"
    using copy_name_more [OF assms(1), of _ _ r] copy_name_more [of "tl s" _ _ r] assms(1)
    by (cases s) (simp_all add: copy_filename_def)
  then show ?thesis using copy_filename_total [OF assms(1,2)] assms(3) by auto
qed

lemma DhcpExtended_length [simp]: "length (DhcpExtended t s r) = 65"
  by (simp add: DhcpExtended_def)

definition bfile_ok :: "bytes option \<Rightarrow> bool" where
  "bfile_ok b \<longleftrightarrow> (\<forall>f. b = Some f \<longrightarrow> (\<exists>s r. f = s @ 0 # r \<and> nonul s))"

text \<open>The packet under the headers.\<close>

definition request_ok :: "u32 \<Rightarrow> u32 list \<Rightarrow> bytes \<Rightarrow> bytes \<Rightarrow> bool" where
  "request_ok i addrs ext p \<longleftrightarrow> length p = 236 + length ext \<and> window p 0 4 = Some [1, 1, 6, 0] \<and>
     window p 4 4 = Some (be32 i) \<and> window p 12 16 = Some (be32s addrs) \<and> window p 236 (length ext) = Some ext"

lemma window_window: "j + l \<le> n \<Longrightarrow> window m i n = Some p \<Longrightarrow> window p j l = window m (i + j) l"
  by (auto simp: window_def drop_take add.commute min_def split: if_splits)

lemma put_chain:
  assumes "length m = n" "length w = l" "e = i + l" "e \<le> n"
  obtains m' where "put m i w = Some m'" "length m' = n" "window m' i l = Some w"
    "\<And>j l'. j + l' \<le> i \<or> e \<le> j \<Longrightarrow> window m' j l' = window m j l'"
proof -
  have "i + length w \<le> length m" using assms by simp
  then obtain m' where m': "put m i w = Some m'" using put_ok by blast
  have "length m' = n" "window m' i l = Some w" "\<And>j l'. j + l' \<le> i \<or> e \<le> j \<Longrightarrow> window m' j l' = window m j l'"
    using put_length [OF m'] window_put_same [OF m'] window_put_other [OF m'] assms by simp_all
  then show thesis by (rule that [OF m'])
qed

lemma bootp_bfile:
  assumes "bfile_ok bfile" "length m = 1536" "b \<le> 1300"
  obtains m' where "(case bfile of None \<Rightarrow> Some m
      | Some f \<Rightarrow> do { w \<leftarrow> window m b 128; w \<leftarrow> copy_filename w f 128; put m b w }) = Some m'" "length m' = 1536"
    "\<And>j l. j + l \<le> b \<or> b + 128 \<le> j \<Longrightarrow> window m' j l = window m j l"
proof (cases bfile)
  case None
  then show ?thesis using that [of m] assms by simp
next
  case (Some f)
  obtain s r where f: "f = s @ 0 # r" "nonul s" using assms(1) Some by (auto simp: bfile_ok_def)
  define w where "w = take 128 (drop b m)"
  have w: "window m b 128 = Some w" "length w = 128" using assms by (simp_all add: window_def w_def)
  obtain w' where w': "copy_filename w f 128 = Some w'" "length w' = 128"
    using copy_filename_some [of s w 128 r] f w by (cases w) auto
  obtain m' where m': "put m b w' = Some m'" "length m' = 1536" "window m' b 128 = Some w'"
    "\<And>j l. j + l \<le> b \<or> b + 128 \<le> j \<Longrightarrow> window m' j l = window m j l"
    by (rule put_chain [OF assms(2) w'(2), of "b + 128" b]) (use assms in simp_all)
  show ?thesis by (rule that [OF _ m'(2,4)]) (use Some w w' m' in simp_all)
qed

lemma bootp_packet_eq:
  assumes n: "net_ok n" and e: "length addrs = 4" "length ext \<le> 312" and f: "bfile_ok bfile"
  shows "\<exists>x p rest. bootp_packet i addrs bfile ext n =
      Some (eth_header (NetOurVLAN n) (NetOurEther n) NetBcastAddr PROT_IP @
        ip_udp_words (NetOurIP n) (NetIPID n) 0xffffffff PORT_BOOTPS PORT_BOOTPC (length p) x @ p @ rest, 278 + length ext) \<and>
    request_ok i addrs ext p \<and> NetEthHdrSize (NetOurVLAN n) + 28 + length p + length rest = 1536 \<and>
    (\<forall>t. NetCksumOk (ip_udp_words (NetOurIP n) (NetIPID n) 0xffffffff PORT_BOOTPS PORT_BOOTPC (length p) x @ t) 10 = Some True)"
proof -
  define k where "k = NetEthHdrSize (NetOurVLAN n)"
  define h where "h = eth_header (NetOurVLAN n) (NetOurEther n) NetBcastAddr PROT_IP"
  have k: "k \<le> 18" using NetEthHdrSize_le by (simp add: k_def)
  have ours: "length (NetOurEther n) = 6" and tx: "length (NetTxPacket n) = 1536" using n by (simp_all add: net_ok_def)
  have hl: "length h = k" using ours by (simp add: h_def k_def NetBcastAddr_def)
  obtain m0 where m0: "put (NetTxPacket n) 0 (replicate 1518 0) = Some m0" "length m0 = 1536"
    by (rule put_chain [OF tx, of "replicate 1518 0" 1518 1518 0]) simp_all
  define m1 where "m1 = h @ drop k m0"
  have m1: "NetSetEther (NetOurVLAN n) (NetOurEther n) m0 NetBcastAddr PROT_IP = Some (k, m1)" "length m1 = 1536"
    "window m1 0 k = Some h"
    using NetSetEther_eq [of "NetOurEther n" NetBcastAddr m0] ours m0 k hl
    by (simp_all add: m1_def h_def k_def NetBcastAddr_def window_def)
  obtain m2 where m2: "put m1 (k + 28) [1, 1, 6, 0] = Some m2" "length m2 = 1536" "window m2 (k + 28) 4 = Some [1, 1, 6, 0]"
    "\<And>j l. j + l \<le> k + 28 \<or> k + 32 \<le> j \<Longrightarrow> window m2 j l = window m1 j l"
    by (rule put_chain [OF m1(2), of "[1, 1, 6, 0]" "4" "k + 32" "k + 28"]) (use k e ours in simp_all)
  obtain m3 where m3: "put m2 (k + 36) (be16 (ucast (now n div CFG_HZ))) = Some m3" "length m3 = 1536"
    "\<And>j l. j + l \<le> k + 36 \<or> k + 38 \<le> j \<Longrightarrow> window m3 j l = window m2 j l"
    by (rule put_chain [OF m2(2), of "be16 (ucast (now n div CFG_HZ))" "2" "k + 38" "k + 36"]) (use k e ours in simp_all)
  obtain m4 where m4: "put m3 (k + 40) (be32s addrs) = Some m4" "length m4 = 1536" "window m4 (k + 40) 16 = Some (be32s addrs)"
    "\<And>j l. j + l \<le> k + 40 \<or> k + 56 \<le> j \<Longrightarrow> window m4 j l = window m3 j l"
    by (rule put_chain [OF m3(2), of "be32s addrs" "16" "k + 56" "k + 40"]) (use k e ours in simp_all)
  obtain m5 where m5: "put m4 (k + 56) (NetOurEther n) = Some m5" "length m5 = 1536"
    "\<And>j l. j + l \<le> k + 56 \<or> k + 62 \<le> j \<Longrightarrow> window m5 j l = window m4 j l"
    by (rule put_chain [OF m4(2), of "NetOurEther n" "6" "k + 62" "k + 56"]) (use k e ours in simp_all)
  obtain m6 where m6: "(case bfile of None \<Rightarrow> Some m5 | Some f \<Rightarrow> do { w \<leftarrow> window m5 (k + 136) 128; w \<leftarrow> copy_filename w f 128;
      put m5 (k + 136) w }) = Some m6" "length m6 = 1536"
    "\<And>j l. j + l \<le> k + 136 \<or> k + 136 + 128 \<le> j \<Longrightarrow> window m6 j l = window m5 j l"
    by (rule bootp_bfile [OF f m5(2), of "k + 136"]) (use k in simp_all)
  obtain m7 where m7: "put m6 (k + 32) (be32 i) = Some m7" "length m7 = 1536" "window m7 (k + 32) 4 = Some (be32 i)"
    "\<And>j l. j + l \<le> k + 32 \<or> k + 36 \<le> j \<Longrightarrow> window m7 j l = window m6 j l"
    by (rule put_chain [OF m6(2), of "be32 i" "4" "k + 36" "k + 32"]) (use k e ours in simp_all)
  obtain m8 where m8: "put m7 (k + 264) ext = Some m8" "length m8 = 1536" "window m8 (k + 264) (length ext) = Some ext"
    "\<And>j l. j + l \<le> k + 264 \<or> k + 264 + length ext \<le> j \<Longrightarrow> window m8 j l = window m7 j l"
    by (rule put_chain [OF m7(2), of ext "length ext" "k + 264 + length ext" "k + 264"]) (use k e in simp_all)
  note keep = m8(4) m7(4) m6(3) m5(3) m4(4) m3(3) m2(4)
  have w: "window m8 0 k = Some h" "window m8 (k + 28) 4 = Some [1, 1, 6, 0]" "window m8 (k + 32) 4 = Some (be32 i)"
    "window m8 (k + 40) 16 = Some (be32s addrs)" "window m8 (k + 264) (length ext) = Some ext"
    using m1(3) m2(3) m4(3) m7(3) m8(3) by (simp_all add: keep)
  define p where "p = take (236 + length ext) (drop (k + 28) m8)"
  have p: "window m8 (k + 28) (236 + length ext) = Some p" "length p = 236 + length ext"
    using m8(2) k e by (simp_all add: p_def window_def)
  have t: "take k m8 = h" using w(1) k m8(2) by (simp add: window_def)
  have "k + 28 + length p + (if odd (length p) then 1 else 0) \<le> length m8" using p m8(2) k e by simp
  from NetSetIP_eq [OF this, of "NetOurIP n" "NetIPID n" "0xffffffff" PORT_BOOTPS PORT_BOOTPC]
  obtain x r where x: "NetSetIP (NetOurIP n) (NetIPID n) m8 k 0xffffffff PORT_BOOTPS PORT_BOOTPC (length p) =
      Some (h @ ip_udp_words (NetOurIP n) (NetIPID n) 0xffffffff PORT_BOOTPS PORT_BOOTPC (length p) x @ p @ r)"
    "length r = 1536 - (k + 28 + length p)"
    "\<forall>t. NetCksumOk (ip_udp_words (NetOurIP n) (NetIPID n) 0xffffffff PORT_BOOTPS PORT_BOOTPC (length p) x @ t) 10 = Some True"
    using t m8(2) p by (auto simp: p_def)
  have "bootp_packet i addrs bfile ext n = Some (h @ ip_udp_words (NetOurIP n) (NetIPID n) 0xffffffff PORT_BOOTPS PORT_BOOTPC
      (length p) x @ p @ r, 278 + length ext)"
    using m0(1) m1(1) m2(1) m3(1) m4(1) m5(1) m6(1) m7(1) m8(1) x(1) ours p(2)
    by (simp add: bootp_packet_def Let_def add.commute [of _ k] cong: option.case_cong)
  moreover have "request_ok i addrs ext p"
    using w(2-5) by (simp add: request_ok_def p(2) window_window [OF _ p(1)] add.commute [of _ k])
  moreover have "k + 28 + length p + length r = 1536" using x(2) p(2) k e by simp
  ultimately show ?thesis using x(3) unfolding h_def k_def by blast
qed

lemma bootp_send_eq:
  assumes n: "net_ok n" "\<not> no_devices n" and e: "length addrs = 4" "length ext \<le> 312" and f: "bfile_ok bfile"
  shows "\<exists>x p rest. bootp_send i addrs bfile ext n =
      Some (n\<lparr>NetTxPacket := eth_header (NetOurVLAN n) (NetOurEther n) NetBcastAddr PROT_IP @
          ip_udp_words (NetOurIP n) (NetIPID n) 0xffffffff PORT_BOOTPS PORT_BOOTPC (length p) x @ p @ rest,
        NetIPID := NetIPID n + 1,
        sent := sent n @ [take (278 + length ext) (eth_header (NetOurVLAN n) (NetOurEther n) NetBcastAddr PROT_IP @
          ip_udp_words (NetOurIP n) (NetIPID n) 0xffffffff PORT_BOOTPS PORT_BOOTPC (length p) x @ p)]\<rparr>) \<and>
    request_ok i addrs ext p \<and>
    (\<forall>t. NetCksumOk (ip_udp_words (NetOurIP n) (NetIPID n) 0xffffffff PORT_BOOTPS PORT_BOOTPC (length p) x @ t) 10 = Some True)"
proof -
  obtain x p rest where b: "bootp_packet i addrs bfile ext n =
      Some (eth_header (NetOurVLAN n) (NetOurEther n) NetBcastAddr PROT_IP @
        ip_udp_words (NetOurIP n) (NetIPID n) 0xffffffff PORT_BOOTPS PORT_BOOTPC (length p) x @ p @ rest, 278 + length ext)"
    "request_ok i addrs ext p" "NetEthHdrSize (NetOurVLAN n) + 28 + length p + length rest = 1536"
    "\<forall>t. NetCksumOk (ip_udp_words (NetOurIP n) (NetIPID n) 0xffffffff PORT_BOOTPS PORT_BOOTPC (length p) x @ t) 10 = Some True"
    using bootp_packet_eq [OF n(1) e f, of i] by blast
  have h: "length (eth_header (NetOurVLAN n) (NetOurEther n) NetBcastAddr PROT_IP) = NetEthHdrSize (NetOurVLAN n)"
    "14 \<le> NetEthHdrSize (NetOurVLAN n)"
    using n NetEthHdrSize_le by (simp_all add: net_ok_def NetBcastAddr_def)
  have p: "length p = 236 + length ext" using b(2) by (simp add: request_ok_def)
  show ?thesis using b p h e n(2)
    by (intro exI [of _ x] exI [of _ p] exI [of _ rest])
      (simp add: bootp_send_def NetSendPacket_def eth_send_def window_def)
qed

lemma BootpRequest_sends:
  assumes n: "net_ok n" "\<not> no_devices n" "BootFile (nub n) = s @ 0 # r" "nonul s"
  shows "\<exists>x p n'. BootpRequest n = Some n' \<and> dhcp_state (bootp_st n') = SELECTING \<and> packetHandler n' = Some DhcpHandler_h \<and>
    sent n' = sent n @ [take 343 (eth_header (NetOurVLAN n) (NetOurEther n) NetBcastAddr PROT_IP @
      ip_udp_words (NetOurIP n) (NetIPID n) 0xffffffff PORT_BOOTPS PORT_BOOTPC (length p) x @ p)] \<and>
    request_ok (BootpID (bootp_st n')) [0, 0, 0, 0] (DhcpExtended DHCP_DISCOVER 0 0) p \<and>
    (\<forall>t. NetCksumOk (ip_udp_words (NetOurIP n) (NetIPID n) 0xffffffff PORT_BOOTPS PORT_BOOTPC (length p) x @ t) 10 = Some True)"
proof -
  have f: "bfile_ok (Some (BootFile (nub n)))" using n by (auto simp: bfile_ok_def)
  obtain e where e: "window (NetOurEther n) 2 4 = Some e" using n by (simp add: net_ok_def window_def)
  define i where "i = of_be32 e + now n"
  define m where "m = NetSetHandler DhcpHandler_h (NetSetTimeout (SELECT_TIMEOUT * CFG_HZ) BootpTimeout_t
    (bootp_st_update (\<lambda>b. b\<lparr>BootpTry := BootpTry b + 1, BootpID := i, dhcp_state := SELECTING\<rparr>) n))"
  have m: "NetOurVLAN m = NetOurVLAN n" "NetOurEther m = NetOurEther n" "NetOurIP m = NetOurIP n" "NetIPID m = NetIPID n"
    "sent m = sent n" "nub m = nub n" "net_ok m" "dhcp_state (bootp_st m) = SELECTING" "BootpID (bootp_st m) = i"
    "packetHandler m = Some DhcpHandler_h"
    using n by (simp_all add: m_def NetSetHandler_def NetSetTimeout_def net_ok_def)
  have b: "BootpRequest n = bootp_send i [0, 0, 0, 0] (Some (BootFile (nub n))) (DhcpExtended DHCP_DISCOVER 0 0) m"
    by (simp only: BootpRequest_def e bind.bind_lunit Let_def i_def [symmetric] m_def [symmetric] m(6))
  have d: "\<not> no_devices m" "length [0, 0, 0, 0 :: u32] = 4" "length (DhcpExtended DHCP_DISCOVER 0 0) \<le> 312" using n m by simp_all
  obtain x p rest where x: "bootp_send i [0, 0, 0, 0] (Some (BootFile (nub n))) (DhcpExtended DHCP_DISCOVER 0 0) m =
      Some (m\<lparr>NetTxPacket := eth_header (NetOurVLAN n) (NetOurEther n) NetBcastAddr PROT_IP @
          ip_udp_words (NetOurIP n) (NetIPID n) 0xffffffff PORT_BOOTPS PORT_BOOTPC (length p) x @ p @ rest,
        NetIPID := NetIPID n + 1,
        sent := sent n @ [take (278 + length (DhcpExtended DHCP_DISCOVER 0 0)) (eth_header (NetOurVLAN n) (NetOurEther n) NetBcastAddr PROT_IP @
          ip_udp_words (NetOurIP n) (NetIPID n) 0xffffffff PORT_BOOTPS PORT_BOOTPC (length p) x @ p)]\<rparr>)"
    "request_ok i [0, 0, 0, 0] (DhcpExtended DHCP_DISCOVER 0 0) p"
    "\<forall>t. NetCksumOk (ip_udp_words (NetOurIP n) (NetIPID n) 0xffffffff PORT_BOOTPS PORT_BOOTPC (length p) x @ t) 10 = Some True"
    using bootp_send_eq [OF m(7) d f, of i] unfolding m(1-5) by blast
  show ?thesis unfolding b x(1) by (intro exI [of _ x] exI [of _ p]) (use x m in \<open>simp del: take_append\<close>)
qed

text \<open>
  C35: DHCP over a VLAN. \<open>BootpRequest\<close> broadcasts one frame of 343 bytes with a correct DHCPDISCOVER. The
  length is computed for a frame without VLAN: without one, every host in the network accepts
  the checksum and hands the packet to its handler; with one, the frame is four bytes shorter than its IP
  header says and every host drops it.
\<close>

theorem dhcp_discover_broadcast:
  assumes n: "net_ok n" "\<not> no_devices n" "BootFile (nub n) = s @ 0 # r" "nonul s"
    and peer: "NetOurVLAN q = NetOurVLAN n" "packetHandler q = Some h"
  shows "\<exists>n' f p. BootpRequest n = Some n' \<and> sent n' = sent n @ [f] \<and> length f = 343 \<and>
    request_ok (BootpID (bootp_st n')) [0, 0, 0, 0] (DhcpExtended DHCP_DISCOVER 0 0) p \<and>
    (\<forall>call. NetReceive call f 343 q =
       (if vlan_off (NetOurVLAN n) then call h (Some p) PORT_BOOTPS PORT_BOOTPC 301 (q\<lparr>NetRxPkt := f\<rparr>)
        else Some (q\<lparr>NetRxPkt := f\<rparr>)))"
proof -
  let ?k = "NetEthHdrSize (NetOurVLAN n)" and ?e = "eth_header (NetOurVLAN n) (NetOurEther n) NetBcastAddr PROT_IP"
  obtain x p n' where x: "BootpRequest n = Some n'" "sent n' = sent n @ [take 343 (?e @
      ip_udp_words (NetOurIP n) (NetIPID n) 0xffffffff PORT_BOOTPS PORT_BOOTPC (length p) x @ p)]"
    "request_ok (BootpID (bootp_st n')) [0, 0, 0, 0] (DhcpExtended DHCP_DISCOVER 0 0) p"
    "\<forall>t. NetCksumOk (ip_udp_words (NetOurIP n) (NetIPID n) 0xffffffff PORT_BOOTPS PORT_BOOTPC (length p) x @ t) 10 = Some True"
    using BootpRequest_sends [OF n] by blast
  let ?g = "ip_udp_words (NetOurIP n) (NetIPID n) 0xffffffff PORT_BOOTPS PORT_BOOTPC (length p) x"
  define f where "f = take 343 (?e @ ?g @ p)"
  have ours: "length (NetOurEther n) = 6" "length NetBcastAddr = 6" using n by (simp_all add: net_ok_def NetBcastAddr_def)
  have p: "length p = 301" using x(3) by (simp add: request_ok_def)
  have e: "length ?e = ?k" "?k \<le> 18" "14 \<le> ?k" using ours NetEthHdrSize_le by simp_all
  have f: "f = ?e @ ?g @ take (315 - ?k) p" "length f = 343" using e p by (simp_all add: f_def)
  have ll: "link_layer (NetOurVLAN n) f 343 = Some (Some (PROT_IP, ?k, 343 - int ?k,
      if vlan_off (NetOurVLAN n) then VLAN_NONE else my_vlan (NetOurVLAN n) AND VLAN_IDMASK))"
    unfolding f(1) using ours e by (intro link_layer_own) auto
  have r: "NetReceive call f 343 q = ip_receive call f ?k (343 - int ?k) (q\<lparr>NetRxPkt := f\<rparr>)" for call
    using ll peer vlan_match_own by (simp add: NetReceive_def)
  have "NetReceive call f 343 q =
       (if vlan_off (NetOurVLAN n) then call h (Some p) PORT_BOOTPS PORT_BOOTPC 301 (q\<lparr>NetRxPkt := f\<rparr>)
        else Some (q\<lparr>NetRxPkt := f\<rparr>))" for call
  proof (cases "vlan_off (NetOurVLAN n)")
    case True
    then have k: "?k = 14" by (simp add: NetEthHdrSize_def)
    then have "f = ?e @ ?g @ p @ []" using f p by simp
    then show ?thesis using ip_receive_udp [of f ?e "NetOurIP n" "NetIPID n" "0xffffffff" PORT_BOOTPS PORT_BOOTPC p x "[]" ?k
        "343 - int ?k" "q\<lparr>NetRxPkt := f\<rparr>" call] True e k p peer x(4) r by (simp add: call_handler_def)
  next
    case False
    then have k: "?k = 18" by (simp add: NetEthHdrSize_def)
    have "rd16 f (18 + 2) = rd16 (?g @ take (315 - ?k) p) 2"
      unfolding f(1) using rd16_after [of ?e 18 "?g @ take (315 - ?k) p" 2] e k by simp
    then have "rd16 f 20 = Some (of_nat 329)"
      using ip_fields(1) [OF refl, of "NetOurIP n" "NetIPID n" "0xffffffff" PORT_BOOTPS PORT_BOOTPC "length p" x "take (315 - ?k) p" "[]"] p
      by simp
    then show ?thesis using r False k by (simp add: ip_receive_def)
  qed
  then show ?thesis using x(1-3) f(2)
    by (intro exI [of _ n'] exI [of _ f] exI [of _ p]) (simp add: f_def del: take_append)
qed

theorem dhcp_discover_broadcast_witness:
  "\<exists>n' f. BootpRequest (demo_net\<lparr>NetOurVLAN := 5, nub := two_devs\<lparr>BootFile := cstr (str ''vmlinux'')\<rparr>\<rparr>) = Some n' \<and>
    sent n' = [f] \<and> NetReceive (\<lambda>h p d s l n. None) f 343 (demo_net\<lparr>NetOurVLAN := 5\<rparr>) =
      Some (demo_net\<lparr>NetOurVLAN := 5, NetRxPkt := f\<rparr>)"
proof -
  let ?n = "demo_net\<lparr>NetOurVLAN := 5, nub := two_devs\<lparr>BootFile := cstr (str ''vmlinux'')\<rparr>\<rparr>"
  have n: "net_ok ?n" "\<not> no_devices ?n" using demo_net_ok by (simp_all add: net_ok_def)
  have b: "BootFile (nub ?n) = str ''vmlinux'' @ 0 # []" "nonul (str ''vmlinux'')"
    by (simp_all add: cstr_def str_def ch_def nonul_def)
  have v: "\<not> vlan_off 5" by (simp add: vlan_off_def my_vlan_def)
  have q: "NetOurVLAN (demo_net\<lparr>NetOurVLAN := 5\<rparr>) = NetOurVLAN ?n" "packetHandler (demo_net\<lparr>NetOurVLAN := 5\<rparr>) = Some TftpHandler_h"
    by simp_all
  show ?thesis using dhcp_discover_broadcast [OF n b q] v by auto
qed

text \<open>
  C36: the pad option. The loop takes the byte behind a pad for its length: with a pad before the subnet
  mask, the loop lands on the first byte of the mask, which is 255 for every common mask, and stops.
  None of the options that follow is read, and if the message type is one of them, an acknowledgement is
  not recognised.
\<close>

theorem dhcp_pad_ends_options:
  assumes "length h = 236"
  shows "vendor_options (h @ be32 BOOTP_VENDOR_MAGIC @ 0 # enc_opts ((1, 255 # msk) # opts) @ rest) n =
      Some (h @ be32 BOOTP_VENDOR_MAGIC @ 0 # enc_opts ((1, 255 # msk) # opts) @ rest, n) \<and>
    DhcpMessageType (h @ be32 BOOTP_VENDOR_MAGIC @ 0 # enc_opts ((1, 255 # msk) # opts) @ rest) 236 = Some (-1)"
proof -
  let ?t = "0 # enc_opts ((1, 255 # msk) # opts) @ rest"
  let ?bp = "h @ be32 BOOTP_VENDOR_MAGIC @ ?t"
  have at: "rd ?bp (240 + i) = rd ?t i" for i using assms rd_after [of "h @ be32 BOOTP_VENDOR_MAGIC" 240 ?t i] by simp
  have t: "rd ?bp 240 = Some 0" "rd ?bp 241 = Some 1" "rd ?bp 243 = Some 255"
    using at [of 0] at [of 1] at [of 3] by (simp_all add: enc_opts_def rd_def)
  have m: "NetReadLong ?bp 236 = Some BOOTP_VENDOR_MAGIC"
    using NetReadLong_after [of h 236 "be32 BOOTP_VENDOR_MAGIC @ ?t" 0] assms by simp
  have "dhcp_option 0 1 240 ?bp n = Some (?bp, n)" by (simp add: dhcp_option_def)
  then have "dhcp_options 240 788 ?bp n = Some (?bp, n)"
    using t by (simp add: dhcp_options.simps [of 240] dhcp_options.simps [of 243])
  moreover have "dhcp_scan ?bp 240 = Some (-1)" using t by (simp add: dhcp_scan.simps [of _ 240] dhcp_scan.simps [of _ 243])
  ultimately show ?thesis using m by (simp add: vendor_options_def DhcpOptionsProcess_def DhcpMessageType_def)
qed

theorem dhcp_pad_ends_options_witness:
  "vendor_options (replicate 236 0 @ be32 BOOTP_VENDOR_MAGIC @ 0 # enc_opts [(1, [255, 255, 255, 0]), (53, [5])] @ [255]) demo_net =
   Some (replicate 236 0 @ be32 BOOTP_VENDOR_MAGIC @ 0 # enc_opts [(1, [255, 255, 255, 0]), (53, [5])] @ [255], demo_net)"
  by (rule dhcp_pad_ends_options [THEN conjunct1]) simp

section \<open>The exchange\<close>

lemma dhcp_scan_enc:
  assumes "m = a @ enc_opts (pre @ (53, t # d) # post) @ rest" "length a = popt" "list_all ok_opt pre" "53 \<notin> fst ` set pre"
  shows "dhcp_scan m popt = Some (uint t)"
  using assms
proof (induction pre arbitrary: a popt)
  case Nil
  have "rd m popt = Some 53" "rd m (popt + 2) = Some t" using Nil.prems by (simp_all add: enc_opts_def rd_def nth_append)
  then show ?case by (subst dhcp_scan.simps) simp
next
  case (Cons o' pre)
  obtain c e where c: "o' = (c, e)" by (cases o')
  have ok: "c \<noteq> 0xff" "c \<noteq> 53" "length e < 256" using Cons.prems by (auto simp: c ok_opt_def)
  have l: "unat (of_nat (length e) :: byte) = length e" using ok(3) by (simp add: unsigned_of_nat take_bit_nat_eq_self)
  have x: "rd m popt = Some c" "rd m (popt + 1) = Some (of_nat (length e))"
    using Cons.prems by (simp_all add: enc_opts_def c rd_def nth_append)
  have "dhcp_scan m (popt + length e + 2) = Some (uint t)"
    using Cons.prems by (intro Cons.IH [of "a @ c # of_nat (length e) # e"]) (auto simp: enc_opts_def c)
  then show ?case using x ok l by (subst dhcp_scan.simps) simp
qed

text \<open>What a list of options sets in the state; without option 67 the packet's boot file is left alone.\<close>

definition dhcp_config :: "dhcp_opt list \<Rightarrow> net \<Rightarrow> net" where
  "dhcp_config opts n = fold (\<lambda>opt n. snd (dhcp_set opt ([0], n))) opts n"

lemma fold_dhcp_set: "67 \<notin> fst ` set opts \<Longrightarrow> fold dhcp_set opts (bfile, n) = (bfile, dhcp_config opts n)"
proof (induction opts arbitrary: n)
  case (Cons opt opts)
  obtain c d where "opt = (c, d)" by (cases opt)
  then have "dhcp_set opt (bfile, n) = (bfile, snd (dhcp_set opt ([0], n)))" using Cons.prems by (simp add: dhcp_set_def)
  then show ?case using Cons by (simp add: dhcp_config_def)
qed (simp add: dhcp_config_def)

text \<open>The fields that options do not set.\<close>

lemma dhcp_set_frame:
  assumes "n' = snd (dhcp_set opt (b, n))"
  shows "nub n' = nub n" "NetOurEther n' = NetOurEther n" "NetServerIP n' = NetServerIP n" "NetRxPkt n' = NetRxPkt n" "net_ok n' = net_ok n"
    "dhcp_state (bootp_st n') = dhcp_state (bootp_st n)" "BootpID (bootp_st n') = BootpID (bootp_st n)" "sent n' = sent n"
    "NetOurVLAN n' = NetOurVLAN n" "bootp_ok (bootp_st n) \<Longrightarrow> bootp_ok (bootp_st n')" "NetState n' = NetState n"
    "bootp_st_update (\<lambda>v. v\<lparr>dhcp_state := s\<rparr>) n' = snd (dhcp_set opt (b, bootp_st_update (\<lambda>v. v\<lparr>dhcp_state := s\<rparr>) n))"
proof -
  obtain c d where o': "opt = (c, d)" by (cases opt)
  show "bootp_ok (bootp_st n')" if "bootp_ok (bootp_st n)"
    using dhcp_set_ok(1) [of c d b n _ n'] assms o' that by (metis prod.collapse)
qed (cases opt; simp add: assms dhcp_set_def net_ok_def comp_def)+

lemma dhcp_config_frame:
  "nub (dhcp_config opts n) = nub n" "NetServerIP (dhcp_config opts n) = NetServerIP n" "NetRxPkt (dhcp_config opts n) = NetRxPkt n"
  "net_ok (dhcp_config opts n) = net_ok n" "dhcp_state (bootp_st (dhcp_config opts n)) = dhcp_state (bootp_st n)"
  "BootpID (bootp_st (dhcp_config opts n)) = BootpID (bootp_st n)" "sent (dhcp_config opts n) = sent n"
  "bootp_ok (bootp_st n) \<Longrightarrow> bootp_ok (bootp_st (dhcp_config opts n))" "NetState (dhcp_config opts n) = NetState n"
  unfolding dhcp_config_def by (induction opts arbitrary: n) (simp_all add: dhcp_set_frame [OF refl])

text \<open>A packet of the server for this client: the fields before the boot file, an empty boot file, the options.\<close>

definition server_packet :: "net \<Rightarrow> bytes \<Rightarrow> dhcp_opt list \<Rightarrow> bytes \<Rightarrow> bool" where
  "server_packet n h opts bp \<longleftrightarrow> length h = 108 \<and> rd h 0 = Some OP_BOOTREPLY \<and> rd h 1 = Some HWT_ETHER \<and>
     rd h 2 = Some HWL_ETHER \<and> NetReadLong h 4 = Some (BootpID (bootp_st n)) \<and> list_all ok_opt opts \<and>
     67 \<notin> fst ` set opts \<and> length (enc_opts opts) < 548 \<and>
     (\<exists>f rest. length f = 127 \<and> bp = h @ (0 # f) @ be32 BOOTP_VENDOR_MAGIC @ enc_opts opts @ 0xff # rest)"

lemma window_front: "i + l \<le> length a \<Longrightarrow> window (a @ r) i l = window a i l"
  by (simp add: window_def)

lemma server_packetD:
  assumes "server_packet n h opts bp"
  shows "BootpCheckPkt (Some bp) PORT_BOOTPC PORT_BOOTPS len n = (if len < 236 then Some (-2) else Some 0)"
    "i + 4 \<le> 108 \<Longrightarrow> NetReadLong bp i = NetReadLong h i" "i + 4 \<le> 108 \<Longrightarrow> NetReadIP bp i = NetReadIP h i"
    "\<exists>r. drop 108 bp = 0 # r"
proof -
  obtain f rest where p: "length h = 108" "rd h 0 = Some OP_BOOTREPLY" "rd h 1 = Some HWT_ETHER" "rd h 2 = Some HWL_ETHER"
    "NetReadLong h 4 = Some (BootpID (bootp_st n))" and bp: "bp = h @ 0 # f @ be32 BOOTP_VENDOR_MAGIC @ enc_opts opts @ 0xff # rest"
    using assms by (auto simp: server_packet_def)
  show l: "i + 4 \<le> 108 \<Longrightarrow> NetReadLong bp i = NetReadLong h i" "i + 4 \<le> 108 \<Longrightarrow> NetReadIP bp i = NetReadIP h i" for i
    unfolding bp using p(1) by (simp_all add: NetReadLong_def NetReadIP_def window_front)
  have r: "rd bp i = rd h i" if "i < 108" for i using that p(1) bp rd_append1 by metis
  show "BootpCheckPkt (Some bp) PORT_BOOTPC PORT_BOOTPS len n = (if len < 236 then Some (-2) else Some 0)"
    using p l(1) [of 4] r [of 0] r [of 1] r [of 2] by (simp add: BootpCheckPkt_def)
  show "\<exists>r. drop 108 bp = 0 # r" using p(1) by (simp add: bp)
qed

lemma server_packet_options:
  assumes "server_packet n h opts bp" "bootp_ok (bootp_st m)"
  shows "vendor_options bp m = Some (bp, dhcp_config opts m)"
proof -
  obtain f rest where p: "length h = 108" "list_all ok_opt opts" "67 \<notin> fst ` set opts" "length (enc_opts opts) < 548" "length (0 # f) = 128"
    and bp: "bp = h @ (0 # f) @ be32 BOOTP_VENDOR_MAGIC @ enc_opts opts @ 0xff # rest"
    using assms(1) by (auto simp: server_packet_def)
  have "NetReadLong bp 236 = Some BOOTP_VENDOR_MAGIC"
    using NetReadLong_after [of "h @ 0 # f" 236 "be32 BOOTP_VENDOR_MAGIC @ enc_opts opts @ 0xff # rest" 0] p by (simp add: bp)
  moreover have "dhcp_options 240 788 bp m = Some (bp, dhcp_config opts m)"
    unfolding bp using p fold_dhcp_set [OF p(3), of "0 # f" m] assms(2)
    by (intro dhcp_options_eq [where bfile = "0 # f"]) auto
  ultimately show ?thesis by (simp add: vendor_options_def DhcpOptionsProcess_def)
qed

text \<open>What is taken from the packet itself, if it names no boot file and there is none yet.\<close>

definition take_params :: "u32 \<Rightarrow> u32 \<Rightarrow> net \<Rightarrow> net" where
  "take_params yi si n = n\<lparr>NetOurIP := yi, NetServerIP := (if si \<noteq> 0 then si else NetServerIP n),
     NetServerEther := take 6 (drop 6 (NetRxPkt n))\<rparr>"

lemma BootpCopyNetParams_eq:
  assumes "server_packet n h opts bp" "NetReadIP h 16 = Some yi" "NetReadIP h 20 = Some si"
    and "BootFile (nub m) = 0 # r" "12 \<le> length (NetRxPkt m)"
  shows "BootpCopyNetParams bp m = Some (take_params yi si m)"
proof -
  obtain z where "drop 108 bp = 0 # z" using server_packetD(4) [OF assms(1)] by blast
  then show ?thesis using assms(2-5) server_packetD(3) [OF assms(1), of 16] server_packetD(3) [OF assms(1), of 20]
    by (simp add: BootpCopyNetParams_def take_params_def window_def rd_def)
qed

lemma obey_autoload_success:
  assumes "env_ready (nub n) es" "map_of es (str ''autoload'') \<noteq> Some (str ''NFS'')"
  shows "obey_autoload (\<lambda>n. Some (n\<lparr>NetState := NETLOOP_SUCCESS\<rparr>)) n = Some (n\<lparr>NetState := NETLOOP_SUCCESS\<rparr>)"
proof -
  have nm: "ok_name (str ''autoload'')" by (simp add: ok_name_def str_def ch_def)
  have e: "env_mem (nub n) = env_data (nub n)" using env_readyD(1) [OF assms(1)] .
  show ?thesis
  proof (cases "map_of es (str ''autoload'')")
    case None
    then have "getenv (cstr (str ''autoload'')) (nub n) = Some None"
      using getenv_map_of [OF assms(1) nm, of "[]"] by (auto simp: cstr_def)
    then show ?thesis by (simp add: obey_autoload_def getenv_ptr_def)
  next
    case (Some v)
    obtain k r where k: "getenv (cstr (str ''autoload'')) (nub n) = Some (Some k)" "drop k (env_data (nub n)) = v @ 0 # r" "nonul v"
      using getenv_present [OF assms(1) nm Some, of "[]"] by (auto simp: cstr_def)
    have "nonul (str ''NFS'')" by (simp add: nonul_def str_def ch_def)
    then have "streq (v @ 0 # r) (cstr (str ''NFS'')) = Some False"
      using streq_cstr [OF k(3), of "str ''NFS''" r "[]"] assms(2) Some by (simp add: cstr_def)
    moreover have "\<exists>c. rd (v @ 0 # r) 0 = Some c" by (cases v) simp_all
    ultimately show ?thesis using k e by (auto simp: obey_autoload_def getenv_ptr_def)
  qed
qed

text \<open>The state after an offer, before the request is sent.\<close>

definition offered :: "dhcp_opt list \<Rightarrow> u32 \<Rightarrow> u32 \<Rightarrow> net \<Rightarrow> net" where
  "offered opts yi si n = NetSetTimeout (TIMEOUT * CFG_HZ) BootpTimeout_t (take_params yi si
     (dhcp_config opts (bootp_st_update (\<lambda>b. b\<lparr>dhcp_state := REQUESTING\<rparr>) n)))"

lemma offered_sel:
  assumes "net_ok n" "12 \<le> length (NetRxPkt n)"
  shows "net_ok (offered opts yi si n)" "nub (offered opts yi si n) = nub n" "sent (offered opts yi si n) = sent n"
    "dhcp_state (bootp_st (offered opts yi si n)) = REQUESTING"
proof -
  let ?m = "bootp_st_update (\<lambda>b. b\<lparr>dhcp_state := REQUESTING\<rparr>) n"
  have "net_ok (dhcp_config opts ?m)" using assms dhcp_config_frame(4) [of opts ?m] by (simp add: net_ok_def)
  then show "net_ok (offered opts yi si n)" "nub (offered opts yi si n) = nub n" "sent (offered opts yi si n) = sent n"
    "dhcp_state (bootp_st (offered opts yi si n)) = REQUESTING"
    using assms(2) by (simp_all add: offered_def take_params_def NetSetTimeout_def net_ok_def dhcp_config_frame)
qed

lemma DhcpHandler_offer:
  assumes p: "server_packet n h opts bp" "NetReadIP h 16 = Some yi" "NetReadIP h 20 = Some si" "236 \<le> len"
    and n: "net_ok n" "\<not> no_devices n" "bootp_ok (bootp_st n)" "BootFile (nub n) = 0 # r" "12 \<le> length (NetRxPkt n)"
    and s: "dhcp_state (bootp_st n) = SELECTING"
  shows "\<exists>n' hdr pkt addrs. DhcpHandler (Some bp) PORT_BOOTPC PORT_BOOTPS len n = Some n' \<and> dhcp_state (bootp_st n') = REQUESTING \<and>
    NetOurIP n' = yi \<and> sent n' = sent n @ [take 343 (hdr @ pkt)] \<and> length hdr = NetEthHdrSize (NetOurVLAN n') + 28 \<and>
    request_ok (BootpID (bootp_st n)) addrs (DhcpExtended DHCP_REQUEST (NetDHCPServerIP (bootp_st n')) yi) pkt"
proof -
  define m where "m = offered opts yi si n"
  have m: "net_ok m" "nub m = nub n" "sent m = sent n" "dhcp_state (bootp_st m) = REQUESTING" "NetOurIP m = yi"
    using offered_sel [OF n(1,5)] by (simp_all add: m_def) (simp add: offered_def take_params_def NetSetTimeout_def)
  let ?q = "bootp_st_update (\<lambda>b. b\<lparr>dhcp_state := REQUESTING\<rparr>) n"
  have q: "bootp_ok (bootp_st ?q)" using n(3) by (simp add: bootp_ok_def)
  have "vendor_options bp ?q = Some (bp, dhcp_config opts ?q)" by (rule server_packet_options [OF p(1) q])
  moreover have "BootpCopyNetParams bp (dhcp_config opts ?q) = Some (take_params yi si (dhcp_config opts ?q))"
    using n(4,5) by (intro BootpCopyNetParams_eq [OF p(1-3)]) (simp_all add: dhcp_config_frame)
  moreover have "BootpCheckPkt (Some bp) PORT_BOOTPC PORT_BOOTPS len n = Some 0"
    using server_packetD(1) [OF p(1), of len] p(4) by (simp add: leD)
  ultimately have d: "DhcpHandler (Some bp) PORT_BOOTPC PORT_BOOTPS len n = DhcpSendRequestPkt bp m"
    using s by (simp add: DhcpHandler_def m_def offered_def)
  have h: "length h = 108" using p(1) by (simp add: server_packet_def)
  have rdip: "\<exists>v. NetReadIP bp i = Some v" if "i + 4 \<le> 108" for i
  proof -
    have "\<exists>v. NetReadIP h i = Some v" using that h by (simp add: NetReadIP_def window_def)
    then show ?thesis using server_packetD(3) [OF p(1) that] by simp
  qed
  obtain ci gi where a: "NetReadIP bp 12 = Some ci" "NetReadIP bp 24 = Some gi" "NetReadIP bp 16 = Some yi" "NetReadIP bp 20 = Some si"
    using rdip [of 12] rdip [of 24] server_packetD(3) [OF p(1), of 16] server_packetD(3) [OF p(1), of 20] p by auto
  have i: "NetReadLong bp 4 = Some (BootpID (bootp_st n))"
    using server_packetD(2) [OF p(1), of 4] p(1) by (simp add: server_packet_def)
  let ?ext = "DhcpExtended DHCP_REQUEST (NetDHCPServerIP (bootp_st m)) yi"
  have send: "DhcpSendRequestPkt bp m = bootp_send (BootpID (bootp_st n)) [ci, yi, si, gi] None ?ext m"
    by (simp add: DhcpSendRequestPkt_def a i)
  have e: "length [ci, yi, si, gi] = 4" "length ?ext \<le> 312" "bfile_ok None" "\<not> no_devices m"
    using n(2) m(2) by (simp_all add: bfile_ok_def)
  obtain x pk rest where x: "bootp_send (BootpID (bootp_st n)) [ci, yi, si, gi] None ?ext m =
      Some (m\<lparr>NetTxPacket := eth_header (NetOurVLAN m) (NetOurEther m) NetBcastAddr PROT_IP @
          ip_udp_words (NetOurIP m) (NetIPID m) 0xffffffff PORT_BOOTPS PORT_BOOTPC (length pk) x @ pk @ rest,
        NetIPID := NetIPID m + 1,
        sent := sent m @ [take (278 + length ?ext) (eth_header (NetOurVLAN m) (NetOurEther m) NetBcastAddr PROT_IP @
          ip_udp_words (NetOurIP m) (NetIPID m) 0xffffffff PORT_BOOTPS PORT_BOOTPC (length pk) x @ pk)]\<rparr>)"
    "request_ok (BootpID (bootp_st n)) [ci, yi, si, gi] ?ext pk"
    using bootp_send_eq [OF m(1) e(4,1,2,3)] by blast
  show ?thesis unfolding d send x(1)
    by (rule exI, rule exI [of _ "eth_header (NetOurVLAN m) (NetOurEther m) NetBcastAddr PROT_IP @
          ip_udp_words (NetOurIP m) (NetIPID m) 0xffffffff PORT_BOOTPS PORT_BOOTPC (length pk) x"],
        rule exI [of _ pk], rule exI [of _ "[ci, yi, si, gi]"], rule conjI, rule refl)
      (use x(2) m in \<open>simp add: net_ok_def NetBcastAddr_def del: take_append\<close>)
qed

text \<open>The state after an acknowledgement.\<close>

definition bound_to :: "dhcp_opt list \<Rightarrow> u32 \<Rightarrow> u32 \<Rightarrow> net \<Rightarrow> net" where
  "bound_to opts yi si n =
     (bootp_st_update (\<lambda>b. b\<lparr>dhcp_state := BOUND\<rparr>) (take_params yi si (dhcp_config opts n)))\<lparr>NetState := NETLOOP_SUCCESS\<rparr>"

lemma DhcpHandler_ack:
  assumes p: "server_packet n h opts bp" "NetReadIP h 16 = Some yi" "NetReadIP h 20 = Some si" "236 \<le> len"
    and t: "opts = pre @ (53, DHCP_ACK # d) # post" "53 \<notin> fst ` set pre"
    and n: "bootp_ok (bootp_st n)" "BootFile (nub n) = 0 # r" "12 \<le> length (NetRxPkt n)" "env_ready (nub n) es"
      "map_of es (str ''autoload'') \<noteq> Some (str ''NFS'')"
    and s: "dhcp_state (bootp_st n) = REQUESTING"
  shows "DhcpHandler (Some bp) PORT_BOOTPC PORT_BOOTPS len n = Some (bound_to opts yi si n)"
proof -
  obtain f rest where bp: "bp = h @ (0 # f) @ be32 BOOTP_VENDOR_MAGIC @ enc_opts opts @ 0xff # rest" "length h = 108" "length f = 127"
    and ok: "list_all ok_opt opts"
    using p(1) by (auto simp: server_packet_def)
  have "dhcp_scan bp 240 = Some (uint DHCP_ACK)"
    by (rule dhcp_scan_enc [where a = "h @ (0 # f) @ be32 BOOTP_VENDOR_MAGIC" and pre = pre and t = DHCP_ACK and d = d and post = post])
      (use bp ok t in simp_all)
  moreover have "NetReadLong bp 236 = Some BOOTP_VENDOR_MAGIC"
    using NetReadLong_after [of "h @ 0 # f" 236 "be32 BOOTP_VENDOR_MAGIC @ enc_opts opts @ 0xff # rest" 0] bp by simp
  ultimately have "DhcpMessageType bp 236 = Some (uint DHCP_ACK)" by (simp add: DhcpMessageType_def)
  moreover have "vendor_options bp n = Some (bp, dhcp_config opts n)" by (rule server_packet_options [OF p(1) n(1)])
  moreover have "BootpCopyNetParams bp (dhcp_config opts n) = Some (take_params yi si (dhcp_config opts n))"
    using n by (intro BootpCopyNetParams_eq [OF p(1-3)]) (simp_all add: dhcp_config_frame)
  moreover have "BootpCheckPkt (Some bp) PORT_BOOTPC PORT_BOOTPS len n = Some 0"
    using server_packetD(1) [OF p(1), of len] p(4) by (simp add: leD)
  moreover have "nub (bootp_st_update (\<lambda>b. b\<lparr>dhcp_state := BOUND\<rparr>) (take_params yi si (dhcp_config opts n))) = nub n"
    by (simp add: take_params_def dhcp_config_frame)
  then have "obey_autoload (\<lambda>n. Some (n\<lparr>NetState := NETLOOP_SUCCESS\<rparr>))
      (bootp_st_update (\<lambda>b. b\<lparr>dhcp_state := BOUND\<rparr>) (take_params yi si (dhcp_config opts n))) = Some (bound_to opts yi si n)"
    using obey_autoload_success [OF _ n(5)] n(4) by (simp add: bound_to_def)
  ultimately show ?thesis using s by (simp add: DhcpHandler_def)
qed

text \<open>
  C7: the DHCP exchange. A client that waits for offers answers a packet of the server for it by one
  broadcast that requests the offered address from the server that the options name, with the identifier of
  the client. A client that has asked accepts the acknowledgement: it is bound, with the address of the
  packet, the options in force, and the sender as its server, and the network loop ends successfully.
\<close>

theorem dhcp_exchange:
  assumes p: "server_packet n h opts bp" "NetReadIP h 16 = Some yi" "NetReadIP h 20 = Some si" "236 \<le> len"
    and n: "net_ok n" "\<not> no_devices n" "bootp_ok (bootp_st n)" "BootFile (nub n) = 0 # r" "12 \<le> length (NetRxPkt n)"
    and e: "env_ready (nub n) es" "map_of es (str ''autoload'') \<noteq> Some (str ''NFS'')"
  shows "(dhcp_state (bootp_st n) = SELECTING \<longrightarrow>
     (\<exists>n' hdr pkt addrs. DhcpHandler (Some bp) PORT_BOOTPC PORT_BOOTPS len n = Some n' \<and> dhcp_state (bootp_st n') = REQUESTING \<and>
       NetOurIP n' = yi \<and> sent n' = sent n @ [take 343 (hdr @ pkt)] \<and> length hdr = NetEthHdrSize (NetOurVLAN n') + 28 \<and>
       request_ok (BootpID (bootp_st n)) addrs (DhcpExtended DHCP_REQUEST (NetDHCPServerIP (bootp_st n')) yi) pkt)) \<and>
    (dhcp_state (bootp_st n) = REQUESTING \<and> (\<exists>pre d post. opts = pre @ (53, DHCP_ACK # d) # post \<and> 53 \<notin> fst ` set pre) \<longrightarrow>
      DhcpHandler (Some bp) PORT_BOOTPC PORT_BOOTPS len n = Some (bound_to opts yi si n))"
  using DhcpHandler_offer [OF p n] DhcpHandler_ack [OF p _ _ n(3-5) e] by blast

text \<open>An acknowledgement with a mask and a gateway.\<close>

definition demo_opts :: "dhcp_opt list" where
  "demo_opts = [(53, [5]), (1, [255, 255, 255, 0]), (3, [10, 0, 0, 1])]"

definition demo_head :: bytes where
  "demo_head = [2, 1, 6, 0] @ replicate 12 0 @ [10, 0, 0, 9] @ replicate 88 0"

definition demo_client :: net where
  "demo_client = demo_net\<lparr>NetRxPkt := replicate 42 1, bootp_st := demo_bootp\<lparr>dhcp_state := REQUESTING\<rparr>\<rparr>"

theorem dhcp_exchange_witness:
  "DhcpHandler (Some (demo_head @ replicate 128 0 @ be32 BOOTP_VENDOR_MAGIC @ enc_opts demo_opts @ [0xff])) 68 67 300 demo_client =
     Some (bound_to demo_opts 0x0a000009 0 demo_client) \<and>
   NetOurIP (bound_to demo_opts 0x0a000009 0 demo_client) = 0x0a000009 \<and>
   NetOurSubnetMask (bound_to demo_opts 0x0a000009 0 demo_client) = 0xffffff00"
proof -
  let ?bp = "demo_head @ replicate 128 0 @ be32 BOOTP_VENDOR_MAGIC @ enc_opts demo_opts @ [0xff]"
  have r: "replicate 128 0 = 0 # replicate 127 (0 :: byte)" using replicate_Suc [of 127 "0 :: byte"] by simp
  have hd: "length demo_head = 108" "rd demo_head 0 = Some 2" "rd demo_head 1 = Some 1" "rd demo_head 2 = Some 6"
    "NetReadLong demo_head 4 = Some 0"
    by (simp_all add: demo_head_def rd_def NetReadLong_def window_def of_be32_def)
  have op: "list_all ok_opt demo_opts" "67 \<notin> fst ` set demo_opts" "length (enc_opts demo_opts) < 548"
    by (simp_all add: demo_opts_def ok_opt_def enc_opts_def)
  have "BootpID (bootp_st demo_client) = 0" by (simp add: demo_client_def demo_bootp_def)
  then have p: "server_packet demo_client demo_head demo_opts ?bp"
    unfolding server_packet_def using hd op r
    by (intro conjI exI [of _ "replicate 127 0"] exI [of _ "[]"]) simp_all
  have h: "NetReadIP demo_head 16 = Some 0x0a000009" "NetReadIP demo_head 20 = Some 0"
    by (simp_all add: demo_head_def NetReadIP_def window_def of_be32_def)
  have n: "net_ok demo_client" "\<not> no_devices demo_client" "bootp_ok (bootp_st demo_client)"
    "12 \<le> length (NetRxPkt demo_client)" "env_ready (nub demo_client) demo_vars"
    "map_of demo_vars (str ''autoload'') \<noteq> Some (str ''NFS'')"
    using demo_net_ok demo_ready
    by (simp_all add: demo_client_def net_ok_def bootp_ok_def demo_bootp_def two_devs_def env_ready_def demo_vars_def str_def ch_def)
  have b: "BootFile (nub demo_client) = 0 # replicate 127 0" using r by (simp add: demo_client_def two_devs_def demo_ub_def)
  have s: "dhcp_state (bootp_st demo_client) = REQUESTING" by (simp add: demo_client_def)
  have o: "\<exists>pre d post. demo_opts = pre @ (53, 5 # d) # post \<and> 53 \<notin> fst ` set pre"
    by (rule exI [of _ "[]"], rule exI [of _ "[]"], rule exI [of _ "tl demo_opts"]) (simp add: demo_opts_def)
  have l: "236 \<le> (300 :: u32)" by simp
  have "DhcpHandler (Some ?bp) 68 67 300 demo_client = Some (bound_to demo_opts 0x0a000009 0 demo_client)"
    using dhcp_exchange [OF p h l n(1-3) b n(4-6)] s o by blast
  then show ?thesis
    by (simp add: bound_to_def take_params_def dhcp_config_def demo_opts_def dhcp_set_def of_be32_def)
qed

end
