(* ===== verification/NetMain.thy ===== *)
theory NetMain
  imports Bootp
begin

text \<open>
  The main loop \<open>NetLoop\<close> of \<open>net/net.c\<close>, which drives the protocols: TFTP, NFS, DHCP and BOOTP, RARP and
  ping.
\<close>

section \<open>The network loop\<close>

datatype proto_t = BOOTP | RARP | ARP | TFTP | DHCP | PING | DNS | NFS | CDP | NETCONS | SNTP

fun net_handle :: handle where
  "net_handle TftpHandler_h pkt dest src len n = TftpHandler pkt dest src len n"
| "net_handle PingHandler_h pkt dest src len n = PingHandler pkt n"
| "net_handle startAgainHandler_h pkt dest src len n = Some (startAgainHandler n)"
| "net_handle DhcpHandler_h pkt dest src len n = DhcpHandler pkt dest src len n"
| "net_handle RarpHandler_h pkt dest src len n = RarpHandler n"
| "net_handle NfsHandler_h pkt dest src len n = NfsHandler pkt dest src len n"

fun net_timeout :: "thand \<Rightarrow> net \<Rightarrow> net option" where
  "net_timeout TftpTimeout_t n = TftpTimeout n"
| "net_timeout PingTimeout_t n = Some (PingTimeout n)"
| "net_timeout startAgainTimeout_t n = Some (startAgainTimeout n)"
| "net_timeout BootpTimeout_t n = BootpTimeout n"
| "net_timeout RarpTimeout_t n = RarpTimeout n"
| "net_timeout NfsTimeout_t n = Some (NfsTimeout n)"

definition net_check_prereq :: "proto_t \<Rightarrow> net \<Rightarrow> (nat \<times> net) option" where
  "net_check_prereq protocol n =
     (if protocol = PING \<and> NetPingIP n = 0 then Some (1, n)
      else if protocol \<in> {NFS, NETCONS, TFTP} \<and> NetServerIP n = 0 then Some (1, n)
      else if protocol \<in> {PING, NFS, NETCONS, TFTP} \<and> NetOurIP n = 0 then Some (1, n)
      else if protocol \<in> {PING, NFS, NETCONS, TFTP, DHCP, RARP, BOOTP, CDP} then do {
        eq \<leftarrow> memcmp (NetOurEther n) (replicate 6 0) 6;
        if eq = 0 then
          (if eth_get_dev_index (eths (nub n)) = -1 then Some (1, n)
           else map_option (\<lambda>n. (2, n)) (NetStartAgain n))
        else Some (0, n) }
      else Some (0, n))"

text \<open>The addresses that are read from the environment before a protocol starts.\<close>

definition net_addresses :: "proto_t \<Rightarrow> net \<Rightarrow> net option" where
  "net_addresses protocol n =
     (if protocol \<in> {PING, NFS, NETCONS, TFTP} then do {
        gw \<leftarrow> getenv_IPaddr ''gatewayip'' (nub n);
        mask \<leftarrow> getenv_IPaddr ''netmask'' (nub n);
        vlan \<leftarrow> getenv_VLAN ''vlan'' (nub n);
        nvlan \<leftarrow> getenv_VLAN ''nvlan'' (nub n);
        server \<leftarrow> (if protocol = PING then Some (NetServerIP n) else getenv_IPaddr ''serverip'' (nub n));
        Some (n\<lparr>NetOurIP := bi_ip_addr (nub n), NetOurGatewayIP := gw, NetOurSubnetMask := mask,
          NetOurVLAN := vlan, NetOurNativeVLAN := nvlan, NetServerIP := server\<rparr>) }
      else if protocol \<in> {BOOTP, RARP, CDP} then do {
        server \<leftarrow> (if protocol = CDP then Some (NetServerIP n) else getenv_IPaddr ''serverip'' (nub n));
        vlan \<leftarrow> getenv_VLAN ''vlan'' (nub n);
        nvlan \<leftarrow> getenv_VLAN ''nvlan'' (nub n);
        Some (n\<lparr>NetOurIP := (if protocol = CDP then NetOurIP n else 0), NetServerIP := server,
          NetOurVLAN := vlan, NetOurNativeVLAN := nvlan\<rparr>) }
      else Some n)"

definition start_proto :: "proto_t \<Rightarrow> net \<Rightarrow> net option" where
  "start_proto protocol n =
     (if protocol = TFTP then TftpStart n
      else if protocol = DHCP then do {
        server \<leftarrow> getenv_IPaddr ''serverip'' (nub n);
        DhcpRequest (bootp_st_update (\<lambda>b. b\<lparr>BootpTry := 0\<rparr>) n\<lparr>NetOurIP := 0, NetServerIP := server\<rparr>) }
      else if protocol = BOOTP then BootpRequest (bootp_st_update (\<lambda>b. b\<lparr>BootpTry := 0\<rparr>) n)
      else if protocol = RARP then RarpRequest (n\<lparr>RarpTry := 0\<rparr>)
      else if protocol = PING then PingStart n
      else if protocol = NFS then NfsStart n
      else Some n)"

text \<open>From the label \<open>restart\<close> to the reception loop; \<open>True\<close> if the loop is entered.\<close>

definition net_restart :: "proto_t \<Rightarrow> net \<Rightarrow> (bool \<times> net) option" where
  "net_restart protocol n = do {
     dev \<leftarrow> rd (eth_devices (eths (nub n))) (eth_current (eths (nub n)));
     mac \<leftarrow> window (enetaddr dev) 0 6;
     n \<leftarrow> net_addresses protocol (n\<lparr>NetOurEther := mac, NetState := NETLOOP_CONTINUE\<rparr>);
     (r, n) \<leftarrow> net_check_prereq protocol n;
     if r = 1 then Some (False, n\<lparr>nub := eth_halt (nub n)\<rparr>)
     else if r = 2 then Some (True, n)
     else do {
       n \<leftarrow> start_proto protocol (n\<lparr>NetDevExists := True\<rparr>);
       Some (True, n\<lparr>NetBootFileXferSize := 0\<rparr>) } }"

definition net_begin :: "proto_t \<Rightarrow> net \<Rightarrow> (bool \<times> net) option" where
  "net_begin protocol n = do {
     let n = n\<lparr>NetRestarted := False, NetDevExists := False, NetArpWaitPacketMAC := None,
               NetArpWaitPacketIP := 0, NetArpWaitReplyIP := 0, NetArpWaitTxPacketSize := 0\<rparr>;
     u \<leftarrow> setenv (cstr ethact) (Some (cstr (str ''eth0''))) (eth_halt (nub n));
     u \<leftarrow> eth_set_current (eth_halt u);
     (r, u) \<leftarrow> eth_init (drv_up n) u;
     if r < 0 then Some (False, n\<lparr>nub := eth_halt u\<rparr>)
     else net_restart protocol (n\<lparr>nub := u\<rparr>) }"

text \<open>\<open>setenv(name, buf)\<close> with a number in hexadecimal in an array of ten bytes.\<close>

definition setenv_hex :: "string \<Rightarrow> string \<Rightarrow> u32 \<Rightarrow> ub \<Rightarrow> ub option" where
  "setenv_hex name fmt v u = do {
     (buf, _) \<leftarrow> sprintf (replicate 10 0) (cstr (str fmt)) [VInt v];
     setenv (cstr (str name)) (Some (cstr (takeWhile (\<lambda>c. c \<noteq> 0) buf))) u }"

definition net_finish :: "net \<Rightarrow> net option" where
  "net_finish n = do {
     u \<leftarrow> (if NetBootFileXferSize n > 0 then do {
             u \<leftarrow> setenv_hex ''filesize'' ''%lx'' (NetBootFileXferSize n) (nub n);
             setenv_hex ''fileaddr'' ''%lX'' (load_addr (nub n)) u }
           else Some (nub n));
     Some (n\<lparr>nub := eth_halt u\<rparr>) }"

text \<open>
  One round of the loop: the time, the receive buffers the driver hands up with the
  lengths of the frames in them, whether ctrl-c was pressed.
  The result is the value \<open>NetLoop\<close> returns, if it does.
\<close>

fun rx_all :: "(bytes \<times> int) list \<Rightarrow> net \<Rightarrow> net option" where
  "rx_all [] n = Some n"
| "rx_all ((f, len) # fs) n = do { n \<leftarrow> NetReceive net_handle f len n; rx_all fs n }"

definition net_round :: "proto_t \<Rightarrow> u32 \<times> (bytes \<times> int) list \<times> bool \<Rightarrow> net \<Rightarrow> (int option \<times> net) option" where
  "net_round protocol = (\<lambda>(t, frames, ctrlc) n. do {
     n \<leftarrow> rx_all frames (n\<lparr>now := t\<rparr>);
     if ctrlc then Some (Some (-1), n\<lparr>nub := eth_halt (nub n)\<rparr>)
     else do {
       n \<leftarrow> ArpTimeoutCheck n;
       n \<leftarrow> (case timeHandler n of
              Some x \<Rightarrow> if now n - timeStart n > timeDelta n
                       then net_timeout x (n\<lparr>timeHandler := None\<rparr>) else Some n
            | None \<Rightarrow> Some n);
       (case NetState n of
          NETLOOP_CONTINUE \<Rightarrow> Some (None, n)
        | NETLOOP_RESTART \<Rightarrow> do {
            (enter, n) \<leftarrow> net_restart protocol (n\<lparr>NetRestarted := True\<rparr>);
            Some (if enter then None else Some (-1), n) }
        | NETLOOP_SUCCESS \<Rightarrow> do { n \<leftarrow> net_finish n; Some (Some (sint (NetBootFileXferSize n)), n) }
        | NETLOOP_FAIL \<Rightarrow> Some (Some (-1), n)) } })"

fun net_rounds :: "proto_t \<Rightarrow> (u32 \<times> (bytes \<times> int) list \<times> bool) list \<Rightarrow> net \<Rightarrow> (int option \<times> net) option" where
  "net_rounds protocol [] n = Some (None, n)"
| "net_rounds protocol (i # is) n = do {
     (r, n) \<leftarrow> net_round protocol i n;
     if r \<noteq> None then Some (r, n) else net_rounds protocol is n }"

definition NetLoop :: "proto_t \<Rightarrow> (u32 \<times> (bytes \<times> int) list \<times> bool) list \<Rightarrow> net \<Rightarrow> (int option \<times> net) option" where
  "NetLoop protocol inputs n = do {
     (enter, n) \<leftarrow> net_begin protocol n;
     if enter then net_rounds protocol inputs n else Some (Some (-1), n) }"

section \<open>Frames with a wrong UDP length\<close>

text \<open>
  A frame of 46 bytes in a receive buffer of 1536, with a correct IP header, whose UDP length is 0,
  carrying the start of a data packet for block 1.
\<close>

definition bad_frame :: bytes where
  "bad_frame = [2, 0, 0, 0, 0, 2, 2, 0, 0, 0, 0, 1, 8, 0,
     0x45, 0, 0, 0x20, 0, 0, 0x40, 0, 0xff, 0x11, 0x67, 0xca, 10, 0, 0, 1, 10, 0, 0, 2,
     0, 69, 4, 0x2d, 0, 0, 0, 0, 0, 3, 0, 1] @ replicate 1490 0"

lemma bad_frame_sum: "NetCksumOk (drop 14 bad_frame) 10 = Some True"
proof -
  define ws :: "u16 list" where "ws = [0x4500, 0x20, 0, 0x4000, 0xff11, 0x67ca, 0x0a00, 1, 0x0a00, 2]"
  have "drop 14 bad_frame = concat (map be16 ws) @ drop 34 bad_frame" by (simp add: bad_frame_def be16_def ws_def)
  moreover have "length ws = 10" "sum_list (map unat ws) mod 65535 = 0" by (simp_all add: ws_def)
  ultimately show ?thesis using NetCksumOk_iff [of ws "drop 34 bad_frame"] by simp
qed

lemma bad_frame_fields:
  "length bad_frame = 1536" "rd16 bad_frame 12 = Some 0x800" "rd16 bad_frame 16 = Some 0x20" "rd bad_frame 14 = Some 0x45"
  "rd16 bad_frame 20 = Some 0x4000" "NetReadIP bad_frame 30 = Some 0x0a000002" "rd bad_frame 23 = Some 17"
  "rd16 bad_frame 36 = Some 1069" "rd16 bad_frame 34 = Some 69" "rd16 bad_frame 38 = Some 0"
  "rd16 (drop 42 bad_frame) 0 = Some 3" "rd16 (drop 44 bad_frame) 0 = Some 1"
  by (simp_all add: bad_frame_def rd16_def rd_def NetReadIP_def window_def of_be32_def)

text \<open>
  C32: the UDP length is not compared with the length of the packet. A frame of 46 bytes whose UDP
  length is 0 reaches the handler with a length of 2 to the 32 minus 8, and the TFTP client, waiting
  for its first block, then copies far beyond the receive buffer.
\<close>

theorem udp_length_unchecked:
  assumes n: "NetOurIP n = 0x0a000002" "NetOurVLAN n = 0xffff" "packetHandler n = Some TftpHandler_h"
    and t: "TftpOurPort n = 1069" "TftpState n = STATE_RRQ"
  shows "(\<forall>call. NetReceive call bad_frame 46 n = call TftpHandler_h (Some (drop 42 bad_frame)) 1069 69 (- 8)
       (n\<lparr>NetRxPkt := bad_frame\<rparr>)) \<and>
    NetReceive net_handle bad_frame 46 n = None"
proof -
  have r: "NetReceive call bad_frame 46 n = call TftpHandler_h (Some (drop 42 bad_frame)) 1069 69 (- 8)
      (n\<lparr>NetRxPkt := bad_frame\<rparr>)" for call
    using n bad_frame_fields bad_frame_sum
    by (simp add: NetReceive_def link_layer_def vlan_match_def my_vlan_def ip_receive_def call_handler_def)
  have "window (drop 46 bad_frame) 0 4294967284 = None" by (simp add: window_def bad_frame_fields)
  then have "TftpHandler (Some (drop 42 bad_frame)) 1069 69 (- 8) (n\<lparr>NetRxPkt := bad_frame\<rparr>) = None"
    using t bad_frame_fields
    by (simp add: TftpHandler_def tftp_data_def tftp_accept_def store_block_def NetSetTimeout_def CFG_HZ_def)
  then show ?thesis using r by simp
qed

theorem udp_length_unchecked_witness:
  "NetReceive net_handle bad_frame 46 demo_net = None"
  by (rule udp_length_unchecked [THEN conjunct2]) simp_all

end
