(* ===== verification/CmdNet.thy ===== *)
theory CmdNet
  imports NetMain
begin

text \<open>
  The network commands, \<open>common/cmd_net.c\<close>: \<open>tftpboot\<close>, \<open>nfs\<close>, \<open>dhcp\<close>, \<open>bootp\<close>, \<open>rarpboot\<close> and \<open>ping\<close>, and what
  they leave in the environment. Starting the loaded image is the result \<open>NbBootm\<close>.
\<close>

section \<open>The environment after a transfer\<close>

text \<open>
  \<open>setenv\<close> of the string in an array; an address, formatted in the array \<open>tmp\<close> of 22 bytes, if it is known; a
  string, if it is not empty.
\<close>

definition setenv_str :: "string \<Rightarrow> bytes \<Rightarrow> ub \<Rightarrow> ub option" where
  "setenv_str name s u = do { l \<leftarrow> strlen s; setenv (cstr (str name)) (Some (cstr (take l s))) u }"

definition setenv_ip :: "string \<Rightarrow> u32 \<Rightarrow> ub \<Rightarrow> ub option" where
  "setenv_ip name ip u =
     (if ip \<noteq> 0 then do { tmp \<leftarrow> ip_to_string ip (replicate 22 0); setenv_str name tmp u } else Some u)"

definition setenv_text :: "string \<Rightarrow> bytes \<Rightarrow> ub \<Rightarrow> ub option" where
  "setenv_text name s u = do {
     c \<leftarrow> rd s 0;
     if c \<noteq> 0 then setenv_str name s u else Some u }"

definition netboot_update_env :: "net \<Rightarrow> net option" where
  "netboot_update_env n = do {
     let b = bootp_st n;
     u \<leftarrow> setenv_ip ''gatewayip'' (NetOurGatewayIP n) (nub n);
     u \<leftarrow> setenv_ip ''netmask'' (NetOurSubnetMask n) u;
     u \<leftarrow> setenv_text ''hostname'' (NetOurHostName b) u;
     u \<leftarrow> setenv_text ''rootpath'' (NetOurRootPath b) u;
     u \<leftarrow> setenv_ip ''ipaddr'' (NetOurIP n) u;
     u \<leftarrow> setenv_ip ''serverip'' (NetServerIP n) u;
     u \<leftarrow> setenv_ip ''dnsip'' (NetOurDNSIP b) u;
     u \<leftarrow> setenv_text ''domain'' (NetOurNISDomain b) u;
     Some (n\<lparr>nub := u\<rparr>) }"

section \<open>Commands\<close>

text \<open>The loop is still running, the command returns, or \<open>do_bootm\<close> is called for the image just loaded.\<close>

datatype netboot = NbRunning | NbReturn int | NbBootm

definition load_at :: "bytes \<Rightarrow> net \<Rightarrow> net option" where
  "load_at s n = do { (a, _) \<leftarrow> simple_strtoul s 16; Some (n\<lparr>nub := (nub n)\<lparr>load_addr := a\<rparr>\<rparr>) }"

definition boot_from :: "bytes \<Rightarrow> net \<Rightarrow> net option" where
  "boot_from s n = do {
     b \<leftarrow> copy_filename (BootFile (nub n)) s (int (length (BootFile (nub n))));
     Some (n\<lparr>nub := (nub n)\<lparr>BootFile := b\<rparr>\<rparr>) }"

text \<open>The arguments behind the name of the command; \<open>None\<close> inside if there are too many.\<close>

definition netboot_args :: "bytes list \<Rightarrow> net \<Rightarrow> net option option" where
  "netboot_args args n = (case args of
      [] \<Rightarrow> Some (Some n)
    | [a] \<Rightarrow> do {
        c \<leftarrow> rd a 0;
        n \<leftarrow> (if c = ch (CHR 0x22) then boot_from a n else load_at a n);
        Some (Some n) }
    | [a, f] \<Rightarrow> do { n \<leftarrow> load_at a n; n \<leftarrow> boot_from f n; Some (Some n) }
    | _ \<Rightarrow> Some None)"

text \<open>A command gets its arguments and what each round of \<open>NetLoop\<close> meets.\<close>

type_synonym netboot_cmd = "bytes list \<Rightarrow> (u32 \<times> (bytes \<times> int) list \<times> bool) list \<Rightarrow> net \<Rightarrow> (netboot \<times> net) option"

definition netboot_common :: "proto_t \<Rightarrow> netboot_cmd" where
  "netboot_common protocol args inputs n = do {
     s \<leftarrow> getenv_ptr ''loadaddr'' (nub n);
     n \<leftarrow> (case s of None \<Rightarrow> Some n | Some s \<Rightarrow> load_at s n);
     a \<leftarrow> netboot_args args n;
     (case a of
        None \<Rightarrow> Some (NbReturn 1, n)
      | Some n \<Rightarrow> do {
          (sz, n) \<leftarrow> NetLoop protocol inputs n;
          (case sz of
             None \<Rightarrow> Some (NbRunning, n)
           | Some sz \<Rightarrow>
               if sz < 0 then Some (NbReturn 1, n)
               else do {
                 n \<leftarrow> netboot_update_env n;
                 if sz = 0 then Some (NbReturn 0, n)
                 else do {
                   s \<leftarrow> getenv_ptr ''autostart'' (nub n);
                   yes \<leftarrow> (case s of None \<Rightarrow> Some False | Some s \<Rightarrow> streq s (cstr (str ''yes'')));
                   Some (if yes then NbBootm else NbReturn 0, n) } }) }) }"

definition do_bootp :: netboot_cmd where "do_bootp = netboot_common BOOTP"
definition do_rarpb :: netboot_cmd where "do_rarpb = netboot_common RARP"
definition do_tftpb :: netboot_cmd where "do_tftpb = netboot_common TFTP"
definition do_dhcp :: netboot_cmd where "do_dhcp = netboot_common DHCP"
definition do_nfs :: netboot_cmd where "do_nfs = netboot_common NFS"

definition do_ping :: netboot_cmd where
  "do_ping args inputs n = (case args of
      [] \<Rightarrow> Some (NbReturn (-1), n)
    | a # _ \<Rightarrow> do {
        ip \<leftarrow> string_to_ip (Some a);
        let n = n\<lparr>NetPingIP := ip\<rparr>;
        if ip = 0 then Some (NbReturn (-1), n)
        else do {
          (r, n) \<leftarrow> NetLoop PING inputs n;
          Some (case r of None \<Rightarrow> NbRunning | Some r \<Rightarrow> if r < 0 then NbReturn 1 else NbReturn 0, n) } })"

section \<open>Addresses as text\<close>

lemma strtoul_dec:
  assumes "v < 256" "t = 0 \<or> t = 46"
  shows "simple_strtoul (dec_of v @ t # r) 10 = Some (of_nat v, t # r)"
proof -
  let ?n = "of_nat v :: u32" and ?xs = "rev (num_digits small_digits 10 (of_nat v))"
  have t: "\<not> isxdigit t" "t \<noteq> ch (CHR ''x'')" using assms(2) by (auto simp: isxdigit_iff ch_def)
  have b: "2 \<le> (10 :: u32)" "(10 :: u32) \<le> 16" by simp_all
  show ?thesis
  proof (cases "?n = 0")
    case True
    then show ?thesis using t by (simp add: dec_of_def numeral_of_def simple_strtoul_def ch_def)
  next
    case False
    have ne: "?xs \<noteq> []" using False by (simp add: num_digits_Nil)
    have wf: "\<forall>d\<in>set ?xs. isxdigit d \<and> digit_val d < 10" using num_digits_wf [OF small_digit_table b] by simp
    have "digit_val (hd ?xs) \<noteq> 0" using num_digits_last [OF small_digit_table b False] ne by (simp add: hd_rev)
    then have "hd ?xs \<noteq> ch (CHR ''0'')" by (auto simp: ch_def digit_val_def isdigit_iff)
    then have "simple_strtoul (?xs @ t # r) 10 = strtoul_loop (?xs @ t # r) 10 0"
      using ne by (cases ?xs) (simp_all add: simple_strtoul_def)
    also have "\<dots> = Some (foldl (\<lambda>a d. a * 10 + digit_val d) 0 ?xs, t # r)" by (rule strtoul_loop_digits [OF wf t(1)])
    also have "foldl (\<lambda>a d. a * 10 + digit_val d) 0 ?xs = ?n"
      using num_digits_value [OF small_digit_table b, of ?n] by (simp add: foldl_conv_foldr)
    finally show ?thesis using False by (simp add: dec_of_def numeral_of_def)
  qed
qed

lemma octets_masked:
  assumes m: "\<And>j. j < 32 \<Longrightarrow> bit m j \<longleftrightarrow> j < 8"
  shows "push_bit 8 (push_bit 8 (push_bit 8 (push_bit 8 0 OR (drop_bit 24 x AND m)) OR (drop_bit 16 x AND m)) OR
     (drop_bit 8 x AND m)) OR (x AND m) = (x :: u32)"
proof (rule bit_eqI)
  fix i
  assume "possible_bit TYPE(u32) i"
  then have i: "i < 32" by simp
  then consider "i < 8" | "8 \<le> i" "i < 16" | "16 \<le> i" "i < 24" | "24 \<le> i" by linarith
  then show "bit (push_bit 8 (push_bit 8 (push_bit 8 (push_bit 8 0 OR (drop_bit 24 x AND m)) OR (drop_bit 16 x AND m)) OR
     (drop_bit 8 x AND m)) OR (x AND m)) i = bit x i"
    using i by cases (auto simp: bit_simps m)
qed

lemma octets_join:
  "push_bit 8 (push_bit 8 (push_bit 8 (push_bit 8 0 OR (drop_bit 24 x AND 0xff)) OR (drop_bit 16 x AND 0xff)) OR
     (drop_bit 8 x AND 0xff)) OR (x AND 0xff) = (x :: u32)"
proof (rule octets_masked)
  fix j :: nat
  assume "j < 32"
  then have "bit (mask 8 :: u32) j \<longleftrightarrow> j < 8" by (simp add: bit_mask_iff)
  then show "bit (0xff :: u32) j \<longleftrightarrow> j < 8" by (simp add: mask_eq_exp_minus_1)
qed

definition octet :: "nat \<Rightarrow> u32 \<Rightarrow> nat" where
  "octet k x = unat (drop_bit k x AND 0xff)"

lemma octet_less: "octet k x < 256"
proof -
  have "drop_bit k x AND 0xff \<le> (0xff :: u32)" by (rule word_and_le1)
  then show ?thesis by (simp add: octet_def word_le_nat_alt)
qed

lemma of_nat_octet: "of_nat (octet k x) = drop_bit k x AND (0xff :: u32)"
  by (simp add: octet_def)

text \<open>Dotted decimal.\<close>

definition dotted :: "u32 \<Rightarrow> bytes" where
  "dotted x = dec_of (octet 24 x) @ 46 # dec_of (octet 16 x) @ 46 # dec_of (octet 8 x) @ 46 # dec_of (octet 0 x)"

lemma dotted_props: "nonul (dotted x)" "length (dotted x) \<le> 15"
proof -
  have d: "nonul (dec_of (octet k x))" "length (dec_of (octet k x)) \<le> 3" for k
    using dec_of_props [of "octet k x" 3] octet_less [of k x] by auto
  show "nonul (dotted x)" using d by (simp add: dotted_def nonul_def)
  show "length (dotted x) \<le> 15" using d(2) [of 24] d(2) [of 16] d(2) [of 8] d(2) [of 0] by (simp add: dotted_def)
qed

lemma ip_to_string_dotted:
  assumes "16 \<le> length buf"
  shows "ip_to_string x buf = Some (dotted x @ 0 # drop (length (dotted x) + 1) buf)"
proof -
  have o: "octet k x < 2 ^ 31" for k using octet_less [of k x] by simp
  have "vsprintf_loop 0 (cstr (str ''%d.%d.%d.%d'')) [VInt (of_nat (octet 24 x)), VInt (of_nat (octet 16 x)),
      VInt (of_nat (octet 8 x)), VInt (of_nat (octet 0 x))] = Some (dotted x, [])"
    using o by (simp add: str_def ch_def decimal_conversion dotted_def)
  then show ?thesis using assms dotted_props [of x]
    by (simp add: ip_to_string_def sprintf_def vsprintf_def of_nat_octet overlay_def)
qed

lemma octets_step: "ip_octets (Suc k) (dec_of (octet j x) @ 46 # r) a = ip_octets k r (push_bit 8 a OR (drop_bit j x AND 0xff))"
  using strtoul_dec [OF octet_less, of 46 j x r] by (simp add: of_nat_octet and.assoc)

lemma octets_last: "ip_octets (Suc 0) (dec_of (octet j x) @ 0 # r) a = Some (push_bit 8 a OR (drop_bit j x AND 0xff))"
  using strtoul_dec [OF octet_less, of 0 j x r] by (simp add: of_nat_octet and.assoc)

lemma string_to_ip_dotted: "string_to_ip (Some (dotted x @ 0 # r)) = Some x"
proof -
  have "string_to_ip (Some (dotted x @ 0 # r)) = ip_octets (Suc (Suc (Suc (Suc 0)))) (dotted x @ 0 # r) 0"
    by (simp add: string_to_ip_def numeral_eq_Suc)
  then show ?thesis using octets_join [of x]
    by (simp only: dotted_def append_assoc append_Cons octets_step octets_last drop_bit_0 id_apply)
qed

section \<open>What is left in the environment\<close>

definition upd :: "string \<Rightarrow> bytes option \<Rightarrow> (bytes \<rightharpoonup> bytes) \<Rightarrow> bytes \<rightharpoonup> bytes" where
  "upd name v m = (case v of None \<Rightarrow> m | Some x \<Rightarrow> m(str name \<mapsto> x))"

definition ip_val :: "u32 \<Rightarrow> bytes option" where
  "ip_val ip = (if ip = 0 then None else Some (dotted ip))"

definition text_val :: "bytes \<Rightarrow> bytes option" where
  "text_val s = (if s = [] then None else Some s)"

lemma setenv_str_eq: "nonul v \<Longrightarrow> setenv_str name (v @ 0 # r) u = setenv (cstr (str name)) (Some (cstr v)) u"
  by (simp add: setenv_str_def cstr_def)

lemma setenv_ip_eq:
  assumes "env_has u m (length name + 17 + k)" "ok_name (str name)" "ordinary (str name)"
  shows "\<exists>u'. setenv_ip name ip u = Some u' \<and> env_has u' (upd name (ip_val ip) m) k"
proof (cases "ip = 0")
  case True
  then show ?thesis using env_has_less [OF assms(1)] by (simp add: setenv_ip_def upd_def ip_val_def)
next
  case False
  have "env_has u m (length (str name) + length (dotted ip) + 2 + k)"
    using env_has_less [OF assms(1)] dotted_props(2) [of ip] by (simp add: str_def)
  then show ?thesis
    using env_has_setenv [OF _ assms(2,3) dotted_props(1) [of ip]] ip_to_string_dotted [of "replicate 22 0" ip] False dotted_props(1) [of ip]
    by (simp add: setenv_ip_def setenv_str_eq upd_def ip_val_def)
qed

lemma setenv_text_eq:
  assumes "env_has u m (length name + length s + 2 + k)" "ok_name (str name)" "ordinary (str name)" "nonul s"
  shows "\<exists>u'. setenv_text name (s @ 0 # r) u = Some u' \<and> env_has u' (upd name (text_val s) m) k"
proof (cases s)
  case Nil
  then show ?thesis using env_has_less [OF assms(1)] by (simp add: setenv_text_def upd_def text_val_def)
next
  case (Cons c t)
  then have "c \<noteq> 0" using assms(4) by (simp add: nonul_def)
  moreover have "env_has u m (length (str name) + length s + 2 + k)" using assms(1) by (simp add: str_def)
  ultimately show ?thesis using env_has_setenv [OF _ assms(2-4)] setenv_str_eq [OF assms(4), of name r u] Cons
    by (simp add: setenv_text_def upd_def text_val_def)
qed

lemma net_names [simp]:
  "ok_name (str ''gatewayip'')" "ordinary (str ''gatewayip'')" "ok_name (str ''netmask'')" "ordinary (str ''netmask'')"
  "ok_name (str ''hostname'')" "ordinary (str ''hostname'')" "ok_name (str ''rootpath'')" "ordinary (str ''rootpath'')"
  "ok_name (str ''ipaddr'')" "ordinary (str ''ipaddr'')" "ok_name (str ''serverip'')" "ordinary (str ''serverip'')"
  "ok_name (str ''dnsip'')" "ordinary (str ''dnsip'')" "ok_name (str ''domain'')" "ordinary (str ''domain'')"
  by (simp_all add: ok_name_def ordinary_def str_def ch_def)

text \<open>The three strings as they are in their arrays.\<close>

definition boot_strings :: "net \<Rightarrow> bytes \<Rightarrow> bytes \<Rightarrow> bytes \<Rightarrow> bool" where
  "boot_strings n host root dmn \<longleftrightarrow> (\<exists>r r' r''. NetOurHostName (bootp_st n) = host @ 0 # r \<and>
     NetOurRootPath (bootp_st n) = root @ 0 # r' \<and> NetOurNISDomain (bootp_st n) = dmn @ 0 # r'') \<and>
     nonul host \<and> nonul root \<and> nonul dmn"

definition net_vars :: "net \<Rightarrow> bytes \<Rightarrow> bytes \<Rightarrow> bytes \<Rightarrow> (bytes \<rightharpoonup> bytes) \<Rightarrow> bytes \<rightharpoonup> bytes" where
  "net_vars n host root dmn m = upd ''domain'' (text_val dmn) (upd ''dnsip'' (ip_val (NetOurDNSIP (bootp_st n)))
     (upd ''serverip'' (ip_val (NetServerIP n)) (upd ''ipaddr'' (ip_val (NetOurIP n)) (upd ''rootpath'' (text_val root)
     (upd ''hostname'' (text_val host) (upd ''netmask'' (ip_val (NetOurSubnetMask n))
     (upd ''gatewayip'' (ip_val (NetOurGatewayIP n)) m)))))))"

lemma netboot_update_env_eq:
  assumes u: "env_has (nub n) m 300" and b: "bootp_ok (bootp_st n)" "boot_strings n host root dmn"
  shows "\<exists>u'. netboot_update_env n = Some (n\<lparr>nub := u'\<rparr>) \<and> env_has u' (net_vars n host root dmn m) 0"
proof -
  obtain r r' r'' where s: "NetOurHostName (bootp_st n) = host @ 0 # r" "NetOurRootPath (bootp_st n) = root @ 0 # r'"
    "NetOurNISDomain (bootp_st n) = dmn @ 0 # r''" "nonul host" "nonul root" "nonul dmn"
    using b(2) by (auto simp: boot_strings_def)
  have l: "length host \<le> 31" "length root \<le> 63" "length dmn \<le> 31" using b(1) s by (simp_all add: bootp_ok_def)
  define m1 where "m1 = upd ''gatewayip'' (ip_val (NetOurGatewayIP n)) m"
  obtain u1 where u1: "setenv_ip ''gatewayip'' (NetOurGatewayIP n) (nub n) = Some u1" "env_has u1 m1 274"
    using setenv_ip_eq [OF env_has_less [OF u] net_names(1,2), of 274] unfolding m1_def by auto
  define m2 where "m2 = upd ''netmask'' (ip_val (NetOurSubnetMask n)) m1"
  obtain u2 where u2: "setenv_ip ''netmask'' (NetOurSubnetMask n) u1 = Some u2" "env_has u2 m2 250"
    using setenv_ip_eq [OF env_has_less [OF u1(2)] net_names(3,4), of 250] unfolding m2_def by auto
  define m3 where "m3 = upd ''hostname'' (text_val host) m2"
  obtain u3 where u3: "setenv_text ''hostname'' (host @ 0 # r) u2 = Some u3" "env_has u3 m3 209"
    using setenv_text_eq [OF env_has_less [OF u2(2)] net_names(5,6) s(4), of 209 "r"] l unfolding m3_def by auto
  define m4 where "m4 = upd ''rootpath'' (text_val root) m3"
  obtain u4 where u4: "setenv_text ''rootpath'' (root @ 0 # r') u3 = Some u4" "env_has u4 m4 136"
    using setenv_text_eq [OF env_has_less [OF u3(2)] net_names(7,8) s(5), of 136 "r'"] l unfolding m4_def by auto
  define m5 where "m5 = upd ''ipaddr'' (ip_val (NetOurIP n)) m4"
  obtain u5 where u5: "setenv_ip ''ipaddr'' (NetOurIP n) u4 = Some u5" "env_has u5 m5 113"
    using setenv_ip_eq [OF env_has_less [OF u4(2)] net_names(9,10), of 113] unfolding m5_def by auto
  define m6 where "m6 = upd ''serverip'' (ip_val (NetServerIP n)) m5"
  obtain u6 where u6: "setenv_ip ''serverip'' (NetServerIP n) u5 = Some u6" "env_has u6 m6 88"
    using setenv_ip_eq [OF env_has_less [OF u5(2)] net_names(11,12), of 88] unfolding m6_def by auto
  define m7 where "m7 = upd ''dnsip'' (ip_val (NetOurDNSIP (bootp_st n))) m6"
  obtain u7 where u7: "setenv_ip ''dnsip'' (NetOurDNSIP (bootp_st n)) u6 = Some u7" "env_has u7 m7 66"
    using setenv_ip_eq [OF env_has_less [OF u6(2)] net_names(13,14), of 66] unfolding m7_def by auto
  define m8 where "m8 = upd ''domain'' (text_val dmn) m7"
  obtain u8 where u8: "setenv_text ''domain'' (dmn @ 0 # r'') u7 = Some u8" "env_has u8 m8 27"
    using setenv_text_eq [OF env_has_less [OF u7(2)] net_names(15,16) s(6), of 27 "r''"] l unfolding m8_def by auto
  have "netboot_update_env n = Some (n\<lparr>nub := u8\<rparr>)"
    using u1(1) u2(1) u3(1) u4(1) u5(1) u6(1) u7(1) u8(1) s(1-3) by (simp add: netboot_update_env_def Let_def)
  moreover have "env_has u8 (net_vars n host root dmn m) 0"
    using env_has_less [OF u8(2)] by (simp add: net_vars_def m8_def m7_def m6_def m5_def m4_def m3_def m2_def m1_def)
  ultimately show ?thesis by blast
qed

section \<open>Reading it back\<close>

lemma getenv_IPaddr_dotted:
  assumes u: "env_has u m k" and n: "ok_name (str name)" and v: "m (str name) = Some (dotted x)"
  shows "getenv_IPaddr name u = Some x"
proof -
  obtain es where es: "env_ready u es" "map_of es = m" using u by (auto simp: env_has_def)
  obtain j r where "getenv (str name @ [0]) u = Some (Some j)" "drop j (env_data u) = dotted x @ 0 # r"
    using getenv_present [OF es(1) n, of "dotted x" "[]"] v es(2) by auto
  then show ?thesis
    using env_readyD(1) [OF es(1)] by (simp add: getenv_IPaddr_def getenv_ptr_def cstr_def string_to_ip_dotted)
qed

lemma upd_apply: "upd name v m x = (if x = str name \<and> v \<noteq> None then v else m x)"
  by (cases v) (auto simp: upd_def)

lemma ch_inject: "ch a = ch b \<longleftrightarrow> a = b"
proof
  assume "ch a = ch b"
  moreover have "ch c = of_nat (of_char c)" for c by (simp add: ch_def of_nat_of_char)
  ultimately have "unat (of_nat (of_char a) :: byte) = unat (of_nat (of_char b) :: byte)" by simp
  moreover have "of_char c < (256 :: nat)" for c by simp
  ultimately have "(of_char a :: nat) = of_char b" by (simp add: unat_of_nat)
  then show "a = b" by simp
qed simp

lemma str_eq_iff: "str a = str b \<longleftrightarrow> a = b"
  unfolding str_def by (rule inj_map_eq_map) (simp add: inj_def ch_inject)

text \<open>
  C10: After a transfer, an address that is known is in its variable, in the form that the next
  \<open>NetLoop\<close> reads back to the same address (\<open>gatewayip\<close>, \<open>netmask\<close>, \<open>ipaddr\<close>, \<open>serverip\<close>, \<open>dnsip\<close>), a string that
  is not empty is in its variable, and every other variable is as before.
\<close>

theorem netboot_env_roundtrip:
  assumes "env_has (nub n) m 300" "bootp_ok (bootp_st n)" "boot_strings n host root dmn"
  shows "\<exists>u'. netboot_update_env n = Some (n\<lparr>nub := u'\<rparr>) \<and>
    (\<forall>(name, ip) \<in> {(''gatewayip'', NetOurGatewayIP n), (''netmask'', NetOurSubnetMask n), (''ipaddr'', NetOurIP n),
        (''serverip'', NetServerIP n), (''dnsip'', NetOurDNSIP (bootp_st n))}.
      ip \<noteq> 0 \<longrightarrow> getenv_IPaddr name u' = Some ip) \<and>
    (\<forall>(name, s) \<in> {(''hostname'', host), (''rootpath'', root), (''domain'', dmn)}.
      s \<noteq> [] \<longrightarrow> var_of u' (str name) = Some s) \<and>
    (\<forall>k. ok_name k \<longrightarrow> k \<notin> str ` {''gatewayip'', ''netmask'', ''ipaddr'', ''serverip'', ''dnsip'', ''hostname'', ''rootpath'',
        ''domain''} \<longrightarrow> var_of u' k = var_of (nub n) k)"
proof -
  obtain u' where u: "netboot_update_env n = Some (n\<lparr>nub := u'\<rparr>)" "env_has u' (net_vars n host root dmn m) 0"
    using netboot_update_env_eq [OF assms] by blast
  note vars = net_vars_def upd_apply str_eq_iff
  have ip: "getenv_IPaddr name u' = Some x" if "ok_name (str name)" "net_vars n host root dmn m (str name) = Some (dotted x)" for name x
    using getenv_IPaddr_dotted [OF u(2) that] .
  have v: "ok_name k \<Longrightarrow> var_of u' k = net_vars n host root dmn m k" for k by (rule var_of_env_has [OF u(2)])
  have "var_of u' k = var_of (nub n) k" if "ok_name k" "k \<notin> str ` {''gatewayip'', ''netmask'', ''ipaddr'', ''serverip'', ''dnsip'',
      ''hostname'', ''rootpath'', ''domain''}" for k
    using v [OF that(1)] var_of_env_has [OF assms(1) that(1)] that(2) by (simp add: vars)
  moreover have "\<forall>(name, ip) \<in> {(''gatewayip'', NetOurGatewayIP n), (''netmask'', NetOurSubnetMask n), (''ipaddr'', NetOurIP n),
        (''serverip'', NetServerIP n), (''dnsip'', NetOurDNSIP (bootp_st n))}. ip \<noteq> 0 \<longrightarrow> getenv_IPaddr name u' = Some ip"
    by (auto intro!: ip simp: vars ip_val_def)
  moreover have "\<forall>(name, s) \<in> {(''hostname'', host), (''rootpath'', root), (''domain'', dmn)}.
      s \<noteq> [] \<longrightarrow> var_of u' (str name) = Some s"
    by (simp add: v vars text_val_def)
  ultimately show ?thesis using u(1) by blast
qed

definition demo_loaded :: net where
  "demo_loaded = demo_net\<lparr>nub := roomy_ub,
     bootp_st := demo_bootp\<lparr>NetOurHostName := str ''carambola'' @ replicate 23 0\<rparr>\<rparr>"

theorem netboot_env_roundtrip_witness:
  "\<exists>u'. netboot_update_env demo_loaded = Some (demo_loaded\<lparr>nub := u'\<rparr>) \<and>
     getenv_IPaddr ''ipaddr'' u' = Some 0x0a000002 \<and> var_of u' (str ''hostname'') = Some (str ''carambola'')"
proof -
  have "env_has (nub demo_loaded) (map_of demo_vars) 300" using roomy_has by (simp add: demo_loaded_def)
  moreover have "bootp_ok (bootp_st demo_loaded)" by (simp add: demo_loaded_def bootp_ok_def demo_bootp_def str_def)
  moreover have "replicate 23 0 = 0 # replicate 22 (0 :: byte)" "replicate 32 0 = 0 # replicate 31 (0 :: byte)"
    "replicate 64 0 = 0 # replicate 63 (0 :: byte)" by (simp_all add: numeral_eq_Suc)
  then have "boot_strings demo_loaded (str ''carambola'') [] []"
    by (auto simp: boot_strings_def demo_loaded_def demo_bootp_def) (simp add: nonul_def str_def ch_def)
  moreover have "NetOurIP demo_loaded = 0x0a000002" by (simp add: demo_loaded_def demo_net_def)
  ultimately show ?thesis using netboot_env_roundtrip [of demo_loaded "map_of demo_vars" "str ''carambola''" "[]" "[]"]
    by (auto simp: str_def)
qed

end
