(* ===== verification/BootImage.thy ===== *)
theory BootImage
  imports Environment
begin

text \<open>
  What starting an image works on: memory, the header of an image (\<open>include/image.h\<close>), and the state of
  \<open>common/cmd_bootm.c\<close>. Memory is indexed by physical address: the cached and the uncached view (KSEG0,
  KSEG1) of a cell are the same cell. The inflate and LZMA decoders and the allocator are arguments.
\<close>

section \<open>Memory\<close>

type_synonym ram = "nat \<Rightarrow> byte"

definition pa :: "u32 \<Rightarrow> nat" where
  "pa a = unat a mod 2 ^ 29"

definition ld :: "ram \<Rightarrow> u32 \<Rightarrow> byte" where
  "ld m a = m (pa a)"

definition st :: "ram \<Rightarrow> u32 \<Rightarrow> byte \<Rightarrow> ram" where
  "st m a v = m(pa a := v)"

fun ld_bytes :: "ram \<Rightarrow> u32 \<Rightarrow> nat \<Rightarrow> bytes" where
  "ld_bytes m a 0 = []"
| "ld_bytes m a (Suc n) = ld m a # ld_bytes m (a + 1) n"

fun st_bytes :: "ram \<Rightarrow> u32 \<Rightarrow> bytes \<Rightarrow> ram" where
  "st_bytes m a [] = m"
| "st_bytes m a (b # bs) = st_bytes (st m a b) (a + 1) bs"

definition ld32 :: "ram \<Rightarrow> u32 \<Rightarrow> u32" where
  "ld32 m a = of_be32 (ld_bytes m a 4)"

definition st32 :: "ram \<Rightarrow> u32 \<Rightarrow> u32 \<Rightarrow> ram" where
  "st32 m a v = st_bytes m a (be32 v)"

text \<open>\<open>memmove\<close> of \<open>lib_generic/string.c\<close> between two places of memory.\<close>

fun move_up :: "ram \<Rightarrow> u32 \<Rightarrow> u32 \<Rightarrow> nat \<Rightarrow> ram" where
  "move_up m dest src 0 = m"
| "move_up m dest src (Suc count) = move_up (st m dest (ld m src)) (dest + 1) (src + 1) count"

fun move_down :: "ram \<Rightarrow> u32 \<Rightarrow> u32 \<Rightarrow> nat \<Rightarrow> ram" where
  "move_down m dest src 0 = m"
| "move_down m dest src (Suc count) =
     move_down (st m (dest + of_nat count) (ld m (src + of_nat count))) dest src count"

definition ram_memmove :: "ram \<Rightarrow> u32 \<Rightarrow> u32 \<Rightarrow> u32 \<Rightarrow> ram" where
  "ram_memmove m dest src count =
     (if dest \<le> src then move_up m dest src (unat count) else move_down m dest src (unat count))"

section \<open>Image headers\<close>

record image_header_t =
  ih_magic :: u32
  ih_hcrc :: u32
  ih_time :: u32
  ih_size :: u32
  ih_load :: u32
  ih_ep :: u32
  ih_dcrc :: u32
  ih_os :: byte
  ih_arch :: byte
  ih_type :: byte
  ih_comp :: byte
  ih_name :: bytes

definition IH_MAGIC :: u32 where "IH_MAGIC = 0x27051956"

definition IH_NMLEN :: nat where "IH_NMLEN = 32"

text \<open>The 64 bytes of a header, and reading them from memory.\<close>

definition header_bytes :: "image_header_t \<Rightarrow> bytes" where
  "header_bytes h = be32 (ih_magic h) @ be32 (ih_hcrc h) @ be32 (ih_time h) @ be32 (ih_size h) @
     be32 (ih_load h) @ be32 (ih_ep h) @ be32 (ih_dcrc h) @ [ih_os h, ih_arch h, ih_type h, ih_comp h] @ ih_name h"

definition read_header :: "ram \<Rightarrow> u32 \<Rightarrow> image_header_t" where
  "read_header m a =
     \<lparr>ih_magic = ld32 m a, ih_hcrc = ld32 m (a + 4), ih_time = ld32 m (a + 8), ih_size = ld32 m (a + 12),
      ih_load = ld32 m (a + 16), ih_ep = ld32 m (a + 20), ih_dcrc = ld32 m (a + 24),
      ih_os = ld m (a + 28), ih_arch = ld m (a + 29), ih_type = ld m (a + 30), ih_comp = ld m (a + 31),
      ih_name = ld_bytes m (a + 32) IH_NMLEN\<rparr>"

abbreviation (input) IH_OS_NETBSD :: byte where "IH_OS_NETBSD \<equiv> 2"
abbreviation (input) IH_OS_LINUX :: byte where "IH_OS_LINUX \<equiv> 5"
abbreviation (input) IH_OS_VXWORKS :: byte where "IH_OS_VXWORKS \<equiv> 14"
abbreviation (input) IH_OS_QNX :: byte where "IH_OS_QNX \<equiv> 16"
abbreviation (input) IH_OS_RTEMS :: byte where "IH_OS_RTEMS \<equiv> 18"
abbreviation (input) IH_CPU_MIPS :: byte where "IH_CPU_MIPS \<equiv> 5"
abbreviation (input) IH_TYPE_STANDALONE :: byte where "IH_TYPE_STANDALONE \<equiv> 1"
abbreviation (input) IH_TYPE_KERNEL :: byte where "IH_TYPE_KERNEL \<equiv> 2"
abbreviation (input) IH_TYPE_RAMDISK :: byte where "IH_TYPE_RAMDISK \<equiv> 3"
abbreviation (input) IH_TYPE_MULTI :: byte where "IH_TYPE_MULTI \<equiv> 4"
abbreviation (input) IH_COMP_NONE :: byte where "IH_COMP_NONE \<equiv> 0"
abbreviation (input) IH_COMP_GZIP :: byte where "IH_COMP_GZIP \<equiv> 1"
abbreviation (input) IH_COMP_LZMA :: byte where "IH_COMP_LZMA \<equiv> 3"

section \<open>State\<close>

text \<open>
  \<open>header\<close> is the global of that name, \<open>rpos\<close> the read position that \<open>LzmaWrapper.c\<close> keeps,
  \<open>boot_status\<close> what \<open>show_boot_progress\<close> records. \<open>b_ub\<close> holds the environment.
\<close>

record boot =
  b_ub :: ub
  ram :: ram
  header :: image_header_t
  rpos :: u32
  boot_status :: int
  ram_size :: u32
  bi_boot_params :: u32
  bi_flashstart :: u32
  bi_flashsize :: u32

abbreviation show_boot_progress :: "int \<Rightarrow> boot \<Rightarrow> boot" where
  "show_boot_progress k b \<equiv> b\<lparr>boot_status := k\<rparr>"

text \<open>Where control goes when it leaves this code.\<close>

datatype entry =
    Linux (kernel_ep: u32) (kernel_argc: u32) (kernel_argv: u32) (kernel_env: u32) (kernel_flash: u32)
  | Application u32 "bytes option list"
  | NetBSD u32 "u32 option" bytes
  | RTEMS u32
  | VxWorks
  | QNX bytes

datatype ctl = Returns int | Starts entry | Resets

text \<open>
  The decoders. \<open>inflate\<close> gets destination, room, source and number of bytes; it answers the
  result, \<open>next_out\<close> and the new memory. \<open>LzmaDecode\<close> gets source, its size, destination and the
  size of the output; it answers the result, the number of bytes written and the new memory.
  \<open>alloc_ok\<close> tells whether \<open>malloc\<close> succeeds, \<open>unc_len_ptr\<close> is the address of the local variable
  \<open>unc_len\<close>, \<open>is_virian\<close> what the revision register says.
\<close>

record codec =
  inflateInit2 :: int
  inflate :: "u32 \<Rightarrow> u32 \<Rightarrow> u32 \<Rightarrow> u32 \<Rightarrow> ram \<Rightarrow> int \<times> u32 \<times> ram"
  LzmaDecode :: "bytes \<Rightarrow> u32 \<Rightarrow> u32 \<Rightarrow> u32 \<Rightarrow> u32 \<Rightarrow> ram \<Rightarrow> int \<times> u32 \<times> ram"
  alloc_ok :: bool
  unc_len_ptr :: u32
  is_virian :: bool

section \<open>Checksums and sizes of an image\<close>

definition header_crc_ok :: "image_header_t \<Rightarrow> bool" where
  "header_crc_ok h \<longleftrightarrow> crc32 0 (header_bytes (h\<lparr>ih_hcrc := 0\<rparr>)) = ih_hcrc h"

definition data_crc_ok :: "ram \<Rightarrow> u32 \<Rightarrow> image_header_t \<Rightarrow> bool" where
  "data_crc_ok m data h \<longleftrightarrow> crc32 0 (ld_bytes m data (unat (ih_size h))) = ih_dcrc h"

text \<open>The sizes in front of a multi-file image: how many words there are after the first one.\<close>

partial_function (option) more_sizes :: "ram \<Rightarrow> u32 \<Rightarrow> u32 option" where
  "more_sizes m p = (if ld32 m p = 0 then Some 0 else do { n \<leftarrow> more_sizes m (p + 4); Some (n + 1) })"

section \<open>Memory: facts\<close>

lemma pa_add: "pa (a + of_nat k) = (pa a + k) mod 2 ^ 29"
proof -
  have "unat (a + of_nat k) = (unat a + k) mod 2 ^ 32"
    by (simp add: unat_word_ariths unsigned_of_nat take_bit_nat_def mod_add_right_eq)
  then show ?thesis
    unfolding pa_def by (simp add: mod_mod_cancel mod_add_left_eq)
qed

lemma pa_less: "pa a < 2 ^ 29"
  by (simp add: pa_def)

lemma pa_add_small: "pa a + k < 2 ^ 29 \<Longrightarrow> pa (a + of_nat k) = pa a + k"
  using pa_add [of a k] by simp

lemma word_add_Suc: "(a :: u32) + of_nat (Suc k) = a + 1 + of_nat k"
  by (simp add: algebra_simps)

lemma ld_bytes_nth: "i < n \<Longrightarrow> ld_bytes m a n ! i = ld m (a + of_nat i)"
proof (induction n arbitrary: a i)
  case (Suc n)
  then show ?case by (cases i) (auto simp: algebra_simps)
qed simp

lemma ld_bytes_length [simp]: "length (ld_bytes m a n) = n"
  by (induction n arbitrary: a) auto

lemma ld_bytes_append: "ld_bytes m a (k + n) = ld_bytes m a k @ ld_bytes m (a + of_nat k) n"
  by (induction k arbitrary: a) (simp_all add: algebra_simps)

lemma ld_bytes_seg: "pa a + n \<le> 2 ^ 29 \<Longrightarrow> ld_bytes m a n = map m [pa a..<pa a + n]"
  by (rule nth_equalityI) (auto simp: ld_bytes_nth ld_def pa_add_small)

text \<open>Memory with \<open>bs\<close> placed at a physical address.\<close>

definition place :: "nat \<Rightarrow> bytes \<Rightarrow> ram \<Rightarrow> ram" where
  "place p bs m = (\<lambda>q. if p \<le> q \<and> q < p + length bs then bs ! (q - p) else m q)"

lemma place_Cons: "place (Suc p) bs (m(p := b)) = place p (b # bs) m"
proof
  fix q
  show "place (Suc p) bs (m(p := b)) q = place p (b # bs) m q"
    by (cases "q = p") (auto simp: place_def nth_Cons' Suc_le_eq)
qed

lemma place_Nil [simp]: "place p [] m = m"
  by (rule ext) (simp add: place_def linorder_not_less [symmetric])

lemma st_bytes_place: "pa a + length bs \<le> 2 ^ 29 \<Longrightarrow> st_bytes m a bs = place (pa a) bs m"
proof (induction bs arbitrary: a m)
  case (Cons b bs)
  show ?case
  proof (cases "bs = []")
    case True
    then show ?thesis using place_Cons [of "pa a" "[]" m b] by (simp add: st_def)
  next
    case False
    then have "pa a + 1 < 2 ^ 29" using Cons.prems by (cases bs) auto
    then have "pa (a + 1) = Suc (pa a)" using pa_add_small [of a 1] by simp
    then have "st_bytes (st m a b) (a + 1) bs = place (Suc (pa a)) bs (st m a b)"
      using Cons by simp
    then show ?thesis using place_Cons [of "pa a" bs m b] by (simp add: st_def)
  qed
qed simp

lemma ld_place_same: "map (place p bs m) [p..<p + length bs] = bs"
  by (rule nth_equalityI) (auto simp: place_def)

lemma ld_place_other:
  "p + length bs \<le> q \<or> q + n \<le> p \<Longrightarrow> map (place p bs m) [q..<q + n] = map m [q..<q + n]"
  by (auto simp: place_def)

text \<open>Reading and writing relative to a base address, inside one segment.\<close>

lemma st_bytes_append: "st_bytes m a (xs @ ys) = st_bytes (st_bytes m a xs) (a + of_nat (length xs)) ys"
  by (induction xs arbitrary: m a) (simp_all add: algebra_simps)

lemma ld_st_same:
  "pa a + k + length bs \<le> 2 ^ 29 \<Longrightarrow> pa a + k < 2 ^ 29 \<Longrightarrow> n = length bs \<Longrightarrow>
     ld_bytes (st_bytes m (a + of_nat k) bs) (a + of_nat k) n = bs"
  by (simp add: st_bytes_place pa_add_small ld_bytes_seg ld_place_same)

lemma ld_st_other:
  assumes "pa a + k + length bs \<le> 2 ^ 29" "pa a + k < 2 ^ 29" "pa c + n \<le> 2 ^ 29"
    and "pa a + k + length bs \<le> pa c \<or> pa c + n \<le> pa a + k"
  shows "ld_bytes (st_bytes m (a + of_nat k) bs) c n = ld_bytes m c n"
  using assms by (simp only: st_bytes_place pa_add_small ld_bytes_seg ld_place_other)

lemma ld_st_apart:
  assumes "pa a + k + length bs \<le> 2 ^ 29" "pa a + j + n \<le> 2 ^ 29" "k + length bs \<le> j \<or> j + n \<le> k"
    "0 < n" "bs \<noteq> []"
  shows "ld_bytes (st_bytes m (a + of_nat k) bs) (a + of_nat j) n = ld_bytes m (a + of_nat j) n"
proof -
  have "0 < length bs" using assms by simp
  then have "pa a + k < 2 ^ 29" "pa (a + of_nat j) = pa a + j" using assms(1,2,4) by (linarith, simp add: pa_add_small)
  then show ?thesis using assms by (intro ld_st_other) auto
qed

text \<open>\<open>memmove\<close> gives the destination the bytes the source had, whatever the overlap, if both lie in the same segment.\<close>

lemma move_up_place:
  "pa d + n \<le> 2 ^ 29 \<Longrightarrow> pa s + n \<le> 2 ^ 29 \<Longrightarrow> pa d \<le> pa s \<or> pa s + n \<le> pa d \<Longrightarrow>
     move_up m d s n = place (pa d) (map m [pa s..<pa s + n]) m"
proof (induction n arbitrary: m d s)
  case (Suc n)
  show ?case
  proof (cases "n = 0")
    case True
    then show ?thesis using place_Cons [of "pa d" "[]" m] by (simp add: st_def ld_def)
  next
    case False
    then have "pa d + 1 < 2 ^ 29" "pa s + 1 < 2 ^ 29" using Suc.prems by auto
    then have p: "pa (d + 1) = Suc (pa d)" "pa (s + 1) = Suc (pa s)"
      using pa_add_small [of d 1] pa_add_small [of s 1] by simp_all
    define m' where "m' = st m d (ld m s)"
    have "map m' [Suc (pa s)..<Suc (pa s) + n] = map m [Suc (pa s)..<Suc (pa s) + n]"
      using Suc.prems by (auto simp: m'_def st_def)
    moreover have "move_up m' (d + 1) (s + 1) n = place (Suc (pa d)) (map m' [Suc (pa s)..<Suc (pa s) + n]) m'"
      using Suc.IH [of "d + 1" "s + 1" m'] Suc.prems unfolding p by (auto simp del: upt_Suc)
    moreover have "[pa s..<pa s + Suc n] = pa s # [Suc (pa s)..<Suc (pa s) + n]"
      by (simp add: upt_conv_Cons del: upt_Suc)
    ultimately show ?thesis unfolding m'_def by (simp only: move_up.simps st_def ld_def place_Cons list.map)
  qed
qed simp

lemma place_snoc: "place p (bs @ [b]) m = place p bs (m(p + length bs := b))"
  by (auto simp: place_def nth_append fun_eq_iff)

lemma move_down_place:
  "pa d + n \<le> 2 ^ 29 \<Longrightarrow> pa s + n \<le> 2 ^ 29 \<Longrightarrow> pa s \<le> pa d \<or> pa d + n \<le> pa s \<Longrightarrow>
     move_down m d s n = place (pa d) (map m [pa s..<pa s + n]) m"
proof (induction n arbitrary: m)
  case (Suc n)
  have p: "pa (d + of_nat n) = pa d + n" "pa (s + of_nat n) = pa s + n"
    using Suc.prems by (simp_all add: pa_add_small)
  define m' where "m' = m(pa d + n := m (pa s + n))"
  have "map m' [pa s..<pa s + n] = map m [pa s..<pa s + n]" using Suc.prems by (auto simp: m'_def)
  moreover have "move_down m' d s n = place (pa d) (map m' [pa s..<pa s + n]) m'"
    using Suc.IH [of m'] Suc.prems by auto
  ultimately show ?case using p place_snoc [of "pa d" "map m [pa s..<pa s + n]" "m (pa s + n)" m]
    unfolding m'_def by (simp add: st_def ld_def del: map_eq_conv)
qed simp

lemma pa_same_segment: "unat a div 2 ^ 29 = unat c div 2 ^ 29 \<Longrightarrow> a \<le> c \<longleftrightarrow> pa a \<le> pa c"
proof -
  assume s: "unat a div 2 ^ 29 = unat c div 2 ^ 29"
  have "unat a = unat a div 2 ^ 29 * 2 ^ 29 + pa a" "unat c = unat a div 2 ^ 29 * 2 ^ 29 + pa c"
    unfolding pa_def by (simp, unfold s, simp)
  then have "unat a \<le> unat c \<longleftrightarrow> pa a \<le> pa c" by (metis add_le_cancel_left)
  then show ?thesis by (simp add: word_le_nat_alt)
qed

lemma ram_memmove_place:
  assumes "pa d + unat n \<le> 2 ^ 29" "pa s + unat n \<le> 2 ^ 29"
    and "unat d div 2 ^ 29 = unat s div 2 ^ 29 \<or> pa d + unat n \<le> pa s \<or> pa s + unat n \<le> pa d"
  shows "ram_memmove m d s n = place (pa d) (ld_bytes m s (unat n)) m"
proof -
  have "if d \<le> s then pa d \<le> pa s \<or> pa s + unat n \<le> pa d else pa s \<le> pa d \<or> pa d + unat n \<le> pa s"
    using assms(3) pa_same_segment [of d s] by (auto simp: linorder_not_le)
  then show ?thesis using assms(1,2)
    by (simp add: ram_memmove_def move_up_place move_down_place ld_bytes_seg split: if_splits)
qed

section \<open>Headers: facts\<close>

lemma bit_byte_beyond: "8 \<le> n \<Longrightarrow> \<not> bit (b :: byte) n"
  using bit_imp_le_length [of b n] by auto

lemma be32_of_be32: "length bs = 4 \<Longrightarrow> be32 (of_be32 bs) = bs"
proof -
  assume "length bs = 4"
  then obtain a b c d where bs: "bs = [a, b, c, d]" by (auto simp: length_Suc_conv numeral_eq_Suc)
  have "ucast (drop_bit 24 (of_be32 bs)) = a" "ucast (drop_bit 16 (of_be32 bs)) = b"
    "ucast (drop_bit 8 (of_be32 bs)) = c" "ucast (of_be32 bs) = d"
    unfolding bs by (auto intro!: bit_word_eqI simp: of_be32_def bit_simps bit_byte_beyond)
  then show ?thesis by (simp add: be32_def bs)
qed

lemma of_be32_inj: "length x = 4 \<Longrightarrow> length y = 4 \<Longrightarrow> of_be32 x = of_be32 y \<Longrightarrow> x = y"
  by (metis be32_of_be32)

lemma ld_sub: "k < n \<Longrightarrow> ld m (a + of_nat k) = ld_bytes m a n ! k"
  by (simp add: ld_bytes_nth)

lemma ld_bytes_sub: "k + j \<le> n \<Longrightarrow> ld_bytes m (a + of_nat k) j = take j (drop k (ld_bytes m a n))"
  using ld_bytes_append [of m a k "n - k"] ld_bytes_append [of m "a + of_nat k" j "n - k - j"]
  by simp

lemma ld32_sub: "k + 4 \<le> n \<Longrightarrow> ld32 m (a + of_nat k) = of_be32 (take 4 (drop k (ld_bytes m a n)))"
  unfolding ld32_def by (simp only: ld_bytes_sub)

lemma header_bytes_length [simp]: "length (header_bytes h) = 32 + length (ih_name h)"
  by (simp add: header_bytes_def)

lemma word_offsets:
  "(a :: u32) + 4 = a + of_nat 4" "a + 8 = a + of_nat 8" "a + 12 = a + of_nat 12" "a + 16 = a + of_nat 16"
  "a + 20 = a + of_nat 20" "a + 24 = a + of_nat 24" "a + 28 = a + of_nat 28" "a + 29 = a + of_nat 29"
  "a + 30 = a + of_nat 30" "a + 31 = a + of_nat 31" "a + 32 = a + of_nat 32"
  by simp_all

lemma read_header_of:
  assumes "ld_bytes m a 64 = header_bytes h" "length (ih_name h) = 32"
  shows "read_header m a = h"
proof -
  have "ld32 m (a + of_nat 0) = ih_magic h"
    using assms by (subst ld32_sub [of _ 64]) (simp_all add: header_bytes_def of_be32_be32 [of _ "[]", simplified])
  then show ?thesis unfolding read_header_def word_offsets IH_NMLEN_def using assms
    by (cases h) (simp add: ld32_sub [where n = 64] ld_sub [where n = 64] ld_bytes_sub [where n = 64] header_bytes_def nth_append
        of_be32_be32 [of _ "[]", simplified] del: of_nat_numeral)
qed

lemma header_bytes_read: "header_bytes (read_header m a) = ld_bytes m a 64"
proof -
  have "ld_bytes m a (4 + (4 + (4 + (4 + (4 + (4 + (4 + (4 + 32)))))))) = header_bytes (read_header m a)"
    unfolding ld_bytes_append header_bytes_def read_header_def
    by (simp add: ld32_def be32_of_be32 numeral_eq_Suc IH_NMLEN_def add.assoc)
  then show ?thesis by simp
qed

lemma header_bytes_hcrc:
  "header_bytes (h\<lparr>ih_hcrc := c\<rparr>) = take 4 (header_bytes h) @ be32 c @ drop 8 (header_bytes h)"
  by (simp add: header_bytes_def)

end
