(* ===== verification/LinuxBoot.thy ===== *)
theory LinuxBoot
  imports BootImage
begin

text \<open>
  The hand-over to Linux, \<open>lib_mips/mips_linux.c\<close>: the ramdisk, the argument vector made from
  \<open>bootargs\<close> and the environment of the kernel, written to memory at \<open>bi_boot_params\<close>.
\<close>

definition KSEG1ADDR :: "u32 \<Rightarrow> u32" where
  "KSEG1ADDR a = (a AND 0x1fffffff) OR 0xa0000000"

definition LINUX_MAX_ENVS :: u32 where "LINUX_MAX_ENVS = 256"
definition LINUX_MAX_ARGS :: u32 where "LINUX_MAX_ARGS = 256"

text \<open>
  The end of the first argument of \<open>line\<close>: the inner loop of \<open>linux_params_init\<close>. Pointers are
  offsets from \<open>line\<close>.
\<close>

lemma strchr_bound: "strchr s c = Some (Some k) \<Longrightarrow> k < length s"
  by (induction s arbitrary: k) (auto split: if_splits simp: map_option_Some_iff)

function quote_loop :: "bytes \<Rightarrow> nat option \<Rightarrow> nat option \<Rightarrow> nat option option" where
  "quote_loop line (Some next) (Some quote) =
     (if quote < next then do {
        close \<leftarrow> strchr (drop (Suc quote) line) 34;
        (case close of
           None \<Rightarrow> Some None
         | Some c \<Rightarrow> do {
             q \<leftarrow> strchr (drop (quote + c + 2) line) 34;
             n \<leftarrow> strchr (drop (quote + c + 2) line) 32;
             quote_loop line (map_option ((+) (quote + c + 2)) n) (map_option ((+) (quote + c + 2)) q) }) }
      else Some (Some next))"
| "quote_loop line None quote = Some None"
| "quote_loop line (Some next) None = Some (Some next)"
  by pat_completeness auto
termination
proof (relation "measure (\<lambda>(line, next, quote). case quote of None \<Rightarrow> 0 | Some q \<Rightarrow> Suc (length line) - q)", goal_cases)
  case (2 line "next" quote close c q n)
  then have "c < length (drop (Suc quote) line)" by (intro strchr_bound) simp
  then show ?case by (cases q) auto
qed simp

definition arg_len :: "bytes \<Rightarrow> nat option" where
  "arg_len line = do {
     quote \<leftarrow> strchr line 34;
     next \<leftarrow> strchr line 32;
     next \<leftarrow> quote_loop line next quote;
     (case next of Some n \<Rightarrow> Some n | None \<Rightarrow> strlen line) }"

text \<open>The variables of \<open>mips_linux.c\<close>.\<close>

record linux =
  linux_argc :: u32
  linux_argv :: u32
  linux_env :: u32
  linux_env_p :: u32
  linux_env_idx :: u32
  argp :: u32
  lram :: ram

definition revision :: "codec \<Rightarrow> bytes \<Rightarrow> bytes" where
  "revision w a = (if a = str ''REVISIONID'' then if is_virian w then str ''virian'' else str ''python'' else a)"

function arg_loop :: "codec \<Rightarrow> bytes \<Rightarrow> linux \<Rightarrow> linux option" where
  "arg_loop w line l = do {
     c \<leftarrow> rd line 0;
     if c \<noteq> 0 \<and> linux_argc l < LINUX_MAX_ARGS then do {
       n \<leftarrow> arg_len line;
       let m = st32 (lram l) (linux_argv l + 4 * linux_argc l) (argp l);
       let m = st_bytes m (argp l) (take n line @ [0]);
       let m = (if take n line = str ''REVISIONID'' then st_bytes m (argp l) (cstr (revision w (take n line))) else m);
       e \<leftarrow> rd line n;
       arg_loop w (drop (if e \<noteq> 0 then n + 1 else n) line)
         (l\<lparr>linux_argc := linux_argc l + 1, argp := argp l + of_nat (n + 1), lram := m\<rparr>) }
     else Some l }"
  by pat_completeness auto
termination
  by (relation "measure (\<lambda>(w, line, l). 256 - unat (linux_argc l))")
    (auto simp: LINUX_MAX_ARGS_def word_less_nat_alt unat_word_ariths)


text \<open>The argument vector, with the size of memory added unless the command line has it.\<close>

definition linux_args :: "codec \<Rightarrow> u32 \<Rightarrow> u32 \<Rightarrow> bytes \<Rightarrow> ram \<Rightarrow> linux option" where
  "linux_args w ramsize start_addr line m = do {
     has_mem \<leftarrow> strstr line (cstr (str ''mem=''));
     l \<leftarrow> arg_loop w line \<lparr>linux_argc = 1, linux_argv = start_addr, linux_env = 0, linux_env_p = 0, linux_env_idx = 0,
            argp = start_addr + 4 * LINUX_MAX_ARGS, lram = st32 m start_addr 0\<rparr>;
     (if has_mem = None then do {
        (memstr, n) \<leftarrow> sprintf (replicate 32 0) (cstr (str ''mem=%luM'')) [VInt (drop_bit 20 ramsize)];
        let m = st_bytes (lram l) (argp l) (take (n + 1) memstr);
        Some (l\<lparr>lram := st32 m (linux_argv l + 4 * linux_argc l) (argp l),
                linux_argc := linux_argc l + 1, argp := argp l + of_nat (n + 1)\<rparr>) }
      else Some l) }"

definition linux_params_init :: "codec \<Rightarrow> u32 \<Rightarrow> u32 \<Rightarrow> bytes option \<Rightarrow> ram \<Rightarrow> linux option" where
  "linux_params_init w ramsize start_addr line m = do {
     line \<leftarrow> line;
     l \<leftarrow> linux_args w ramsize start_addr line m;
     let env = (argp l + 15) AND NOT 15;
     Some (l\<lparr>linux_env := env, lram := st32 (lram l) env 0, linux_env_p := env + 4 * LINUX_MAX_ENVS, linux_env_idx := 0\<rparr>) }"

definition linux_env_set :: "bytes \<Rightarrow> bytes \<Rightarrow> linux \<Rightarrow> linux" where
  "linux_env_set env_name env_val l =
     (if linux_env_idx l < LINUX_MAX_ENVS - 1 then
        let p = linux_env_p l;
            m = st32 (lram l) (linux_env l + 4 * linux_env_idx l) p;
            m = st_bytes m p (cstr env_name); p = p + of_nat (length env_name);
            m = st_bytes m p (cstr (str ''='')); p = p + 1;
            m = st_bytes m p (cstr env_val); p = p + of_nat (length env_val) + 1
        in l\<lparr>linux_env_p := p, linux_env_idx := linux_env_idx l + 1,
             lram := st32 m (linux_env l + 4 * (linux_env_idx l + 1)) 0\<rparr>
      else l)"

text \<open>\<open>sprintf (env_buf, fmt, v); linux_env_set (name, env_buf);\<close>\<close>

definition env_set_num :: "string \<Rightarrow> string \<Rightarrow> u32 \<Rightarrow> linux \<Rightarrow> linux option" where
  "env_set_num name fmt v l = do {
     (env_buf, n) \<leftarrow> sprintf (replicate 12 0) (cstr (str fmt)) [VInt v];
     Some (linux_env_set (str name) (take n env_buf) l) }"

text \<open>The checks of a ramdisk that is given as an argument: its address and size, or \<open>None\<close> if the board is reset.\<close>

definition load_ramdisk :: "u32 \<Rightarrow> bool \<Rightarrow> boot \<Rightarrow> (u32 \<times> u32) option \<times> boot" where
  "load_ramdisk addr verify b =
     (let h = read_header (ram b) addr; b = (show_boot_progress 9 b)\<lparr>header := h\<rparr>
      in if ih_magic h \<noteq> IH_MAGIC then (None, show_boot_progress (-10) b)
      else let b = b\<lparr>header := h\<lparr>ih_hcrc := 0\<rparr>\<rparr>
      in if \<not> header_crc_ok h then (None, show_boot_progress (-11) b)
      else let data = addr + 64
      in if verify \<and> \<not> data_crc_ok (ram b) data h then (None, show_boot_progress (-12) (show_boot_progress 10 b))
      else if ih_os h \<noteq> IH_OS_LINUX \<or> ih_arch h \<noteq> IH_CPU_MIPS \<or> ih_type h \<noteq> IH_TYPE_RAMDISK
           then (None, show_boot_progress (-13) b)
      else (Some (data, ih_size h), show_boot_progress 11 b))"

text \<open>The initial ramdisk: given as an argument, part of a multi-file image, or none (address 0).\<close>

definition linux_initrd :: "bytes option list \<Rightarrow> u32 \<Rightarrow> bool \<Rightarrow> boot \<Rightarrow> ((u32 \<times> u32) option \<times> boot) option" where
  "linux_initrd argv len_ptr verify b =
     (if length argv \<ge> 3 then do {
        a \<leftarrow> arg argv 2;
        (addr, _) \<leftarrow> simple_strtoul a 16;
        Some (load_ramdisk addr verify b) }
      else if ih_type (header b) = IH_TYPE_MULTI \<and> ld32 (ram b) (len_ptr + 4) \<noteq> 0 then do {
        let klen = ld32 (ram b) len_ptr;
        let tail = klen mod 4;
        n \<leftarrow> more_sizes (ram b) (len_ptr + 4);
        let data = len_ptr + 8 + 4 * n + klen + (if tail \<noteq> 0 then 4 - tail else 0);
        Some (Some (data, ld32 (ram b) (len_ptr + 4)), show_boot_progress 13 b) }
      else Some (Some (0, 0), show_boot_progress 14 b))"

definition linux_start :: "codec \<Rightarrow> u32 \<Rightarrow> bytes option \<Rightarrow> u32 \<Rightarrow> u32 \<Rightarrow> boot \<Rightarrow> (ctl \<times> boot) option" where
  "linux_start w ep line data len b = do {
     let (initrd_start, initrd_end) = (if data \<noteq> 0 then (data, data + len) else (0, 0));
     let b = show_boot_progress 15 b;
     l \<leftarrow> linux_params_init w (ram_size b) (KSEG1ADDR (bi_boot_params b)) line (ram b);
     l \<leftarrow> env_set_num ''memsize'' ''%lu'' (ram_size b) l;
     l \<leftarrow> env_set_num ''initrd_start'' ''0x%08X'' (KSEG1ADDR initrd_start) l;
     l \<leftarrow> env_set_num ''initrd_size'' ''0x%X'' (initrd_end - initrd_start) l;
     l \<leftarrow> env_set_num ''flash_start'' ''0x%08X'' (bi_flashstart b) l;
     l \<leftarrow> env_set_num ''flash_size'' ''0x%X'' (bi_flashsize b) l;
     Some (Starts (Linux ep (linux_argc l) (linux_argv l) (linux_env l) (bi_flashsize b div 1048576)),
           show_boot_progress 16 (b\<lparr>ram := lram l\<rparr>)) }"

definition do_bootm_linux :: "codec \<Rightarrow> bytes option list \<Rightarrow> u32 \<Rightarrow> bool \<Rightarrow> boot \<Rightarrow> (ctl \<times> boot) option" where
  "do_bootm_linux w argv len_ptr verify b = do {
     commandline \<leftarrow> getenv (cstr (str ''bootargs'')) (b_ub b);
     let line = map_option (\<lambda>k. drop k (env_mem (b_ub b))) commandline;
     let ep = ih_ep (header b);
     (initrd, b) \<leftarrow> linux_initrd argv len_ptr verify b;
     (case initrd of
        None \<Rightarrow> Some (Resets, b)
      | Some (data, len) \<Rightarrow> linux_start w ep line data len b) }"

section \<open>The words of a command line\<close>

text \<open>
  The reference: a word ends at the first blank outside of quotation marks, or at the end; the
  marks stay in the word; a blank at the end does not start another word.
\<close>

fun word_len :: "bool \<Rightarrow> bytes \<Rightarrow> nat" where
  "word_len quoted [] = 0"
| "word_len quoted (c # s) =
     (if c = 34 then Suc (word_len (\<not> quoted) s)
      else if c = 32 \<and> \<not> quoted then 0
      else Suc (word_len quoted s))"

function boot_words :: "bytes \<Rightarrow> bytes list" where
  "boot_words s = (if s = [] then [] else
     take (word_len False s) s # boot_words (drop (Suc (word_len False s)) s))"
  by pat_completeness auto
termination
  by (relation "measure length") auto

declare boot_words.simps [simp del]

lemma word_len_le: "word_len q s \<le> length s"
  by (induction q s rule: word_len.induct) auto

lemma word_len_plain:
  "34 \<notin> set a \<Longrightarrow> quoted \<or> 32 \<notin> set a \<Longrightarrow> word_len quoted (a @ t) = length a + word_len quoted t"
  by (induction a) auto

lemma word_len_at: "word_len q s < length s \<Longrightarrow> s ! word_len q s = 32"
  by (induction q s rule: word_len.induct) auto

lemma word_len_no_blank: "32 \<notin> set s \<Longrightarrow> word_len q s = length s"
  by (induction q s rule: word_len.induct) auto

text \<open>What \<open>strchr\<close> returns for a character and a string.\<close>

definition index_of :: "byte \<Rightarrow> bytes \<Rightarrow> nat option" where
  "index_of c s = (if c \<in> set s then Some (length (takeWhile (\<lambda>x. x \<noteq> c) s)) else None)"

lemma strchr_index: "nonul s \<Longrightarrow> c \<noteq> 0 \<Longrightarrow> strchr (s @ 0 # r) c = Some (index_of c s)"
  by (simp add: strchr_cstr index_of_def)

lemma index_of_split: "index_of c s = Some i \<longleftrightarrow> (\<exists>a t. s = a @ c # t \<and> c \<notin> set a \<and> i = length a)"
proof
  assume "index_of c s = Some i"
  then have c: "c \<in> set s" "i = length (takeWhile (\<lambda>x. x \<noteq> c) s)" by (auto simp: index_of_def split: if_splits)
  then obtain a t where "s = a @ c # t" "c \<notin> set a" using split_list_first by metis
  then show "\<exists>a t. s = a @ c # t \<and> c \<notin> set a \<and> i = length a" using c(2) by (intro exI [of _ a] exI [of _ t]) (auto simp: takeWhile_append)
next
  assume "\<exists>a t. s = a @ c # t \<and> c \<notin> set a \<and> i = length a"
  then show "index_of c s = Some i" by (auto simp: index_of_def takeWhile_append)
qed

lemma index_of_None: "index_of c s = None \<longleftrightarrow> c \<notin> set s"
  by (simp add: index_of_def)

text \<open>The loop, entered outside of quotation marks with \<open>t\<close> still to be scanned.\<close>

lemma quote_loop_word:
  "nonul (u @ t) \<Longrightarrow>
     quote_loop (u @ t @ 0 # r) (map_option ((+) (length u)) (index_of 32 t)) (map_option ((+) (length u)) (index_of 34 t)) =
       Some (if word_len False t < length t then Some (length u + word_len False t) else None)"
proof (induction "length t" arbitrary: u t rule: less_induct)
  case less
  show ?case
  proof (cases "index_of 32 t")
    case None
    then have "word_len False t = length t" by (intro word_len_no_blank) (simp add: index_of_None)
    then show ?thesis using None by simp
  next
    case n: (Some n)
    then obtain b t' where b: "t = b @ 32 # t'" "32 \<notin> set b" "n = length b" by (auto simp: index_of_split)
    show ?thesis
    proof (cases "index_of 34 t")
      case None
      then have "word_len False t = n" using b by (simp add: index_of_None word_len_plain)
      then show ?thesis using n None b by simp
    next
      case q: (Some q)
      then obtain a t1 where a: "t = a @ 34 # t1" "34 \<notin> set a" "q = length a" by (auto simp: index_of_split)
      show ?thesis
      proof (cases "q < n")
        case False
        then have "34 \<notin> set b" using a b by (metis append_eq_append_conv_if in_set_takeD linorder_not_less)
        then have "word_len False t = n" using b by (simp add: word_len_plain)
        then show ?thesis using n q b False by simp
      next
        case True
        have "take (length a) (a @ 34 # t1) = take (length a) (b @ 32 # t')" using a(1) b(1) by simp
        then have "a = take (length a) b" using True a(3) b(3) by simp
        then have na: "32 \<notin> set a" using b(2) in_set_takeD by metis
        have d1: "drop (Suc (length u + q)) (u @ t @ 0 # r) = t1 @ 0 # r" using a by simp
        show ?thesis
        proof (cases "index_of 34 t1")
          case None
          then have "word_len True t1 = length t1" using word_len_plain [of t1 True "[]"] by (simp add: index_of_None)
          then show ?thesis using n q True a less.prems na None d1
            by (simp add: strchr_index word_len_plain)
        next
          case c: (Some c)
          then obtain e t2 where e: "t1 = e @ 34 # t2" "34 \<notin> set e" "c = length e" by (auto simp: index_of_split)
          have w: "word_len False t = q + c + 2 + word_len False t2"
            using a e na by (simp add: word_len_plain)
          let ?u = "u @ a @ 34 # e @ [34]"
          have d2: "drop (length u + q + c + 2) (u @ t @ 0 # r) = t2 @ 0 # r" using a e by simp
          have eqs: "?u @ t2 @ 0 # r = u @ t @ 0 # r" "length ?u = length u + q + c + 2" using a e by auto
          have "quote_loop (?u @ t2 @ 0 # r) (map_option ((+) (length ?u)) (index_of 32 t2)) (map_option ((+) (length ?u)) (index_of 34 t2)) =
              Some (if word_len False t2 < length t2 then Some (length ?u + word_len False t2) else None)"
            using less.prems a e by (intro less.hyps) auto
          note this [unfolded eqs]
          moreover have "word_len False t < length t \<longleftrightarrow> word_len False t2 < length t2" using w a e by simp
          moreover have "nonul t1" "nonul t2" using less.prems a e by simp_all
          then have "strchr (drop (Suc (length u + q)) (u @ t @ 0 # r)) 34 = Some (Some c)"
            "strchr (drop (length u + q + c + 2) (u @ t @ 0 # r)) 34 = Some (index_of 34 t2)"
            "strchr (drop (length u + q + c + 2) (u @ t @ 0 # r)) 32 = Some (index_of 32 t2)"
            unfolding d1 d2 c [symmetric] by (simp_all add: strchr_index)
          moreover have "quote_loop (u @ t @ 0 # r) (Some (length u + n)) (Some (length u + q)) = do {
              close \<leftarrow> strchr (drop (Suc (length u + q)) (u @ t @ 0 # r)) 34;
              (case close of
                 None \<Rightarrow> Some None
               | Some c \<Rightarrow> do {
                   q' \<leftarrow> strchr (drop (length u + q + c + 2) (u @ t @ 0 # r)) 34;
                   n' \<leftarrow> strchr (drop (length u + q + c + 2) (u @ t @ 0 # r)) 32;
                   quote_loop (u @ t @ 0 # r) (map_option ((+) (length u + q + c + 2)) n')
                     (map_option ((+) (length u + q + c + 2)) q') }) }"
            using True by (subst quote_loop.simps(1)) simp
          ultimately show ?thesis using n q w by (simp del: drop_append add: add.assoc)
        qed
      qed
    qed
  qed
qed

lemma map_option_plus_0 [simp]: "map_option ((+) (0 :: nat)) x = x"
  by (cases x) simp_all

lemma arg_len_word: "nonul s \<Longrightarrow> arg_len (s @ 0 # r) = Some (word_len False s)"
  using quote_loop_word [of "[]" s r] word_len_le [of False s]
  by (auto simp: arg_len_def strchr_index)

section \<open>Tables of strings in memory\<close>

text \<open>
  Relative to \<open>A\<close>: a table of pointers at offset \<open>T\<close> whose entries point to the strings \<open>ws\<close>, which
  lie between the offsets \<open>lo\<close> and \<open>hi\<close>.
\<close>

definition table_at :: "ram \<Rightarrow> u32 \<Rightarrow> nat \<Rightarrow> nat \<Rightarrow> nat \<Rightarrow> bytes list \<Rightarrow> bool" where
  "table_at m A T lo hi ws \<longleftrightarrow> (\<forall>j < length ws. \<exists>q. lo \<le> q \<and> q + length (ws ! j) < hi \<and>
     ld32 m (A + of_nat (T + 4 * j)) = A + of_nat q \<and>
     ld_bytes m (A + of_nat q) (Suc (length (ws ! j))) = cstr (ws ! j))"

lemma table_Nil [simp]: "table_at m A T lo hi []"
  by (simp add: table_at_def)

lemma table_snoc:
  assumes "table_at m A T lo hi ws" "lo \<le> hi" "hi + length w < hi'"
    "ld32 m (A + of_nat (T + 4 * length ws)) = A + of_nat hi"
    "ld_bytes m (A + of_nat hi) (Suc (length w)) = cstr w"
  shows "table_at m A T lo hi' (ws @ [w])"
  unfolding table_at_def
proof (intro allI impI)
  fix j assume "j < length (ws @ [w])"
  then consider "j < length ws" | "j = length ws" by (auto simp: less_Suc_eq)
  then show "\<exists>q. lo \<le> q \<and> q + length ((ws @ [w]) ! j) < hi' \<and> ld32 m (A + of_nat (T + 4 * j)) = A + of_nat q \<and>
      ld_bytes m (A + of_nat q) (Suc (length ((ws @ [w]) ! j))) = cstr ((ws @ [w]) ! j)"
  proof cases
    case 1
    then obtain q where "lo \<le> q" "q + length (ws ! j) < hi" "ld32 m (A + of_nat (T + 4 * j)) = A + of_nat q"
      "ld_bytes m (A + of_nat q) (Suc (length (ws ! j))) = cstr (ws ! j)"
      using assms(1) unfolding table_at_def by blast
    then show ?thesis using 1 assms by (intro exI [of _ q]) (simp add: nth_append)
  next
    case 2
    then show ?thesis using assms by (intro exI [of _ hi]) simp
  qed
qed

text \<open>A write below the table, between the table and the strings, or above the strings changes none of them.\<close>

lemma table_frame:
  assumes t: "table_at m A T lo hi ws" and N: "pa A + N \<le> 2 ^ 29" "hi \<le> N" "lo \<le> hi" "T + 4 * length ws \<le> lo"
    and bs: "bs \<noteq> []" "x + length bs \<le> N"
    and x: "x + length bs \<le> T \<or> (T + 4 * length ws \<le> x \<and> x + length bs \<le> lo) \<or> hi \<le> x"
  shows "table_at (st_bytes m (A + of_nat x) bs) A T lo hi ws"
  unfolding table_at_def
proof (intro allI impI)
  fix j assume j: "j < length ws"
  then obtain q where q: "lo \<le> q" "q + length (ws ! j) < hi" "ld32 m (A + of_nat (T + 4 * j)) = A + of_nat q"
      "ld_bytes m (A + of_nat q) (Suc (length (ws ! j))) = cstr (ws ! j)"
    using t unfolding table_at_def by blast
  have "ld_bytes (st_bytes m (A + of_nat x) bs) (A + of_nat q) (Suc (length (ws ! j))) = cstr (ws ! j)"
    using q N bs x j by (subst ld_st_apart) auto
  moreover have "ld_bytes (st_bytes m (A + of_nat x) bs) (A + of_nat (T + 4 * j)) 4 = ld_bytes m (A + of_nat (T + 4 * j)) 4"
    using q N bs x j by (intro ld_st_apart) auto
  ultimately show "\<exists>q. lo \<le> q \<and> q + length (ws ! j) < hi \<and>
      ld32 (st_bytes m (A + of_nat x) bs) (A + of_nat (T + 4 * j)) = A + of_nat q \<and>
      ld_bytes (st_bytes m (A + of_nat x) bs) (A + of_nat q) (Suc (length (ws ! j))) = cstr (ws ! j)"
    using q by (intro exI [of _ q]) (simp add: ld32_def)
qed

lemma table_mono: "table_at m A T lo hi ws \<Longrightarrow> hi \<le> hi' \<Longrightarrow> table_at m A T lo hi' ws"
  unfolding table_at_def by (meson order_less_le_trans)

lemma ld32_st32: "pa A + x + 4 \<le> 2 ^ 29 \<Longrightarrow> ld32 (st32 m (A + of_nat x) v) (A + of_nat x) = v"
  using of_be32_be32 [of v "[]"] by (simp add: ld32_def st32_def ld_st_same)

text \<open>Memory outside of a range is as before.\<close>

definition same_outside :: "nat \<Rightarrow> nat \<Rightarrow> ram \<Rightarrow> ram \<Rightarrow> bool" where
  "same_outside p n m m' \<longleftrightarrow> (\<forall>q. q < p \<or> p + n \<le> q \<longrightarrow> m' q = m q)"

lemma same_outside_refl [simp]: "same_outside p n m m"
  by (simp add: same_outside_def)

lemma same_outside_trans: "same_outside p n m m' \<Longrightarrow> same_outside p n m' m'' \<Longrightarrow> same_outside p n m m''"
  by (simp add: same_outside_def)

lemma same_outside_st:
  assumes "pa A + N \<le> 2 ^ 29" "x + length bs \<le> N" "same_outside (pa A) N m m'"
  shows "same_outside (pa A) N m (st_bytes m' (A + of_nat x) bs)"
proof (cases "bs = []")
  case False
  then have "0 < length bs" by simp
  then have "pa A + x < 2 ^ 29" using assms(1,2) by linarith
  then have "st_bytes m' (A + of_nat x) bs = place (pa A + x) bs m'"
    using assms(1,2) st_bytes_place [of "A + of_nat x" bs m'] by (simp add: pa_add_small)
  then show ?thesis using assms(2,3) by (auto simp: same_outside_def place_def)
qed (use assms in simp)

lemma ld_bytes_same_outside:
  "same_outside p k m m' \<Longrightarrow> pa a + n \<le> 2 ^ 29 \<Longrightarrow> pa a + n \<le> p \<or> p + k \<le> pa a \<Longrightarrow> ld_bytes m' a n = ld_bytes m a n"
  by (auto simp: ld_bytes_seg same_outside_def)

section \<open>The argument vector\<close>

declare arg_loop.simps [simp del]

text \<open>What the loop keeps: \<open>ws\<close> are the arguments stored so far, \<open>hi\<close> the offset of \<open>argp\<close>, \<open>m0\<close> the memory at the start.\<close>

definition args_inv :: "u32 \<Rightarrow> nat \<Rightarrow> ram \<Rightarrow> nat \<Rightarrow> bytes list \<Rightarrow> linux \<Rightarrow> bool" where
  "args_inv A N m0 hi ws l \<longleftrightarrow> linux_argv l = A \<and> linux_argc l = of_nat (Suc (length ws)) \<and> argp l = A + of_nat hi \<and>
     1024 \<le> hi \<and> table_at (lram l) A 4 1024 hi ws \<and> same_outside (pa A) N m0 (lram l)"

lemma be32_not_Nil [simp]: "be32 v \<noteq> []"
  by (simp add: be32_def)

lemma args_inv_step:
  assumes inv: "args_inv A N m0 hi ws l" and N: "pa A + N \<le> 2 ^ 29" "hi + length v + 1 \<le> N"
    and len: "length ws < 255" "length v' \<le> length v" "v' \<noteq> v \<longrightarrow> b"
  shows "args_inv A N m0 (hi + length v + 1) (ws @ [v'])
    (l\<lparr>linux_argc := linux_argc l + 1, argp := argp l + of_nat (length v + 1),
       lram := (let m = st_bytes (st32 (lram l) (linux_argv l + 4 * linux_argc l) (argp l)) (argp l) (v @ [0])
                in if b then st_bytes m (argp l) (cstr v') else m)\<rparr>)"
proof -
  have l: "linux_argv l = A" "linux_argc l = of_nat (Suc (length ws))" "argp l = A + of_nat hi" "1024 \<le> hi"
    "table_at (lram l) A 4 1024 hi ws" "same_outside (pa A) N m0 (lram l)"
    using inv by (auto simp: args_inv_def)
  define slot where "slot = 4 + 4 * length ws"
  have slot: "linux_argv l + 4 * linux_argc l = A + of_nat slot" "slot + 4 \<le> 1024" using l len by (simp_all add: slot_def)
  define m1 where "m1 = st32 (lram l) (A + of_nat slot) (A + of_nat hi)"
  define m2 where "m2 = st_bytes m1 (A + of_nat hi) (v @ [0])"
  define m3 where "m3 = (if b then st_bytes m2 (A + of_nat hi) (cstr v') else m2)"
  have t1: "table_at m1 A 4 1024 hi ws" unfolding m1_def st32_def
    using l(4,5) N len slot(2) by (intro table_frame [where N = N]) (auto simp: slot_def)
  have t2: "table_at m2 A 4 1024 hi ws" unfolding m2_def
    using t1 l(4) N len by (intro table_frame [where N = N]) auto
  have t3: "table_at m3 A 4 1024 hi ws" unfolding m3_def
    using t2 l(4) N len by (auto intro!: table_frame [where N = N])
  have s1: "ld32 m1 (A + of_nat slot) = A + of_nat hi" unfolding m1_def
    using N l(4) slot(2) by (intro ld32_st32) auto
  have apart: "ld32 (st_bytes m (A + of_nat hi) bs) (A + of_nat slot) = ld32 m (A + of_nat slot)"
    if "bs \<noteq> []" "length bs \<le> length v + 1" for m bs
    unfolding ld32_def using that N l(4) slot(2) by (subst ld_st_apart) auto
  have s3: "ld32 m3 (A + of_nat slot) = A + of_nat hi"
    using s1 len by (simp add: m3_def m2_def apart)
  have v3: "ld_bytes m3 (A + of_nat hi) (Suc (length v')) = cstr v'"
  proof (cases b)
    case True
    then show ?thesis unfolding m3_def if_P [OF True] using N len by (intro ld_st_same) auto
  next
    case False
    then have "v' = v" using len by blast
    moreover have "ld_bytes (st_bytes m1 (A + of_nat hi) (v @ [0])) (A + of_nat hi) (Suc (length v)) = v @ [0]"
      by (intro ld_st_same) (use N in auto)
    ultimately show ?thesis by (simp only: m3_def False m2_def cstr_def if_False)
  qed
  have "table_at m3 A 4 1024 (hi + length v + 1) (ws @ [v'])"
    using t3 l(4) len s3 v3 by (intro table_snoc [where hi = hi]) (auto simp: slot_def)
  moreover have "same_outside (pa A) N m0 m3"
    unfolding m3_def m2_def m1_def st32_def using l(4,6) N len slot(2)
    by (auto intro!: same_outside_st)
  ultimately show ?thesis unfolding args_inv_def slot(1) l(3) m1_def [symmetric] m2_def [symmetric] Let_def m3_def
    using l by (simp add: algebra_simps)
qed

lemma revision_shorter: "length (revision w v) \<le> length v"
  by (simp add: revision_def str_def)

lemma arg_loop_words:
  "nonul s \<Longrightarrow> args_inv A N m0 hi ws l \<Longrightarrow> pa A + N \<le> 2 ^ 29 \<Longrightarrow> hi + length s + (if s = [] then 0 else 1) \<le> N \<Longrightarrow>
     length ws + length (boot_words s) \<le> 255 \<Longrightarrow>
     \<exists>l' hi'. arg_loop w (s @ 0 # r) l = Some l' \<and> hi' \<le> hi + length s + (if s = [] then 0 else 1) \<and>
       args_inv A N m0 hi' (ws @ map (revision w) (boot_words s)) l'"
proof (induction s arbitrary: ws l hi rule: boot_words.induct)
  case (1 s)
  show ?case
  proof (cases "s = []")
    case True
    then show ?thesis using 1(3) by (intro exI [of _ l] exI [of _ hi]) (simp add: arg_loop.simps boot_words.simps)
  next
    case False
    define n where "n = word_len False s"
    define v where "v = take n s"
    have n: "n \<le> length s" "length v = n" using word_len_le by (auto simp: n_def v_def)
    have words: "boot_words s = v # boot_words (drop (Suc n) s)"
      using False by (subst boot_words.simps) (simp add: n_def v_def)
    have w: "length ws < 255" "linux_argc l < LINUX_MAX_ARGS"
    proof -
      show "length ws < 255" using 1(6) words by simp
      then have "unat (of_nat (Suc (length ws)) :: u32) = Suc (length ws)"
        by (simp only: unsigned_of_nat take_bit_nat_def) simp
      then show "linux_argc l < LINUX_MAX_ARGS"
        using 1(3) \<open>length ws < 255\<close> unfolding args_inv_def LINUX_MAX_ARGS_def word_less_nat_alt by simp
    qed
    define l1 where "l1 = l\<lparr>linux_argc := linux_argc l + 1, argp := argp l + of_nat (n + 1),
       lram := (let m = st_bytes (st32 (lram l) (linux_argv l + 4 * linux_argc l) (argp l)) (argp l) (v @ [0])
                in if v = str ''REVISIONID'' then st_bytes m (argp l) (cstr (revision w v)) else m)\<rparr>"
    have inv: "args_inv A N m0 (hi + n + 1) (ws @ [revision w v]) l1"
    proof -
      have le: "hi + length v + 1 \<le> N" using 1(5) n False by simp
      have rev: "revision w v \<noteq> v \<longrightarrow> v = str ''REVISIONID''" by (simp add: revision_def)
      show ?thesis using args_inv_step [OF 1(3,4) le w(1) revision_shorter rev] unfolding l1_def n(2) .
    qed
    obtain c s' where s: "s = c # s'" "c \<noteq> 0" using False 1(2) by (cases s) auto
    have e: "rd (s @ 0 # r) n = Some (if n < length s then 32 else 0)"
      using word_len_at [of False s] n(1) by (auto simp: rd_def nth_append n_def)
    have d: "drop (if n < length s then n + 1 else n) (s @ 0 # r) = drop (Suc n) s @ 0 # r" using n by auto
    have k: "(if (if n < length s then 32 else 0 :: byte) \<noteq> 0 then n + 1 else n) = (if n < length s then n + 1 else n)"
      by simp
    have facts: "rd (s @ 0 # r) 0 = Some c" "arg_len (s @ 0 # r) = Some n" "take n (s @ 0 # r) = v"
    proof -
      show "rd (s @ 0 # r) 0 = Some c" by (simp add: s(1))
      show "arg_len (s @ 0 # r) = Some n" unfolding n_def by (rule arg_len_word [OF 1(2)])
      show "take n (s @ 0 # r) = v" using n(1) by (simp add: v_def)
    qed
    have step: "arg_loop w (s @ 0 # r) l = arg_loop w (drop (Suc n) s @ 0 # r) l1"
      by (subst arg_loop.simps) (simp only: facts e k d w s(2) bind.bind_lunit simp_thms if_True Let_def l1_def)
    have "\<exists>l' hi'. arg_loop w (drop (Suc n) s @ 0 # r) l1 = Some l' \<and> hi' \<le> hi + n + 1 + length (drop (Suc n) s) + (if drop (Suc n) s = [] then 0 else 1) \<and>
        args_inv A N m0 hi' ((ws @ [revision w v]) @ map (revision w) (boot_words (drop (Suc n) s))) l'"
    proof (rule 1(1) [OF False, folded n_def])
      show "nonul (drop (Suc n) s)" using 1(2) by auto
      show "hi + n + 1 + length (drop (Suc n) s) + (if drop (Suc n) s = [] then 0 else 1) \<le> N" using 1(5) n False by auto
      show "length (ws @ [revision w v]) + length (boot_words (drop (Suc n) s)) \<le> 255" using 1(6) words by simp
    qed (rule inv 1(4))+
    then obtain l' hi' where "arg_loop w (drop (Suc n) s @ 0 # r) l1 = Some l'"
      "args_inv A N m0 hi' ((ws @ [revision w v]) @ map (revision w) (boot_words (drop (Suc n) s))) l'"
      "hi' \<le> hi + n + 1 + length (drop (Suc n) s) + (if drop (Suc n) s = [] then 0 else 1)" by blast
    then show ?thesis unfolding step words using n False by (intro exI [of _ l'] exI [of _ hi']) (auto split: if_splits)
  qed
qed

section \<open>Formatted parameters\<close>

definition udec_of :: "u32 \<Rightarrow> bytes" where
  "udec_of n = numeral_of small_digits 10 n"

definition HEX_of :: "u32 \<Rightarrow> bytes" where
  "HEX_of n = numeral_of large_digits 16 n"

definition HEX8_of :: "u32 \<Rightarrow> bytes" where
  "HEX8_of n = replicate (8 - length (HEX_of n)) 48 @ HEX_of n"

lemma number_HEX: "number n 16 (-1) (-1) 64 = Some (HEX_of n)"
  by (auto simp: number_def HEX_of_def numeral_of_def Let_def spent_def)

lemma number_HEX8: "number n 16 8 (-1) 65 = Some (HEX8_of n)"
proof -
  have "nat (8 - int k) = 8 - k" for k by simp
  then show ?thesis
    by (auto simp: number_def HEX8_of_def HEX_of_def numeral_of_def Let_def spent_def ch_def)
qed

lemma udec_of_props: "nonul (udec_of n)" "length (udec_of n) \<le> 10"
  unfolding udec_of_def using digits_props [OF small_digit_table, of 10 10] by simp_all

lemma HEX_of_props: "nonul (HEX_of n)" "length (HEX_of n) \<le> 8"
  unfolding HEX_of_def using digits_props [OF large_digit_table, of 16 8] by simp_all

lemma HEX8_of_props: "nonul (HEX8_of n)" "length (HEX8_of n) = 8"
  using HEX_of_props [of n] by (auto simp: HEX8_of_def nonul_def)

lemma lu_conversion: "vsprintf_loop pos (cstr (str ''%lu'')) [VInt n] = Some (udec_of n, [])"
  using number_plain [of 10 n] by (simp add: conversion_unfold udec_of_def)

lemma mem_conversion: "vsprintf_loop pos (cstr (str ''mem=%luM'')) [VInt n] = Some (str ''mem='' @ udec_of n @ str ''M'', [])"
  using number_plain [of 10 n] by (simp add: conversion_unfold udec_of_def)

lemma HEX_conversion: "vsprintf_loop pos (cstr (str ''0x%X'')) [VInt n] = Some (str ''0x'' @ HEX_of n, [])"
  using number_HEX [of n] by (simp add: conversion_unfold)

lemma HEX8_conversion: "vsprintf_loop pos (cstr (str ''0x%08X'')) [VInt n] = Some (str ''0x'' @ HEX8_of n, [])"
  using number_HEX8 [of n] by (simp add: conversion_unfold)

section \<open>The parameters as a whole\<close>

definition mentions :: "bytes \<Rightarrow> bytes \<Rightarrow> bool" where
  "mentions t s \<longleftrightarrow> list_ex (\<lambda>i. take (length t) (drop i s) = t) [0..<Suc (length s) - length t]"

text \<open>What the kernel gets as arguments.\<close>

definition kernel_args :: "codec \<Rightarrow> u32 \<Rightarrow> bytes \<Rightarrow> bytes list" where
  "kernel_args w ramsize s = map (revision w) (boot_words s) @
     (if mentions (str ''mem='') s then [] else [str ''mem='' @ udec_of (drop_bit 20 ramsize) @ str ''M''])"

lemma strstr_mentions:
  assumes "nonul s" "nonul t"
  obtains x where "strstr (s @ 0 # r) (cstr t) = Some x" "x = None \<longleftrightarrow> \<not> mentions t s"
proof
  show "strstr (s @ 0 # r) (cstr t) = Some (find (\<lambda>i. take (length t) (drop i s) = t) [0..<Suc (length s) - length t])"
    using strstr_first_occurrence [OF assms, of r "[]"] by (simp add: cstr_def)
  show "find (\<lambda>i. take (length t) (drop i s) = t) [0..<Suc (length s) - length t] = None \<longleftrightarrow> \<not> mentions t s"
    unfolding mentions_def find_None_iff list_ex_iff by blast
qed

lemma align_16: "\<exists>e \<le> 15. ((x :: u32) + 15) AND NOT 15 = x + of_nat e"
proof -
  define k where "k = unat ((x + 15) AND 15)"
  have "(x + 15) AND 15 \<le> 15" by (rule word_and_le1)
  then have k: "k \<le> 15" by (simp add: k_def word_le_nat_alt)
  have "(x + 15) AND NOT 15 = (x + 15) AND NOT ((x + 15) AND 15)" by (rule bit_eqI) (auto simp: bit_simps)
  also have "\<dots> = x + 15 - ((x + 15) AND 15)" by (rule disjunctive_diff_eq_and_not [symmetric]) (rule bit_eqI, simp add: bit_simps)
  also have "\<dots> = x + 15 - of_nat k" by (simp add: k_def)
  also have "\<dots> = x + of_nat (15 - k)" using k by (simp add: of_nat_diff)
  finally show ?thesis by (intro exI [of _ "15 - k"]) simp
qed

text \<open>The environment of the kernel while it is built: \<open>vs\<close> are the entries so far.\<close>

definition kenv_inv :: "u32 \<Rightarrow> nat \<Rightarrow> ram \<Rightarrow> nat \<Rightarrow> nat \<Rightarrow> nat \<Rightarrow> bytes list \<Rightarrow> bytes list \<Rightarrow> linux \<Rightarrow> bool" where
  "kenv_inv A N m0 ahi E hi as vs l \<longleftrightarrow>
     linux_argv l = A \<and> linux_argc l = of_nat (Suc (length as)) \<and> length as \<le> 255 \<and>
     table_at (lram l) A 4 1024 ahi as \<and> 1024 \<le> ahi \<and> ahi \<le> E \<and>
     linux_env l = A + of_nat E \<and> linux_env_idx l = of_nat (length vs) \<and> linux_env_p l = A + of_nat hi \<and>
     E + 1024 \<le> hi \<and> table_at (lram l) A E (E + 1024) hi vs \<and> ld32 (lram l) (A + of_nat (E + 4 * length vs)) = 0 \<and>
     same_outside (pa A) N m0 (lram l)"

lemma st_bytes_comm:
  assumes "pa A + N \<le> 2 ^ 29" "x + length a \<le> N" "y + length b \<le> N" "x + length a \<le> y" "a \<noteq> []" "b \<noteq> []"
  shows "st_bytes (st_bytes m (A + of_nat x) a) (A + of_nat y) b = st_bytes (st_bytes m (A + of_nat y) b) (A + of_nat x) a"
proof -
  have "0 < length a" "0 < length b" using assms by simp_all
  then have "pa A + x < 2 ^ 29" "pa A + y < 2 ^ 29" using assms(1-3) by linarith+
  then have "pa (A + of_nat x) = pa A + x" "pa (A + of_nat y) = pa A + y" by (simp_all add: pa_add_small)
  then show ?thesis using assms
    by (simp add: st_bytes_place) (auto simp: place_def fun_eq_iff)
qed

lemma params_init_args:
  assumes s: "nonul s" "length (boot_words s) \<le> 254" and N: "pa A + N \<le> 2 ^ 29" "length s + 1100 \<le> N"
  shows "\<exists>l hi. linux_args w ramsize A (s @ 0 # r) m = Some l \<and> hi \<le> length s + 1041 \<and> args_inv A N m hi (kernel_args w ramsize s) l"
proof -
  let ?l0 = "\<lparr>linux_argc = 1, linux_argv = A, linux_env = 0, linux_env_p = 0, linux_env_idx = 0,
            argp = A + 4 * LINUX_MAX_ARGS, lram = st32 m A 0\<rparr>"
  have "same_outside (pa A) N m (st32 m A 0)"
    using same_outside_st [of A N 0 "be32 0" m m] N by (simp add: st32_def)
  then have "args_inv A N m 1024 [] ?l0" by (simp add: args_inv_def LINUX_MAX_ARGS_def)
  then obtain l hi where l: "arg_loop w (s @ 0 # r) ?l0 = Some l" "hi \<le> 1024 + length s + 1"
      "args_inv A N m hi (map (revision w) (boot_words s)) l"
  proof -
    have "1024 + length s + (if s = [] then 0 else 1) \<le> N" "length ([] :: bytes list) + length (boot_words s) \<le> 255"
      using N s by simp_all
    from arg_loop_words [OF s(1) \<open>args_inv A N m 1024 [] ?l0\<close> N(1) this, of w r]
    obtain l' hi' where "arg_loop w (s @ 0 # r) ?l0 = Some l'" "hi' \<le> 1024 + length s + (if s = [] then 0 else 1)"
      "args_inv A N m hi' (map (revision w) (boot_words s)) l'" by auto
    then show thesis using that [of l' hi'] by (simp split: if_splits)
  qed
  have "nonul (str ''mem='')" by (simp add: str_def ch_def)
  then obtain x where x: "strstr (s @ 0 # r) (cstr (str ''mem='')) = Some x" "x = None \<longleftrightarrow> \<not> mentions (str ''mem='') s"
    using strstr_mentions [OF s(1)] by blast
  show ?thesis
  proof (cases "mentions (str ''mem='') s")
    case True
    then obtain y where "x = Some y" using x(2) by auto
    then show ?thesis using True x(1) l by (intro exI [of _ l] exI [of _ hi]) (simp add: kernel_args_def linux_args_def)
  next
    case False
    define v where "v = str ''mem='' @ udec_of (drop_bit 20 ramsize) @ str ''M''"
    have v: "length v \<le> 15" using udec_of_props(2) [of "drop_bit 20 ramsize"] by (simp add: v_def str_def)
    have sp: "sprintf (replicate 32 0) (cstr (str ''mem=%luM'')) [VInt (drop_bit 20 ramsize)] =
        Some (overlay (replicate 32 0) 0 (v @ [0]), length v)"
      using v by (simp add: sprintf_def vsprintf_def mem_conversion v_def)
    have tk: "take (length v + 1) (overlay (replicate 32 0) 0 (v @ [0])) = v @ [0]" by (simp add: overlay_def)
    let ?l1 = "l\<lparr>lram := st32 (st_bytes (lram l) (argp l) (v @ [0])) (linux_argv l + 4 * linux_argc l) (argp l),
                    linux_argc := linux_argc l + 1, argp := argp l + of_nat (length v + 1)\<rparr>"
    have "args_inv A N m (hi + length v + 1) (map (revision w) (boot_words s) @ [v]) ?l1"
    proof -
      have i: "linux_argv l = A" "linux_argc l = of_nat (Suc (length (boot_words s)))" "argp l = A + of_nat hi" "1024 \<le> hi"
        using l(3) by (auto simp: args_inv_def)
      have slot: "A + 4 * of_nat (Suc (length (boot_words s))) = A + of_nat (4 + 4 * length (boot_words s))" by simp
      have "st32 (st_bytes (lram l) (A + of_nat hi) (v @ [0])) (A + of_nat (4 + 4 * length (boot_words s))) (A + of_nat hi) =
          st_bytes (st32 (lram l) (A + of_nat (4 + 4 * length (boot_words s))) (A + of_nat hi)) (A + of_nat hi) (v @ [0])"
        unfolding st32_def using N s(2) i(4) l(2) v by (intro st_bytes_comm [symmetric, where N = N]) auto
      moreover have "hi + length v + 1 \<le> N" "length (map (revision w) (boot_words s)) < 255" using N l(2) v s(2) by auto
      then have "args_inv A N m (hi + length v + 1) (map (revision w) (boot_words s) @ [v])
          (l\<lparr>linux_argc := linux_argc l + 1, argp := argp l + of_nat (length v + 1),
             lram := (let m = st_bytes (st32 (lram l) (linux_argv l + 4 * linux_argc l) (argp l)) (argp l) (v @ [0])
                      in if False then st_bytes m (argp l) (cstr v) else m)\<rparr>)"
        by (intro args_inv_step [OF l(3) N(1)]) auto
      ultimately show ?thesis unfolding i slot by (simp only: Let_def if_False) (simp add: args_inv_def)
    qed
    then show ?thesis using x l v False sp tk
      by (intro exI [of _ ?l1] exI [of _ "hi + length v + 1"]) (simp add: linux_args_def kernel_args_def v_def [symmetric] Let_def)
  qed
qed

lemma st_bytes_extend:
  assumes "ys \<noteq> []"
  shows "st_bytes (st_bytes m a (xs @ [c])) (a + of_nat (length xs)) ys = st_bytes m a (xs @ ys)"
  using assms by (cases ys) (simp_all add: st_bytes_append st_def)

lemma env_set_bytes:
  "st_bytes (st_bytes (st_bytes m p (cstr x)) (p + of_nat (length x)) (cstr [c]))
     (p + of_nat (length x) + 1) (cstr y) = st_bytes m p (x @ c # cstr y)"
proof -
  have "st_bytes (st_bytes m p (cstr x)) (p + of_nat (length x)) (cstr [c]) = st_bytes m p ((x @ [c]) @ [0])"
    unfolding cstr_def by (subst st_bytes_extend) auto
  moreover have "p + of_nat (length x) + 1 = p + of_nat (length (x @ [c]))" by simp
  moreover have "(x @ [c]) @ cstr y = x @ c # cstr y" by simp
  ultimately show ?thesis using st_bytes_extend [of "cstr y" m p "x @ [c]" 0] by (metis cstr_not_Nil)
qed

lemma linux_env_set_kenv:
  assumes inv: "kenv_inv A N m0 ahi E hi as vs l" and N: "pa A + N \<le> 2 ^ 29" "hi + length x + length y + 2 \<le> N"
    and vs: "length vs < 255"
  shows "kenv_inv A N m0 ahi E (hi + length x + length y + 2) as (vs @ [x @ ch (CHR ''='') # y]) (linux_env_set x y l)"
proof -
  have l: "linux_env l = A + of_nat E" "linux_env_idx l = of_nat (length vs)" "linux_env_p l = A + of_nat hi"
    "table_at (lram l) A 4 1024 ahi as" "table_at (lram l) A E (E + 1024) hi vs" "same_outside (pa A) N m0 (lram l)"
    and b: "E + 1024 \<le> hi" "1024 \<le> ahi" "ahi \<le> E" "length as \<le> 255"
    using inv by (auto simp: kenv_inv_def)
  have idx: "linux_env_idx l < LINUX_MAX_ENVS - 1"
  proof -
    have "unat (of_nat (length vs) :: u32) = length vs" using vs by (simp only: unsigned_of_nat take_bit_nat_def) simp
    then show ?thesis using vs by (simp add: l(2) LINUX_MAX_ENVS_def word_less_nat_alt)
  qed
  define v where "v = x @ ch (CHR ''='') # y"
  define slot where "slot = E + 4 * length vs"
  define m1 where "m1 = st32 (lram l) (A + of_nat slot) (A + of_nat hi)"
  define m2 where "m2 = st_bytes m1 (A + of_nat hi) (cstr v)"
  define m3 where "m3 = st32 m2 (A + of_nat (slot + 4)) 0"
  have eqs: "str ''='' = [ch (CHR ''='')]" "x @ ch (CHR ''='') # cstr y = cstr v"
    "A + of_nat E + 4 * of_nat (length vs) = A + of_nat slot"
    "A + of_nat E + 4 * of_nat (Suc (length vs)) = A + of_nat (slot + 4)"
    "A + of_nat hi + of_nat (length x) + 1 + of_nat (length y) + 1 = A + of_nat (hi + length v + 1)"
    "of_nat (length vs) + 1 = (of_nat (Suc (length vs)) :: u32)"
    by (simp_all add: str_def v_def slot_def)
  have set: "linux_env_set x y l = l\<lparr>linux_env_p := A + of_nat (hi + length v + 1), linux_env_idx := of_nat (Suc (length vs)), lram := m3\<rparr>"
    unfolding linux_env_set_def Let_def l(1,2,3) eqs(1) env_set_bytes eqs(2,3,5,6) eqs(4) m3_def m2_def m1_def
    using idx [unfolded l(2)] by (rule if_P)
  have N3: "slot + 8 \<le> E + 1024" "hi + length (cstr v) \<le> N" using vs N by (auto simp: slot_def v_def)
  have keep: "table_at m3 A T lo h ws"
    if "table_at (lram l) A T lo h ws" "lo \<le> h" "h \<le> hi" "T + 4 * length ws \<le> lo"
      "h \<le> slot \<or> T + 4 * length ws \<le> slot \<and> slot + 8 \<le> lo" for T lo h ws
    unfolding m3_def m2_def m1_def st32_def
    using that b N3 N by (intro table_frame [where N = N]) auto
  have k1: "table_at m3 A 4 1024 ahi as" using keep l(4) b by (auto simp: slot_def)
  have k2: "table_at m3 A E (E + 1024) hi vs" using keep [OF l(5)] b N3 vs by (auto simp: slot_def)
  have "ld32 m3 (A + of_nat slot) = ld32 m1 (A + of_nat slot)"
    unfolding m3_def m2_def st32_def ld32_def using N N3 b by (subst ld_st_apart, auto)+
  also have "\<dots> = A + of_nat hi" unfolding m1_def using N N3 b by (intro ld32_st32) auto
  finally have p: "ld32 m3 (A + of_nat slot) = A + of_nat hi" .
  have z: "ld32 m3 (A + of_nat (slot + 4)) = 0" unfolding m3_def using N N3 b by (intro ld32_st32) auto
  have "ld_bytes m3 (A + of_nat hi) (Suc (length v)) = ld_bytes m2 (A + of_nat hi) (Suc (length v))"
    unfolding m3_def st32_def using N N3 b by (intro ld_st_apart) auto
  also have "\<dots> = cstr v" unfolding m2_def using N N3 by (intro ld_st_same) auto
  finally have v3: "ld_bytes m3 (A + of_nat hi) (Suc (length v)) = cstr v" .
  have "table_at m3 A E (E + 1024) (hi + length v + 1) (vs @ [v])"
    using k2 b p v3 by (intro table_snoc [where hi = hi]) (auto simp: slot_def)
  moreover have "same_outside (pa A) N m0 m3"
    unfolding m3_def m2_def m1_def st32_def using l(6) N N3 b by (intro same_outside_st) auto
  ultimately have "kenv_inv A N m0 ahi E (hi + length v + 1) as (vs @ [v])
      (l\<lparr>linux_env_p := A + of_nat (hi + length v + 1), linux_env_idx := of_nat (Suc (length vs)), lram := m3\<rparr>)"
    using inv k1 z b unfolding kenv_inv_def by (simp add: slot_def algebra_simps)
  then show ?thesis unfolding set by (simp add: v_def add.assoc)
qed

lemma env_set_num_eq:
  assumes "vsprintf_loop 0 (cstr (str fmt)) [VInt v] = Some (out, [])" "length out \<le> 11"
  shows "env_set_num name fmt v l = Some (linux_env_set (str name) out l)"
  using assms by (simp add: env_set_num_def sprintf_def vsprintf_def overlay_def)

text \<open>The environment of the kernel.\<close>

definition kernel_env :: "u32 \<Rightarrow> u32 \<Rightarrow> u32 \<Rightarrow> u32 \<Rightarrow> u32 \<Rightarrow> bytes list" where
  "kernel_env ramsize initrd_start initrd_size flashstart flashsize =
    [str ''memsize='' @ udec_of ramsize,
     str ''initrd_start=0x'' @ HEX8_of (KSEG1ADDR initrd_start), str ''initrd_size=0x'' @ HEX_of initrd_size,
     str ''flash_start=0x'' @ HEX8_of flashstart, str ''flash_size=0x'' @ HEX_of flashsize]"

text \<open>What the kernel finds in memory: the arguments and the environment its parameters point to.\<close>

definition kernel_sees :: "ram \<Rightarrow> u32 \<Rightarrow> bytes list \<Rightarrow> u32 \<Rightarrow> bytes list \<Rightarrow> bool" where
  "kernel_sees m argv as env vs \<longleftrightarrow>
     (\<forall>j < length as. ld_bytes m (ld32 m (argv + 4 * of_nat (Suc j))) (Suc (length (as ! j))) = cstr (as ! j)) \<and>
     (\<forall>j < length vs. ld_bytes m (ld32 m (env + 4 * of_nat j)) (Suc (length (vs ! j))) = cstr (vs ! j)) \<and>
     ld32 m (env + 4 * of_nat (length vs)) = 0"

lemma kenv_inv_sees:
  assumes "kenv_inv A N m0 ahi E hi as vs l"
  shows "kernel_sees (lram l) (linux_argv l) as (linux_env l) vs"
proof -
  have t: "table_at (lram l) A 4 1024 ahi as" "table_at (lram l) A E (E + 1024) hi vs" "linux_argv l = A" "linux_env l = A + of_nat E"
    "ld32 (lram l) (A + of_nat (E + 4 * length vs)) = 0" using assms by (auto simp: kenv_inv_def)
  have "ld_bytes (lram l) (ld32 (lram l) (A + of_nat (4 + 4 * j))) (Suc (length (as ! j))) = cstr (as ! j)" if "j < length as" for j
    using t(1) that unfolding table_at_def by fastforce
  moreover have "ld_bytes (lram l) (ld32 (lram l) (A + of_nat (E + 4 * j))) (Suc (length (vs ! j))) = cstr (vs ! j)" if "j < length vs" for j
    using t(2) that unfolding table_at_def by fastforce
  ultimately show ?thesis using t(5) by (simp add: kernel_sees_def t(3,4) algebra_simps)
qed

lemma params_init_kenv:
  assumes s: "nonul s" "length (boot_words s) \<le> 254" and N: "pa A + N \<le> 2 ^ 29" "length s + 2100 \<le> N"
  shows "\<exists>l hi E. linux_params_init w ramsize A (Some (s @ 0 # r)) m = Some l \<and> E \<le> length s + 1056 \<and>
    kenv_inv A N m hi E (E + 1024) (kernel_args w ramsize s) [] l"
proof -
  obtain l hi where l: "linux_args w ramsize A (s @ 0 # r) m = Some l" "hi \<le> length s + 1041" and inv: "args_inv A N m hi (kernel_args w ramsize s) l"
    using params_init_args [OF s N(1), of w ramsize r m] N(2) by auto
  obtain e where e: "e \<le> 15" "(argp l + 15) AND NOT 15 = argp l + of_nat e" using align_16 by blast
  let ?E = "hi + e"
  have i: "linux_argv l = A" "argp l = A + of_nat hi" "1024 \<le> hi" "table_at (lram l) A 4 1024 hi (kernel_args w ramsize s)"
    "linux_argc l = of_nat (Suc (length (kernel_args w ramsize s)))" "same_outside (pa A) N m (lram l)"
    using inv by (auto simp: args_inv_def)
  have E: "(argp l + 15) AND NOT 15 = A + of_nat ?E" using e i by simp
  have len: "length (kernel_args w ramsize s) \<le> 255" using s(2) by (simp add: kernel_args_def)
  define m' where "m' = st32 (lram l) (A + of_nat ?E) 0"
  have "table_at m' A 4 1024 hi (kernel_args w ramsize s)"
    unfolding m'_def st32_def using i N l(2) e len by (intro table_frame [where N = N]) auto
  moreover have "same_outside (pa A) N m m'"
    unfolding m'_def st32_def using i N l(2) e by (intro same_outside_st) auto
  moreover have "ld32 m' (A + of_nat ?E) = 0" unfolding m'_def using N l(2) e by (intro ld32_st32) auto
  moreover have "linux_params_init w ramsize A (Some (s @ 0 # r)) m = Some (l\<lparr>linux_env := A + of_nat ?E, lram := m',
      linux_env_p := A + of_nat (?E + 1024), linux_env_idx := 0\<rparr>)"
    using l(1) by (simp add: linux_params_init_def m'_def E [simplified] Let_def LINUX_MAX_ENVS_def)
  ultimately show ?thesis using i len l(2) e
    by (intro exI [of _ "l\<lparr>linux_env := A + of_nat ?E, lram := m', linux_env_p := A + of_nat (?E + 1024), linux_env_idx := 0\<rparr>"]
        exI [of _ hi] exI [of _ ?E]) (simp add: kenv_inv_def)
qed

lemma pa_KSEG1 [simp]: "pa (KSEG1ADDR a) = pa a"
proof -
  have "KSEG1ADDR a = (a AND mask 29) OR push_bit 29 5" by (simp add: KSEG1ADDR_def mask_eq_exp_minus_1)
  then have "take_bit 29 (KSEG1ADDR a) = take_bit 29 a"
    by (auto intro: bit_eqI simp: bit_simps)
  then have "unat (take_bit 29 (KSEG1ADDR a)) = unat (take_bit 29 a)" by simp
  then show ?thesis by (simp add: pa_def unsigned_take_bit_eq take_bit_nat_def)
qed

lemma kernel_env_set:
  assumes inv: "kenv_inv A N m0 ahi E (E + 1024) as [] l" and N: "pa A + N \<le> 2 ^ 29" "E + 1150 \<le> N"
  shows "\<exists>l' hi. (do {
      l \<leftarrow> env_set_num ''memsize'' ''%lu'' rs l;
      l \<leftarrow> env_set_num ''initrd_start'' ''0x%08X'' (KSEG1ADDR is) l;
      l \<leftarrow> env_set_num ''initrd_size'' ''0x%X'' isz l;
      l \<leftarrow> env_set_num ''flash_start'' ''0x%08X'' fs l;
      env_set_num ''flash_size'' ''0x%X'' fsz l }) = Some l' \<and>
    kenv_inv A N m0 ahi E hi as (kernel_env rs is isz fs fsz) l'"
proof -
  have two: "length (str ''0x'') = 2" by (simp add: str_def)
  have h8: "length (str ''0x'' @ HEX8_of v) = 10" for v using HEX8_of_props(2) [of v] two by simp
  have h: "length (str ''0x'' @ HEX_of v) \<le> 10" for v using HEX_of_props(2) [of v] two by simp
  note d = udec_of_props(2)
  define s1 s2 s3 s4 s5 where s: "s1 = (str ''memsize'', udec_of rs)" "s2 = (str ''initrd_start'', str ''0x'' @ HEX8_of (KSEG1ADDR is))"
    "s3 = (str ''initrd_size'', str ''0x'' @ HEX_of isz)" "s4 = (str ''flash_start'', str ''0x'' @ HEX8_of fs)"
    "s5 = (str ''flash_size'', str ''0x'' @ HEX_of fsz)"
  define set where "set = (\<lambda>s l. linux_env_set (fst s) (snd s) l)"
  define ent where "ent = (\<lambda>s :: bytes \<times> bytes. fst s @ ch (CHR ''='') # snd s)"
  have run: "(do {
      l \<leftarrow> env_set_num ''memsize'' ''%lu'' rs l;
      l \<leftarrow> env_set_num ''initrd_start'' ''0x%08X'' (KSEG1ADDR is) l;
      l \<leftarrow> env_set_num ''initrd_size'' ''0x%X'' isz l;
      l \<leftarrow> env_set_num ''flash_start'' ''0x%08X'' fs l;
      env_set_num ''flash_size'' ''0x%X'' fsz l }) = Some (set s5 (set s4 (set s3 (set s2 (set s1 l)))))"
    using d [of rs] h8 h [of isz] h [of fsz]
    by (simp add: env_set_num_eq [OF lu_conversion] env_set_num_eq [OF HEX_conversion] env_set_num_eq [OF HEX8_conversion] set_def s)
  have lens: "length (fst s) + length (snd s) + 2 \<le> 25" if "s \<in> {s1, s2, s3, s4, s5}" for s
    using that d [of rs] h8 h [of isz] h [of fsz] by (auto simp: s str_def)
  have step: "\<exists>hi'. hi' \<le> hi + 25 \<and> kenv_inv A N m0 ahi E hi' as (vs @ [ent s]) (set s l)"
    if "kenv_inv A N m0 ahi E hi as vs l" "hi + 25 \<le> N" "length vs < 255" "s \<in> {s1, s2, s3, s4, s5}" for hi vs l s
    using linux_env_set_kenv [OF that(1) N(1) _ that(3), of "fst s" "snd s"] that(2) lens [OF that(4)]
    by (intro exI [of _ "hi + length (fst s) + length (snd s) + 2"]) (simp add: ent_def set_def)
  obtain h1 where 1: "h1 \<le> E + 1024 + 25" "kenv_inv A N m0 ahi E h1 as [ent s1] (set s1 l)"
    using step [OF inv, of s1] N(2) by auto
  obtain h2 where 2: "h2 \<le> h1 + 25" "kenv_inv A N m0 ahi E h2 as [ent s1, ent s2] (set s2 (set s1 l))"
    using step [OF 1(2), of s2] 1(1) N(2) by auto
  obtain h3 where 3: "h3 \<le> h2 + 25" "kenv_inv A N m0 ahi E h3 as [ent s1, ent s2, ent s3] (set s3 (set s2 (set s1 l)))"
    using step [OF 2(2), of s3] 1(1) 2(1) N(2) by auto
  obtain h4 where 4: "h4 \<le> h3 + 25"
    "kenv_inv A N m0 ahi E h4 as [ent s1, ent s2, ent s3, ent s4] (set s4 (set s3 (set s2 (set s1 l))))"
    using step [OF 3(2), of s4] 1(1) 2(1) 3(1) N(2) by auto
  obtain h5 where "kenv_inv A N m0 ahi E h5 as [ent s1, ent s2, ent s3, ent s4, ent s5] (set s5 (set s4 (set s3 (set s2 (set s1 l)))))"
    using step [OF 4(2), of s5] 1(1) 2(1) 3(1) 4(1) N(2) by auto
  moreover have "[ent s1, ent s2, ent s3, ent s4, ent s5] = kernel_env rs is isz fs fsz"
    by (simp add: kernel_env_def ent_def s str_def)
  ultimately show ?thesis using run by auto
qed

text \<open>
  Hand-over without a ramdisk: the kernel gets the words of \<open>bootargs\<close> and its environment, and memory
  is otherwise as before.
\<close>

lemma do_bootm_linux_plain:
  assumes env: "env_ready (b_ub b) es" "map_of es (str ''bootargs'') = Some s" "length (boot_words s) \<le> 254"
    and pos: "pa (bi_boot_params b) + length s + 2300 \<le> 2 ^ 29"
    and img: "length argv < 3" "ih_type (header b) \<noteq> IH_TYPE_MULTI"
  shows "\<exists>b' av en. do_bootm_linux w argv len_ptr verify b =
      Some (Starts (Linux (ih_ep (header b)) (of_nat (Suc (length (kernel_args w (ram_size b) s)))) av en (bi_flashsize b div 1048576)), b') \<and>
    kernel_sees (ram b') av (kernel_args w (ram_size b) s) en (kernel_env (ram_size b) 0 0 (bi_flashstart b) (bi_flashsize b)) \<and>
    same_outside (pa (bi_boot_params b)) (length s + 2300) (ram b) (ram b') \<and> b_ub b' = b_ub b"
proof -
  let ?A = "KSEG1ADDR (bi_boot_params b)" and ?N = "length s + 2300"
  have "ok_name (str ''bootargs'')" by (simp add: ok_name_def str_def ch_def)
  then obtain k r where k: "getenv (cstr (str ''bootargs'')) (b_ub b) = Some (Some k)" "drop k (env_mem (b_ub b)) = s @ 0 # r" "nonul s"
    using getenv_present [OF env(1) _ env(2), of "[]"] env_readyD(1) [OF env(1)] by (auto simp: cstr_def)
  have N: "pa ?A + ?N \<le> 2 ^ 29" "length s + 2100 \<le> ?N" using pos by simp_all
  obtain l hi E where l: "linux_params_init w (ram_size b) ?A (Some (s @ 0 # r)) (ram b) = Some l" "E \<le> length s + 1056"
    "kenv_inv ?A ?N (ram b) hi E (E + 1024) (kernel_args w (ram_size b) s) [] l"
    using params_init_kenv [OF k(3) env(3) N] by blast
  obtain l' h where l': "(do {
      l \<leftarrow> env_set_num ''memsize'' ''%lu'' (ram_size b) l;
      l \<leftarrow> env_set_num ''initrd_start'' ''0x%08X'' (KSEG1ADDR 0) l;
      l \<leftarrow> env_set_num ''initrd_size'' ''0x%X'' 0 l;
      l \<leftarrow> env_set_num ''flash_start'' ''0x%08X'' (bi_flashstart b) l;
      env_set_num ''flash_size'' ''0x%X'' (bi_flashsize b) l }) = Some l'"
    "kenv_inv ?A ?N (ram b) hi E h (kernel_args w (ram_size b) s) (kernel_env (ram_size b) 0 0 (bi_flashstart b) (bi_flashsize b)) l'"
    using kernel_env_set [OF l(3) N(1)] l(2) by fastforce
  have "do_bootm_linux w argv len_ptr verify b =
      Some (Starts (Linux (ih_ep (header b)) (linux_argc l') (linux_argv l') (linux_env l') (bi_flashsize b div 1048576)),
            b\<lparr>boot_status := 16, ram := lram l'\<rparr>)"
    using img k l(1) l'(1) by (auto simp: do_bootm_linux_def linux_initrd_def linux_start_def Let_def bind_eq_Some_conv)
  moreover have "linux_argc l' = of_nat (Suc (length (kernel_args w (ram_size b) s)))" "same_outside (pa ?A) ?N (ram b) (lram l')"
    using l'(2) by (simp_all add: kenv_inv_def)
  ultimately show ?thesis using kenv_inv_sees [OF l'(2)] by auto
qed

end
