(* ===== verification/Bootm.thy ===== *)
theory Bootm
  imports LinuxBoot
begin

text \<open>
  \<open>do_bootm\<close> of \<open>common/cmd_bootm.c\<close> and what it calls there, and the wrapper of the LZMA decoder
  (\<open>lib_generic/LzmaWrapper.c\<close>).
\<close>

section \<open>Decompression\<close>

text \<open>\<open>while (src[i++] != 0) ;\<close> does not end if there is no zero.\<close>

partial_function (option) skip_name :: "ram \<Rightarrow> u32 \<Rightarrow> u32 \<Rightarrow> u32 option" where
  "skip_name m src i = (if ld m (src + i) = 0 then Some (i + 1) else skip_name m src (i + 1))"

text \<open>The result, the new \<open>*lenp\<close> and the memory.\<close>

definition gunzip :: "codec \<Rightarrow> u32 \<Rightarrow> u32 \<Rightarrow> u32 \<Rightarrow> u32 \<Rightarrow> ram \<Rightarrow> (int \<times> u32 \<times> ram) option" where
  "gunzip w dst dstlen src len m =
     (let flags = ld m (src + 3)
      in if ld m (src + 2) \<noteq> 8 \<or> flags AND 0xe0 \<noteq> 0 then Some (-1, len, m)
      else do {
        let i = (if flags AND 4 \<noteq> 0 then 12 + ucast (ld m (src + 10)) + push_bit 8 (ucast (ld m (src + 11))) else 10);
        i \<leftarrow> (if flags AND 8 \<noteq> 0 then skip_name m src i else Some i);
        i \<leftarrow> (if flags AND 0x10 \<noteq> 0 then skip_name m src i else Some i);
        let i = (if flags AND 2 \<noteq> 0 then i + 2 else i);
        if i \<ge> len then Some (-1, len, m)
        else if inflateInit2 w \<noteq> 0 then Some (-1, len, m)
        else do {
          let (r, next_out, m) = inflate w dst dstlen (src + i) (len - i) m;
          if r \<noteq> 0 \<and> r \<noteq> 1 then Some (-1, len, m) else Some (0, next_out - dst, m) } })"

text \<open>
  \<open>lzma_inflate\<close>. The test for room compares the size of the output with the pointer \<open>d_len\<close> and
  not with the number it points to. The result and the memory; \<open>rpos\<close> moves on and is not reset.
\<close>

fun read_size :: "ram \<Rightarrow> u32 \<Rightarrow> nat \<Rightarrow> u32" where
  "read_size m a 0 = 0"
| "read_size m a (Suc k) = read_size m a k + push_bit (8 * k) (ucast (ld m (a + of_nat k)))"

definition lzma_inflate :: "codec \<Rightarrow> u32 \<Rightarrow> u32 \<Rightarrow> u32 \<Rightarrow> u32 \<Rightarrow> boot \<Rightarrow> int \<times> boot" where
  "lzma_inflate w source s_len dest d_len b =
     (let compressedSize = s_len - 13;
          p = source + rpos b;
          properties = ld_bytes (ram b) p 5;
          size = ld_bytes (ram b) (p + 5) 8;
          outSize = read_size (ram b) (p + 5) 4;
          outSizeHigh = read_size (ram b) (p + 9) 4;
          b = b\<lparr>rpos := rpos b + 13\<rparr>
      in if list_all (\<lambda>c. c = 0xff) size then (1, b)
      else if outSizeHigh \<noteq> 0 then (1, b)
      else if hd properties \<ge> 225 then (1, b)
      else let outStream = (if outSize = 0 then 0 else if outSize > d_len then 0 else dest);
               inStream = (if compressedSize = 0 then 0 else if compressedSize + rpos b > s_len then 0 else source + rpos b)
      in if \<not> alloc_ok w \<or> (outStream = 0 \<and> outSize \<noteq> 0) \<or> (inStream = 0 \<and> compressedSize \<noteq> 0) then (1, b)
      else let (res, outProcessed, m) = LzmaDecode w properties inStream compressedSize outStream outSize (ram b)
      in (if res \<noteq> 0 then 1 else 0, b\<lparr>ram := m\<rparr>))"

section \<open>bootm\<close>

abbreviation CFG_BOOTM_LEN :: u32 where "CFG_BOOTM_LEN \<equiv> 16777216"

text \<open>The command line for a NetBSD loader: the arguments from the third one on, joined by blanks.\<close>

definition do_bootm_netbsd :: "codec \<Rightarrow> bytes option list \<Rightarrow> u32 \<Rightarrow> u32 \<Rightarrow> boot \<Rightarrow> (ctl \<times> boot) option" where
  "do_bootm_netbsd w argv a len_ptr b = do {
     let img_addr = (if ih_type (header b) = IH_TYPE_MULTI \<and> ld32 (ram b) (len_ptr + 4) \<noteq> 0 then Some a else None);
     cmdline \<leftarrow>
       (if length argv > 2 then do {
          vals \<leftarrow> strings (drop 2 argv);
          if alloc_ok w then Some (join_values (map (takeWhile (\<lambda>c. c \<noteq> 0)) vals)) else None }
        else do {
          bootargs \<leftarrow> getenv (cstr (str ''bootargs'')) (b_ub b);
          Some (case bootargs of None \<Rightarrow> [] | Some k \<Rightarrow> str_at (env_mem (b_ub b)) k) });
     Some (Starts (NetBSD (ih_ep (header b)) img_addr cmdline), show_boot_progress 15 b) }"

definition hex_string :: "nat \<Rightarrow> string \<Rightarrow> u32 \<Rightarrow> bytes option" where
  "hex_string k fmt v = do {
     (buf, n) \<leftarrow> sprintf (replicate k 0) (cstr (str fmt)) [VInt v];
     Some (take n buf) }"

definition do_bootm_vxworks :: "boot \<Rightarrow> (ctl \<times> boot) option" where
  "do_bootm_vxworks b = do {
     s \<leftarrow> hex_string 80 ''%x'' (ih_ep (header b));
     u \<leftarrow> setenv (cstr (str ''loadaddr'')) (Some (cstr s)) (b_ub b);
     Some (Starts VxWorks, b\<lparr>b_ub := u\<rparr>) }"

definition do_bootm_qnxelf :: "boot \<Rightarrow> (ctl \<times> boot) option" where
  "do_bootm_qnxelf b = do {
     s \<leftarrow> hex_string 16 ''%x'' (ih_ep (header b));
     Some (Starts (QNX s), b) }"

definition do_bootm_rtems :: "boot \<Rightarrow> (ctl \<times> boot) option" where
  "do_bootm_rtems b = Some (Starts (RTEMS (ih_ep (header b))), show_boot_progress 15 b)"

text \<open>
  The checks of \<open>do_bootm\<close> before the point of no return: the length and the address of the first
  image, or the value to return.
\<close>

definition bootm_checks :: "bytes option list \<Rightarrow> u32 \<Rightarrow> bool \<Rightarrow> boot \<Rightarrow> ((u32 \<times> u32) option \<times> boot) option" where
  "bootm_checks argv a verify b =
     (let h = read_header (ram b) a; b = (show_boot_progress 1 b)\<lparr>header := h\<rparr>
      in if ih_magic h \<noteq> IH_MAGIC then Some (None, show_boot_progress (-1) b)
      else let b = b\<lparr>header := h\<lparr>ih_hcrc := 0\<rparr>\<rparr>
      in if \<not> header_crc_ok h then Some (None, show_boot_progress (-2) b)
      else let data = a + 64; len = ih_size h
      in if verify \<and> \<not> data_crc_ok (ram b) data h then Some (None, show_boot_progress (-3) b)
      else if ih_arch h \<noteq> IH_CPU_MIPS then Some (None, show_boot_progress (-4) b)
      else if ih_type h = IH_TYPE_STANDALONE then do {
        b \<leftarrow> (if length argv > 2 then do {
               s \<leftarrow> arg argv 2;
               (load, _) \<leftarrow> simple_strtoul s 16;
               Some (b\<lparr>header := (header b)\<lparr>ih_load := load\<rparr>\<rparr>) }
             else Some b);
        Some (Some (len, data), show_boot_progress 6 b) }
      else if ih_type h = IH_TYPE_KERNEL then Some (Some (len, data), show_boot_progress 6 b)
      else if ih_type h = IH_TYPE_MULTI then do {
        n \<leftarrow> more_sizes (ram b) (data + 4);
        Some (Some (ld32 (ram b) data, data + 8 + 4 * n), show_boot_progress 6 b) }
      else Some (None, show_boot_progress (-5) b))"

text \<open>Loading or unpacking: \<open>Inl\<close> with the control that results, or \<open>Inr\<close> with the new length.\<close>

definition bootm_load :: "codec \<Rightarrow> u32 \<Rightarrow> u32 \<Rightarrow> u32 \<Rightarrow> boot \<Rightarrow> ((ctl + u32) \<times> boot) option" where
  "bootm_load w a len data b =
     (let h = header b
      in if ih_comp h = IH_COMP_NONE then
        Some (Inr len, if ih_load h = a then b else b\<lparr>ram := ram_memmove (ram b) (ih_load h) data len\<rparr>)
      else if ih_comp h = IH_COMP_GZIP then do {
        (r, len, m) \<leftarrow> gunzip w (ih_load h) CFG_BOOTM_LEN data len (ram b);
        Some (if r \<noteq> 0 then (Inl Resets, show_boot_progress (-6) (b\<lparr>ram := m\<rparr>)) else (Inr len, b\<lparr>ram := m\<rparr>)) }
      else if ih_comp h = IH_COMP_LZMA then
        (let (i, b) = lzma_inflate w data len (ih_load h) (unc_len_ptr w) b
         in Some (if i \<noteq> 0 then (Inl Resets, show_boot_progress (-6) b) else (Inr len, b)))
      else Some (Inl (Returns 1), show_boot_progress (-7) b))"

text \<open>An application is started, unless \<open>autostart\<close> is \<open>no\<close>.\<close>

definition bootm_standalone :: "bytes option list \<Rightarrow> u32 \<Rightarrow> boot \<Rightarrow> (ctl \<times> boot) option" where
  "bootm_standalone argv len b = do {
     s \<leftarrow> getenv (cstr (str ''autostart'')) (b_ub b);
     no \<leftarrow> (case s of None \<Rightarrow> Some False | Some k \<Rightarrow> named (drop k (env_mem (b_ub b))) ''no'');
     if no then do {
       buf \<leftarrow> hex_string 32 ''%lX'' len;
       u \<leftarrow> setenv (cstr (str ''filesize'')) (Some (cstr buf)) (b_ub b);
       Some (Returns 0, b\<lparr>b_ub := u\<rparr>) }
     else Some (Starts (Application (ih_ep (header b)) (drop 1 argv)), b) }"

definition bootm_start :: "codec \<Rightarrow> bytes option list \<Rightarrow> u32 \<Rightarrow> u32 \<Rightarrow> bool \<Rightarrow> boot \<Rightarrow> (ctl \<times> boot) option" where
  "bootm_start w argv a len verify b =
     (if ih_type (header b) = IH_TYPE_STANDALONE then bootm_standalone argv len (show_boot_progress 7 b)
      else let os = ih_os (header b); len_ptr = a + 64; b = show_boot_progress 8 b
      in if os = IH_OS_NETBSD then do_bootm_netbsd w argv a len_ptr b
      else if os = IH_OS_RTEMS then do_bootm_rtems b
      else if os = IH_OS_VXWORKS then do_bootm_vxworks b
      else if os = IH_OS_QNX then do_bootm_qnxelf b
      else do_bootm_linux w argv len_ptr verify b)"

text \<open>Whether the data are verified, and where the image is.\<close>

definition bootm_verify :: "ub \<Rightarrow> bool option" where
  "bootm_verify u = do {
     s \<leftarrow> getenv (cstr (str ''verify'')) u;
     (case s of None \<Rightarrow> Some True | Some k \<Rightarrow> map_option (\<lambda>c. c \<noteq> 110) (rd (env_mem u) k)) }"

definition bootm_addr :: "bytes option list \<Rightarrow> ub \<Rightarrow> u32 option" where
  "bootm_addr argv u =
     (if length argv < 2 then Some (load_addr u)
      else do { s \<leftarrow> arg argv 1; (v, _) \<leftarrow> simple_strtoul s 16; Some v })"

definition do_bootm :: "codec \<Rightarrow> bytes option list \<Rightarrow> boot \<Rightarrow> (ctl \<times> boot) option" where
  "do_bootm w argv b = do {
     verify \<leftarrow> bootm_verify (b_ub b);
     a \<leftarrow> bootm_addr argv (b_ub b);
     (first, b) \<leftarrow> bootm_checks argv a verify b;
     (case first of
        None \<Rightarrow> Some (Returns 1, b)
      | Some (len, data) \<Rightarrow> do {
          (r, b) \<leftarrow> bootm_load w a len data b;
          (case r of
             Inl c \<Rightarrow> Some (c, b)
           | Inr len \<Rightarrow> bootm_start w argv a len verify b) }) }"

section \<open>iminfo\<close>

definition image_info :: "u32 \<Rightarrow> boot \<Rightarrow> int \<times> boot" where
  "image_info a b =
     (let h = read_header (ram b) a; b = b\<lparr>header := h\<rparr>
      in if ih_magic h \<noteq> IH_MAGIC then (1, b)
      else let b = b\<lparr>header := h\<lparr>ih_hcrc := 0\<rparr>\<rparr>
      in if \<not> header_crc_ok h then (1, b)
      else if \<not> data_crc_ok (ram b) (a + 64) h then (1, b)
      else (0, b))"

fun iminfo_args :: "bytes option list \<Rightarrow> int \<Rightarrow> boot \<Rightarrow> (int \<times> boot) option" where
  "iminfo_args [] rcode b = Some (rcode, b)"
| "iminfo_args (s # argv) rcode b = do {
     s \<leftarrow> s;
     (a, _) \<leftarrow> simple_strtoul s 16;
     let (r, b) = image_info a b;
     iminfo_args argv (if r \<noteq> 0 then 1 else rcode) b }"

definition do_iminfo :: "bytes option list \<Rightarrow> boot \<Rightarrow> (int \<times> boot) option" where
  "do_iminfo argv b =
     (if length argv < 2 then Some (image_info (load_addr (b_ub b)) b) else iminfo_args (tl argv) 0 b)"

section \<open>What is checked\<close>

text \<open>An image that passes the checks.\<close>

definition bootable :: "ram \<Rightarrow> u32 \<Rightarrow> bool \<Rightarrow> bool" where
  "bootable m a verify \<longleftrightarrow> (let h = read_header m a
     in ih_magic h = IH_MAGIC \<and> header_crc_ok h \<and> (verify \<longrightarrow> data_crc_ok m (a + 64) h) \<and>
        ih_arch h = IH_CPU_MIPS \<and> ih_type h \<in> {IH_TYPE_STANDALONE, IH_TYPE_KERNEL, IH_TYPE_MULTI})"

text \<open>Where an image is entered.\<close>

fun entry_point :: "entry \<Rightarrow> u32 option" where
  "entry_point (Linux ep ac av en fl) = Some ep"
| "entry_point (Application ep argv) = Some ep"
| "entry_point (NetBSD ep img cmdline) = Some ep"
| "entry_point (RTEMS ep) = Some ep"
| "entry_point VxWorks = None"
| "entry_point (QNX s) = None"

lemma bootm_checks_refuses:
  assumes "\<not> bootable (ram b) a verify"
  shows "\<exists>b'. bootm_checks argv a verify b = Some (None, b') \<and> ram b' = ram b \<and> b_ub b' = b_ub b"
proof -
  obtain h where h: "read_header (ram b) a = h" by blast
  show ?thesis
  proof (cases "ih_magic h = IH_MAGIC \<and> header_crc_ok h")
    case True
    then show ?thesis using assms h
      by (cases "verify \<and> \<not> data_crc_ok (ram b) (a + 64) h"; cases "ih_arch h = IH_CPU_MIPS")
        (simp_all add: bootable_def bootm_checks_def Let_def)
  next
    case False
    then show ?thesis using h
      by (cases "ih_magic h = IH_MAGIC") (simp_all add: bootm_checks_def Let_def)
  qed
qed

lemma bootm_checks_bootable:
  "bootable (ram b) a verify \<Longrightarrow> bootm_checks argv a verify b =
     (let h = read_header (ram b) a; b = b\<lparr>boot_status := 6, header := h\<lparr>ih_hcrc := 0\<rparr>\<rparr>
      in if ih_type h = IH_TYPE_STANDALONE then
           (if length argv > 2 then do {
              s \<leftarrow> arg argv 2;
              (load, _) \<leftarrow> simple_strtoul s 16;
              Some (Some (ih_size h, a + 64), b\<lparr>header := h\<lparr>ih_hcrc := 0, ih_load := load\<rparr>\<rparr>) }
            else Some (Some (ih_size h, a + 64), b))
         else if ih_type h = IH_TYPE_KERNEL then Some (Some (ih_size h, a + 64), b)
         else do {
           n \<leftarrow> more_sizes (ram b) (a + 68);
           Some (Some (ld32 (ram b) (a + 64), a + 72 + 4 * n), b) })"
  unfolding bootable_def bootm_checks_def Let_def
  by (cases "ih_type (read_header (ram b) a) = 1"; cases "2 < length argv"; cases "arg argv 2")
    (auto simp: algebra_simps split: Option.bind_splits)

lemma bootm_checks_passed:
  assumes "bootm_checks argv a verify b = Some (Some p, b')"
  shows "bootable (ram b) a verify \<and> ih_ep (header b') = ih_ep (read_header (ram b) a) \<and> ram b' = ram b \<and> b_ub b' = b_ub b"
proof (cases "bootable (ram b) a verify")
  case True
  then show ?thesis using assms
    by (auto simp: bootm_checks_bootable Let_def bind_eq_Some_conv split: if_splits)
next
  case False
  then show ?thesis using bootm_checks_refuses [OF False, of argv] assms by auto
qed

lemma header_if: "header (snd x) = h \<Longrightarrow> header (snd y) = h \<Longrightarrow> header (snd (if c then x else y)) = h"
  by simp

lemma lzma_inflate_header: "header (snd (lzma_inflate w data len load p b)) = header b"
  unfolding lzma_inflate_def Let_def split_beta by (intro header_if) simp_all

lemma bootm_load_header:
  assumes "bootm_load w a len data b = Some (r, b')"
  shows "header b' = header b \<and> (\<forall>c. r = Inl c \<longrightarrow> c = Resets \<or> c = Returns 1)"
proof -
  consider "ih_comp (header b) = IH_COMP_NONE" | "ih_comp (header b) = IH_COMP_GZIP" | "ih_comp (header b) = IH_COMP_LZMA"
    | "ih_comp (header b) \<notin> {IH_COMP_NONE, IH_COMP_GZIP, IH_COMP_LZMA}" by blast
  then show ?thesis using assms
    using lzma_inflate_header [of w data len "ih_load (header b)" "unc_len_ptr w" b]
    by cases (auto simp: bootm_load_def Let_def bind_eq_Some_conv split: if_splits prod.splits)
qed

lemma do_bootm_linux_entry:
  assumes "do_bootm_linux w argv lp verify b = Some (Starts e, b')"
  shows "entry_point e = Some (ih_ep (header b))"
proof -
  have "entry_point e = Some ep" if "linux_start w ep line data len b1 = Some (Starts e, b')" for ep line data len b1
    using that by (auto simp: linux_start_def Let_def bind_eq_Some_conv split: prod.splits)
  then show ?thesis using assms
    by (auto simp: do_bootm_linux_def Let_def bind_eq_Some_conv split: option.splits)
qed

lemma bootm_start_entry:
  "bootm_start w argv a len verify b = Some (Starts e, b') \<Longrightarrow> entry_point e \<in> {None, Some (ih_ep (header b))}"
  by (auto simp: bootm_start_def bootm_standalone_def do_bootm_netbsd_def do_bootm_rtems_def do_bootm_vxworks_def
      do_bootm_qnxelf_def Let_def bind_eq_Some_conv dest!: do_bootm_linux_entry split: if_splits)

lemma do_bootm_refuses:
  assumes "bootm_verify (b_ub b) = Some v" "bootm_addr argv (b_ub b) = Some a" "\<not> bootable (ram b) a v"
  shows "\<exists>b'. do_bootm w argv b = Some (Returns 1, b') \<and> ram b' = ram b \<and> b_ub b' = b_ub b"
  using bootm_checks_refuses [OF assms(3), of argv] assms(1,2) by (auto simp: do_bootm_def)

lemma do_bootm_starts:
  assumes "do_bootm w argv b = Some (Starts e, b')" "bootm_verify (b_ub b) = Some v" "bootm_addr argv (b_ub b) = Some a"
  shows "bootable (ram b) a v \<and> entry_point e \<in> {None, Some (ih_ep (read_header (ram b) a))}"
proof -
  obtain f b1 where 1: "bootm_checks argv a v b = Some (f, b1)" and 2: "(case f of
        None \<Rightarrow> Some (Returns 1, b1)
      | Some (len, data) \<Rightarrow> do {
          (r, b) \<leftarrow> bootm_load w a len data b1;
          (case r of
             Inl c \<Rightarrow> Some (c, b)
           | Inr len \<Rightarrow> bootm_start w argv a len v b) }) = Some (Starts e, b')"
    using assms by (auto simp: do_bootm_def bind_eq_Some_conv)
  then obtain len data where f: "f = Some (len, data)" by (auto split: option.splits)
  with 2 obtain r b2 where 3: "bootm_load w a len data b1 = Some (r, b2)"
      "(case r of Inl c \<Rightarrow> Some (c, b2) | Inr len \<Rightarrow> bootm_start w argv a len v b2) = Some (Starts e, b')"
    by (auto simp: bind_eq_Some_conv)
  then obtain len' where "bootm_start w argv a len' v b2 = Some (Starts e, b')"
    using bootm_load_header [OF 3(1)] by (auto split: sum.splits)
  then show ?thesis
    using bootm_start_entry bootm_load_header [OF 3(1)] bootm_checks_passed [OF 1 [unfolded f]] by metis
qed

section \<open>Images as they are built\<close>

text \<open>An image with a given header and data: size and checksums are filled in.\<close>

definition built_header :: "image_header_t \<Rightarrow> bytes \<Rightarrow> image_header_t" where
  "built_header h data =
     (let h = h\<lparr>ih_magic := IH_MAGIC, ih_size := of_nat (length data), ih_dcrc := crc32 0 data\<rparr>
      in h\<lparr>ih_hcrc := crc32 0 (header_bytes (h\<lparr>ih_hcrc := 0\<rparr>))\<rparr>)"

definition built_image :: "image_header_t \<Rightarrow> bytes \<Rightarrow> bytes" where
  "built_image h data = header_bytes (built_header h data) @ data"

lemma built_header_sel [simp]:
  "ih_magic (built_header h d) = IH_MAGIC" "ih_size (built_header h d) = of_nat (length d)"
  "ih_dcrc (built_header h d) = crc32 0 d" "ih_load (built_header h d) = ih_load h" "ih_ep (built_header h d) = ih_ep h"
  "ih_os (built_header h d) = ih_os h" "ih_arch (built_header h d) = ih_arch h" "ih_type (built_header h d) = ih_type h"
  "ih_comp (built_header h d) = ih_comp h" "ih_name (built_header h d) = ih_name h" "ih_time (built_header h d) = ih_time h"
  by (simp_all add: built_header_def Let_def)

lemma built_header_crc: "header_crc_ok (built_header h d)"
  by (simp add: built_header_def header_crc_ok_def Let_def)

lemma built_image_parts:
  assumes "ld_bytes m a (64 + length d) = built_image h d" "length (ih_name h) = 32"
  shows "read_header m a = built_header h d" "ld_bytes m (a + 64) (length d) = d"
proof -
  have "ld_bytes m a 64 @ ld_bytes m (a + of_nat 64) (length d) = header_bytes (built_header h d) @ d"
    using assms(1) unfolding ld_bytes_append built_image_def by simp
  then show "ld_bytes m (a + 64) (length d) = d" "read_header m a = built_header h d"
    using assms(2) by (auto intro: read_header_of simp: append_eq_append_conv)
qed

lemma unat_length: "length d < 2 ^ 32 \<Longrightarrow> unat (of_nat (length d) :: u32) = length d"
  by (simp add: unsigned_of_nat take_bit_nat_eq_self)

lemma built_image_bootable:
  assumes "ld_bytes m a (64 + length d) = built_image h d" "length (ih_name h) = 32" "length d < 2 ^ 32"
    "ih_arch h = IH_CPU_MIPS" "ih_type h \<in> {IH_TYPE_STANDALONE, IH_TYPE_KERNEL, IH_TYPE_MULTI}"
  shows "bootable m a verify"
  using built_image_parts [OF assms(1,2)] assms(3-5) unat_length [OF assms(3)]
  by (simp add: bootable_def built_header_crc data_crc_ok_def Let_def)

lemma crc32_update:
  assumes "i < length bs" "x \<noteq> bs ! i"
  shows "crc32 c (bs[i := x]) \<noteq> crc32 c bs"
proof -
  have "crc32 c (take i bs @ x # drop (Suc i) bs) \<noteq> crc32 c (take i bs @ bs ! i # drop (Suc i) bs)"
    using assms(2) by (simp add: crc32_inj_byte)
  then show ?thesis using assms(1) by (simp add: upd_conv_take_nth_drop id_take_nth_drop [symmetric])
qed

text \<open>A changed byte of the header is noticed, whichever it is.\<close>

lemma header_damage:
  assumes h: "ih_magic h = IH_MAGIC" "header_crc_ok h" "length (ih_name h) = 32"
    and m: "ld_bytes m a 64 = (header_bytes h)[i := x]" "i < 64" "x \<noteq> header_bytes h ! i"
  shows "\<not> (ih_magic (read_header m a) = IH_MAGIC \<and> header_crc_ok (read_header m a))"
proof
  assume ok: "ih_magic (read_header m a) = IH_MAGIC \<and> header_crc_ok (read_header m a)"
  let ?B = "header_bytes h" and ?h = "read_header m a"
  have len: "length ?B = 64" using h by simp
  have B: "header_bytes ?h = ?B[i := x]" using header_bytes_read [of m a] m(1) by simp
  have fields: "take 4 (header_bytes g) = be32 (ih_magic g)" "take 4 (drop 4 (header_bytes g)) = be32 (ih_hcrc g)" for g
    by (simp_all add: header_bytes_def)
  consider "i < 4" | "4 \<le> i" "i < 8" | "8 \<le> i" by linarith
  then show False
  proof cases
    case 1
    have "take 4 (?B[i := x]) = take 4 ?B" using fields(1) [of ?h] fields(1) [of h] ok h(1) B by simp
    then have "?B[i := x] ! i = ?B ! i" using 1 by (metis nth_take)
    then show False using m len by simp
  next
    case 2
    have "header_bytes (?h\<lparr>ih_hcrc := 0\<rparr>) = header_bytes (h\<lparr>ih_hcrc := 0\<rparr>)"
      using 2 by (simp add: header_bytes_hcrc B take_update_cancel drop_update_cancel)
    then have "ih_hcrc ?h = ih_hcrc h" using ok h(2) by (simp add: header_crc_ok_def)
    then have "take 4 (drop 4 (?B[i := x])) = take 4 (drop 4 ?B)" using fields(2) [of ?h] fields(2) [of h] B by simp
    then have "take 4 (drop 4 (?B[i := x])) ! (i - 4) = take 4 (drop 4 ?B) ! (i - 4)" by simp
    then show False using 2 m len by simp
  next
    case 3
    have "take 4 (drop 4 (?B[i := x])) = take 4 (drop 4 ?B)" using 3 by (simp add: drop_update_swap)
    then have "ih_hcrc ?h = ih_hcrc h" using fields(2) [of ?h] fields(2) [of h] B by (metis be32_of_be32 of_be32_be32 append_Nil2)
    then have "crc32 0 (header_bytes (?h\<lparr>ih_hcrc := 0\<rparr>)) = crc32 0 (header_bytes (h\<lparr>ih_hcrc := 0\<rparr>))"
      using ok h(2) by (simp add: header_crc_ok_def)
    moreover have "header_bytes (?h\<lparr>ih_hcrc := 0\<rparr>) = (header_bytes (h\<lparr>ih_hcrc := 0\<rparr>))[i := x]"
    proof -
      have "\<not> i - 4 < 4" using 3 by linarith
      then show ?thesis using 3 len by (simp add: header_bytes_hcrc B list_update_append drop_update_swap)
    qed
    moreover have "header_bytes (h\<lparr>ih_hcrc := 0\<rparr>) ! i = ?B ! i" "i < length (header_bytes (h\<lparr>ih_hcrc := 0\<rparr>))"
    proof -
      have "\<not> i - 4 < 4" using 3 by linarith
      then have "header_bytes (h\<lparr>ih_hcrc := 0\<rparr>) ! i = drop 8 ?B ! (i - 8)" using 3 len by (simp add: header_bytes_hcrc nth_append)
      then show "header_bytes (h\<lparr>ih_hcrc := 0\<rparr>) ! i = ?B ! i" using 3 len by simp
      show "i < length (header_bytes (h\<lparr>ih_hcrc := 0\<rparr>))" using h(3) m(2) by simp
    qed
    ultimately show False using crc32_update [of i "header_bytes (h\<lparr>ih_hcrc := 0\<rparr>)" x 0] m(3) by simp
  qed
qed


lemma image_damage:
  assumes h: "length (ih_name h) = 32" "length d < 2 ^ 32"
    and m: "ld_bytes m a (64 + length d) = (built_image h d)[i := x]" "i < 64 + length d" "x \<noteq> built_image h d ! i"
  shows "\<not> bootable m a True"
proof -
  have len: "length (header_bytes (built_header h d)) = 64" using h by simp
  have parts: "ld_bytes m a 64 @ ld_bytes m (a + of_nat 64) (length d) = (built_image h d)[i := x]"
    using m(1) by (simp add: ld_bytes_append)
  show ?thesis
  proof (cases "i < 64")
    case True
    then have "ld_bytes m a 64 = (header_bytes (built_header h d))[i := x]"
      using parts len by (simp add: built_image_def list_update_append1)
    then have "\<not> (ih_magic (read_header m a) = IH_MAGIC \<and> header_crc_ok (read_header m a))"
      using header_damage [of "built_header h d" m a i x] True m(3) h(1) len built_header_crc
      by (simp add: built_image_def nth_append)
    then show ?thesis by (auto simp: bootable_def Let_def)
  next
    case False
    then have p: "ld_bytes m a 64 = header_bytes (built_header h d)" "ld_bytes m (a + 64) (length d) = d[i - 64 := x]"
      using parts len by (auto simp: built_image_def list_update_append)
    have "read_header m a = built_header h d" using p(1) h(1) by (intro read_header_of) auto
    moreover have "crc32 0 (d[i - 64 := x]) \<noteq> crc32 0 d"
      using m(2,3) False len by (intro crc32_update) (auto simp: built_image_def nth_append)
    ultimately show ?thesis using p(2) unat_length [OF h(2)] by (simp add: bootable_def data_crc_ok_def Let_def)
  qed
qed

section \<open>Booting Linux\<close>

lemma bootm_verify_unset:
  assumes "env_ready u es" "map_of es (str ''verify'') = None"
  shows "bootm_verify u = Some True"
proof -
  have "ok_name (str ''verify'')" by (simp add: ok_name_def str_def ch_def)
  then have "getenv (cstr (str ''verify'')) u = Some None"
    using getenv_map_of [OF assms(1), of "str ''verify''" "[]"] assms(2) by (auto simp: cstr_def)
  then show ?thesis by (simp add: bootm_verify_def)
qed

lemma do_bootm_kernel:
  assumes img: "ld_bytes (ram b) a (64 + length d) = built_image h d" "length (ih_name h) = 32" "length d < 2 ^ 32"
    and h: "ih_arch h = IH_CPU_MIPS" "ih_type h = IH_TYPE_KERNEL" "ih_comp h = IH_COMP_NONE" "ih_os h = IH_OS_LINUX" "ih_load h \<noteq> a"
    and v: "bootm_verify (b_ub b) = Some v" "bootm_addr argv (b_ub b) = Some a"
  shows "\<exists>b1. do_bootm w argv b = do_bootm_linux w argv (a + 64) v b1 \<and>
    ram b1 = ram_memmove (ram b) (ih_load h) (a + 64) (of_nat (length d)) \<and> b_ub b1 = b_ub b \<and> ram_size b1 = ram_size b \<and>
    bi_boot_params b1 = bi_boot_params b \<and> bi_flashstart b1 = bi_flashstart b \<and> bi_flashsize b1 = bi_flashsize b \<and>
    ih_ep (header b1) = ih_ep h \<and> ih_type (header b1) = IH_TYPE_KERNEL"
proof -
  let ?h = "built_header h d\<lparr>ih_hcrc := 0\<rparr>"
  let ?b = "b\<lparr>header := ?h, ram := ram_memmove (ram b) (ih_load h) (a + 64) (of_nat (length d)), boot_status := 8\<rparr>"
  have "bootable (ram b) a v" using built_image_bootable [OF img] h by simp
  then have c: "bootm_checks argv a v b = Some (Some (of_nat (length d), a + 64), b\<lparr>boot_status := 6, header := ?h\<rparr>)"
    using built_image_parts [OF img(1,2)] h(2) by (simp add: bootm_checks_bootable Let_def)
  have l: "bootm_load w a (of_nat (length d)) (a + 64) (b\<lparr>boot_status := 6, header := ?h\<rparr>) =
      Some (Inr (of_nat (length d)), b\<lparr>boot_status := 6, header := ?h, ram := ram_memmove (ram b) (ih_load h) (a + 64) (of_nat (length d))\<rparr>)"
    using h by (simp add: bootm_load_def Let_def)
  have "do_bootm w argv b = do_bootm_linux w argv (a + 64) v ?b"
    using v h by (simp add: do_bootm_def c l bootm_start_def Let_def)
  then show ?thesis using h by (intro exI [of _ ?b]) simp
qed

section \<open>Properties\<close>

text \<open>A machine with a small image in memory, for the examples.\<close>

definition demo_boot_vars :: "var list" where
  "demo_boot_vars = [(str ''bootargs'', str ''a=1 b'')]"

definition demo_header :: image_header_t where
  "demo_header = \<lparr>ih_magic = 0, ih_hcrc = 0, ih_time = 0, ih_size = 0, ih_load = 0x80060000, ih_ep = 0x80060400, ih_dcrc = 0,
     ih_os = IH_OS_LINUX, ih_arch = IH_CPU_MIPS, ih_type = IH_TYPE_KERNEL, ih_comp = IH_COMP_NONE, ih_name = replicate 32 0\<rparr>"

definition demo_boot :: "bytes \<Rightarrow> boot" where
  "demo_boot img = \<lparr>b_ub = demo_ub\<lparr>env_data := enc_vars demo_boot_vars @ [0, 0], load_addr := 0x81000000\<rparr>,
     ram = place 0x1000000 img (\<lambda>_. 0), header = demo_header, rpos = 0, boot_status = 0, ram_size = 0x4000000,
     bi_boot_params = 0x83ff0000, bi_flashstart = 0x9f000000, bi_flashsize = 0x1000000\<rparr>"

definition demo_codec :: codec where
  "demo_codec = \<lparr>inflateInit2 = 0, inflate = (\<lambda>dst room src n m. (1, dst, m)), LzmaDecode = (\<lambda>p src n dst k m. (0, k, m)),
     alloc_ok = True, unc_len_ptr = 0x83fe0000, is_virian = False\<rparr>"

lemma demo_boot_sel [simp]:
  "ram (demo_boot img) = place 0x1000000 img (\<lambda>_. 0)" "ram_size (demo_boot img) = 0x4000000"
  "bi_boot_params (demo_boot img) = 0x83ff0000" "load_addr (b_ub (demo_boot img)) = 0x81000000"
  "bi_flashstart (demo_boot img) = 0x9f000000" "bi_flashsize (demo_boot img) = 0x1000000"
  by (simp_all add: demo_boot_def)

lemma demo_boot_ready: "env_ready (b_ub (demo_boot img)) demo_boot_vars"
proof -
  have "encodes (enc_vars demo_boot_vars @ [0, 0]) demo_boot_vars"
    by (auto simp: encodes_def demo_boot_vars_def image_of_def ok_vars_def ok_var_def ok_name_def str_def ch_def)
  then show ?thesis using demo_ready by (simp add: demo_boot_def env_ready_def)
qed

lemma demo_boot_verify: "bootm_verify (b_ub (demo_boot img)) = Some True"
  using demo_boot_ready by (rule bootm_verify_unset) (simp add: demo_boot_vars_def str_def ch_def)

lemma demo_boot_addr: "bootm_addr [x] (b_ub (demo_boot img)) = Some 0x81000000"
  by (simp add: bootm_addr_def)

lemma pa_numeral [simp]: "pa (numeral n) = unat (numeral n :: u32) mod 2 ^ 29"
  by (simp add: pa_def)

lemma demo_boot_image: "length img \<le> 100 \<Longrightarrow> ld_bytes (ram (demo_boot img)) 0x81000000 (length img) = img"
  by (subst ld_bytes_seg) (simp_all add: ld_place_same)

text \<open>
  C12: what \<open>bootm\<close> starts has been checked. If the image at the address has a wrong magic number, a
  wrong header checksum, a wrong data checksum (unless the variable \<open>verify\<close> starts with n), another
  architecture or a type that cannot be booted, then \<open>bootm\<close> returns 1 and neither memory nor the
  environment has changed; and if control is handed to an image, it passed all these checks and is
  entered where its header says.
\<close>

theorem bootm_starts_only_checked:
  assumes "bootm_verify (b_ub b) = Some v" "bootm_addr argv (b_ub b) = Some a"
  shows "(\<not> bootable (ram b) a v \<longrightarrow>
      (\<exists>b'. do_bootm w argv b = Some (Returns 1, b') \<and> ram b' = ram b \<and> b_ub b' = b_ub b)) \<and>
    (\<forall>e b'. do_bootm w argv b = Some (Starts e, b') \<longrightarrow>
      bootable (ram b) a v \<and> entry_point e \<in> {None, Some (ih_ep (read_header (ram b) a))})"
  using do_bootm_refuses [OF assms] do_bootm_starts [OF _ assms] by blast

theorem bootm_starts_only_checked_witness:
  "\<exists>b'. do_bootm demo_codec [None] (demo_boot [1, 2, 3, 4]) = Some (Returns 1, b') \<and> ram b' = ram (demo_boot [1, 2, 3, 4])"
proof -
  have four: "length [1, 2, 3, 4 :: byte] = 4" by simp
  have "ld_bytes (ram (demo_boot [1, 2, 3, 4])) 0x81000000 4 = [1, 2, 3, 4]"
    using demo_boot_image [of "[1, 2, 3, 4]"] unfolding four by (simp only: rel_simps)
  then have "ih_magic (read_header (ram (demo_boot [1, 2, 3, 4])) 0x81000000) = of_be32 [1, 2, 3, 4]"
    by (simp only: read_header_def ld32_def image_header_t.select_convs)
  moreover have "of_be32 [1, 2, 3, 4] \<noteq> IH_MAGIC" by (simp add: of_be32_def IH_MAGIC_def)
  ultimately have "\<not> bootable (ram (demo_boot [1, 2, 3, 4])) 0x81000000 True"
    by (simp add: bootable_def Let_def del: demo_boot_sel)
  then show ?thesis
    using bootm_starts_only_checked [OF demo_boot_verify demo_boot_addr [of None], of "[1, 2, 3, 4]" demo_codec] by blast
qed

text \<open>
  C13: an image in which one byte was changed, anywhere in its header or its data, is refused: \<open>bootm\<close>
  returns 1 and changes neither memory nor the environment (with verification on).
\<close>

theorem bootm_refuses_damaged_image:
  assumes "bootm_verify (b_ub b) = Some True" "bootm_addr argv (b_ub b) = Some a"
    and "length (ih_name h) = 32" "length d < 2 ^ 32"
    and "ld_bytes (ram b) a (64 + length d) = (built_image h d)[i := x]" "i < 64 + length d" "x \<noteq> built_image h d ! i"
  shows "\<exists>b'. do_bootm w argv b = Some (Returns 1, b') \<and> ram b' = ram b \<and> b_ub b' = b_ub b"
  using do_bootm_refuses [OF assms(1,2)] image_damage [OF assms(3-7)] by blast

lemma demo_image_length: "length ((built_image demo_header d)[i := x]) = 64 + length d"
  by (simp add: built_image_def demo_header_def)

theorem bootm_refuses_damaged_image_witness:
  "\<exists>b'. do_bootm demo_codec [None] (demo_boot ((built_image demo_header [7, 8])[65 := 9])) = Some (Returns 1, b')"
proof -
  let ?img = "(built_image demo_header [7, 8])[65 := 9]"
  have "ld_bytes (ram (demo_boot ?img)) 0x81000000 (64 + length [7, 8 :: byte]) = ?img"
    using demo_boot_image [of ?img] demo_image_length [of "[7, 8]" 65 9] by (simp del: demo_boot_sel)
  moreover have "9 \<noteq> built_image demo_header [7, 8] ! 65" "length (ih_name demo_header) = 32"
    by (simp_all add: built_image_def nth_append demo_header_def)
  ultimately show ?thesis
    using bootm_refuses_damaged_image [OF demo_boot_verify demo_boot_addr [of None], of demo_header "[7, 8]" ?img 65 9 demo_codec]
    by fastforce
qed

text \<open>
  C11: \<open>bootm\<close> of an uncompressed Linux kernel hands over to it. For every image that was built with the
  header \<open>h\<close> and the data \<open>d\<close>, at the entry point of the header: the data are at the load address,
  whatever the overlap with the image; the argument vector holds, in order, the words of the variable
  \<open>bootargs\<close> (blanks inside quotation marks do not separate) and the size of memory unless \<open>bootargs\<close>
  mentions it; the environment of the kernel holds the size of memory, an empty ramdisk and the flash.
  The parameters must fit into memory, must not lie on the kernel, and there are at most 254 words.
\<close>

theorem bootm_linux_correct:
  assumes env: "env_ready (b_ub b) es" "map_of es (str ''bootargs'') = Some s" "length (boot_words s) \<le> 254"
    and cmd: "bootm_verify (b_ub b) = Some v" "bootm_addr argv (b_ub b) = Some a" "length argv < 3"
    and img: "ld_bytes (ram b) a (64 + length d) = built_image h d" "length (ih_name h) = 32"
    and h: "ih_arch h = IH_CPU_MIPS" "ih_type h = IH_TYPE_KERNEL" "ih_comp h = IH_COMP_NONE" "ih_os h = IH_OS_LINUX" "ih_load h \<noteq> a"
    and mem: "pa a + 64 + length d < 2 ^ 29" "pa (ih_load h) + length d \<le> 2 ^ 29" "unat (ih_load h) div 2 ^ 29 = unat (a + 64) div 2 ^ 29"
    and par: "pa (bi_boot_params b) + length s + 2300 \<le> 2 ^ 29"
      "pa (ih_load h) + length d \<le> pa (bi_boot_params b) \<or> pa (bi_boot_params b) + length s + 2300 \<le> pa (ih_load h)"
  shows "\<exists>b' av en. do_bootm w argv b =
      Some (Starts (Linux (ih_ep h) (of_nat (Suc (length (kernel_args w (ram_size b) s)))) av en (bi_flashsize b div 1048576)), b') \<and>
    ld_bytes (ram b') (ih_load h) (length d) = d \<and>
    kernel_sees (ram b') av (kernel_args w (ram_size b) s) en (kernel_env (ram_size b) 0 0 (bi_flashstart b) (bi_flashsize b))"
proof -
  have d: "length d < 2 ^ 32" using mem(2) by simp
  have ud: "unat (of_nat (length d) :: u32) = length d" using d by (rule unat_length)
  obtain b1 where b1: "do_bootm w argv b = do_bootm_linux w argv (a + 64) v b1"
    "ram b1 = ram_memmove (ram b) (ih_load h) (a + 64) (of_nat (length d))" "b_ub b1 = b_ub b" "ram_size b1 = ram_size b"
    "bi_boot_params b1 = bi_boot_params b" "bi_flashstart b1 = bi_flashstart b" "bi_flashsize b1 = bi_flashsize b"
    "ih_ep (header b1) = ih_ep h" "ih_type (header b1) = IH_TYPE_KERNEL"
    using do_bootm_kernel [OF img d h cmd(1,2)] by blast
  have a: "pa (a + 64) = pa a + 64" using mem(1) pa_add_small [of a 64] by simp
  have "ld_bytes (ram b) (a + 64) (length d) = d" using built_image_parts [OF img] by simp
  then have "ram b1 = place (pa (ih_load h)) d (ram b)"
    using b1(2) ram_memmove_place [of "ih_load h" "of_nat (length d)" "a + 64" "ram b"] mem a ud by simp
  then have k: "ld_bytes (ram b1) (ih_load h) (length d) = d" using mem(2) by (simp add: ld_bytes_seg ld_place_same)
  have "env_ready (b_ub b1) es" "pa (bi_boot_params b1) + length s + 2300 \<le> 2 ^ 29" "ih_type (header b1) \<noteq> IH_TYPE_MULTI"
    using env(1) par(1) b1 by simp_all
  then obtain b' av en where b': "do_bootm_linux w argv (a + 64) v b1 =
      Some (Starts (Linux (ih_ep h) (of_nat (Suc (length (kernel_args w (ram_size b) s)))) av en (bi_flashsize b div 1048576)), b')"
    "kernel_sees (ram b') av (kernel_args w (ram_size b) s) en (kernel_env (ram_size b) 0 0 (bi_flashstart b) (bi_flashsize b))"
    "same_outside (pa (bi_boot_params b)) (length s + 2300) (ram b1) (ram b')"
    using do_bootm_linux_plain [of b1 es s argv w "a + 64" v] env(2,3) cmd(3) unfolding b1(4-8) by blast
  have "ld_bytes (ram b') (ih_load h) (length d) = d"
    using ld_bytes_same_outside [OF b'(3) mem(2)] par(2) k by (simp add: add.assoc)
  then show ?thesis using b1(1) b' by auto
qed


lemma demo_words: "boot_words (str ''a=1 b'') = [str ''a=1'', str ''b'']"
  by (simp add: boot_words.simps str_def ch_def)

theorem bootm_linux_correct_witness:
  "\<exists>b' av en. do_bootm demo_codec [None] (demo_boot (built_image demo_header [7, 8])) =
      Some (Starts (Linux 0x80060400 4 av en 16), b') \<and> ld_bytes (ram b') 0x80060000 2 = [7, 8]"
proof -
  let ?img = "built_image demo_header [7, 8]"
  have img: "ld_bytes (ram (demo_boot ?img)) 0x81000000 (64 + length [7, 8 :: byte]) = ?img" "length (ih_name demo_header) = 32"
    using demo_boot_image [of ?img] by (simp_all add: built_image_def demo_header_def del: demo_boot_sel)
  have h: "ih_arch demo_header = IH_CPU_MIPS" "ih_type demo_header = IH_TYPE_KERNEL" "ih_comp demo_header = IH_COMP_NONE"
    "ih_os demo_header = IH_OS_LINUX" "ih_load demo_header \<noteq> 0x81000000" "ih_load demo_header = 0x80060000" "ih_ep demo_header = 0x80060400"
    by (simp_all add: demo_header_def)
  have env: "map_of demo_boot_vars (str ''bootargs'') = Some (str ''a=1 b'')" "length (boot_words (str ''a=1 b'')) \<le> 254"
    by (simp_all add: demo_boot_vars_def demo_words)
  have len: "length (str ''a=1 b'') = 5" by (simp add: str_def)
  have "\<not> mentions (str ''mem='') (str ''a=1 b'')" by (simp add: mentions_def str_def ch_def upt_rec)
  then have k: "length (kernel_args demo_codec 0x4000000 (str ''a=1 b'')) = 3" by (simp add: kernel_args_def demo_words)
  have two: "length [7, 8 :: byte] = 2" by simp
  have mem: "pa 0x81000000 + 64 + length [7, 8 :: byte] < 2 ^ 29" "pa (ih_load demo_header) + length [7, 8 :: byte] \<le> 2 ^ 29"
    "unat (ih_load demo_header) div 2 ^ 29 = unat (0x81000000 + 64 :: u32) div 2 ^ 29"
    unfolding h(6) two by simp_all
  have par: "pa (bi_boot_params (demo_boot ?img)) + length (str ''a=1 b'') + 2300 \<le> 2 ^ 29"
    "pa (ih_load demo_header) + length [7, 8 :: byte] \<le> pa (bi_boot_params (demo_boot ?img)) \<or>
     pa (bi_boot_params (demo_boot ?img)) + length (str ''a=1 b'') + 2300 \<le> pa (ih_load demo_header)"
    unfolding h(6) two len demo_boot_sel(3) by simp_all
  have argv: "length [None :: bytes option] < 3" by simp
  obtain b' av en where "do_bootm demo_codec [None] (demo_boot ?img) = Some (Starts (Linux (ih_ep demo_header)
      (of_nat (Suc (length (kernel_args demo_codec (ram_size (demo_boot ?img)) (str ''a=1 b''))))) av en
      (bi_flashsize (demo_boot ?img) div 1048576)), b')" "ld_bytes (ram b') (ih_load demo_header) (length [7, 8 :: byte]) = [7, 8]"
    using bootm_linux_correct [OF demo_boot_ready env demo_boot_verify demo_boot_addr argv img h(1-5) mem par, of demo_codec] by blast
  moreover have "bi_flashsize (demo_boot ?img) div 1048576 = 16" "(of_nat (Suc 3) :: u32) = 4" by simp_all
  ultimately show ?thesis unfolding h(6,7) two demo_boot_sel(2) k by metis
qed

end
