(* ===== verification/PartDos.thy ===== *)
theory PartDos
  imports Vsprintf
begin

text \<open>
  DOS partition tables, \<open>disk/part_dos.c\<close>, with the block devices of \<open>include/part.h\<close>. What a device
  delivers is an argument: the number of blocks read and the bytes that were stored. A table whose
  extended partitions form a cycle is followed for ever, which is the value \<open>None\<close>, as is reading past
  what was delivered.
\<close>

section \<open>Block devices\<close>

record block_dev_desc =
  if_type :: nat
  dev :: u32
  part_type :: nat
  dev_type :: nat
  lba :: u32
  blksz :: u32
  block_read :: "u32 \<Rightarrow> u32 \<Rightarrow> u32 \<times> bytes"

record disk_partition =
  part_start :: u32
  part_size :: u32
  part_blksz :: u32
  part_name :: bytes
  type_name :: bytes
  bootable :: bool

abbreviation (input) IF_TYPE_IDE :: nat where "IF_TYPE_IDE \<equiv> 1"
abbreviation (input) IF_TYPE_SCSI :: nat where "IF_TYPE_SCSI \<equiv> 2"
abbreviation (input) IF_TYPE_ATAPI :: nat where "IF_TYPE_ATAPI \<equiv> 3"
abbreviation (input) IF_TYPE_USB :: nat where "IF_TYPE_USB \<equiv> 4"
abbreviation (input) IF_TYPE_DOC :: nat where "IF_TYPE_DOC \<equiv> 5"
abbreviation (input) IF_TYPE_SATA :: nat where "IF_TYPE_SATA \<equiv> 8"
abbreviation (input) PART_TYPE_DOS :: nat where "PART_TYPE_DOS \<equiv> 2"

text \<open>Reading one block: \<open>None\<close> if not exactly one block was read.\<close>

definition read_block :: "block_dev_desc \<Rightarrow> u32 \<Rightarrow> bytes option" where
  "read_block d blk = (case block_read d blk 1 of (n, data) \<Rightarrow> if n = 1 then Some data else None)"

section \<open>Partition tables\<close>

definition DOS_PART_TBL_OFFSET :: nat where "DOS_PART_TBL_OFFSET = 0x1be"
definition DOS_PART_MAGIC_OFFSET :: nat where "DOS_PART_MAGIC_OFFSET = 0x1fe"
definition DOS_PBR_FSTYPE_OFFSET :: nat where "DOS_PBR_FSTYPE_OFFSET = 0x36"
definition DOS_PBR32_FSTYPE_OFFSET :: nat where "DOS_PBR32_FSTYPE_OFFSET = 0x52"

record dos_partition =
  boot_ind :: byte
  sys_ind :: byte
  start4 :: bytes
  size4 :: bytes

definition le32_to_int :: "bytes \<Rightarrow> u32" where
  "le32_to_int le32 = push_bit 24 (ucast (le32 ! 3)) + push_bit 16 (ucast (le32 ! 2)) + push_bit 8 (ucast (le32 ! 1)) + ucast (le32 ! 0)"

definition is_extended :: "byte \<Rightarrow> bool" where
  "is_extended t \<longleftrightarrow> t = 0x5 \<or> t = 0xf \<or> t = 0x85"

definition is_bootable :: "dos_partition \<Rightarrow> bool" where
  "is_bootable p \<longleftrightarrow> boot_ind p = 0x80"

text \<open>Entry \<open>i\<close> of the table in a block.\<close>

definition part_entry :: "bytes \<Rightarrow> nat \<Rightarrow> dos_partition option" where
  "part_entry buffer i =
     (let k = DOS_PART_TBL_OFFSET + 16 * i
      in if k + 16 \<le> length buffer
         then Some \<lparr>boot_ind = buffer ! k, sys_ind = buffer ! (k + 4), start4 = take 4 (drop (k + 8) buffer), size4 = take 4 (drop (k + 12) buffer)\<rparr>
         else None)"

definition has_signature :: "bytes \<Rightarrow> bool option" where
  "has_signature buffer = do {
     a \<leftarrow> rd buffer DOS_PART_MAGIC_OFFSET;
     b \<leftarrow> rd buffer (DOS_PART_MAGIC_OFFSET + 1);
     Some (a = 0x55 \<and> b = 0xaa) }"

text \<open>
  \<open>test_block_type\<close>: -1 is \<open>None\<close> inside. The loop over the slots does not move the pointer, so it
  looks at the first entry three times.
\<close>

datatype block_type = DOS_MBR | DOS_PBR

definition test_block_type :: "bytes \<Rightarrow> block_type option option" where
  "test_block_type buffer = do {
     sig \<leftarrow> has_signature buffer;
     if \<not> sig then Some None
     else do {
       p \<leftarrow> part_entry buffer 0;
       if boot_ind p \<noteq> 0 \<and> boot_ind p \<noteq> 0x80 then do {
         f \<leftarrow> strncmp (drop DOS_PBR_FSTYPE_OFFSET buffer) (cstr (str ''FAT'')) 3;
         f32 \<leftarrow> (if f = 0 then Some 0 else strncmp (drop DOS_PBR32_FSTYPE_OFFSET buffer) (cstr (str ''FAT32'')) 5);
         Some (if f = 0 \<or> f32 = 0 then Some DOS_PBR else None) }
       else Some (Some DOS_MBR) } }"

definition test_part_dos :: "block_dev_desc \<Rightarrow> int option" where
  "test_part_dos d =
     (case read_block d 0 of
        None \<Rightarrow> Some (-1)
      | Some buffer \<Rightarrow> do { t \<leftarrow> test_block_type buffer; Some (if t \<noteq> Some DOS_MBR then -1 else 0) })"

definition part_format :: "nat \<Rightarrow> string" where
  "part_format t =
     (if t = IF_TYPE_IDE \<or> t = IF_TYPE_SATA \<or> t = IF_TYPE_ATAPI then ''hd%c%d''
      else if t = IF_TYPE_SCSI then ''sd%c%d''
      else if t = IF_TYPE_USB then ''usbd%c%d''
      else if t = IF_TYPE_DOC then ''docd%c%d'' else ''xx%c%d'')"

text \<open>
  The loop over the four entries of a table: \<open>Inl\<close> with what was found, or \<open>Inr\<close> with the number the
  next partition gets.
\<close>

definition found_part :: "block_dev_desc \<Rightarrow> u32 \<Rightarrow> u32 \<Rightarrow> dos_partition \<Rightarrow> disk_partition option" where
  "found_part d ext_part_sector part_num pt = do {
     (name, _) \<leftarrow> sprintf (replicate 32 0) (cstr (str (part_format (if_type d)))) [VInt (97 + dev d), VInt part_num];
     (type, _) \<leftarrow> sprintf (replicate 32 0) (cstr (str ''U-Boot'')) [];
     Some \<lparr>part_start = ext_part_sector + le32_to_int (start4 pt), part_size = le32_to_int (size4 pt), part_blksz = 512,
           part_name = name, type_name = type, bootable = is_bootable pt\<rparr> }"

fun scan_entries :: "block_dev_desc \<Rightarrow> u32 \<Rightarrow> u32 \<Rightarrow> dos_partition list \<Rightarrow> u32 \<Rightarrow> (disk_partition + u32) option" where
  "scan_entries d ext_part_sector which_part [] part_num = Some (Inr part_num)"
| "scan_entries d ext_part_sector which_part (pt # pts) part_num =
     (if boot_ind pt AND NOT 0x80 = 0 \<and> sys_ind pt \<noteq> 0 \<and> part_num = which_part \<and> \<not> is_extended (sys_ind pt)
      then map_option Inl (found_part d ext_part_sector part_num pt)
      else scan_entries d ext_part_sector which_part pts
        (if ext_part_sector = 0 \<or> (sys_ind pt \<noteq> 0 \<and> \<not> is_extended (sys_ind pt)) then part_num + 1 else part_num))"

fun entries_of :: "bytes \<Rightarrow> nat list \<Rightarrow> dos_partition list option" where
  "entries_of buffer [] = Some []"
| "entries_of buffer (i # is) = do { p \<leftarrow> part_entry buffer i; ps \<leftarrow> entries_of buffer is; Some (p # ps) }"

text \<open>What is done with one table: \<open>Inl\<close> is the result, \<open>Inr\<close> the next table to look at.\<close>

definition part_step :: "block_dev_desc \<Rightarrow> u32 \<Rightarrow> u32 \<Rightarrow> u32 \<Rightarrow> u32 \<Rightarrow>
    (disk_partition option + u32 \<times> u32 \<times> u32) option" where
  "part_step d ext_part_sector relative part_num which_part =
     (case read_block d ext_part_sector of
        None \<Rightarrow> Some (Inl None)
      | Some buffer \<Rightarrow> do {
          sig \<leftarrow> has_signature buffer;
          if \<not> sig then Some (Inl None)
          else do {
            pts \<leftarrow> entries_of buffer [0, 1, 2, 3];
            r \<leftarrow> scan_entries d ext_part_sector which_part pts part_num;
            (case r of
               Inl info \<Rightarrow> Some (Inl (Some info))
             | Inr part_num \<Rightarrow>
                 (case find (\<lambda>pt. is_extended (sys_ind pt)) pts of
                    None \<Rightarrow> Some (Inl None)
                  | Some pt \<Rightarrow>
                      let lba_start = le32_to_int (start4 pt) + relative
                      in Some (Inr (lba_start, if ext_part_sector = 0 then lba_start else relative, part_num)))) } })"

partial_function (option) get_partition_info_extended ::
  "block_dev_desc \<Rightarrow> u32 \<Rightarrow> u32 \<Rightarrow> u32 \<Rightarrow> u32 \<Rightarrow> disk_partition option option" where
  "get_partition_info_extended d ext_part_sector relative part_num which_part = do {
     r \<leftarrow> part_step d ext_part_sector relative part_num which_part;
     (case r of
        Inl res \<Rightarrow> Some res
      | Inr (lba_start, relative, part_num) \<Rightarrow> get_partition_info_extended d lba_start relative part_num which_part) }"

definition get_partition_info_dos :: "block_dev_desc \<Rightarrow> u32 \<Rightarrow> disk_partition option option" where
  "get_partition_info_dos d part = get_partition_info_extended d 0 0 1 part"

definition get_partition_info :: "block_dev_desc \<Rightarrow> u32 \<Rightarrow> disk_partition option option" where
  "get_partition_info d part = (if part_type d = PART_TYPE_DOS then get_partition_info_dos d part else Some None)"

section \<open>The name of a partition\<close>

definition part_prefix :: "nat \<Rightarrow> string" where
  "part_prefix t =
     (if t = IF_TYPE_IDE \<or> t = IF_TYPE_SATA \<or> t = IF_TYPE_ATAPI then ''hd''
      else if t = IF_TYPE_SCSI then ''sd''
      else if t = IF_TYPE_USB then ''usbd''
      else if t = IF_TYPE_DOC then ''docd'' else ''xx'')"

text \<open>What the code reports for the table entry \<open>pt\<close> with number \<open>n\<close> of the table in block \<open>pos\<close>.\<close>

definition partition_of :: "block_dev_desc \<Rightarrow> u32 \<Rightarrow> nat \<Rightarrow> dos_partition \<Rightarrow> disk_partition" where
  "partition_of d pos n pt =
     \<lparr>part_start = pos + le32_to_int (start4 pt), part_size = le32_to_int (size4 pt), part_blksz = 512,
      part_name = overlay (replicate 32 0) 0 (str (part_prefix (if_type d)) @ ucast (97 + dev d) # dec_of n @ [0]),
      type_name = overlay (replicate 32 0) 0 (cstr (str ''U-Boot'')), bootable = is_bootable pt\<rparr>"

lemma vsprintf_loop_text:
  assumes "\<And>c. c \<in> set s \<Longrightarrow> c \<noteq> 0 \<and> c \<noteq> ch (CHR ''%'')"
  shows "vsprintf_loop pos (s @ fmt) args = map_option (\<lambda>(o', ns). (s @ o', ns)) (vsprintf_loop (pos + length s) fmt args)"
  using assms
proof (induction s arbitrary: pos)
  case (Cons c s)
  have "vsprintf_loop (Suc pos) (s @ fmt) args = map_option (\<lambda>(o', ns). (s @ o', ns)) (vsprintf_loop (Suc pos + length s) fmt args)"
    using Cons by simp
  then show ?case using Cons.prems [of c] by (simp add: option.map_comp comp_def split_def)
qed (simp add: split_def option.map_ident)

lemma part_format_prefix: "str (part_format t) = str (part_prefix t) @ [37, 99, 37, 100]"
  by (simp add: part_format_def part_prefix_def str_def ch_def)

lemma part_prefix_text: "length (part_prefix t) \<le> 4" "c \<in> set (str (part_prefix t)) \<Longrightarrow> c \<noteq> 0 \<and> c \<noteq> 37"
  by (auto simp: part_prefix_def str_def ch_def split: if_splits)

lemma found_part_eq:
  assumes "n < 2 ^ 31"
  shows "found_part d pos (of_nat n) pt = Some (partition_of d pos n pt)"
proof -
  let ?n = "str (part_prefix (if_type d)) @ ucast (97 + dev d) # dec_of n"
  have "length (dec_of n) \<le> 10" unfolding dec_of_def by (rule digits_props(2) [OF small_digit_table]) auto
  then have l: "length ?n < 32" using part_prefix_text(1) [of "if_type d"] by (simp add: str_def)
  have "vsprintf_loop 0 (cstr (str (part_format (if_type d)))) [VInt (97 + dev d), VInt (of_nat n)] = Some (?n, [])"
    using part_prefix_text(2) assms
    by (subst part_format_prefix) (simp add: vsprintf_loop_text ch_def char_conversion decimal_conversion)
  then show ?thesis using l
    by (simp add: found_part_def partition_of_def sprintf_def vsprintf_def str_def ch_def)
qed

section \<open>The partitions of a disk\<close>

text \<open>
  The four entries of the table in a block with a signature; an entry that describes a partition; the
  chain of extended partitions: each table has one logical partition and, except the last, a link
  relative to the start \<open>base\<close> of the chain. The list has the logical partitions with the block of
  their table.
\<close>

definition table_of :: "block_dev_desc \<Rightarrow> u32 \<Rightarrow> dos_partition list option" where
  "table_of d pos = do {
     buffer \<leftarrow> read_block d pos;
     sig \<leftarrow> has_signature buffer;
     if sig then entries_of buffer [0, 1, 2, 3] else None }"

definition usable :: "dos_partition \<Rightarrow> bool" where
  "usable pt \<longleftrightarrow> boot_ind pt AND NOT 0x80 = 0 \<and> sys_ind pt \<noteq> 0 \<and> \<not> is_extended (sys_ind pt)"

fun ebr_chain :: "block_dev_desc \<Rightarrow> u32 \<Rightarrow> u32 \<Rightarrow> (u32 \<times> dos_partition) list \<Rightarrow> bool" where
  "ebr_chain d base pos [] \<longleftrightarrow> False"
| "ebr_chain d base pos ((p, pt) # rest) \<longleftrightarrow> p = pos \<and> pos \<noteq> 0 \<and> usable pt \<and>
     (case table_of d pos of
        Some [e0, e1, e2, e3] \<Rightarrow> e0 = pt \<and> sys_ind e2 = 0 \<and> sys_ind e3 = 0 \<and>
          (if rest = [] then sys_ind e1 = 0
           else is_extended (sys_ind e1) \<and> ebr_chain d base (le32_to_int (start4 e1) + base) rest)
      | _ \<Rightarrow> False)"

definition logical_parts :: "block_dev_desc \<Rightarrow> dos_partition list \<Rightarrow> (u32 \<times> dos_partition) list \<Rightarrow> bool" where
  "logical_parts d pts ls \<longleftrightarrow>
     (case find (\<lambda>pt. is_extended (sys_ind pt)) pts of
        None \<Rightarrow> ls = []
      | Some e \<Rightarrow> ebr_chain d (le32_to_int (start4 e)) (le32_to_int (start4 e)) ls)"

text \<open>Numbering: the primary partitions are 1 to 4, used or not; the logical ones follow.\<close>

definition numbered :: "block_dev_desc \<Rightarrow> dos_partition list \<Rightarrow> (u32 \<times> dos_partition) list \<Rightarrow> nat \<Rightarrow> disk_partition option" where
  "numbered d pts ls w =
     (if 1 \<le> w \<and> w \<le> 4 then if usable (pts ! (w - 1)) then Some (partition_of d 0 w (pts ! (w - 1))) else None
      else if 5 \<le> w \<and> w < 5 + length ls then Some (partition_of d (fst (ls ! (w - 5))) w (snd (ls ! (w - 5))))
      else None)"

lemma part_step_table:
  assumes "table_of d pos = Some pts"
  shows "part_step d pos relative n w = do {
     r \<leftarrow> scan_entries d pos w pts n;
     (case r of
        Inl info \<Rightarrow> Some (Inl (Some info))
      | Inr n \<Rightarrow>
          (case find (\<lambda>pt. is_extended (sys_ind pt)) pts of
             None \<Rightarrow> Some (Inl None)
           | Some pt \<Rightarrow>
               let lba_start = le32_to_int (start4 pt) + relative
               in Some (Inr (lba_start, if pos = 0 then lba_start else relative, n)))) }"
  using assms by (auto simp: table_of_def part_step_def bind_Some_iff split: if_splits)

lemma table_of_length: "table_of d pos = Some pts \<Longrightarrow> length pts = 4"
  by (auto simp: table_of_def bind_Some_iff split: if_splits)

lemma unat_of_nat_small: "m < 2 ^ 31 \<Longrightarrow> unat (of_nat m :: u32) = m"
  by (simp add: unat_of_nat take_bit_nat_eq_self_iff)

lemma u32_of_nat_eq: "m < 2 ^ 31 \<Longrightarrow> n < 2 ^ 31 \<Longrightarrow> (of_nat m :: u32) = of_nat n \<longleftrightarrow> m = n"
  by (metis unat_of_nat_small)

lemma scan_primary:
  assumes "n + length pts < 2 ^ 31" "w < 2 ^ 31"
  shows "scan_entries d 0 (of_nat w) pts (of_nat n) =
    Some (if n \<le> w \<and> w < n + length pts \<and> usable (pts ! (w - n)) then Inl (partition_of d 0 w (pts ! (w - n)))
          else Inr (of_nat (n + length pts)))"
  using assms
proof (induction pts arbitrary: n)
  case (Cons pt pts)
  have "(of_nat n :: u32) + 1 = of_nat (Suc n)" by simp
  moreover have "(of_nat n :: u32) = of_nat w \<longleftrightarrow> n = w" using Cons.prems by (intro u32_of_nat_eq) auto
  moreover have "scan_entries d 0 (of_nat w) pts (of_nat (Suc n)) =
    Some (if Suc n \<le> w \<and> w < Suc n + length pts \<and> usable (pts ! (w - Suc n)) then Inl (partition_of d 0 w (pts ! (w - Suc n)))
          else Inr (of_nat (Suc n + length pts)))"
    using Cons.prems by (intro Cons.IH) auto
  ultimately show ?case
    using found_part_eq [OF Cons.prems(2)] by (cases "n = w") (auto simp: usable_def nth_Cons' le_Suc_eq simp del: of_nat_Suc)
qed simp

lemma scan_logical:
  assumes "pos \<noteq> 0" "usable pt" "sys_ind e1 = 0 \<or> is_extended (sys_ind e1)" "sys_ind e2 = 0" "sys_ind e3 = 0"
    "n < 2 ^ 31 - 1" "w < 2 ^ 31"
  shows "scan_entries d pos (of_nat w) [pt, e1, e2, e3] (of_nat n) =
    Some (if n = w then Inl (partition_of d pos w pt) else Inr (of_nat (Suc n)))"
proof -
  have "(of_nat n :: u32) + 1 = of_nat (Suc n)" by simp
  moreover have "(of_nat n :: u32) = of_nat w \<longleftrightarrow> n = w" using assms by (intro u32_of_nat_eq) auto
  ultimately show ?thesis using assms found_part_eq [OF assms(7)] by (auto simp: usable_def simp del: of_nat_Suc)
qed

lemma ebr_info:
  assumes "ebr_chain d base pos ls" "n + length ls < 2 ^ 31" "w < 2 ^ 31"
  shows "get_partition_info_extended d pos base (of_nat n) (of_nat w) =
    Some (if n \<le> w \<and> w < n + length ls then Some (partition_of d (fst (ls ! (w - n))) w (snd (ls ! (w - n)))) else None)"
  using assms
proof (induction d base pos ls arbitrary: n rule: ebr_chain.induct)
  case (2 d base pos p pt rest)
  from 2(2) obtain e1 e2 e3 where t: "table_of d pos = Some [pt, e1, e2, e3]" and p: "p = pos" "pos \<noteq> 0" "usable pt"
    and e: "sys_ind e2 = 0" "sys_ind e3 = 0" and r: "if rest = [] then sys_ind e1 = 0
       else is_extended (sys_ind e1) \<and> ebr_chain d base (le32_to_int (start4 e1) + base) rest"
    by (auto split: option.splits list.splits)
  have s: "scan_entries d pos (of_nat w) [pt, e1, e2, e3] (of_nat n) =
      Some (if n = w then Inl (partition_of d pos w pt) else Inr (of_nat (Suc n)))"
    using p e r 2(3,4) by (intro scan_logical) (auto split: if_splits)
  have z: "\<not> is_extended 0" "\<not> is_extended (sys_ind pt)" using p(3) by (auto simp: is_extended_def usable_def)
  show ?case
  proof (cases "n = w \<or> rest = []")
    case True
    then show ?thesis using p e r z
      by (subst get_partition_info_extended.simps) (auto simp: part_step_table [OF t] s simp del: of_nat_Suc scan_entries.simps)
  next
    case False
    then have "get_partition_info_extended d (le32_to_int (start4 e1) + base) base (of_nat (Suc n)) (of_nat w) =
      Some (if Suc n \<le> w \<and> w < Suc n + length rest then Some (partition_of d (fst (rest ! (w - Suc n))) w (snd (rest ! (w - Suc n)))) else None)"
      using 2(3,4) r by (intro 2(1) [OF t refl refl refl refl]) auto
    then show ?thesis using False p e r z
      by (subst get_partition_info_extended.simps)
        (auto simp: part_step_table [OF t] s Let_def nth_Cons' simp del: of_nat_Suc scan_entries.simps)
  qed
qed simp

lemma primary_step:
  assumes "table_of d 0 = Some pts" "w < 2 ^ 31"
  shows "get_partition_info_dos d (of_nat w) =
    (if 1 \<le> w \<and> w \<le> 4 \<and> usable (pts ! (w - 1)) then Some (Some (partition_of d 0 w (pts ! (w - 1))))
     else case find (\<lambda>pt. is_extended (sys_ind pt)) pts of
       None \<Rightarrow> Some None
     | Some e \<Rightarrow> get_partition_info_extended d (le32_to_int (start4 e)) (le32_to_int (start4 e)) (of_nat 5) (of_nat w))"
proof -
  have "scan_entries d 0 (of_nat w) pts (of_nat 1) =
    Some (if 1 \<le> w \<and> w < 1 + length pts \<and> usable (pts ! (w - 1)) then Inl (partition_of d 0 w (pts ! (w - 1)))
          else Inr (of_nat (1 + length pts)))"
    using assms table_of_length [OF assms(1)] by (intro scan_primary) auto
  then show ?thesis using table_of_length [OF assms(1)] unfolding get_partition_info_dos_def
    by (subst get_partition_info_extended.simps) (auto simp: part_step_table [OF assms(1)] Let_def split: option.splits)
qed

lemma partition_numbering:
  assumes "part_type d = PART_TYPE_DOS" "table_of d 0 = Some pts" "logical_parts d pts ls"
    "length ls < 2 ^ 31 - 5" "w < 2 ^ 31"
  shows "get_partition_info d (of_nat w) = Some (numbered d pts ls w)"
proof (cases "find (\<lambda>pt. is_extended (sys_ind pt)) pts")
  case None
  then show ?thesis using assms(1,3) primary_step [OF assms(2,5)]
    by (auto simp: get_partition_info_def logical_parts_def numbered_def)
next
  case (Some e)
  then have "get_partition_info_extended d (le32_to_int (start4 e)) (le32_to_int (start4 e)) (of_nat 5) (of_nat w) =
    Some (if 5 \<le> w \<and> w < 5 + length ls then Some (partition_of d (fst (ls ! (w - 5))) w (snd (ls ! (w - 5)))) else None)"
    using assms by (intro ebr_info) (auto simp: logical_parts_def)
  then show ?thesis using Some assms(1) primary_step [OF assms(2,5)]
    by (auto simp: get_partition_info_def numbered_def)
qed

section \<open>Properties\<close>

text \<open>
  C19: partition lookup numbers the partitions of a DOS disk as its tables say. For a device whose block 0
  has the primary table \<open>pts\<close> and whose chain of extended partitions holds the logical partitions \<open>ls\<close>,
  \<open>get_partition_info\<close> returns for the numbers 1 to 4 the primary entry, for 5 and up the logical
  partitions in the order of the chain, with starts relative to their own table, and no partition for
  unused entries, extended entries and all other numbers.
\<close>

theorem dos_partition_numbering:
  assumes "part_type d = PART_TYPE_DOS" "table_of d 0 = Some pts" "logical_parts d pts ls"
    "length ls < 2 ^ 31 - 5" "w < 2 ^ 31"
  shows "get_partition_info d (of_nat w) = Some (numbered d pts ls w)"
  by (rule partition_numbering [OF assms])

text \<open>A disk of 100 blocks with a primary partition and an extended one, which has two logical partitions.\<close>

definition demo_entry :: "byte \<Rightarrow> byte \<Rightarrow> byte \<Rightarrow> bytes" where
  "demo_entry t s n = [0, 0, 0, 0, t, 0, 0, 0, s, 0, 0, 0, n, 0, 0, 0]"

definition demo_table :: "bytes \<Rightarrow> bytes \<Rightarrow> bytes" where
  "demo_table e0 e1 = replicate 446 0 @ e0 @ e1 @ replicate 32 0 @ [0x55, 0xaa]"

lemma demo_table_signature: "has_signature (demo_table (demo_entry t s n) (demo_entry t' s' n')) = Some True"
  by (simp add: has_signature_def demo_table_def demo_entry_def DOS_PART_MAGIC_OFFSET_def rd_def nth_append)

lemma demo_table_entries: "entries_of (demo_table (demo_entry t s n) (demo_entry t' s' n')) [0, Suc 0, 2, 3] =
   Some (map (\<lambda>(t, s, n). \<lparr>boot_ind = 0, sys_ind = t, start4 = [s, 0, 0, 0], size4 = [n, 0, 0, 0]\<rparr>) [(t, s, n), (t', s', n'), (0, 0, 0), (0, 0, 0)])"
  by (simp add: part_entry_def demo_table_def demo_entry_def DOS_PART_TBL_OFFSET_def nth_append numeral_eq_Suc)

definition demo_usb :: block_dev_desc where
  "demo_usb = \<lparr>if_type = IF_TYPE_USB, dev = 0, part_type = PART_TYPE_DOS, dev_type = 0, lba = 100, blksz = 512,
     block_read = (\<lambda>k n. (n,
       if k = 0 then demo_table (demo_entry 6 1 20) (demo_entry 5 30 70)
       else if k = 30 then demo_table (demo_entry 6 1 20) (demo_entry 5 25 20)
       else if k = 55 then demo_table (demo_entry 6 1 19) (demo_entry 0 0 0) else replicate 512 0))\<rparr>"

definition demo_logical :: "(u32 \<times> dos_partition) list" where
  "demo_logical = [(30, \<lparr>boot_ind = 0, sys_ind = 6, start4 = [1, 0, 0, 0], size4 = [20, 0, 0, 0]\<rparr>),
     (55, \<lparr>boot_ind = 0, sys_ind = 6, start4 = [1, 0, 0, 0], size4 = [19, 0, 0, 0]\<rparr>)]"

theorem dos_partition_numbering_witness:
  "\<exists>pts. get_partition_info demo_usb (of_nat 6) = Some (numbered demo_usb pts demo_logical 6) \<and>
    map_option part_start (numbered demo_usb pts demo_logical 6) = Some 56"
proof -
  have "case table_of demo_usb 0 of None \<Rightarrow> False | Some pts \<Rightarrow> logical_parts demo_usb pts demo_logical"
    by (simp add: table_of_def demo_usb_def read_block_def demo_table_signature demo_table_entries logical_parts_def
        is_extended_def demo_logical_def le32_to_int_def usable_def del: entries_of.simps)
  then obtain pts where "table_of demo_usb 0 = Some pts" "logical_parts demo_usb pts demo_logical" by (auto split: option.splits)
  then have "get_partition_info demo_usb (of_nat 6) = Some (numbered demo_usb pts demo_logical 6)"
    by (intro dos_partition_numbering) (auto simp: demo_usb_def demo_logical_def)
  then show ?thesis by (auto simp: numbered_def demo_logical_def partition_of_def le32_to_int_def)
qed

text \<open>
  Tables that are visited again and again: if every step from a set of positions leads back into the set,
  the search does not return.
\<close>

lemma closed_steps_never_return:
  assumes "\<And>s. S s \<Longrightarrow> \<exists>s'. S s' \<and> part_step d (fst s) (fst (snd s)) (snd (snd s)) w = Some (Inr s')"
    and "S (pos, relative, n)"
  shows "get_partition_info_extended d pos relative n w = None"
proof -
  have "get_partition_info_extended d' p r k w' = Some y \<Longrightarrow> d' = d \<longrightarrow> w' = w \<longrightarrow> \<not> S (p, r, k)" for d' p r k w' y
  proof (erule get_partition_info_extended.raw_induct [rotated])
    fix f d' p r k w' y
    assume ih: "\<And>d' p r k w' y. f d' p r k w' = Some y \<Longrightarrow> d' = d \<longrightarrow> w' = w \<longrightarrow> \<not> S (p, r, k)"
      and body: "part_step d' p r k w' \<bind> case_sum Some (\<lambda>(p, r, k). f d' p r k w') = Some y"
    show "d' = d \<longrightarrow> w' = w \<longrightarrow> \<not> S (p, r, k)"
    proof (intro impI notI)
      assume e: "d' = d" "w' = w" and s: "S (p, r, k)"
      obtain p' r' k' where "S (p', r', k')" "part_step d p r k w = Some (Inr (p', r', k'))"
        using assms(1) [OF s] by auto
      then show False using ih [of d p' r' k' w y] body e by simp
    qed
  qed
  from this [of d pos relative n w] show ?thesis using assms(2)
    by (cases "get_partition_info_extended d pos relative n w") auto
qed

text \<open>
  C38: a table of extended partitions that links to itself makes the partition lookup run for ever. If the
  first extended entry of block 0 leads to a block whose table has no partition and a link with offset
  0, the lookup of every number that is not a used primary entry does not return, so inserting such a
  USB stick stops the boot loader.
\<close>

theorem self_linked_table_hangs:
  assumes "table_of d 0 = Some pts" "find (\<lambda>pt. is_extended (sys_ind pt)) pts = Some e"
    and "pos = le32_to_int (start4 e)" "pos \<noteq> 0" "table_of d pos = Some [e0, l, e2, e3]"
    and "sys_ind e0 = 0" "is_extended (sys_ind l)" "le32_to_int (start4 l) = 0" "sys_ind e2 = 0" "sys_ind e3 = 0"
    and "w < 2 ^ 31" "\<not> (1 \<le> w \<and> w \<le> 4 \<and> usable (pts ! (w - 1)))"
  shows "get_partition_info_dos d (of_nat w) = None"
proof -
  have z: "\<not> is_extended 0" by (simp add: is_extended_def)
  have "part_step d pos pos n w' = Some (Inr (pos, pos, n))" for n w'
    using assms(4,6,7,8,9,10) z by (simp add: part_step_table [OF assms(5)])
  then have "get_partition_info_extended d pos pos (of_nat 5) (of_nat w) = None"
    by (intro closed_steps_never_return [where S = "\<lambda>s. fst s = pos \<and> fst (snd s) = pos"]) auto
  then show ?thesis using primary_step [OF assms(1,11)] assms(2,3,12) by auto
qed

definition demo_cycle :: block_dev_desc where
  "demo_cycle = demo_usb\<lparr>block_read := \<lambda>k n. (n,
     if k = 0 then demo_table (demo_entry 6 1 20) (demo_entry 5 30 70) else demo_table (demo_entry 0 0 0) (demo_entry 5 0 20))\<rparr>"

theorem self_linked_table_hangs_witness: "get_partition_info_dos demo_cycle (of_nat 5) = None"
proof -
  let ?e = "\<lambda>t s n. \<lparr>boot_ind = 0, sys_ind = t, start4 = [s, 0, 0, 0], size4 = [n, 0, 0, 0]\<rparr>"
  note d = table_of_def demo_cycle_def demo_usb_def read_block_def demo_table_signature demo_table_entries
    is_extended_def le32_to_int_def
  have t: "table_of demo_cycle 0 = Some [?e 6 1 20, ?e 5 30 70, ?e 0 0 0, ?e 0 0 0]"
    "table_of demo_cycle 30 = Some [?e 0 0 0, ?e 5 0 20, ?e 0 0 0, ?e 0 0 0]"
    by (simp_all add: d del: entries_of.simps)
  show ?thesis
    by (rule self_linked_table_hangs [OF t(1) _ _ _ t(2), where e = "?e 5 30 70"]) (simp_all add: is_extended_def le32_to_int_def)
qed

end
