(* ===== verification/Fat.thy ===== *)
theory Fat
  imports PartDos BootImage
begin

text \<open>
  The FAT file system, \<open>fs/fat/fat.c\<close> and \<open>include/fat.h\<close>. The static variables of the file are the record
  \<open>fat\<close>, with the memory that is read into; the parameters of the file system being read are the record
  \<open>fsdata\<close>. Directory entries are their 32 bytes. The device and the
  allocator are arguments; \<open>memalign\<close> gives the contents of the block it returns. Loops that may run for ever are partial functions; \<open>None\<close> is also an access outside a buffer.
\<close>

section \<open>State\<close>

definition MAX_CLUSTSIZE :: nat where "MAX_CLUSTSIZE = 65536"
definition FATBUFBLOCKS :: u32 where "FATBUFBLOCKS = 6"
definition PREFETCH_BLOCKS :: u32 where "PREFETCH_BLOCKS = 2"
definition VFAT_MAXLEN_BYTES :: nat where "VFAT_MAXLEN_BYTES = 256"
definition VFAT_MAXSEQ :: byte where "VFAT_MAXSEQ = 9"
definition DELETED_FLAG :: byte where "DELETED_FLAG = 0xe5"
definition aRING :: byte where "aRING = 0x05"
definition LAST_LONG_ENTRY_MASK :: byte where "LAST_LONG_ENTRY_MASK = 0x40"
definition ATTR_VOLUME :: byte where "ATTR_VOLUME = 8"
definition ATTR_DIR :: byte where "ATTR_DIR = 16"
definition ATTR_VFAT :: byte where "ATTR_VFAT = 15"
definition ARCH_DMA_MINALIGN :: u32 where "ARCH_DMA_MINALIGN = 4096"

lemmas fat_consts = MAX_CLUSTSIZE_def FATBUFBLOCKS_def PREFETCH_BLOCKS_def VFAT_MAXLEN_BYTES_def VFAT_MAXSEQ_def
  DELETED_FLAG_def aRING_def LAST_LONG_ENTRY_MASK_def ATTR_VOLUME_def ATTR_DIR_def ATTR_VFAT_def ARCH_DMA_MINALIGN_def

record fsdata =
  fatbuf :: bytes
  fatsize :: nat
  fatlength :: u32
  fat_sect :: u16
  rootdir_sect :: u32
  sect_size :: u16
  clust_size :: u16
  data_begin :: u32
  fatbufnum :: u32

text \<open>A line of a directory listing: a file with its size, a directory, or the final count.\<close>

datatype ls_line = LsFile u32 bytes | LsDir bytes | LsCount nat nat

record fat =
  cur_dev :: "block_dev_desc option"
  cur_part_info :: disk_partition
  vfat_block :: bytes
  dent_block :: bytes
  root_block :: bytes
  fmem :: ram
  memalign :: "u32 \<Rightarrow> bytes option"
  ls_out :: "ls_line list"

text \<open>Where a read goes: memory from an address on, or one of the static blocks (which are aligned).\<close>

datatype buffer = Mem u32 | VfatBlock | DentBlock | RootBlock

definition into :: "bytes \<Rightarrow> nat \<Rightarrow> bytes \<Rightarrow> bytes option" where
  "into b k d = (if k + length d \<le> length b then Some (overlay b k d) else None)"

definition put_buf :: "buffer \<Rightarrow> u32 \<Rightarrow> bytes \<Rightarrow> fat \<Rightarrow> fat option" where
  "put_buf b off d f =
     (case b of
        Mem a \<Rightarrow> Some (f\<lparr>fmem := st_bytes (fmem f) (a + off) d\<rparr>)
      | VfatBlock \<Rightarrow> map_option (\<lambda>x. f\<lparr>vfat_block := x\<rparr>) (into (vfat_block f) (unat off) d)
      | DentBlock \<Rightarrow> map_option (\<lambda>x. f\<lparr>dent_block := x\<rparr>) (into (dent_block f) (unat off) d)
      | RootBlock \<Rightarrow> map_option (\<lambda>x. f\<lparr>root_block := x\<rparr>) (into (root_block f) (unat off) d))"

definition misaligned :: "buffer \<Rightarrow> u32 \<Rightarrow> bool" where
  "misaligned b off = (case b of Mem a \<Rightarrow> (a + off) AND (ARCH_DMA_MINALIGN - 1) \<noteq> 0 | _ \<Rightarrow> off AND (ARCH_DMA_MINALIGN - 1) \<noteq> 0)"

section \<open>Device\<close>

definition disk_read :: "fat \<Rightarrow> u32 \<Rightarrow> u32 \<Rightarrow> int \<times> bytes" where
  "disk_read f block nr_blocks =
     (case cur_dev f of
        None \<Rightarrow> (-1, [])
      | Some d \<Rightarrow> (case block_read d (part_start (cur_part_info f) + block) nr_blocks of (n, data) \<Rightarrow> (sint n, data)))"

text \<open>\<open>memcmp\<close> with a constant, at an offset of a buffer.\<close>

definition has_bytes :: "bytes \<Rightarrow> nat \<Rightarrow> bytes \<Rightarrow> bool option" where
  "has_bytes b k s = map_option (\<lambda>d. d = 0) (memcmp (drop k b) s (length s))"

definition fat_set_blk_dev :: "block_dev_desc \<Rightarrow> disk_partition \<Rightarrow> fat \<Rightarrow> (int \<times> fat) option" where
  "fat_set_blk_dev dev_desc info f =
     (let f = f\<lparr>cur_dev := Some dev_desc, cur_part_info := info\<rparr>; fail = Some (-1, f\<lparr>cur_dev := None\<rparr>);
          (n, buffer) = disk_read f 0 1
      in if n \<noteq> 1 then fail
         else do {
           magic \<leftarrow> has_bytes buffer 0x1fe [0x55, 0xaa];
           if \<not> magic then fail
           else do {
             fat16 \<leftarrow> has_bytes buffer 0x36 (str ''FAT'');
             if fat16 then Some (0, f)
             else do {
               fat32 \<leftarrow> has_bytes buffer 0x52 (str ''FAT32'');
               if fat32 then Some (0, f) else fail } } })"

definition whole_disk :: "block_dev_desc \<Rightarrow> disk_partition" where
  "whole_disk d = \<lparr>part_start = 0, part_size = lba d, part_blksz = blksz d, part_name = cstr [], type_name = cstr [], bootable = False\<rparr>"

definition fat_register_device :: "block_dev_desc \<Rightarrow> u32 \<Rightarrow> fat \<Rightarrow> (int \<times> fat) option" where
  "fat_register_device dev_desc part_no f =
     (let f = f\<lparr>cur_dev := None\<rparr>
      in do {
        r \<leftarrow> get_partition_info dev_desc part_no;
        (case r of
           None \<Rightarrow> if part_no \<noteq> 0 then Some (-1, f) else fat_set_blk_dev dev_desc (whole_disk dev_desc) f
         | Some info \<Rightarrow> fat_set_blk_dev dev_desc info f) })"

section \<open>Names\<close>

fun downcase :: "bytes \<Rightarrow> bytes" where
  "downcase [] = []"
| "downcase (c # s) = (if c \<noteq> 0 then tolower c # downcase s else c # s)"

definition ISDIRDELIM :: "byte \<Rightarrow> bool" where
  "ISDIRDELIM c \<longleftrightarrow> c = ch (CHR ''/'') \<or> c = 92"

fun dirdelim :: "bytes \<Rightarrow> nat option" where
  "dirdelim [] = None"
| "dirdelim (c # s) = (if c = 0 then None else if ISDIRDELIM c then Some 0 else map_option Suc (dirdelim s))"

text \<open>The first character of a name may mark a deleted entry or stand for the mark itself.\<close>

definition first_char :: "bytes \<Rightarrow> bytes" where
  "first_char s = (case s of [] \<Rightarrow> [] | c # r \<Rightarrow> if c = DELETED_FLAG then [] else if c = aRING then DELETED_FLAG # r else c # r)"

definition get_name :: "bytes \<Rightarrow> bytes" where
  "get_name e =
     (let name_end = (\<lambda>c. c \<noteq> 0 \<and> c \<noteq> 32);
          base = takeWhile name_end (take 8 e); ext = take 3 (drop 8 e);
          s = (if ext ! 0 \<noteq> 0 \<and> ext ! 0 \<noteq> 32 then base @ ch (CHR ''.'') # takeWhile name_end ext else base)
      in downcase (first_char s))"

definition mkcksum_step :: "byte \<Rightarrow> byte \<Rightarrow> byte" where
  "mkcksum_step ret c = (push_bit 7 (ret AND 1) OR drop_bit 1 (ret AND 0xfe)) + c"

definition mkcksum :: "bytes \<Rightarrow> bytes \<Rightarrow> byte" where
  "mkcksum name ext = foldl mkcksum_step (foldl mkcksum_step 0 name) ext"

section \<open>The table\<close>

text \<open>
  The CPU is big-endian, so \<open>FAT2CPU16\<close> and \<open>FAT2CPU32\<close> swap the bytes of what was loaded.
\<close>

definition FAT2CPU16 :: "u32 \<Rightarrow> u32" where
  "FAT2CPU16 x = push_bit 8 (x AND 0x00ff) OR drop_bit 8 (x AND 0xff00)"

definition FAT2CPU32 :: "u32 \<Rightarrow> u32" where
  "FAT2CPU32 x = push_bit 24 (x AND 0x000000ff) OR push_bit 8 (x AND 0x0000ff00) OR
     drop_bit 8 (x AND 0x00ff0000) OR drop_bit 24 (x AND 0xff000000)"

definition load16 :: "bytes \<Rightarrow> nat \<Rightarrow> u32 option" where
  "load16 b k = (if k + 2 \<le> length b then Some (push_bit 8 (ucast (b ! k)) OR ucast (b ! (k + 1))) else None)"

definition load32 :: "bytes \<Rightarrow> nat \<Rightarrow> u32 option" where
  "load32 b k = (if k + 4 \<le> length b then Some (of_be32 (take 4 (drop k b))) else None)"

definition CHECK_CLUST :: "u32 \<Rightarrow> nat \<Rightarrow> bool" where
  "CHECK_CLUST x fsize \<longleftrightarrow> x \<le> 1 \<or> x \<ge> (if fsize \<noteq> 32 then 0xfff0 else 0xffffff0)"

text \<open>\<open>FAT32BUFSIZE\<close>, \<open>FAT16BUFSIZE\<close> and \<open>FAT12BUFSIZE\<close>: entries per buffer.\<close>

definition FATBUFSIZE :: "fsdata \<Rightarrow> u32" where
  "FATBUFSIZE my = ucast (sect_size my) * FATBUFBLOCKS"

definition FATnBUFSIZE :: "fsdata \<Rightarrow> u32" where
  "FATnBUFSIZE my =
     (if fatsize my = 32 then FATBUFSIZE my div 4
      else if fatsize my = 16 then FATBUFSIZE my div 2 else FATBUFSIZE my * 2 div 3)"

text \<open>Filling the buffer with block \<open>bufnum\<close> of the table: False if the device reports an error.\<close>

definition fill_fatbuf :: "fat \<Rightarrow> u32 \<Rightarrow> fsdata \<Rightarrow> (bool \<times> fsdata) option" where
  "fill_fatbuf f bufnum my =
     (let startblock = bufnum * FATBUFBLOCKS;
          getsize = (if startblock + FATBUFBLOCKS > fatlength my then fatlength my - startblock else FATBUFBLOCKS);
          (n, data) = disk_read f (startblock + ucast (fat_sect my)) getsize
      in do {
        b \<leftarrow> into (fatbuf my) 0 data;
        Some (if n < 0 then (False, my\<lparr>fatbuf := b\<rparr>) else (True, my\<lparr>fatbuf := b, fatbufnum := bufnum\<rparr>)) })"

text \<open>The entry at an offset of the buffer.\<close>

definition fatbuf_entry :: "nat \<Rightarrow> bytes \<Rightarrow> u32 \<Rightarrow> u32 option" where
  "fatbuf_entry fsize b offset =
     (if fsize = 32 then map_option FAT2CPU32 (load32 b (4 * unat offset))
      else if fsize = 16 then map_option FAT2CPU16 (load16 b (2 * unat offset))
      else
        let off16 = unat ((offset * 3) div 4); w = (\<lambda>i. map_option FAT2CPU16 (load16 b (2 * i)))
        in if offset AND 3 = 0 then do { v \<leftarrow> w off16; Some (v AND 0xfff) }
           else if offset AND 3 = 1 then do {
             val1 \<leftarrow> w off16; val2 \<leftarrow> w (off16 + 1);
             Some (push_bit 4 (val2 AND 0x00ff) OR drop_bit 12 (val1 AND 0xf000)) }
           else if offset AND 3 = 2 then do {
             val1 \<leftarrow> w off16; val2 \<leftarrow> w (off16 + 1);
             Some (push_bit 8 (val2 AND 0x000f) OR drop_bit 8 (val1 AND 0xff00)) }
           else do { v \<leftarrow> w off16; Some (drop_bit 4 (v AND 0xfff0)) })"

definition get_fatent :: "fat \<Rightarrow> u32 \<Rightarrow> fsdata \<Rightarrow> (u32 \<times> fsdata) option" where
  "get_fatent f entry my =
     (if fatsize my \<noteq> 32 \<and> fatsize my \<noteq> 16 \<and> fatsize my \<noteq> 12 then Some (0, my)
      else if sect_size my = 0 then None
      else
        let bufnum = entry div FATnBUFSIZE my; offset = entry - bufnum * FATnBUFSIZE my
        in do {
          (ok, my) \<leftarrow> (if bufnum \<noteq> fatbufnum my then fill_fatbuf f bufnum my else Some (True, my));
          if \<not> ok then Some (0, my)
          else do { ret \<leftarrow> fatbuf_entry (fatsize my) (fatbuf my) offset; Some (ret, my) } })"

section \<open>Clusters\<close>

text \<open>The loop of \<open>get_cluster\<close> for a buffer that is not aligned: sector by sector through a temporary buffer.\<close>

function sector_loop :: "fat \<Rightarrow> fsdata \<Rightarrow> u32 \<Rightarrow> buffer \<Rightarrow> u32 \<Rightarrow> nat \<Rightarrow> (int \<times> fat \<times> u32 \<times> u32 \<times> nat) option" where
  "sector_loop f my startsect b off sz =
     (if sect_size my = 0 then None
      else if unat (sect_size my) \<le> sz then
        (let (ret, tmpbuf) = disk_read f startsect 1
         in if ret \<noteq> 1 then Some (-1, f, startsect, off, sz)
            else if length tmpbuf \<noteq> unat (sect_size my) then None
            else (case put_buf b off tmpbuf f of
                    None \<Rightarrow> None
                  | Some f \<Rightarrow> sector_loop f my (startsect + 1) b (off + ucast (sect_size my)) (sz - unat (sect_size my))))
      else Some (0, f, startsect, off, sz))"
  by pat_completeness auto
termination
  by (relation "measure (\<lambda>(f, my, startsect, b, off, sz). sz)") (auto intro!: diff_less simp: unat_gt_0 order_less_le_trans [of 0 "unat _"])

definition cluster_sect :: "fsdata \<Rightarrow> u32 \<Rightarrow> u32" where
  "cluster_sect my clustnum =
     (if clustnum > 0 then data_begin my + clustnum * ucast (clust_size my) else rootdir_sect my)"

text \<open>
  \<open>get_cluster\<close> into the buffer at an offset. A device that stores more or less than the one block asked
  for overruns the temporary buffer or leaves it uninitialised.
\<close>

definition whole_sectors :: "fsdata \<Rightarrow> u32 \<Rightarrow> buffer \<Rightarrow> u32 \<Rightarrow> u32 \<Rightarrow> fat \<Rightarrow> (int \<times> fat \<times> u32 \<times> u32 \<times> nat) option" where
  "whole_sectors my startsect b off sz f =
     (if misaligned b off then sector_loop f my startsect b off (unat sz)
      else
        let idx = sz div ucast (sect_size my); (ret, data) = disk_read f startsect idx
        in do {
          f \<leftarrow> put_buf b off data f;
          Some (if word_of_int ret \<noteq> idx then (-1, f, startsect, off, 0)
                else (0, f, startsect + idx, off + idx * ucast (sect_size my), unat (sz - idx * ucast (sect_size my)))) })"

definition get_cluster :: "fsdata \<Rightarrow> u32 \<Rightarrow> buffer \<Rightarrow> u32 \<Rightarrow> u32 \<Rightarrow> fat \<Rightarrow> (int \<times> fat) option" where
  "get_cluster my clustnum b off sz f =
     (if sect_size my = 0 then None
      else do {
        (ret, f, startsect, off, sz) \<leftarrow> whole_sectors my (cluster_sect my clustnum) b off sz f;
        if ret \<noteq> 0 then Some (-1, f)
        else if sz \<noteq> 0 then
          let (ret, tmpbuf) = disk_read f startsect 1
          in if ret \<noteq> 1 then Some (-1, f)
             else if length tmpbuf \<noteq> unat (sect_size my) then None
             else do { f \<leftarrow> put_buf b off (take sz tmpbuf) f; Some (0, f) }
        else Some (0, f) })"

section \<open>Files\<close>

definition de_attr :: "bytes \<Rightarrow> byte" where "de_attr e = e ! 11"
definition de_starthi :: "bytes \<Rightarrow> u32" where "de_starthi e = push_bit 8 (ucast (e ! 20)) OR ucast (e ! 21)"
definition de_start :: "bytes \<Rightarrow> u32" where "de_start e = push_bit 8 (ucast (e ! 26)) OR ucast (e ! 27)"
definition de_size :: "bytes \<Rightarrow> u32" where "de_size e = of_be32 (take 4 (drop 28 e))"

definition START :: "fsdata \<Rightarrow> bytes \<Rightarrow> u32" where
  "START my e = FAT2CPU16 (de_start e) + (if fatsize my \<noteq> 32 then 0 else push_bit 16 (FAT2CPU16 (de_starthi e)))"

definition bytesperclust :: "fsdata \<Rightarrow> u32" where
  "bytesperclust my = ucast (clust_size my) * ucast (sect_size my)"

text \<open>Going to the cluster with the first byte wanted; inside, \<open>None\<close> is an invalid entry.\<close>

partial_function (option) seek_cluster :: "fat \<Rightarrow> u32 \<Rightarrow> u32 \<Rightarrow> u32 \<Rightarrow> fsdata \<Rightarrow> ((u32 \<times> u32) option \<times> fsdata) option" where
  "seek_cluster f pos actsize curclust my =
     (if actsize \<le> pos then do {
        (curclust, my) \<leftarrow> get_fatent f curclust my;
        if CHECK_CLUST curclust (fatsize my) then Some (None, my)
        else seek_cluster f pos (actsize + bytesperclust my) curclust my }
      else Some (Some (actsize, curclust), my))"

text \<open>Searching consecutive clusters: the jump to \<open>getit\<close>, the end of the file, or an invalid entry.\<close>

datatype run = Getit u32 u32 | Enough | BadEntry

partial_function (option) run_clusters :: "fat \<Rightarrow> u32 \<Rightarrow> u32 \<Rightarrow> u32 \<Rightarrow> fsdata \<Rightarrow> (run \<times> fsdata) option" where
  "run_clusters f filesize actsize endclust my =
     (if actsize < filesize then do {
        (newclust, my) \<leftarrow> get_fatent f endclust my;
        if newclust - 1 \<noteq> endclust then Some (Getit actsize endclust, my)
        else if CHECK_CLUST newclust (fatsize my) then Some (BadEntry, my)
        else run_clusters f filesize (actsize + bytesperclust my) newclust my }
      else Some (Enough, my))"

partial_function (option) contents_loop ::
  "buffer \<Rightarrow> u32 \<Rightarrow> u32 \<Rightarrow> u32 \<Rightarrow> u32 \<Rightarrow> fat \<Rightarrow> fsdata \<Rightarrow> (int \<times> fat \<times> fsdata) option" where
  "contents_loop b off filesize curclust gotsize f my = do {
     (r, my) \<leftarrow> run_clusters f filesize (bytesperclust my) curclust my;
     (case r of
        BadEntry \<Rightarrow> Some (sint gotsize, f, my)
      | Enough \<Rightarrow> do {
          (e, f) \<leftarrow> get_cluster my curclust b off filesize f;
          Some (if e \<noteq> 0 then (-1, f, my) else (sint (gotsize + filesize), f, my)) }
      | Getit actsize endclust \<Rightarrow> do {
          (e, f) \<leftarrow> get_cluster my curclust b off actsize f;
          if e \<noteq> 0 then Some (-1, f, my)
          else do {
            (curclust, my) \<leftarrow> get_fatent f endclust my;
            if CHECK_CLUST curclust (fatsize my) then Some (sint (gotsize + actsize), f, my)
            else contents_loop b (off + actsize) (filesize - actsize) curclust (gotsize + actsize) f my } }) }"

text \<open>A read that starts at \<open>pos\<close> inside a cluster takes the rest of this cluster through the static block.\<close>

definition contents_from :: "buffer \<Rightarrow> u32 \<Rightarrow> u32 \<Rightarrow> u32 \<Rightarrow> fat \<Rightarrow> fsdata \<Rightarrow> (int \<times> fat \<times> fsdata) option" where
  "contents_from b pos filesize curclust f my =
     (if pos \<noteq> 0 then
        let actsize = min filesize (bytesperclust my)
        in do {
          (e, f) \<leftarrow> get_cluster my curclust VfatBlock 0 actsize f;
          if e \<noteq> 0 then Some (-1, f, my)
          else let filesize = filesize - actsize; actsize = actsize - pos
          in if unat pos + unat actsize > length (vfat_block f) then None
          else do {
            f \<leftarrow> put_buf b 0 (take (unat actsize) (drop (unat pos) (vfat_block f))) f;
            if filesize = 0 then Some (sint actsize, f, my)
            else do {
              (curclust, my) \<leftarrow> get_fatent f curclust my;
              if CHECK_CLUST curclust (fatsize my) then Some (sint actsize, f, my)
              else contents_loop b actsize filesize curclust actsize f my } } }
      else contents_loop b 0 filesize curclust 0 f my)"

definition get_contents :: "bytes \<Rightarrow> u32 \<Rightarrow> buffer \<Rightarrow> u32 \<Rightarrow> fat \<Rightarrow> fsdata \<Rightarrow> (int \<times> fat \<times> fsdata) option" where
  "get_contents dentptr pos b maxsize f my =
     (let filesize = FAT2CPU32 (de_size dentptr)
      in if pos \<ge> filesize then Some (0, f, my)
      else let filesize = (if maxsize > 0 \<and> filesize > pos + maxsize then pos + maxsize else filesize)
      in do {
        (r, my) \<leftarrow> seek_cluster f pos (bytesperclust my) (START my dentptr) my;
        (case r of
           None \<Rightarrow> Some (0, f, my)
         | Some (actsize, curclust) \<Rightarrow>
             let actsize = actsize - bytesperclust my
             in contents_from b (pos - actsize) (filesize - actsize) curclust f my) })"

section \<open>Long names\<close>

text \<open>
  Names are strings without the terminator; \<open>strcmp\<close> of two of them is equality. A long name that would
  fill its buffer of \<open>VFAT_MAXLEN_BYTES\<close> is \<open>None\<close>.
\<close>

definition entry_at :: "bytes \<Rightarrow> nat \<Rightarrow> bytes option" where
  "entry_at blk k = (if k + 32 \<le> length blk then Some (take 32 (drop k blk)) else None)"

fun slot_chars :: "bytes \<Rightarrow> bytes \<Rightarrow> (bool \<times> bytes) option" where
  "slot_chars [] s = Some (False, s)"
| "slot_chars (c # cs) s =
     (if length s \<ge> VFAT_MAXLEN_BYTES then None
      else if c = 0 then Some (True, s) else slot_chars cs (s @ [c]))"

definition slot2str :: "bytes \<Rightarrow> bytes \<Rightarrow> (bool \<times> bytes) option" where
  "slot2str e s = slot_chars (map ((!) e) [1, 3, 5, 7, 9, 14, 16, 18, 20, 22, 24, 28, 30]) s"

text \<open>Passing the slots of a name in descending order of their numbers; inside, \<open>None\<close> is a wrong number.\<close>

fun pass_slots :: "bytes \<Rightarrow> nat \<Rightarrow> nat \<Rightarrow> nat \<Rightarrow> (nat \<times> nat) option option" where
  "pass_slots blk limit k 0 = Some (Some (k, 0))"
| "pass_slots blk limit k (Suc c) =
     (if k < limit then do {
        slot_id \<leftarrow> rd blk k;
        if slot_id AND NOT LAST_LONG_ENTRY_MASK \<noteq> of_nat (Suc c) then Some None
        else pass_slots blk limit (k + 32) c }
      else Some (Some (k, Suc c)))"

text \<open>Collecting characters backwards, from the start of the next cluster and from the slots before \<open>n\<close>.\<close>

fun back_slots :: "bytes \<Rightarrow> nat \<Rightarrow> bytes \<Rightarrow> bytes option" where
  "back_slots blk 0 s = Some s"
| "back_slots blk (Suc n) s = do {
     e \<leftarrow> entry_at blk (32 * n);
     (_, s) \<leftarrow> slot2str e s;
     back_slots blk n s }"

fun name_slots :: "bytes \<Rightarrow> nat \<Rightarrow> bytes \<Rightarrow> bytes option" where
  "name_slots blk 0 s = None"
| "name_slots blk (Suc n) s = do {
     e \<leftarrow> entry_at blk (32 * n);
     (stop, s) \<leftarrow> slot2str e s;
     if stop \<or> e ! 0 AND LAST_LONG_ENTRY_MASK \<noteq> 0 then Some s else name_slots blk n s }"

text \<open>
  \<open>get_vfatname\<close> for the slot at offset \<open>k\<close> of a block. The result is the long name, empty if the function
  fails, and the block, in which the slot is replaced by the directory entry that follows the slots.
\<close>

definition next_cluster :: "fat \<Rightarrow> fsdata \<Rightarrow> u32 \<Rightarrow> (bool \<times> fat \<times> fsdata) option" where
  "next_cluster f my curclust = do {
     (curclust, my) \<leftarrow> get_fatent f curclust my;
     if CHECK_CLUST curclust (fatsize my) then Some (False, f, my)
     else do {
       (e, f) \<leftarrow> get_cluster my curclust VfatBlock 0 (bytesperclust my) f;
       Some (e = 0, f, my) } }"

definition vfat_finish :: "bytes \<Rightarrow> nat \<Rightarrow> nat \<Rightarrow> bytes \<Rightarrow> bytes \<Rightarrow> (bytes \<times> bytes) option" where
  "vfat_finish blk k slot s realdent = do {
     s \<leftarrow> name_slots blk (slot div 32) s;
     if length s \<ge> VFAT_MAXLEN_BYTES then None
     else Some (downcase (first_char s), overlay blk k realdent) }"

definition get_vfatname :: "u32 \<Rightarrow> bytes \<Rightarrow> nat \<Rightarrow> fat \<Rightarrow> fsdata \<Rightarrow> (bytes \<times> bytes \<times> fat \<times> fsdata) option" where
  "get_vfatname curclust blk k f my =
     (let buflimit = unat (sect_size my) * (if curclust = 0 then unat PREFETCH_BLOCKS else unat (clust_size my))
      in do {
        slot_id \<leftarrow> rd blk k;
        let counter = slot_id AND NOT LAST_LONG_ENTRY_MASK;
        if counter > VFAT_MAXSEQ then Some ([], blk, f, my)
        else do {
          p \<leftarrow> pass_slots blk buflimit k (unat counter);
          (case p of
             None \<Rightarrow> Some ([], blk, f, my)
           | Some (slot, left) \<Rightarrow>
               if slot \<ge> buflimit then
                 if curclust = 0 then Some ([], blk, f, my)
                 else do {
                   (ok, f, my) \<leftarrow> next_cluster f my curclust;
                   if \<not> ok then Some ([], blk, f, my)
                   else do {
                        p \<leftarrow> pass_slots (vfat_block f) (Suc (length (vfat_block f))) 0 left;
                        (case p of
                           None \<Rightarrow> Some ([], blk, f, my)
                         | Some (slot2, _) \<Rightarrow> do {
                             realdent \<leftarrow> entry_at (vfat_block f) slot2;
                             s \<leftarrow> back_slots (vfat_block f) (slot2 div 32) [];
                             (l_name, blk) \<leftarrow> vfat_finish blk k slot s realdent;
                             Some (l_name, blk, f, my) }) } }
               else do {
                 realdent \<leftarrow> entry_at blk slot;
                 (l_name, blk) \<leftarrow> vfat_finish blk k slot [] realdent;
                 Some (l_name, blk, f, my) }) } })"

section \<open>Directories\<close>

text \<open>What a search carries along, and what it does with an entry.\<close>

record scan =
  sf :: fat
  sm :: fsdata
  prevcksum :: u16
  files :: nat
  dirs :: nat

datatype verdict = Skip | Exit int | Found bytes

definition print_line :: "ls_line \<Rightarrow> 'a scan_scheme \<Rightarrow> 'a scan_scheme" where
  "print_line l s = s\<lparr>sf := (sf s)\<lparr>ls_out := ls_out (sf s) @ [l]\<rparr>\<rparr>"

definition print_count :: "'a scan_scheme \<Rightarrow> 'a scan_scheme" where
  "print_count s = print_line (LsCount (files s) (dirs s)) s"

text \<open>Listing an entry; \<open>needs_name\<close> is set where directories without a name are not listed.\<close>

definition list_entry :: "bool \<Rightarrow> bytes \<Rightarrow> bytes \<Rightarrow> 'a scan_scheme \<Rightarrow> 'a scan_scheme" where
  "list_entry needs_name e nm s =
     (if de_attr e AND ATTR_DIR \<noteq> 0
      then if nm \<noteq> [] \<or> \<not> needs_name then print_line (LsDir nm) (s\<lparr>dirs := Suc (dirs s)\<rparr>) else s
      else if nm \<noteq> [] then print_line (LsFile (FAT2CPU32 (de_size e)) nm) (s\<lparr>files := Suc (files s)\<rparr>) else s)"

definition long_slot :: "bytes \<Rightarrow> bool" where
  "long_slot e \<longleftrightarrow> de_attr e AND ATTR_VFAT = ATTR_VFAT \<and> e ! 0 AND LAST_LONG_ENTRY_MASK \<noteq> 0"

definition entry_cksum :: "bytes \<Rightarrow> u16" where
  "entry_cksum e = ucast (mkcksum (take 8 e) (take 3 (drop 8 e)))"

text \<open>The body of the loop of \<open>get_dentfromdir\<close> for the entry at offset \<open>k\<close>.\<close>

definition dent_step :: "bytes \<Rightarrow> nat \<Rightarrow> u32 \<Rightarrow> nat \<Rightarrow> scan \<Rightarrow> (verdict \<times> scan) option" where
  "dent_step filename dols curclust k s = do {
     e \<leftarrow> entry_at (dent_block (sf s)) k;
     let vol = de_attr e AND ATTR_VOLUME \<noteq> 0;
     if e ! 0 = DELETED_FLAG then Some (Skip, s)
     else if vol \<and> \<not> long_slot e then Some (Skip, s)
     else do {
       (l_name, s) \<leftarrow> (if vol then do {
           (l_name, blk, f, my) \<leftarrow> get_vfatname curclust (dent_block (sf s)) k (sf s) (sm s);
           Some (l_name, s\<lparr>sf := f\<lparr>dent_block := blk\<rparr>, sm := my, prevcksum := ucast (e ! 13)\<rparr>) }
         else Some ([], s));
       e \<leftarrow> entry_at (dent_block (sf s)) k;
       if vol \<and> dols \<noteq> 0 then Some (Skip, list_entry False e l_name s)
       else if e ! 0 = 0 then Some (Exit (-1), if dols \<noteq> 0 then print_count s else s)
       else if dols \<noteq> 0 \<and> entry_cksum e = prevcksum s then Some (Skip, s\<lparr>prevcksum := 0xffff\<rparr>)
       else if dols \<noteq> 0 then Some (Skip, list_entry False e (get_name e) s)
       else if filename \<noteq> get_name e \<and> filename \<noteq> l_name then Some (Skip, s)
       else Some (Found e, s) } }"

fun dent_entries :: "bytes \<Rightarrow> nat \<Rightarrow> u32 \<Rightarrow> nat \<Rightarrow> nat \<Rightarrow> scan \<Rightarrow> (verdict \<times> scan) option" where
  "dent_entries filename dols curclust 0 k s = Some (Skip, s)"
| "dent_entries filename dols curclust (Suc n) k s = do {
     (r, s) \<leftarrow> dent_step filename dols curclust k s;
     (case r of Skip \<Rightarrow> dent_entries filename dols curclust n (k + 32) s | _ \<Rightarrow> Some (r, s)) }"

partial_function (option) dent_clusters :: "bytes \<Rightarrow> nat \<Rightarrow> u32 \<Rightarrow> scan \<Rightarrow> (bytes option \<times> scan) option" where
  "dent_clusters filename dols curclust s = do {
     (e, f) \<leftarrow> get_cluster (sm s) curclust DentBlock 0 (bytesperclust (sm s)) (sf s);
     let s = s\<lparr>sf := f\<rparr>;
     if e \<noteq> 0 then Some (None, s)
     else do {
       (r, s) \<leftarrow> dent_entries filename dols curclust (unat (bytesperclust (sm s)) div 32) 0 s;
       (case r of
          Found e \<Rightarrow> Some (Some e, s)
        | Exit _ \<Rightarrow> Some (None, s)
        | Skip \<Rightarrow> do {
            (curclust, my) \<leftarrow> get_fatent (sf s) curclust (sm s);
            let s = s\<lparr>sm := my\<rparr>;
            if CHECK_CLUST curclust (fatsize my) then Some (None, s)
            else dent_clusters filename dols curclust s }) } }"

definition get_dentfromdir :: "bytes \<Rightarrow> bytes \<Rightarrow> nat \<Rightarrow> fat \<Rightarrow> fsdata \<Rightarrow> (bytes option \<times> fat \<times> fsdata) option" where
  "get_dentfromdir filename retdent dols f my = do {
     (r, s) \<leftarrow> dent_clusters filename dols (START my retdent) \<lparr>sf = f, sm = my, prevcksum = 0xffff, files = 0, dirs = 0\<rparr>;
     Some (r, sf s, sm s) }"

section \<open>The boot sector\<close>

text \<open>The fields of \<open>boot_sector\<close> that are used, at their offsets, after the conversion to host order.\<close>

record boot_sector =
  bs_sector_size :: bytes
  bs_cluster_size :: byte
  bs_reserved :: u32
  bs_fats :: byte
  bs_dir_entries :: bytes
  bs_fat_length :: u32
  bs_fat32_length :: u32
  bs_root_cluster :: u32

definition le16_at :: "bytes \<Rightarrow> nat \<Rightarrow> u32" where
  "le16_at b k = FAT2CPU16 (push_bit 8 (ucast (b ! k)) OR ucast (b ! (k + 1)))"

definition le32_at :: "bytes \<Rightarrow> nat \<Rightarrow> u32" where
  "le32_at b k = FAT2CPU32 (of_be32 (take 4 (drop k b)))"

definition boot_sector_of :: "bytes \<Rightarrow> boot_sector" where
  "boot_sector_of b =
     \<lparr>bs_sector_size = take 2 (drop 11 b), bs_cluster_size = b ! 13, bs_reserved = le16_at b 14, bs_fats = b ! 16,
      bs_dir_entries = take 2 (drop 17 b), bs_fat_length = le16_at b 22, bs_fat32_length = le32_at b 36,
      bs_root_cluster = le32_at b 44\<rparr>"

text \<open>The result is the boot sector, the volume information and the size of the entries; inside, \<open>None\<close> is an error.\<close>

definition read_bootsectandvi :: "fat \<Rightarrow> (boot_sector \<times> bytes \<times> nat) option option" where
  "read_bootsectandvi f =
     (case cur_dev f of
        None \<Rightarrow> Some None
      | Some d \<Rightarrow>
          (case memalign f (blksz d) of
             None \<Rightarrow> Some None
           | Some block \<Rightarrow>
               let (n, data) = disk_read f 0 1
               in do {
                 block \<leftarrow> into block 0 data;
                 if n < 0 then Some None
                 else if length block < 90 then None
                 else
                   let bs = boot_sector_of block
                   in if bs_fat_length bs = 0 then do {
                        let volinfo = take 26 (drop 64 block);
                        c \<leftarrow> strncmp (cstr (str ''FAT32   '')) (drop 18 volinfo) 8;
                        Some (if c = 0 then Some (bs, volinfo, 32) else None) }
                      else do {
                        let volinfo = take 26 (drop 36 block);
                        c12 \<leftarrow> strncmp (cstr (str ''FAT12   '')) (drop 18 volinfo) 8;
                        c16 \<leftarrow> strncmp (cstr (str ''FAT16   '')) (drop 18 volinfo) 8;
                        Some (if c12 = 0 then Some (bs, volinfo, 12) else if c16 = 0 then Some (bs, volinfo, 16) else None) } }))"

section \<open>Reading a file\<close>

definition rootdir_size :: "boot_sector \<Rightarrow> fsdata \<Rightarrow> u32" where
  "rootdir_size bs my =
     (if fatsize my = 32 then 0
      else (ucast (bs_dir_entries bs ! 1) * 256 + ucast (bs_dir_entries bs ! 0)) * 32 div ucast (sect_size my))"

definition fs_params :: "boot_sector \<Rightarrow> nat \<Rightarrow> fsdata" where
  "fs_params bs fsize =
     (let len = (if fsize = 32 then bs_fat32_length bs else bs_fat_length bs);
          root = ucast (ucast (bs_reserved bs) :: u16) + len * ucast (bs_fats bs);
          my = \<lparr>fatbuf = [], fatsize = fsize, fatlength = len, fat_sect = ucast (bs_reserved bs), rootdir_sect = root,
                sect_size = push_bit 8 (ucast (bs_sector_size bs ! 1)) + ucast (bs_sector_size bs ! 0),
                clust_size = ucast (bs_cluster_size bs), data_begin = 0, fatbufnum = -1\<rparr>
      in my\<lparr>data_begin := root + rootdir_size bs my - ucast (clust_size my) * 2\<rparr>)"

text \<open>The search of the root directory: where it is, with the position of the entry it looks at.\<close>

record rootscan = scan +
  rj :: nat
  cursect :: u32
  root_cluster :: u32
  dentptr :: nat

definition root_step :: "bytes \<Rightarrow> nat \<Rightarrow> bool \<Rightarrow> rootscan \<Rightarrow> (verdict \<times> rootscan) option" where
  "root_step fname dols isdir s = do {
     e \<leftarrow> entry_at (root_block (sf s)) (dentptr s);
     let vol = de_attr e AND ATTR_VOLUME \<noteq> 0;
     let skip = (\<lambda>s. (Skip, s\<lparr>dentptr := dentptr s + 32\<rparr>));
     if e ! 0 = DELETED_FLAG then Some (skip s)
     else if vol \<and> \<not> long_slot e then Some (skip s)
     else if \<not> vol \<and> e ! 0 = 0 then Some (if dols = 2 then (Exit 0, print_count s) else (Exit (-1), s))
     else if \<not> vol \<and> dols = 2 \<and> entry_cksum e = prevcksum s then Some (skip (s\<lparr>prevcksum := 0xffff\<rparr>))
     else do {
       (l_name, s) \<leftarrow> (if vol then do {
           (l_name, blk, f, my) \<leftarrow> get_vfatname (root_cluster s) (root_block (sf s)) (dentptr s) (sf s) (sm s);
           Some (l_name, s\<lparr>sf := f\<lparr>root_block := blk\<rparr>, sm := my, prevcksum := ucast (e ! 13)\<rparr>) }
         else Some ([], s));
       e \<leftarrow> entry_at (root_block (sf s)) (dentptr s);
       if dols = 2 then Some (skip (if vol then list_entry False e l_name s else list_entry True e (get_name e) s))
       else if fname \<noteq> get_name e \<and> fname \<noteq> l_name then Some (skip s)
       else if isdir \<and> de_attr e AND ATTR_DIR = 0 then Some (Exit (-1), s)
       else Some (Found e, s) } }"

fun root_entries :: "bytes \<Rightarrow> nat \<Rightarrow> bool \<Rightarrow> nat \<Rightarrow> rootscan \<Rightarrow> (verdict \<times> rootscan) option" where
  "root_entries fname dols isdir 0 s = Some (Skip, s)"
| "root_entries fname dols isdir (Suc n) s = do {
     (r, s) \<leftarrow> root_step fname dols isdir s;
     (case r of Skip \<Rightarrow> root_entries fname dols isdir n s | _ \<Rightarrow> Some (r, s)) }"

text \<open>Reading the next blocks of the directory, if it is time to: False if the device reports an error.\<close>

definition root_fetch :: "rootscan \<Rightarrow> (bool \<times> rootscan) option" where
  "root_fetch s =
     (if rj s = 0 then
        let (n, data) = disk_read (sf s) (cursect s) (if fatsize (sm s) = 32 then ucast (clust_size (sm s)) else PREFETCH_BLOCKS)
        in do {
          f \<leftarrow> put_buf RootBlock 0 data (sf s);
          Some (\<not> n < 0, s\<lparr>sf := f, dentptr := 0\<rparr>) }
      else Some (True, s))"

text \<open>After a sector: the position of the next one, and whether the directory ends.\<close>

definition root_advance :: "u32 \<Rightarrow> rootscan \<Rightarrow> (bool \<times> rootscan) option" where
  "root_advance dirsize s =
     (let s = s\<lparr>rj := Suc (rj s)\<rparr>
      in if fatsize (sm s) = 32 then
           if rj s = unat (clust_size (sm s)) then do {
             (nxt_clust, my) \<leftarrow> get_fatent (sf s) (root_cluster s) (sm s);
             Some (CHECK_CLUST nxt_clust 32,
               s\<lparr>sm := my, cursect := data_begin my + nxt_clust * ucast (clust_size my), root_cluster := nxt_clust, rj := 0\<rparr>) }
           else Some (False, s)
         else
           let s = s\<lparr>rj := if rj s = unat PREFETCH_BLOCKS then 0 else rj s, cursect := cursect s + 1\<rparr>
           in Some (cursect s - rootdir_sect (sm s) \<ge> dirsize, s))"

partial_function (option) root_loop :: "bytes \<Rightarrow> nat \<Rightarrow> bool \<Rightarrow> u32 \<Rightarrow> rootscan \<Rightarrow> (verdict \<times> rootscan) option" where
  "root_loop fname dols isdir dirsize s = do {
     (ok, s) \<leftarrow> root_fetch s;
     if \<not> ok then Some (Exit (-1), s)
     else do {
       (r, s) \<leftarrow> root_entries fname dols isdir (unat (sect_size (sm s)) div 32) s;
       (case r of
          Skip \<Rightarrow> do {
            (rootdir_end, s) \<leftarrow> root_advance dirsize s;
            if rootdir_end then Some (if dols = 2 then (Exit 0, print_count s) else (Exit (-1), s))
            else root_loop fname dols isdir dirsize s }
        | _ \<Rightarrow> Some (r, s)) } }"

text \<open>The directories below the root: \<open>subname\<close> is the rest of the path, \<open>dent\<close> the directory reached so far.\<close>

partial_function (option) path_loop ::
  "nat \<Rightarrow> bool \<Rightarrow> bytes \<Rightarrow> bytes \<Rightarrow> fat \<Rightarrow> fsdata \<Rightarrow> ((int + bytes) \<times> fat \<times> fsdata) option" where
  "path_loop dols firsttime subname dent f my =
     (let idx = dirdelim subname;
          nextname = (case idx of Some i \<Rightarrow> dropWhile ISDIRDELIM (drop (Suc i) subname) | None \<Rightarrow> subname);
          name = (case idx of Some i \<Rightarrow> take i subname | None \<Rightarrow> subname);
          isdir = (idx \<noteq> None \<or> dols \<noteq> 0 \<and> firsttime);
          firsttime = (if idx \<noteq> None then firsttime \<and> \<not> (dols \<noteq> 0 \<and> nextname = []) else False)
      in do {
        (r, f, my) \<leftarrow> get_dentfromdir name dent (if isdir then 0 else dols) f my;
        (case r of
           None \<Rightarrow> Some (Inl (if dols \<noteq> 0 \<and> \<not> isdir then 0 else -1), f, my)
         | Some e \<Rightarrow>
             if \<not> isdir then Some (Inr e, f, my)
             else if de_attr e AND ATTR_DIR = 0 then Some (Inl (-1), f, my)
             else path_loop dols firsttime nextname e f my) })"

definition do_fat_read_at :: "bytes \<Rightarrow> u32 \<Rightarrow> u32 \<Rightarrow> u32 \<Rightarrow> nat \<Rightarrow> fat \<Rightarrow> (int \<times> fat) option" where
  "do_fat_read_at filename pos buffer maxsize dols f = do {
     r \<leftarrow> read_bootsectandvi f;
     (case r of
        None \<Rightarrow> Some (-1, f)
      | Some (bs, volinfo, fsize) \<Rightarrow>
          let my = fs_params bs fsize
          in if ucast (sect_size my) \<noteq> part_blksz (cur_part_info f) then Some (-1, f)
          else if sect_size my = 0 then None
          else case memalign f (FATBUFSIZE my) of
            None \<Rightarrow> Some (-1, f)
          | Some b \<Rightarrow>
              let filename = dropWhile ISDIRDELIM filename; fnamecopy = downcase filename; idx = dirdelim fnamecopy
              in if length filename \<ge> 2048 then None
              else if fnamecopy = [] \<and> dols = 0 then Some (-1, f)
              else
                let dols = (if fnamecopy = [] then 2 else dols);
                    isdir = (fnamecopy \<noteq> [] \<and> (idx \<noteq> None \<or> dols \<noteq> 0));
                    name = (case idx of Some i \<Rightarrow> take i fnamecopy | None \<Rightarrow> fnamecopy);
                    subname = (case idx of Some i \<Rightarrow> dropWhile ISDIRDELIM (drop (Suc i) fnamecopy) | None \<Rightarrow> [])
                in do {
                  (r, s) \<leftarrow> root_loop name dols isdir (rootdir_size bs my)
                    \<lparr>sf = f, sm = my\<lparr>fatbuf := b\<rparr>, prevcksum = 0xffff, files = 0, dirs = 0, rj = 0, cursect = rootdir_sect my,
                     root_cluster = (if fsize = 32 then bs_root_cluster bs else 0), dentptr = 0\<rparr>;
                  (case r of
                     Exit ret \<Rightarrow> Some (ret, sf s)
                   | Skip \<Rightarrow> None
                   | Found e \<Rightarrow> do {
                       (r, f, my) \<leftarrow> (if isdir then path_loop dols True subname e (sf s) (sm s) else Some (Inr e, sf s, sm s));
                       (case r of
                          Inl ret \<Rightarrow> Some (ret, f)
                        | Inr e \<Rightarrow> do { (ret, f, my) \<leftarrow> get_contents e pos (Mem buffer) maxsize f my; Some (ret, f) }) }) }) }"

definition do_fat_read :: "bytes \<Rightarrow> u32 \<Rightarrow> u32 \<Rightarrow> nat \<Rightarrow> fat \<Rightarrow> (int \<times> fat) option" where
  "do_fat_read filename buffer maxsize dols f = do_fat_read_at filename 0 buffer maxsize dols f"

definition file_fat_ls :: "bytes \<Rightarrow> fat \<Rightarrow> (int \<times> fat) option" where
  "file_fat_ls dir f = do_fat_read dir 0 0 1 f"

definition file_fat_read_at :: "bytes \<Rightarrow> u32 \<Rightarrow> u32 \<Rightarrow> u32 \<Rightarrow> fat \<Rightarrow> (int \<times> fat) option" where
  "file_fat_read_at filename pos buffer maxsize f = do_fat_read_at filename pos buffer maxsize 0 f"

definition file_fat_read :: "bytes \<Rightarrow> u32 \<Rightarrow> u32 \<Rightarrow> fat \<Rightarrow> (int \<times> fat) option" where
  "file_fat_read filename buffer maxsize f = file_fat_read_at filename 0 buffer maxsize f"

definition fat_read_file :: "bytes \<Rightarrow> u32 \<Rightarrow> u32 \<Rightarrow> u32 \<Rightarrow> fat \<Rightarrow> (int \<times> fat) option" where
  "fat_read_file filename buf offset len f = file_fat_read_at filename offset buf len f"

text \<open>\<open>file_fat_detectfs\<close> prints the type and the label; the result is its return value.\<close>

definition file_fat_detectfs :: "fat \<Rightarrow> int option" where
  "file_fat_detectfs f =
     (if cur_dev f = None then Some 1
      else map_option (\<lambda>r. if r = None then 1 else 0) (read_bootsectandvi f))"

end
