(* ===== verification/FatTable.thy ===== *)
theory FatTable
  imports Fat
begin

text \<open>
  The file allocation table: \<open>get_fatent\<close> with its cache of six blocks and the three entry sizes, compared
  with the digits of one little-endian number. The locale \<open>volume\<close> states what the file system relies on
  when it reads blocks of a partition.
\<close>

section \<open>Little-endian numbers\<close>

primrec le_nat :: "bytes \<Rightarrow> nat" where
  "le_nat [] = 0"
| "le_nat (b # bs) = unat b + 256 * le_nat bs"

lemma le_nat_less: "le_nat bs < 256 ^ length bs"
proof (induction bs)
  case (Cons b bs)
  have "unat b < 256" using unsigned_less [of b, where ?'a = nat] by simp
  then show ?case using Cons by simp
qed simp

lemma le_nat_drop: "le_nat (drop k bs) = le_nat bs div 256 ^ k"
proof (induction bs arbitrary: k)
  case (Cons b bs)
  have "unat b < 256" using unsigned_less [of b, where ?'a = nat] by simp
  then have "(unat b + 256 * le_nat bs) div 256 = le_nat bs" by simp
  then show ?case using Cons by (cases k) (simp_all add: div_mult2_eq)
qed simp

lemma le_nat_take: "le_nat (take k bs) = le_nat bs mod 256 ^ k"
proof (induction bs arbitrary: k)
  case (Cons b bs)
  have "unat b < 256" using unsigned_less [of b, where ?'a = nat] by simp
  then show ?case using Cons by (cases k) (simp_all add: mod_mult2_eq)
qed simp

text \<open>
  The reference: a table is one little-endian number, and its entries are the digits of this number in
  base \<open>2 ^ bits\<close>.
\<close>

definition fat_ref :: "nat \<Rightarrow> bytes \<Rightarrow> nat \<Rightarrow> nat" where
  "fat_ref bits B e = le_nat B div 2 ^ (bits * e) mod 2 ^ bits"

lemma pow256: "(256 :: nat) ^ k = 2 ^ (8 * k)"
  by (simp add: power_mult)

lemma fat_ref_drop: "8 * k = bits * a \<Longrightarrow> fat_ref bits (drop k B) e = fat_ref bits B (a + e)"
  by (simp add: fat_ref_def le_nat_drop pow256 div_mult2_eq [symmetric] power_add distrib_left)

lemma fat_ref_take: "bits * Suc e \<le> 8 * m \<Longrightarrow> fat_ref bits (take m B) e = fat_ref bits B e"
  by (simp add: fat_ref_def le_nat_take pow256 take_bit_eq_mod [symmetric] drop_bit_eq_div [symmetric] drop_bit_take_bit)

lemma fat_ref_window:
  assumes "bits * Suc e \<le> 8 * m" "8 * k = bits * a" "take m b = take m (drop k B)"
  shows "fat_ref bits b e = fat_ref bits B (a + e)"
  using fat_ref_take [OF assms(1), of b] fat_ref_take [OF assms(1), of "drop k B"] fat_ref_drop [OF assms(2)] assms(3)
  by simp

section \<open>Decoding an entry\<close>

lemma unat_and_mask: "unat (x AND mask n :: u32) = unat x mod 2 ^ n"
  by (simp only: take_bit_eq_mask [symmetric] unsigned_take_bit_eq) (simp add: take_bit_eq_mod)

lemma unat_drop_bit: "unat (drop_bit n x :: u32) = unat x div 2 ^ n"
proof -
  have "take_bit 32 (unat x) = unat x"
    using unsigned_less [of x, where ?'a = nat] by (simp add: take_bit_nat_eq_self_iff)
  then show ?thesis by (simp only: unsigned_drop_bit_eq) (simp add: drop_bit_eq_div)
qed

lemma unat_push_bit: "unat x * 2 ^ n < 2 ^ 32 \<Longrightarrow> unat (push_bit n x :: u32) = unat x * 2 ^ n"
  by (simp only: unsigned_push_bit_eq) (simp add: push_bit_eq_mult take_bit_nat_eq_self_iff)

lemma unat_or_push:
  assumes "unat (a :: u32) < 2 ^ n" "unat b * 2 ^ n < 2 ^ 32"
  shows "unat (push_bit n b OR a) = unat b * 2 ^ n + unat a"
proof -
  have "\<not> bit (push_bit n (unat b)) k \<or> \<not> bit (unat a) k" for k
  proof (cases "n \<le> k")
    case True
    have "(2 :: nat) ^ n \<le> 2 ^ k" using True by (intro power_increasing) auto
    then have "unat a div 2 ^ k = 0" using assms(1) by (intro div_less) linarith
    then show ?thesis by (simp add: bit_iff_odd)
  qed (auto simp: bit_push_bit_iff)
  then have "push_bit n (unat b) OR unat a = push_bit n (unat b) + unat a" by (simp add: disjunctive_add)
  then show ?thesis using unat_push_bit [OF assms(2)] by (simp add: unsigned_or_eq push_bit_eq_mult)
qed

lemma fat_masks: "(0xff :: u32) = mask 8" "(0xfff :: u32) = mask 12" "(0xf :: u32) = mask 4"
  by (simp_all add: mask_eq_decr_exp)

lemma byte_bound: "unat (x :: byte) < 256"
  using unsigned_less [of x, where ?'a = nat] by simp

lemma unat_ucast_byte [simp]: "unat (ucast (x :: byte) :: u32) = unat x"
  using byte_bound [of x] by (simp add: unsigned_ucast_eq take_bit_nat_eq_self_iff)

lemma unat_be16: "unat (push_bit 8 (ucast (x :: byte)) OR ucast (y :: byte) :: u32) = 256 * unat x + unat y"
  using byte_bound [of x] byte_bound [of y] by (subst unat_or_push) simp_all

lemma le16_value: "unat (FAT2CPU16 (push_bit 8 (ucast (x :: byte)) OR ucast (y :: byte))) = unat x + 256 * unat y"
proof -
  let ?v = "push_bit 8 (ucast x) OR ucast y :: u32"
  have "unat (?v AND 0xff) = unat y" using byte_bound [of y] by (simp only: fat_masks unat_and_mask unat_be16) simp
  moreover have "drop_bit 8 (?v AND 0xff00) = drop_bit 8 ?v AND 0xff" by (simp add: drop_bit_and)
  then have "unat (drop_bit 8 (?v AND 0xff00)) = unat x"
    using byte_bound [of x] byte_bound [of y] by (simp only: fat_masks unat_and_mask unat_drop_bit unat_be16) simp
  ultimately show ?thesis unfolding FAT2CPU16_def using byte_bound [of x] byte_bound [of y]
    by (subst unat_or_push) simp_all
qed


lemma take_Cons_nth2: "k + 2 \<le> length b \<Longrightarrow> drop k b = b ! k # b ! (k + 1) # drop (k + 2) b"
  by (simp add: Cons_nth_drop_Suc)

lemma load16_value:
  assumes "k + 2 \<le> length b"
  shows "\<exists>v. load16 b k = Some v \<and> unat (FAT2CPU16 v) = le_nat (drop k b) mod 2 ^ 16"
proof -
  let ?v = "unat (b ! k) + 256 * unat (b ! (k + 1))"
  have "le_nat (drop k b) = ?v + 2 ^ 16 * le_nat (drop (k + 2) b)"
    using take_Cons_nth2 [OF assms] by simp
  moreover have "?v < 2 ^ 16" using byte_bound [of "b ! k"] byte_bound [of "b ! (k + 1)"] by simp
  ultimately have "le_nat (drop k b) mod 2 ^ 16 = ?v" by (simp only: mod_mult_self2 mod_less)
  then show ?thesis using assms by (simp add: load16_def le16_value)
qed

lemma FAT2CPU32_swaps: "FAT2CPU32 (of_be32 [a, b, c, d]) = of_be32 [d, c, b, a]"
proof (rule bit_word_eqI)
  fix n
  have m: "(0xff :: u32) = mask 8" "(0xff00 :: u32) = push_bit 8 (mask 8)" "(0xff0000 :: u32) = push_bit 16 (mask 8)"
    "(0xff000000 :: u32) = push_bit 24 (mask 8)" by (simp_all add: mask_eq_decr_exp)
  assume "n < LENGTH(32)"
  then have n: "n < 32" by simp
  then consider "n < 8" | "8 \<le> n" "n < 16" | "16 \<le> n" "n < 24" | "24 \<le> n" by linarith
  then show "bit (FAT2CPU32 (of_be32 [a, b, c, d])) n = bit (of_be32 [d, c, b, a]) n"
    unfolding FAT2CPU32_def of_be32_def m
    using n by cases (auto simp: bit_push_bit_iff bit_drop_bit_eq bit_and_iff bit_or_iff bit_mask_iff bit_ucast_iff bit_byte_beyond)
qed

lemma unat_of_be32: "unat (of_be32 [a, b, c, d]) = unat d + 256 * (unat c + 256 * (unat b + 256 * unat a))"
proof -
  note b = byte_bound [of a] byte_bound [of b] byte_bound [of c] byte_bound [of d]
  have "unat (push_bit 8 (ucast c) OR ucast d :: u32) = 256 * unat c + unat d" by (rule unat_be16)
  moreover from this have "unat (push_bit 16 (ucast b) OR push_bit 8 (ucast c) OR ucast d :: u32) = unat b * 2 ^ 16 + (256 * unat c + unat d)"
    using b by (subst unat_or_push) simp_all
  ultimately have "unat (push_bit 24 (ucast a) OR push_bit 16 (ucast b) OR push_bit 8 (ucast c) OR ucast d :: u32) =
      unat a * 2 ^ 24 + (unat b * 2 ^ 16 + (256 * unat c + unat d))"
    using b by (subst unat_or_push) simp_all
  then show ?thesis by (simp add: of_be32_def)
qed

lemma load32_value:
  assumes "k + 4 \<le> length b"
  shows "\<exists>v. load32 b k = Some v \<and> unat (FAT2CPU32 v) = le_nat (drop k b) mod 2 ^ 32"
proof -
  have d: "drop k b = [b ! k, b ! (k + 1), b ! (k + 2), b ! (k + 3)] @ drop (k + 4) b"
    using assms by (simp add: Cons_nth_drop_Suc numeral_eq_Suc)
  let ?v = "unat (of_be32 [b ! (k + 3), b ! (k + 2), b ! (k + 1), b ! k])"
  have "le_nat (drop k b) = ?v + 2 ^ 32 * le_nat (drop (k + 4) b)"
    unfolding unat_of_be32 by (subst d) simp
  moreover have "?v < 2 ^ 32" using unsigned_less [of "of_be32 [b ! (k + 3), b ! (k + 2), b ! (k + 1), b ! k]", where ?'a = nat] by simp
  ultimately have "le_nat (drop k b) mod 2 ^ 32 = ?v" by (simp only: mod_mult_self2 mod_less)
  moreover have "take 4 (drop k b) = [b ! k, b ! (k + 1), b ! (k + 2), b ! (k + 3)]" by (subst d) simp
  ultimately show ?thesis using assms by (simp add: load32_def FAT2CPU32_swaps del: of_be32_take)
qed

lemma word_at:
  assumes "2 * i + 2 \<le> length b"
  shows "\<exists>v. load16 b (2 * i) = Some v \<and> unat (FAT2CPU16 v) = le_nat b div 2 ^ (16 * i) mod 2 ^ 16"
proof -
  have "le_nat (drop (2 * i) b) = le_nat b div 2 ^ (16 * i)" by (simp add: le_nat_drop pow256)
  then show ?thesis using load16_value [OF assms] by auto
qed

lemma mod_div_pow2: "(X :: nat) mod 2 ^ (m + n) div 2 ^ m = X div 2 ^ m mod 2 ^ n"
  by (simp add: drop_bit_eq_div [symmetric] take_bit_eq_mod [symmetric] drop_bit_take_bit)

lemma fat12_arith:
  fixes X :: nat
  shows "X mod 2 ^ 16 mod 2 ^ 12 = X mod 2 ^ 12"
    "(X div 2 ^ 16 mod 2 ^ 16) mod 2 ^ 8 * 2 ^ 4 + X mod 2 ^ 16 div 2 ^ 12 mod 2 ^ 4 = X div 2 ^ 12 mod 2 ^ 12"
    "(X div 2 ^ 32 mod 2 ^ 16) mod 2 ^ 4 * 2 ^ 8 + X div 2 ^ 16 mod 2 ^ 16 div 2 ^ 8 mod 2 ^ 8 = X div 2 ^ 24 mod 2 ^ 12"
    "X div 2 ^ 32 mod 2 ^ 16 div 2 ^ 4 mod 2 ^ 12 = X div 2 ^ 36 mod 2 ^ 12"
proof -
  show "X mod 2 ^ 16 mod 2 ^ 12 = X mod 2 ^ 12" by (simp add: mod_mod_cancel)
  have d: "X mod 2 ^ 16 div 2 ^ 12 = X div 2 ^ 12 mod 2 ^ 4" for X :: nat
    using mod_div_pow2 [of X 12 4] by simp
  have e: "X mod 2 ^ 16 div 2 ^ 8 = X div 2 ^ 8 mod 2 ^ 8" for X :: nat
    using mod_div_pow2 [of X 8 8] by simp
  have g: "X mod 2 ^ 16 div 2 ^ 4 = X div 2 ^ 4 mod 2 ^ 12" for X :: nat
    using mod_div_pow2 [of X 4 12] by simp
  have h: "Y mod 2 ^ 12 = Y div 2 ^ 4 mod 2 ^ 8 * 2 ^ 4 + Y mod 2 ^ 4" "Y mod 2 ^ 12 = Y div 2 ^ 8 mod 2 ^ 4 * 2 ^ 8 + Y mod 2 ^ 8" for Y :: nat
    using mod_mult2_eq [of Y "2 ^ 4" "2 ^ 8"] mod_mult2_eq [of Y "2 ^ 8" "2 ^ 4"] by simp_all
  show "(X div 2 ^ 16 mod 2 ^ 16) mod 2 ^ 8 * 2 ^ 4 + X mod 2 ^ 16 div 2 ^ 12 mod 2 ^ 4 = X div 2 ^ 12 mod 2 ^ 12"
    unfolding d h(1) by (simp add: div_mult2_eq [symmetric] mod_mod_cancel)
  show "(X div 2 ^ 32 mod 2 ^ 16) mod 2 ^ 4 * 2 ^ 8 + X div 2 ^ 16 mod 2 ^ 16 div 2 ^ 8 mod 2 ^ 8 = X div 2 ^ 24 mod 2 ^ 12"
    unfolding e h(2) by (simp add: div_mult2_eq [symmetric] mod_mod_cancel)
  show "X div 2 ^ 32 mod 2 ^ 16 div 2 ^ 4 mod 2 ^ 12 = X div 2 ^ 36 mod 2 ^ 12"
    unfolding g by (simp add: div_mult2_eq [symmetric])
qed


lemma fat12_words:
  fixes u v :: u32
  shows "unat (v AND 0xfff) = unat v mod 2 ^ 12"
    "unat (push_bit 4 (u AND 0xff) OR drop_bit 12 (v AND 0xf000)) = unat u mod 2 ^ 8 * 2 ^ 4 + unat v div 2 ^ 12 mod 2 ^ 4"
    "unat (push_bit 8 (u AND 0xf) OR drop_bit 8 (v AND 0xff00)) = unat u mod 2 ^ 4 * 2 ^ 8 + unat v div 2 ^ 8 mod 2 ^ 8"
    "unat (drop_bit 4 (v AND 0xfff0)) = unat v div 2 ^ 4 mod 2 ^ 12"
proof -
  show "unat (v AND 0xfff) = unat v mod 2 ^ 12" by (simp only: fat_masks unat_and_mask)
  have d: "drop_bit 12 (v AND 0xf000) = drop_bit 12 v AND 0xf" "drop_bit 8 (v AND 0xff00) = drop_bit 8 v AND 0xff"
    "drop_bit 4 (v AND 0xfff0) = drop_bit 4 v AND 0xfff" by (simp_all add: drop_bit_and)
  have p: "unat (push_bit n (u AND mask a) OR (drop_bit k v AND mask n)) = unat u mod 2 ^ a * 2 ^ n + unat v div 2 ^ k mod 2 ^ n"
    if "a + n \<le> 32" for n a k
  proof -
    have "unat u mod 2 ^ a * 2 ^ n < 2 ^ a * 2 ^ n" by simp
    also have "\<dots> \<le> 2 ^ 32" unfolding power_add [symmetric] using that by (intro power_increasing) auto
    finally show ?thesis by (subst unat_or_push) (simp_all only: unat_and_mask unat_drop_bit mod_less_divisor zero_less_power zero_less_numeral)
  qed
  show "unat (push_bit 4 (u AND 0xff) OR drop_bit 12 (v AND 0xf000)) = unat u mod 2 ^ 8 * 2 ^ 4 + unat v div 2 ^ 12 mod 2 ^ 4"
    "unat (push_bit 8 (u AND 0xf) OR drop_bit 8 (v AND 0xff00)) = unat u mod 2 ^ 4 * 2 ^ 8 + unat v div 2 ^ 8 mod 2 ^ 8"
    unfolding d fat_masks by (rule p; simp)+
  show "unat (drop_bit 4 (v AND 0xfff0)) = unat v div 2 ^ 4 mod 2 ^ 12"
    unfolding d by (simp only: fat_masks unat_and_mask unat_drop_bit)
qed

text \<open>An entry at an offset of a buffer is the digit of the number in the buffer.\<close>

lemma fat12_entry_value:
  assumes "even (length b)" "12 * Suc (unat offset) \<le> 8 * length b" "length b < 2 ^ 30"
  shows "\<exists>v. fatbuf_entry 12 b offset = Some v \<and> unat v = fat_ref 12 b (unat offset)"
proof -
  define q r X where qr: "q = unat offset div 4" "r = unat offset mod 4" and X: "X = le_nat b div 2 ^ (48 * q)"
  have o: "unat offset = 4 * q + r" "r < 4" by (simp_all add: qr)
  have "unat offset * 3 < 2 ^ 32" using assms by simp
  then have off: "unat ((offset * 3) div 4) = unat offset * 3 div 4" by (simp add: unat_word_ariths unat_div)
  have rr: "offset AND 3 = of_nat r"
    using unat_and_mask [of offset 2] unat_of_nat_small [of "unat offset mod 4"]
    by (simp add: qr mask_eq_decr_exp word_unat_eq_iff)
  obtain m where m: "length b = 2 * m" using assms(1) by blast
  have w: "\<exists>v. load16 b (2 * (3 * q + i)) = Some v \<and> unat (FAT2CPU16 v) = X div 2 ^ (16 * i) mod 2 ^ 16"
    if "3 * q + i < m" for i
    using word_at [of "3 * q + i" b] that m by (simp add: X div_mult2_eq [symmetric] power_add distrib_left)
  have ref: "fat_ref 12 b (unat offset) = X div 2 ^ (12 * r) mod 2 ^ 12"
    by (simp add: fat_ref_def o(1) X div_mult2_eq [symmetric] power_add distrib_left)
  have bnd: "12 * (4 * q + r) + 12 \<le> 16 * m" using assms(2) o(1) m by simp
  consider "r = 0" | "r = 1" | "r = 2" | "r = 3" using o(2) by linarith
  then show ?thesis
  proof cases
    case 1
    then have "3 * q < m" using bnd 1 by presburger
    with w [of 0] obtain v where v: "load16 b (2 * (3 * q)) = Some v" "unat (FAT2CPU16 v) = X mod 2 ^ 16" by auto
    have "unat (FAT2CPU16 v AND 0xfff) = X mod 2 ^ 12" unfolding fat12_words v by (rule fat12_arith)
    then show ?thesis using v(1) unfolding ref by (simp add: fatbuf_entry_def 1 off rr o(1) Let_def)
  next
    case 2
    have "3 * q < m" "3 * q + 1 < m" using bnd 2 by presburger+
    with w [of 0] w [of 1] obtain v u where v: "load16 b (2 * (3 * q)) = Some v" "unat (FAT2CPU16 v) = X mod 2 ^ 16"
      and u: "load16 b (2 * (3 * q + 1)) = Some u" "unat (FAT2CPU16 u) = X div 2 ^ 16 mod 2 ^ 16" by auto
    have "unat (push_bit 4 (FAT2CPU16 u AND 0xff) OR drop_bit 12 (FAT2CPU16 v AND 0xf000)) = X div 2 ^ 12 mod 2 ^ 12"
      unfolding fat12_words v u by (rule fat12_arith)
    moreover have "(4 * q + 1) * 3 div 4 = 3 * q" by simp
    ultimately show ?thesis using v(1) u(1) unfolding ref by (simp add: fatbuf_entry_def 2 off rr o(1) Let_def)
  next
    case 3
    have "3 * q + 1 < m" "3 * q + 2 < m" using bnd 3 by presburger+
    with w [of 1] w [of 2] obtain v u where v: "load16 b (2 * (3 * q + 1)) = Some v" "unat (FAT2CPU16 v) = X div 2 ^ 16 mod 2 ^ 16"
      and u: "load16 b (2 * (3 * q + 2)) = Some u" "unat (FAT2CPU16 u) = X div 2 ^ 32 mod 2 ^ 16" by auto
    have "unat (push_bit 8 (FAT2CPU16 u AND 0xf) OR drop_bit 8 (FAT2CPU16 v AND 0xff00)) = X div 2 ^ 24 mod 2 ^ 12"
      unfolding fat12_words v u by (rule fat12_arith)
    moreover have "(4 * q + 2) * 3 div 4 = 3 * q + 1" by simp
    ultimately show ?thesis using v(1) u(1) unfolding ref by (simp add: fatbuf_entry_def 3 off rr o(1) Let_def)
  next
    case 4
    have "3 * q + 2 < m" using bnd 4 by presburger
    with w [of 2] obtain v where v: "load16 b (2 * (3 * q + 2)) = Some v" "unat (FAT2CPU16 v) = X div 2 ^ 32 mod 2 ^ 16" by auto
    have "unat (drop_bit 4 (FAT2CPU16 v AND 0xfff0)) = X div 2 ^ 36 mod 2 ^ 12"
      unfolding fat12_words v by (rule fat12_arith)
    moreover have "(4 * q + 3) * 3 div 4 = 3 * q + 2" by simp
    ultimately show ?thesis using v(1) unfolding ref by (simp add: fatbuf_entry_def 4 off rr o(1) Let_def)
  qed
qed

lemma fatbuf_entry_value:
  assumes "fsize \<in> {12, 16, 32}" "even (length b)" "fsize * Suc (unat offset) \<le> 8 * length b" "length b < 2 ^ 30"
  shows "\<exists>v. fatbuf_entry fsize b offset = Some v \<and> unat v = fat_ref fsize b (unat offset)"
proof -
  have "\<exists>v. fatbuf_entry 16 b offset = Some v \<and> unat v = fat_ref 16 b (unat offset)" if "fsize = 16"
    using word_at [of "unat offset" b] assms(3) that by (auto simp: fatbuf_entry_def fat_ref_def)
  moreover have "\<exists>v. fatbuf_entry 32 b offset = Some v \<and> unat v = fat_ref 32 b (unat offset)" if "fsize = 32"
  proof -
    have "le_nat (drop (4 * unat offset) b) = le_nat b div 2 ^ (32 * unat offset)" by (simp add: le_nat_drop pow256)
    then show ?thesis using load32_value [of "4 * unat offset" b] assms(3) that by (auto simp: fatbuf_entry_def fat_ref_def)
  qed
  ultimately show ?thesis using fat12_entry_value [of b offset] assms by auto
qed

section \<open>The volume\<close>

text \<open>
  Sectors \<open>V\<close> of a partition of \<open>N\<close> sectors of \<open>s\<close> bytes: reading inside the partition succeeds and delivers
  the sectors one after the other.
\<close>

locale volume =
  fixes f :: fat and V :: "nat \<Rightarrow> bytes" and N s :: nat
  assumes reads: "unat k + unat n \<le> N \<Longrightarrow> disk_read f k n = (uint n, concat (map V [unat k..<unat k + unat n]))"
    and sector_length: "length (V j) = s"
    and sector_size: "0 < s" "even s" "s < 2 ^ 16"
    and volume_size: "N < 2 ^ 31"

definition sectors :: "(nat \<Rightarrow> bytes) \<Rightarrow> nat \<Rightarrow> nat \<Rightarrow> bytes" where
  "sectors V k n = concat (map V [k..<k + n])"

lemma sectors_add: "sectors V k (m + n) = sectors V k m @ sectors V (k + m) n"
proof -
  have "[k..<k + (m + n)] = [k..<k + m] @ [k + m..<k + m + n]" using upt_add_eq_append [of k "k + m" n] by (simp add: add.assoc)
  then show ?thesis by (simp add: sectors_def add.assoc)
qed

lemma sectors_0 [simp]: "sectors V k 0 = []"
  by (simp add: sectors_def)

definition fat_table :: "(nat \<Rightarrow> bytes) \<Rightarrow> fsdata \<Rightarrow> bytes" where
  "fat_table V my = sectors V (unat (fat_sect my)) (unat (fatlength my))"

text \<open>
  The parameters describe a table inside the volume, and the cache holds the block of the table its number
  says.
\<close>

definition table_ok :: "fsdata \<Rightarrow> nat \<Rightarrow> nat \<Rightarrow> bool" where
  "table_ok my N s \<longleftrightarrow> fatsize my \<in> {12, 16, 32} \<and> unat (sect_size my) = s \<and>
     unat (fat_sect my) + unat (fatlength my) \<le> N \<and> length (fatbuf my) = 6 * s"

definition cache_ok :: "(nat \<Rightarrow> bytes) \<Rightarrow> nat \<Rightarrow> fsdata \<Rightarrow> bool" where
  "cache_ok V s my \<longleftrightarrow> fatbufnum my = -1 \<or>
     (let B = drop (6 * s * unat (fatbufnum my)) (fat_table V my) in take (length B) (fatbuf my) = take (6 * s) B)"

definition same_dev :: "fat \<Rightarrow> fat \<Rightarrow> bool" where
  "same_dev f' f \<longleftrightarrow> cur_dev f' = cur_dev f \<and> cur_part_info f' = cur_part_info f"

lemma disk_read_same_dev: "same_dev f' f \<Longrightarrow> disk_read f' = disk_read f"
  by (auto simp: fun_eq_iff disk_read_def same_dev_def split: option.splits)

definition same_params :: "fsdata \<Rightarrow> fsdata \<Rightarrow> bool" where
  "same_params my' my \<longleftrightarrow> my' = my\<lparr>fatbuf := fatbuf my', fatbufnum := fatbufnum my'\<rparr>"

lemma same_params_refl: "same_params my my"
  by (simp add: same_params_def)

lemma same_params_upd: "same_params (my\<lparr>fatbuf := b, fatbufnum := k\<rparr>) my"
  by (simp add: same_params_def)

lemma same_params_trans: "same_params a b \<Longrightarrow> same_params b c \<Longrightarrow> same_params a c"
  by (cases a; cases b; cases c; simp add: same_params_def)

lemma same_paramsD:
  assumes "same_params my' my"
  shows "fatsize my' = fatsize my" "fatlength my' = fatlength my" "fat_sect my' = fat_sect my" "rootdir_sect my' = rootdir_sect my"
    "sect_size my' = sect_size my" "clust_size my' = clust_size my" "data_begin my' = data_begin my"
  using assms by (cases my; cases my'; simp add: same_params_def)+

lemma unat_ucast_u16 [simp]: "unat (ucast (x :: u16) :: u32) = unat x"
proof -
  have "unat x < 2 ^ 16" using unsigned_less [of x, where ?'a = nat] by simp
  then have "take_bit 32 (unat x) = unat x" by (simp add: take_bit_nat_eq_self_iff)
  then show ?thesis by (simp add: unsigned_ucast_eq)
qed

lemma entries_per_buffer:
  assumes "fatsize my \<in> {12, 16, 32}" "even (unat (sect_size my))" "0 < unat (sect_size my)"
  shows "fatsize my * unat (FATnBUFSIZE my) = 8 * (6 * unat (sect_size my))" "0 < unat (FATnBUFSIZE my)"
proof -
  have "unat (sect_size my) < 2 ^ 16" using unsigned_less [of "sect_size my", where ?'a = nat] by simp
  then have u: "unat (FATBUFSIZE my) = 6 * unat (sect_size my)"
    by (simp add: FATBUFSIZE_def FATBUFBLOCKS_def unat_word_ariths)
  moreover obtain m where "unat (sect_size my) = 2 * m" using assms(2) by blast
  moreover have "unat (FATBUFSIZE my * 2) = 12 * unat (sect_size my)"
    using u \<open>unat (sect_size my) < 2 ^ 16\<close> by (simp add: unat_word_ariths)
  ultimately show "fatsize my * unat (FATnBUFSIZE my) = 8 * (6 * unat (sect_size my))" "0 < unat (FATnBUFSIZE my)"
    using assms by (auto simp: FATnBUFSIZE_def unat_div)
qed

context volume begin

lemma sectors_length [simp]: "length (sectors V k n) = n * s"
  by (induction n) (simp_all add: sectors_def sector_length)

lemma sectors_drop: "drop (k * s) (sectors V a n) = sectors V (a + k) (n - k)"
  using sectors_add [of V a k "n - k"] by (cases "k \<le> n") auto

lemma sectors_take: "take (k * s) (sectors V a n) = sectors V a (min k n)"
  using sectors_add [of V a k "n - k"] by (cases "k \<le> n") (auto simp: min_def)

lemma read_sectors: "a + n \<le> N \<Longrightarrow> disk_read f (of_nat a) (of_nat n) = (int n, sectors V a n)"
proof -
  assume a: "a + n \<le> N"
  then have "unat (of_nat a :: u32) = a" "unat (of_nat n :: u32) = n"
    using volume_size by (auto intro!: unat_of_nat_small)
  then show ?thesis using reads [of "of_nat a" "of_nat n"] a by (simp add: sectors_def uint_nat)
qed

lemma same_dev_volume: "same_dev f' f \<Longrightarrow> volume f' V N s"
  using reads sector_length sector_size volume_size by (simp add: volume_def disk_read_same_dev)

lemma fill_fatbuf_ok:
  assumes "table_ok my N s" "6 * unat bufnum < unat (fatlength my)"
  shows "\<exists>b. fill_fatbuf f bufnum my = Some (True, my\<lparr>fatbuf := b, fatbufnum := bufnum\<rparr>) \<and>
    length b = 6 * s \<and> cache_ok V s (my\<lparr>fatbuf := b, fatbufnum := bufnum\<rparr>)"
proof -
  define k F where k: "k = 6 * unat bufnum" and F: "F = unat (fatlength my)"
  have bounds: "unat (fat_sect my) + F \<le> N" "k < F" using assms by (auto simp: table_ok_def k F)
  define n where "n = min 6 (F - k)"
  have kw: "bufnum * FATBUFBLOCKS = of_nat k" by (simp add: k FATBUFBLOCKS_def)
  have "unat (of_nat k + 6 :: u32) = k + 6"
    using bounds volume_size by (simp add: unat_word_ariths unat_of_nat_small)
  then have c: "of_nat k + 6 > fatlength my \<longleftrightarrow> k + 6 > F" by (simp add: word_less_nat_alt F)
  have g: "(if bufnum * FATBUFBLOCKS + FATBUFBLOCKS > fatlength my then fatlength my - bufnum * FATBUFBLOCKS else FATBUFBLOCKS) = of_nat n"
    using bounds unfolding kw by (auto simp: c FATBUFBLOCKS_def n_def min_def F of_nat_diff)
  have st: "bufnum * FATBUFBLOCKS + ucast (fat_sect my) = of_nat (unat (fat_sect my) + k)"
    unfolding kw by (simp add: add.commute unsigned_of_nat)
  have r: "disk_read f (bufnum * FATBUFBLOCKS + ucast (fat_sect my)) (of_nat n) = (int n, sectors V (unat (fat_sect my) + k) n)"
    unfolding st using bounds by (intro read_sectors) (auto simp: n_def)
  define b where "b = overlay (fatbuf my) 0 (sectors V (unat (fat_sect my) + k) n)"
  have fit: "n * s \<le> length (fatbuf my)" using assms(1) by (simp add: table_ok_def n_def)
  have fill: "fill_fatbuf f bufnum my = Some (True, my\<lparr>fatbuf := b, fatbufnum := bufnum\<rparr>)"
    unfolding fill_fatbuf_def Let_def g r using fit by (simp add: into_def b_def)
  have B: "drop (6 * s * unat bufnum) (fat_table V my) = sectors V (unat (fat_sect my) + k) (F - k)"
    using sectors_drop [of k "unat (fat_sect my)" F] by (simp add: fat_table_def F k ac_simps)
  have "take (n * s) b = sectors V (unat (fat_sect my) + k) n" using fit by (simp add: b_def overlay_def)
  moreover have "take (6 * s) (sectors V (unat (fat_sect my) + k) (F - k)) = sectors V (unat (fat_sect my) + k) n"
    by (simp add: sectors_take n_def)
  moreover have "length b = 6 * s" using fit assms(1) by (simp add: b_def table_ok_def)
  then have "take ((F - k) * s) b = take (n * s) b" by (cases "F - k \<le> 6") (auto simp: n_def)
  ultimately have "cache_ok V s (my\<lparr>fatbuf := b, fatbufnum := bufnum\<rparr>)"
    using B by (simp add: cache_ok_def fat_table_def)
  then show ?thesis using fill fit assms(1) by (auto simp: b_def table_ok_def)
qed

lemma cached_entry:
  assumes "table_ok my N s" "cache_ok V s my" "fatbufnum my \<noteq> -1"
    "bits = fatsize my" "per = unat (FATnBUFSIZE my)" "unat off < per"
    "bits * Suc (per * unat (fatbufnum my) + unat off) \<le> 8 * length (fat_table V my)"
  shows "\<exists>v. fatbuf_entry bits (fatbuf my) off = Some v \<and> unat v = fat_ref bits (fat_table V my) (per * unat (fatbufnum my) + unat off)"
proof -
  define B where "B = drop (6 * s * unat (fatbufnum my)) (fat_table V my)"
  define m where "m = min (6 * s) (length B)"
  have sz: "unat (sect_size my) = s" "bits \<in> {12, 16, 32}" "length (fatbuf my) = 6 * s" using assms(1,4) by (auto simp: table_ok_def)
  have per: "bits * per = 8 * (6 * s)" using entries_per_buffer(1) [of my] sz sector_size assms(4,5) by simp
  have a: "bits * Suc (unat off) \<le> 8 * (6 * s)"
    unfolding per [symmetric] using assms(6) by (intro mult_le_mono2) simp
  moreover have split: "bits * Suc (per * k + unat off) = 8 * (6 * s * k) + bits * Suc (unat off)" for k
    using arg_cong [OF per, of "\<lambda>x. x * k"] by (simp add: distrib_left mult.assoc [symmetric])
  then have "bits * Suc (unat off) \<le> 8 * length B" using assms(7) by (simp add: B_def split)
  ultimately have m: "bits * Suc (unat off) \<le> 8 * m" by (simp add: m_def)
  have "take (length B) (fatbuf my) = take (6 * s) B" using assms(2,3) by (simp add: cache_ok_def B_def Let_def)
  then have "take m (take (length B) (fatbuf my)) = take m (take (6 * s) B)" by simp
  then have t: "take m (fatbuf my) = take m B" by (simp add: m_def)
  obtain v where "fatbuf_entry bits (fatbuf my) off = Some v" "unat v = fat_ref bits (fatbuf my) (unat off)"
    using fatbuf_entry_value [of bits "fatbuf my" off] sz sector_size a by auto
  moreover have "8 * (6 * s * unat (fatbufnum my)) = bits * (per * unat (fatbufnum my))"
    unfolding mult.assoc [of bits, symmetric] per by (simp add: mult.assoc)
  ultimately show ?thesis using fat_ref_window [OF m _ t [unfolded B_def]] by simp
qed

lemma get_fatent_ok:
  assumes "table_ok my N s" "cache_ok V s my" "fatsize my * Suc (unat entry) \<le> 8 * length (fat_table V my)"
  shows "\<exists>v my'. get_fatent f entry my = Some (v, my') \<and> unat v = fat_ref (fatsize my) (fat_table V my) (unat entry) \<and>
    same_params my' my \<and> table_ok my' N s \<and> cache_ok V s my'"
proof -
  define per where "per = unat (FATnBUFSIZE my)"
  define bn where "bn = entry div FATnBUFSIZE my"
  define off where "off = entry - bn * FATnBUFSIZE my"
  have sz: "unat (sect_size my) = s" "fatsize my \<in> {12, 16, 32}" using assms(1) by (auto simp: table_ok_def)
  have per: "fatsize my * per = 8 * (6 * s)" "0 < per"
    using entries_per_buffer [of my] sz sector_size by (simp_all add: per_def)
  have bnv: "unat bn = unat entry div per" by (simp add: bn_def per_def unat_div)
  have "off = entry mod FATnBUFSIZE my" by (simp add: off_def bn_def minus_div_mult_eq_mod)
  then have offv: "unat off = unat entry mod per" by (simp add: per_def unat_mod)
  have e: "unat entry = per * unat bn + unat off" by (simp add: bnv offv)
  have "8 * (6 * s) * unat bn = fatsize my * (per * unat bn)" 
    unfolding mult.assoc [of "fatsize my", symmetric] per ..
  also have "\<dots> < fatsize my * Suc (unat entry)" using sz e by (intro mult_strict_left_mono) auto
  also have "\<dots> \<le> 8 * (unat (fatlength my) * s)" using assms(3) by (simp add: fat_table_def)
  finally have "8 * (6 * s) * unat bn < 8 * (unat (fatlength my) * s)" .
  then have small: "6 * unat bn < unat (fatlength my)" by simp
  have nb: "bn \<noteq> -1"
  proof
    assume "bn = -1"
    then have "unat bn = 2 ^ 32 - 1" by (simp add: unsigned_minus_1_eq_mask mask_eq_exp_minus_1)
    then show False using small unsigned_less [of "fatlength my", where ?'a = nat] by simp
  qed
  have p: "fatsize my = 32 \<or> fatsize my = 16 \<or> fatsize my = 12" "sect_size my \<noteq> 0" using sz sector_size by auto
  obtain my' where my': "(if bn \<noteq> fatbufnum my then fill_fatbuf f bn my else Some (True, my)) = Some (True, my')"
    "same_params my' my" "table_ok my' N s" "cache_ok V s my'" "fatbufnum my' = bn"
  proof (cases "bn = fatbufnum my")
    case True
    show thesis by (rule that [of my]) (simp_all only: True assms(1,2) same_params_refl if_False not_True_eq_False simp_thms)
  next
    case False
    from fill_fatbuf_ok [OF assms(1) small] obtain b where "fill_fatbuf f bn my = Some (True, my\<lparr>fatbuf := b, fatbufnum := bn\<rparr>)"
      "length b = 6 * s" "cache_ok V s (my\<lparr>fatbuf := b, fatbufnum := bn\<rparr>)" by blast
    then show thesis using that [of "my\<lparr>fatbuf := b, fatbufnum := bn\<rparr>"] assms(1) False same_params_upd
      by (simp add: table_ok_def)
  qed
  have same: "fatsize my' = fatsize my" "FATnBUFSIZE my' = FATnBUFSIZE my" "fat_table V my' = fat_table V my"
    using same_paramsD [OF my'(2)] by (simp_all add: FATnBUFSIZE_def FATBUFSIZE_def fat_table_def)
  have ent: "per * unat (fatbufnum my') + unat off = unat entry" using e my'(5) by simp
  have "\<exists>v. fatbuf_entry (fatsize my) (fatbuf my') off = Some v \<and> unat v = fat_ref (fatsize my) (fat_table V my) (unat entry)"
    using cached_entry [OF my'(3,4), of "fatsize my" per off, unfolded ent same] nb my'(5) assms(3) per(2)
    by (simp add: per_def offv)
  then obtain v where v: "fatbuf_entry (fatsize my') (fatbuf my') off = Some v" "unat v = fat_ref (fatsize my) (fat_table V my) (unat entry)"
    unfolding same by blast
  have "get_fatent f entry my = Some (v, my')"
    unfolding get_fatent_def Let_def bn_def [symmetric] off_def [symmetric] my'(1) using p v(1) by auto
  then show ?thesis using v(2) my'(2-4) by blast
qed

end

section \<open>A disk image\<close>

text \<open>
  A device that delivers the sectors of an image, and a small FAT16 volume on it: boot sector, table, root
  directory and one cluster per sector from sector 3 on. The file \<open>HELLO.TXT\<close> has 600 bytes in the
  clusters 2 and 4.
\<close>

definition image_dev :: "(nat \<Rightarrow> bytes) \<Rightarrow> nat \<Rightarrow> block_dev_desc" where
  "image_dev V N = \<lparr>if_type = IF_TYPE_USB, dev = 0, part_type = 0, dev_type = 0, lba = of_nat N, blksz = 512,
     block_read = (\<lambda>k n. if unat k + unat n \<le> N then (n, concat (map V [unat k..<unat k + unat n])) else (0, []))\<rparr>"

definition image_fat :: "(nat \<Rightarrow> bytes) \<Rightarrow> nat \<Rightarrow> fat" where
  "image_fat V N = \<lparr>cur_dev = Some (image_dev V N), cur_part_info = whole_disk (image_dev V N),
     vfat_block = replicate MAX_CLUSTSIZE 0, dent_block = replicate MAX_CLUSTSIZE 0, root_block = replicate MAX_CLUSTSIZE 0,
     fmem = (\<lambda>_. 0), memalign = (\<lambda>n. Some (replicate (unat n) 0)), ls_out = []\<rparr>"

lemma sint_of_nat_small: "m < 2 ^ 31 \<Longrightarrow> sint (of_nat m :: u32) = int m"
  by (simp add: signed_of_nat signed_take_bit_int_eq_self_iff)

lemma sint_small: "unat n < 2 ^ 31 \<Longrightarrow> sint (n :: u32) = uint n"
  using sint_of_nat_small [of "unat n"] by simp

lemma image_volume:
  assumes "\<And>k. length (V k) = 512" "N < 2 ^ 31"
  shows "volume (image_fat V N) V N 512"
proof
  fix k n :: u32
  assume "unat k + unat n \<le> N"
  moreover from this assms(2) have "sint n = uint n" by (intro sint_small) simp
  ultimately show "disk_read (image_fat V N) k n = (uint n, concat (map V [unat k..<unat k + unat n]))"
    by (simp add: disk_read_def image_fat_def image_dev_def whole_disk_def)
qed (use assms in auto)

definition pad512 :: "bytes \<Rightarrow> bytes" where
  "pad512 b = b @ replicate (512 - length b) 0"

definition demo_bootsect :: bytes where
  "demo_bootsect = [0xeb, 0x3c, 0x90] @ str ''MSDOS5.0'' @ [0, 2, 1, 1, 0, 1, 16, 0, 16, 0, 0xf8, 1, 0] @ replicate 30 0 @ str ''FAT16   '' @
     replicate 448 0 @ [0x55, 0xaa]"

definition demo_dirent :: "string \<Rightarrow> u16 \<Rightarrow> bytes \<Rightarrow> bytes" where
  "demo_dirent nm cl sz = str nm @ [0x20] @ replicate 14 0 @ [ucast cl, ucast (drop_bit 8 cl)] @ sz"

definition demo_vol :: "nat \<Rightarrow> bytes" where
  "demo_vol k = (if k = 0 then demo_bootsect
     else if k = 1 then pad512 [0xf8, 0xff, 0xff, 0xff, 4, 0, 0, 0, 0xff, 0xff]
     else if k = 2 then pad512 (demo_dirent ''README  TXT'' 0 [0, 0, 0, 0] @ demo_dirent ''HELLO   TXT'' 2 [0x58, 2, 0, 0])
     else replicate 512 (of_nat k))"

interpretation demo: volume "image_fat demo_vol 16" demo_vol 16 512
  by (rule image_volume) (simp_all add: demo_vol_def demo_bootsect_def demo_dirent_def pad512_def str_def)

section \<open>Properties\<close>

text \<open>
  C18: \<open>get_fatent\<close> refines reading the table as a sequence of 12-, 16- or 32-bit little-endian digits. For
  every entry inside the table and every state of the cache it returns this digit of the table on the
  disk, and it leaves the cache consistent and the other parameters unchanged.
\<close>

theorem get_fatent_refines_table:
  assumes "volume f V N s" "table_ok my N s" "cache_ok V s my"
    "fatsize my * Suc (unat entry) \<le> 8 * length (fat_table V my)"
  shows "\<exists>v my'. get_fatent f entry my = Some (v, my') \<and> unat v = fat_ref (fatsize my) (fat_table V my) (unat entry) \<and>
    same_params my' my \<and> table_ok my' N s \<and> cache_ok V s my'"
  using assms by (rule volume.get_fatent_ok)

definition demo_params :: fsdata where
  "demo_params = \<lparr>fatbuf = replicate 3072 0, fatsize = 16, fatlength = 1, fat_sect = 1, rootdir_sect = 2, sect_size = 512,
     clust_size = 1, data_begin = 1, fatbufnum = -1\<rparr>"

lemma demo_params_ok: "table_ok demo_params 16 512" "cache_ok demo_vol 512 demo_params"
  by (simp_all add: table_ok_def cache_ok_def demo_params_def)

theorem get_fatent_refines_table_witness:
  "\<exists>v my'. get_fatent (image_fat demo_vol 16) 2 demo_params = Some (v, my') \<and>
    unat v = fat_ref 16 (fat_table demo_vol demo_params) 2 \<and> cache_ok demo_vol 512 my'"
  using get_fatent_refines_table [OF demo.volume_axioms demo_params_ok, of 2]
  by (auto simp: demo_params_def fat_table_def)

end
