(* ===== verification/FatFile.thy ===== *)
theory FatFile
  imports FatTable
begin

text \<open>
  Files: \<open>get_cluster\<close> and \<open>get_contents\<close> compared with the bytes of a cluster chain, for every start
  position, length and alignment of the buffer. The lemmas about reading clusters are proved in the locale
  \<open>volume\<close>.
\<close>

section \<open>Clusters\<close>

definition stored :: "fat \<Rightarrow> u32 \<Rightarrow> bytes \<Rightarrow> fat" where
  "stored f a d = f\<lparr>fmem := st_bytes (fmem f) a d\<rparr>"

lemma stored_Nil [simp]: "stored f a [] = f"
  by (simp add: stored_def)

lemma stored_stored: "stored (stored f a x) (a + of_nat (length x)) y = stored f a (x @ y)"
  by (simp add: stored_def st_bytes_append)

lemma stored_same_dev [simp]: "same_dev (stored f a d) f' \<longleftrightarrow> same_dev f f'"
  by (simp add: stored_def same_dev_def)

lemma same_dev_refl [simp]: "same_dev f f"
  by (simp add: same_dev_def)

lemma same_dev_trans: "same_dev a b \<Longrightarrow> same_dev b c \<Longrightarrow> same_dev a c"
  by (simp add: same_dev_def)

lemma put_buf_Mem [simp]: "put_buf (Mem a) off d f = Some (stored f (a + off) d)"
  by (simp add: put_buf_def stored_def)

context volume begin

lemma read_same: "same_dev g f \<Longrightarrow> a + n \<le> N \<Longrightarrow> disk_read g (of_nat a) (of_nat n) = (int n, sectors V a n)"
  by (simp add: disk_read_same_dev read_sectors)

lemma sectors_1 [simp]: "sectors V k (Suc 0) = V k"
  by (simp add: sectors_def)

lemma take_sectors:
  assumes "sz \<le> m * s" "q = sz div s" "r = sz mod s"
  shows "take sz (sectors V k m) = sectors V k q @ (if r = 0 then [] else take r (V (k + q)))" "r \<noteq> 0 \<longrightarrow> q < m" "q \<le> m"
proof -
  have sz: "sz = q * s + r" "r < s" using assms sector_size by simp_all
  show q: "q \<le> m" using assms sector_size by (simp add: div_le_mono less_mult_imp_div_less) (metis div_le_mono nonzero_mult_div_cancel_right not_gr0)
  show r: "r \<noteq> 0 \<longrightarrow> q < m" using sz assms(1) q by (cases "q = m") auto
  show "take sz (sectors V k m) = sectors V k q @ (if r = 0 then [] else take r (V (k + q)))"
  proof (cases "r = 0")
    case True
    then show ?thesis using sz(1) q sectors_take [of q k m] by (simp add: min_def)
  next
    case False
    then have m: "m = q + (1 + (m - q - 1))" using r by simp
    have "sectors V k m = sectors V k q @ V (k + q) @ sectors V (k + q + 1) (m - q - 1)"
      by (subst m) (simp only: sectors_add sectors_1 One_nat_def)
    then show ?thesis using False sz by (simp add: sector_length)
  qed
qed

lemma sector_loop_ok:
  assumes "same_dev g f" "unat (sect_size my) = s" "sz \<le> m * s" "k + m \<le> N"
  shows "sector_loop g my (of_nat k) (Mem a) off sz =
    Some (0, stored g (a + off) (sectors V k (sz div s)), of_nat (k + sz div s), off + of_nat (sz div s * s), sz mod s)"
  using assms
proof (induction sz arbitrary: g k off m rule: less_induct)
  case (less sz)
  show ?case
  proof (cases "s \<le> sz")
    case False
    then show ?thesis using less.prems sector_size by (subst sector_loop.simps) (auto simp: unat_eq_zero)
  next
    case True
    then have m: "0 < m" using less.prems(3) sector_size by (cases m) auto
    have d: "sz div s = Suc ((sz - s) div s)" "sz mod s = (sz - s) mod s" using True sector_size by (simp_all add: le_div_geq le_mod_geq)
    have "disk_read g (of_nat k) 1 = (1, V k)" using read_same [OF less.prems(1), of k 1] less.prems(4) m by simp
    moreover have "sector_loop (stored g (a + off) (V k)) my (of_nat (k + 1)) (Mem a) (off + of_nat s) (sz - s) =
      Some (0, stored (stored g (a + off) (V k)) (a + (off + of_nat s)) (sectors V (k + 1) ((sz - s) div s)), of_nat (k + 1 + (sz - s) div s),
        off + of_nat s + of_nat ((sz - s) div s * s), (sz - s) mod s)"
      using less.prems m True sector_size by (intro less.IH [where m = "m - 1"]) (auto simp: algebra_simps diff_le_mono)
    moreover have "stored (stored g (a + off) (V k)) (a + (off + of_nat s)) x = stored g (a + off) (V k @ x)" for x
      using stored_stored [of g "a + off" "V k"] by (simp add: sector_length add.assoc)
    moreover have "sectors V k (Suc n) = V k @ sectors V (k + 1) n" for n
      using sectors_add [of V k 1 n] by simp
    moreover have "ucast (sect_size my) = (of_nat s :: u32)" using less.prems(2) by (simp flip: less.prems(2))
    moreover have "sect_size my \<noteq> 0" using less.prems(2) sector_size by auto
    ultimately show ?thesis using less.prems(2) True
      by (subst sector_loop.simps) (simp add: d sector_length add.assoc add.commute)
  qed
qed

end

definition blocks_ok :: "fat \<Rightarrow> bool" where
  "blocks_ok f \<longleftrightarrow> length (vfat_block f) = MAX_CLUSTSIZE \<and> length (dent_block f) = MAX_CLUSTSIZE \<and> length (root_block f) = MAX_CLUSTSIZE"

lemma into_append: "into b k (x @ y) = Option.bind (into b k x) (\<lambda>b'. into b' (k + length x) y)"
  by (auto simp: into_def overlay_append add.assoc)

lemma put_buf_append:
  assumes "put_buf b off (x @ y) g = Some h" "blocks_ok g"
  shows "\<exists>g1. put_buf b off x g = Some g1 \<and> put_buf b (off + of_nat (length x)) y g1 = Some h"
proof -
  have "unat (off + of_nat (length x)) = unat off + length x" if "unat off + length x \<le> MAX_CLUSTSIZE"
    using that by (simp add: MAX_CLUSTSIZE_def unat_word_ariths unat_of_nat_small)
  then show ?thesis using assms
    by (cases b)
      (auto simp: put_buf_def into_append st_bytes_append bind_Some_iff add.assoc blocks_ok_def into_def overlay_append split: if_splits)
qed

lemma put_buf_keeps:
  assumes "put_buf b off x g = Some h"
  shows "same_dev h g" "blocks_ok g \<Longrightarrow> blocks_ok h"
  using assms by (cases b; force simp: put_buf_def same_dev_def blocks_ok_def into_def split: if_splits)+

context volume begin

lemma sect_word: "unat (sect_size my) = s \<Longrightarrow> ucast (sect_size my) = (of_nat s :: u32)"
  by (metis of_nat_unat)

text \<open>Whole sectors, in one piece or one by one.\<close>

lemma whole_sectors_ok:
  assumes "same_dev g f" "unat (sect_size my) = s" "unat sz \<le> m * s" "k + m \<le> N" "q = unat sz div s"
    "put_buf b off (sectors V k q) g = Some h" "(\<exists>a. b = Mem a) \<or> \<not> misaligned b off"
  shows "whole_sectors my (of_nat k) b off sz g = Some (0, h, of_nat (k + q), off + of_nat (q * s), unat sz mod s)"
proof (cases "misaligned b off")
  case True
  then obtain a where "b = Mem a" using assms(7) by auto
  then show ?thesis using sector_loop_ok [OF assms(1,2,3,4), of a off] assms(5,6) True by (auto simp: whole_sectors_def)
next
  case False
  have "unat (sz div ucast (sect_size my)) = q" by (simp add: unat_div assms(2,5))
  then have i: "sz div ucast (sect_size my) = of_nat q" by (metis of_nat_unat ucast_id)
  have le: "q * s \<le> unat sz" "q \<le> m" using take_sectors(3) [OF assms(3,5) refl] by (simp_all add: assms(5))
  then have "unat (of_nat (q * s) :: u32) = q * s"
    using unsigned_less [of sz, where ?'a = nat] by (simp only: unat_of_nat) (simp add: take_bit_nat_eq_self_iff)
  then have "unat (sz - of_nat (q * s)) = unat sz mod s" using le
    by (simp add: unat_sub word_le_nat_alt assms(5) minus_div_mult_eq_mod)
  then show ?thesis using False read_same [OF assms(1), of k q] assms(4,6) le(2) unfolding whole_sectors_def i Let_def
    by (simp add: sect_word [OF assms(2)])
qed

text \<open>Reading the first \<open>sz\<close> bytes of the sectors from the start of a cluster on.\<close>

lemma get_cluster_ok:
  assumes "same_dev g f" "unat (sect_size my) = s" "unat sz \<le> m * s" "unat (cluster_sect my c) + m \<le> N" "blocks_ok g"
    "put_buf b off (take (unat sz) (sectors V (unat (cluster_sect my c)) m)) g = Some h" "(\<exists>a. b = Mem a) \<or> \<not> misaligned b off"
  shows "get_cluster my c b off sz g = Some (0, h)"
proof -
  define k q r where kqr: "k = unat (cluster_sect my c)" "q = unat sz div s" "r = unat sz mod s"
  have kw: "cluster_sect my c = of_nat k" by (simp add: kqr)
  note t = take_sectors(1) [OF assms(3) kqr(2,3), of k] take_sectors(2,3) [OF assms(3) kqr(2,3)]
  have nz: "sect_size my \<noteq> 0" using assms(2) sector_size by auto
  obtain g1 where g1: "put_buf b off (sectors V k q) g = Some g1"
    "put_buf b (off + of_nat (q * s)) (if r = 0 then [] else take r (V (k + q))) g1 = Some h"
    using put_buf_append [OF assms(6) [folded kqr(1), unfolded t(1)] assms(5)] by auto
  have w: "whole_sectors my (cluster_sect my c) b off sz g = Some (0, g1, of_nat (k + q), off + of_nat (q * s), r)"
    unfolding kw kqr(3) using assms(4) kqr(1) by (intro whole_sectors_ok [OF assms(1,2,3) _ kqr(2) g1(1) assms(7)]) simp
  show ?thesis
  proof (cases "r = 0")
    case True
    have "put_buf b o' [] g' = Some g'' \<Longrightarrow> g'' = g'" for o' g' g''
      by (cases b) (auto simp: put_buf_def into_def split: if_splits)
    then have "h = g1" using g1(2) True by simp
    then show ?thesis using True nz by (simp add: get_cluster_def w)
  next
    case False
    then have "disk_read g1 (of_nat (k + q)) 1 = (1, V (k + q))"
      using read_same [of g1 "k + q" 1] same_dev_trans [OF put_buf_keeps(1) [OF g1(1)] assms(1)] assms(4) t(2) by (simp add: kqr)
    then show ?thesis using False nz g1(2) by (simp add: get_cluster_def w sector_length assms(2))
  qed
qed

lemma get_cluster_Mem:
  assumes "same_dev g f" "unat (sect_size my) = s" "unat sz \<le> m * s" "unat (cluster_sect my c) + m \<le> N" "blocks_ok g"
  shows "get_cluster my c (Mem a) off sz g =
    Some (0, stored g (a + off) (take (unat sz) (sectors V (unat (cluster_sect my c)) m)))"
  using assms by (intro get_cluster_ok) auto

end

section \<open>Cluster chains\<close>

text \<open>
  A chain of clusters: all of them lie inside the volume and inside the table, and the entry of each
  in the table on the disk is the next one.
\<close>

definition cluster_ok :: "(nat \<Rightarrow> bytes) \<Rightarrow> fsdata \<Rightarrow> nat \<Rightarrow> u32 \<Rightarrow> bool" where
  "cluster_ok V my N c \<longleftrightarrow> \<not> CHECK_CLUST c (fatsize my) \<and> unat (cluster_sect my c) + unat (clust_size my) \<le> N \<and>
     fatsize my * Suc (unat c) \<le> 8 * length (fat_table V my)"

fun fat_chain :: "(nat \<Rightarrow> bytes) \<Rightarrow> fsdata \<Rightarrow> nat \<Rightarrow> u32 list \<Rightarrow> bool" where
  "fat_chain V my N [] \<longleftrightarrow> True"
| "fat_chain V my N [c] \<longleftrightarrow> cluster_ok V my N c"
| "fat_chain V my N (c # c' # cs) \<longleftrightarrow> cluster_ok V my N c \<and> unat c' = fat_ref (fatsize my) (fat_table V my) (unat c) \<and>
     fat_chain V my N (c' # cs)"

definition cluster_data :: "(nat \<Rightarrow> bytes) \<Rightarrow> fsdata \<Rightarrow> u32 \<Rightarrow> bytes" where
  "cluster_data V my c = sectors V (unat (cluster_sect my c)) (unat (clust_size my))"

definition chain_data :: "(nat \<Rightarrow> bytes) \<Rightarrow> fsdata \<Rightarrow> u32 list \<Rightarrow> bytes" where
  "chain_data V my cs = concat (map (cluster_data V my) cs)"

lemma chain_data_simps [simp]:
  "chain_data V my [] = []" "chain_data V my (c # cs) = cluster_data V my c @ chain_data V my cs"
  "chain_data V my (cs @ ds) = chain_data V my cs @ chain_data V my ds"
  by (simp_all add: chain_data_def)

fun consec :: "u32 \<Rightarrow> u32 list \<Rightarrow> bool" where
  "consec e [] \<longleftrightarrow> True"
| "consec e (x # xs) \<longleftrightarrow> x = e + 1 \<and> consec x xs"

lemma fat_chain_Cons: "fat_chain V my N (c # cs) \<Longrightarrow> cluster_ok V my N c \<and> fat_chain V my N cs"
  by (cases cs) auto

lemma fat_chain_append: "fat_chain V my N (cs @ ds) \<Longrightarrow> fat_chain V my N cs \<and> fat_chain V my N ds"
  by (induction V my N cs rule: fat_chain.induct) (auto dest: fat_chain_Cons)

lemma fat_chain_link:
  "fat_chain V my N (cs @ c # c' # ds) \<Longrightarrow> cluster_ok V my N c \<and> unat c' = fat_ref (fatsize my) (fat_table V my) (unat c)"
  using fat_chain_append [of V my N cs "c # c' # ds"] by simp

lemma same_params_data:
  assumes "same_params my' my"
  shows "cluster_sect my' = cluster_sect my" "cluster_data V my' = cluster_data V my" "chain_data V my' = chain_data V my"
    "fat_table V my' = fat_table V my" "cluster_ok V my' N = cluster_ok V my N" "bytesperclust my' = bytesperclust my"
    "fat_chain V my' N cs = fat_chain V my N cs"
proof -
  show t: "cluster_sect my' = cluster_sect my" "cluster_data V my' = cluster_data V my" "fat_table V my' = fat_table V my"
    "cluster_ok V my' N = cluster_ok V my N" "bytesperclust my' = bytesperclust my"
    using same_paramsD [OF assms]
    by (auto simp: fun_eq_iff cluster_sect_def cluster_data_def fat_table_def cluster_ok_def bytesperclust_def)
  show "chain_data V my' = chain_data V my" by (simp add: fun_eq_iff chain_data_def t)
  show "fat_chain V my' N cs = fat_chain V my N cs"
    using same_paramsD [OF assms] t by (induction V my N cs rule: fat_chain.induct) auto
qed

lemma bytesperclust_unat: "unat (bytesperclust my) = unat (clust_size my) * unat (sect_size my)"
  if "unat (clust_size my) * unat (sect_size my) < 2 ^ 32"
  using that by (simp add: bytesperclust_def unat_word_ariths)

text \<open>What a read relies on: the parameters and the cache are in order and a cluster fits into the static blocks.\<close>

definition fs_ok :: "(nat \<Rightarrow> bytes) \<Rightarrow> nat \<Rightarrow> nat \<Rightarrow> fsdata \<Rightarrow> bool" where
  "fs_ok V N s my \<longleftrightarrow> table_ok my N s \<and> cache_ok V s my \<and> 0 < unat (clust_size my) \<and> unat (clust_size my) * s \<le> MAX_CLUSTSIZE"

context volume begin

lemma get_fatent_next:
  assumes "same_dev g f" "fs_ok V N s my" "cluster_ok V my N c"
  shows "\<exists>v my'. get_fatent g c my = Some (v, my') \<and> unat v = fat_ref (fatsize my) (fat_table V my) (unat c) \<and>
    same_params my' my \<and> fs_ok V N s my'"
proof -
  obtain v my' where v: "get_fatent g c my = Some (v, my')" "unat v = fat_ref (fatsize my) (fat_table V my) (unat c)"
    "same_params my' my" "table_ok my' N s" "cache_ok V s my'"
    using volume.get_fatent_ok [OF same_dev_volume [OF assms(1)]] assms(2,3) unfolding fs_ok_def cluster_ok_def by blast
  then show ?thesis using assms(2) same_paramsD(6) [OF v(3)] by (auto simp: fs_ok_def)
qed

lemma chain_next:
  assumes "same_dev g f" "fs_ok V N s my" "fat_chain V my N (cs @ c # c' # ds)"
  shows "\<exists>my'. get_fatent g c my = Some (c', my') \<and> same_params my' my \<and> fs_ok V N s my'"
  using get_fatent_next [OF assms(1,2)] fat_chain_link [OF assms(3)] by (metis word_unat_eq_iff)

lemma fs_ok_sizes:
  assumes "fs_ok V N s my"
  shows "unat (bytesperclust my) = unat (clust_size my) * s" "0 < unat (bytesperclust my)" "unat (bytesperclust my) \<le> MAX_CLUSTSIZE"
    "unat (sect_size my) = s"
  using assms bytesperclust_unat [of my] sector_size by (auto simp: fs_ok_def table_ok_def MAX_CLUSTSIZE_def)

lemma chain_data_length: "length (chain_data V my cs) = length cs * (unat (clust_size my) * s)"
  by (induction cs) (simp_all add: cluster_data_def)

lemma run_data:
  assumes "consec e xs" "fat_chain V my N (e # xs)"
  shows "chain_data V my (e # xs) = sectors V (unat (cluster_sect my e)) (length (e # xs) * unat (clust_size my)) \<and>
    unat (cluster_sect my e) + length (e # xs) * unat (clust_size my) \<le> N"
  using assms
proof (induction xs arbitrary: e)
  case Nil
  then show ?case by (simp add: cluster_data_def cluster_ok_def)
next
  case (Cons x xs)
  then have c: "cluster_ok V my N e" "cluster_ok V my N x" "x = e + 1" by (auto dest: fat_chain_Cons)
  then have "0 < e" "0 < x" by (auto simp: cluster_ok_def CHECK_CLUST_def word_gt_0)
  then have "cluster_sect my x = cluster_sect my e + ucast (clust_size my)"
    by (simp add: cluster_sect_def c(3) distrib_right add.assoc)
  then have p: "unat (cluster_sect my x) = unat (cluster_sect my e) + unat (clust_size my)"
    using c(1) volume_size by (simp add: cluster_ok_def unat_word_ariths)
  show ?case using Cons.IH [of x] Cons.prems sectors_add [of V "unat (cluster_sect my e)" "unat (clust_size my)" "length (x # xs) * unat (clust_size my)"]
    by (auto simp: p [unfolded c(3)] cluster_data_def add.assoc)
qed

end

context volume begin

text \<open>The search for consecutive clusters stops at the end of the file or at the first jump of the chain.\<close>

lemma run_clusters_ok:
  assumes "same_dev g f" "fs_ok V N s my" "fat_chain V my N (e # rest)"
    "unat filesize \<le> unat actsize + length rest * unat (bytesperclust my)" "unat filesize < 2 ^ 31"
  shows "\<exists>r my' k. run_clusters g filesize actsize e my = Some (r, my') \<and> same_params my' my \<and> fs_ok V N s my' \<and>
    k \<le> length rest \<and> consec e (take k rest) \<and>
    (r = Enough \<and> unat filesize \<le> unat actsize + k * unat (bytesperclust my) \<or>
     k < length rest \<and> r = Getit (actsize + of_nat (k * unat (bytesperclust my))) (last (e # take k rest)) \<and>
     unat actsize + k * unat (bytesperclust my) < unat filesize)"
  using assms(2-4)
proof (induction rest arbitrary: e actsize my)
  case Nil
  then show ?case
    by (subst run_clusters.simps, intro exI [of _ Enough] exI [of _ my] exI [of _ 0]) (simp add: same_params_refl word_less_nat_alt)
next
  case (Cons x rest)
  show ?case
  proof (cases "actsize < filesize")
    case False
    then show ?thesis using Cons.prems(1)
      by (subst run_clusters.simps, intro exI [of _ Enough] exI [of _ my] exI [of _ 0]) (simp add: same_params_refl word_less_nat_alt)
  next
    case True
    obtain my1 where my1: "get_fatent g e my = Some (x, my1)" "same_params my1 my" "fs_ok V N s my1"
      using chain_next [OF assms(1) Cons.prems(1), of "[]" e x rest] Cons.prems(2) by auto
    show ?thesis
    proof (cases "x = e + 1")
      case False
      then have "x - 1 \<noteq> e" by (auto simp: algebra_simps)
      then have "run_clusters g filesize actsize e my = Some (Getit actsize e, my1)"
        using True my1(1) by (subst run_clusters.simps) simp
      then show ?thesis using my1(2,3) True
        by (intro exI [of _ "Getit actsize e"] exI [of _ my1] exI [of _ 0]) (simp add: word_less_nat_alt)
    next
      case step: True
      have x: "\<not> CHECK_CLUST x (fatsize my1)" and ch: "fat_chain V my1 N (x # rest)"
        using fat_chain_Cons [of V my N x rest] Cons.prems(2) same_paramsD [OF my1(2)] same_params_data [OF my1(2)]
        by (auto simp: cluster_ok_def)
      define B where "B = unat (bytesperclust my)"
      have B: "bytesperclust my1 = bytesperclust my" "B \<le> 65536"
        using same_params_data [OF my1(2)] fs_ok_sizes(3) [OF Cons.prems(1)] by (simp_all add: B_def MAX_CLUSTSIZE_def)
      have a: "unat (actsize + bytesperclust my) = unat actsize + B"
        using True assms(5) B(2) by (simp add: B_def unat_word_ariths word_less_nat_alt)
      have eq: "run_clusters g filesize actsize e my = run_clusters g filesize (actsize + bytesperclust my) x my1"
        using True my1(1) step x by (subst run_clusters.simps) (simp add: B(1))
      have "unat filesize \<le> unat (actsize + bytesperclust my) + length rest * unat (bytesperclust my1)"
        using Cons.prems(3) by (simp add: a B(1) B_def)
      from Cons.IH [OF my1(3) ch this]
      obtain r my' k where r: "run_clusters g filesize (actsize + bytesperclust my) x my1 = Some (r, my')"
        "same_params my' my1" "fs_ok V N s my'" "k \<le> length rest" "consec x (take k rest)"
        "r = Enough \<and> unat filesize \<le> unat actsize + B + k * B \<or>
         k < length rest \<and> r = Getit (actsize + bytesperclust my + of_nat (k * B)) (last (x # take k rest)) \<and>
           unat actsize + B + k * B < unat filesize"
        unfolding a B(1) B_def by blast
      have "actsize + bytesperclust my + of_nat (k * B) = actsize + of_nat (Suc k * B)"
        by (simp add: B_def distrib_right add.assoc)
      note r6 = r(6) [unfolded this]
      show ?thesis unfolding eq B_def [symmetric] using r(1-5) r6 same_params_trans [OF r(2) my1(2)] step
        by (intro exI [of _ r] exI [of _ my'] exI [of _ "Suc k"]) (auto simp: add.assoc)
    qed
  qed
qed

end

context volume begin

lemma run_get_cluster:
  assumes "same_dev g f" "blocks_ok g" "fs_ok V N s my" "consec c xs" "fat_chain V my N (c # xs)"
    "unat sz \<le> length (c # xs) * unat (bytesperclust my)"
  shows "get_cluster my c (Mem a) off sz g = Some (0, stored g (a + off) (take (unat sz) (chain_data V my (c # xs))))"
proof -
  note d = run_data [OF assms(4,5)]
  have "unat sz \<le> length (c # xs) * unat (clust_size my) * s"
    using assms(6) fs_ok_sizes(1) [OF assms(3)] by (simp add: mult.assoc distrib_right)
  then show ?thesis
    using get_cluster_Mem [OF assms(1) fs_ok_sizes(4) [OF assms(3)] _ _ assms(2)] d by metis
qed

lemma take_chain_data:
  assumes "n \<le> length (c # take k rest) * (unat (clust_size my) * s)"
  shows "take n (chain_data V my (c # rest)) = take n (chain_data V my (c # take k rest))"
proof -
  have "chain_data V my (c # rest) = chain_data V my (c # take k rest) @ chain_data V my (drop k rest)"
    by (simp flip: chain_data_simps(3))
  moreover have "n \<le> length (chain_data V my (c # take k rest))" using assms by (simp only: chain_data_length)
  ultimately show ?thesis by simp
qed

lemma contents_loop_ok:
  assumes "same_dev g f" "blocks_ok g" "fs_ok V N s my" "fat_chain V my N (c # rest)"
    "unat filesize \<le> length (c # rest) * unat (bytesperclust my)" "unat gotsize + unat filesize < 2 ^ 31"
  shows "\<exists>my'. contents_loop (Mem a) off filesize c gotsize g my =
      Some (int (unat gotsize + unat filesize), stored g (a + off) (take (unat filesize) (chain_data V my (c # rest))), my') \<and>
    same_params my' my \<and> fs_ok V N s my'"
  using assms
proof (induction "length rest" arbitrary: rest c filesize gotsize g my off rule: less_induct)
  case less
  define B where "B = unat (bytesperclust my)"
  have B: "B = unat (clust_size my) * s" "0 < B" "B \<le> 65536" using fs_ok_sizes [OF less.prems(3)] by (simp_all add: B_def MAX_CLUSTSIZE_def)
  have "unat filesize < 2 ^ 31" using less.prems(6) by simp
  then obtain r my1 k where r: "run_clusters g filesize (bytesperclust my) c my = Some (r, my1)"
    "same_params my1 my" "fs_ok V N s my1" "k \<le> length rest" "consec c (take k rest)"
    "r = Enough \<and> unat filesize \<le> B + k * B \<or>
     k < length rest \<and> r = Getit (bytesperclust my + of_nat (k * B)) (last (c # take k rest)) \<and> B + k * B < unat filesize"
    using run_clusters_ok [OF less.prems(1,3,4), of filesize "bytesperclust my"] less.prems(5) unfolding B_def [symmetric] by auto
  note same = same_params_data [OF r(2)]
  have ch: "fat_chain V my1 N (c # take k rest)" "fat_chain V my N (c # take k rest)"
    using fat_chain_append [of V my N "c # take k rest" "drop k rest"] less.prems(4) same by simp_all
  have len: "length (c # take k rest) * (unat (clust_size my) * s) = B + k * B" using r(4) by (simp add: B(1))
  consider "r = Enough" "unat filesize \<le> B + k * B"
    | "k < length rest" "r = Getit (bytesperclust my + of_nat (k * B)) (last (c # take k rest))" "B + k * B < unat filesize"
    using r(6) by blast
  then show ?case
  proof cases
    case 1
    have "get_cluster my1 c (Mem a) off filesize g = Some (0, stored g (a + off) (take (unat filesize) (chain_data V my1 (c # take k rest))))"
      using 1(2) r(4) by (intro run_get_cluster [OF less.prems(1,2) r(3,5) ch(1)]) (simp add: same B_def)
    moreover have "sint (gotsize + filesize) = int (unat gotsize + unat filesize)"
      using less.prems(6) sint_of_nat_small [of "unat gotsize + unat filesize"] by simp
    ultimately show ?thesis using r(1-3) 1 take_chain_data [of "unat filesize" c k rest my] len
      by (subst contents_loop.simps) (simp add: same del: chain_data_simps)
  next
    case 2
    define w where "w = bytesperclust my + of_nat (k * B)"
    define x rest' where x: "x = rest ! k" "rest' = drop (Suc k) rest"
    have rest: "rest = take k rest @ x # rest'" using 2(1) by (simp add: x id_take_nth_drop)
    have ww: "w = of_nat (B + k * B)" by (simp add: w_def B_def)
    have w: "unat w = B + k * B" using 2(3) less.prems(6) unfolding ww by (intro unat_of_nat_small) simp
    define D1 where "D1 = chain_data V my (c # take k rest)"
    have D1: "length D1 = unat w" using len unfolding w D1_def by (simp only: chain_data_length)
    define g1 where "g1 = stored g (a + off) D1"
    have g1: "same_dev g1 f" "blocks_ok g1" using less.prems(1,2) by (simp_all add: g1_def stored_def same_dev_def blocks_ok_def)
    have "get_cluster my1 c (Mem a) off w g = Some (0, stored g (a + off) (take (unat w) (chain_data V my1 (c # take k rest))))"
      using r(4) by (intro run_get_cluster [OF less.prems(1,2) r(3,5) ch(1)]) (simp add: same w B_def)
    then have gc: "get_cluster my1 c (Mem a) off w g = Some (0, g1)" using D1 by (simp only: same D1_def g1_def take_all)
    have split: "c # rest = butlast (c # take k rest) @ last (c # take k rest) # x # rest'"
      using rest append_butlast_last_id [of "c # take k rest"] by (metis append.assoc append_Cons append_Nil list.distinct(1))
    have whole: "fat_chain V my1 N (butlast (c # take k rest) @ last (c # take k rest) # x # rest')"
      using less.prems(4) unfolding split [symmetric] by (simp only: same)
    obtain my2 where my2: "get_fatent g1 (last (c # take k rest)) my1 = Some (x, my2)" "same_params my2 my1" "fs_ok V N s my2"
      using chain_next [OF g1(1) r(3) whole] by blast
    note same2 = same_params_data [OF same_params_trans [OF my2(2) r(2)]]
    have tail: "fat_chain V my2 N (x # rest')" "\<not> CHECK_CLUST x (fatsize my2)"
      using fat_chain_append [of V my N "c # take k rest" "x # rest'"] less.prems(4) rest fat_chain_Cons [of V my N x rest']
        same_paramsD(1) [OF same_params_trans [OF my2(2) r(2)]]
      by (auto simp: same2 cluster_ok_def)
    have fw: "unat (filesize - w) = unat filesize - unat w" "unat (gotsize + w) = unat gotsize + unat w"
      using 2(3) less.prems(6) w by (simp_all add: unat_sub word_le_nat_alt unat_word_ariths)
    have lr: "length rest = k + Suc (length rest')" using 2(1) by (simp add: x)
    have "unat (filesize - w) \<le> length (x # rest') * unat (bytesperclust my2)"
      using less.prems(5) by (simp add: fw w same2 B_def [symmetric] lr distrib_right)
    moreover have "unat (gotsize + w) + unat (filesize - w) < 2 ^ 31" using less.prems(6) 2(3) by (simp add: fw w)
    ultimately obtain my' where my': "contents_loop (Mem a) (off + w) (filesize - w) x (gotsize + w) g1 my2 =
        Some (int (unat (gotsize + w) + unat (filesize - w)),
          stored g1 (a + (off + w)) (take (unat (filesize - w)) (chain_data V my2 (x # rest'))), my')"
        "same_params my' my2" "fs_ok V N s my'"
      using less.hyps [OF _ g1 my2(3) tail(1)] lr by force
    have "chain_data V my (c # rest) = D1 @ chain_data V my (x # rest')" unfolding D1_def by (subst rest) simp
    moreover have "take (unat filesize) (D1 @ Y) = D1 @ take (unat (filesize - w)) Y" for Y using D1 2(3) by (simp add: w fw)
    moreover have "a + (off + w) = a + off + of_nat (length D1)" using D1 by (simp add: add.assoc)
    ultimately have "stored g1 (a + (off + w)) (take (unat (filesize - w)) (chain_data V my2 (x # rest'))) =
        stored g (a + off) (take (unat filesize) (chain_data V my (c # rest)))"
      by (simp only: g1_def stored_stored same2)
    moreover have "int (unat (gotsize + w) + unat (filesize - w)) = int (unat gotsize + unat filesize)" using 2(3) by (simp add: fw w)
    ultimately have "contents_loop (Mem a) (off + w) (filesize - w) x (gotsize + w) g1 my2 =
        Some (int (unat gotsize + unat filesize), stored g (a + off) (take (unat filesize) (chain_data V my (c # rest))), my')"
      using my'(1) by (simp only:)
    then show ?thesis using r(1) 2 gc my2(1) tail(2) my'(3) same_params_trans [OF my'(2) same_params_trans [OF my2(2) r(2)]]
      by (subst contents_loop.simps) (simp only: w_def [symmetric] bind.bind_lunit run.simps prod.case if_False, simp)
  qed
qed

end

context volume begin

lemma seek_cluster_ok:
  assumes "same_dev g f" "fs_ok V N s my" "fat_chain V my N (c # rest)" "unat pos < 2 ^ 31"
    "unat pos < unat actsize + length rest * unat (bytesperclust my)" "unat actsize \<le> unat pos + unat (bytesperclust my)"
  shows "\<exists>my' k. seek_cluster g pos actsize c my = Some (Some (actsize + of_nat (k * unat (bytesperclust my)), (c # rest) ! k), my') \<and>
    same_params my' my \<and> fs_ok V N s my' \<and> k \<le> length rest \<and>
    unat pos < unat actsize + k * unat (bytesperclust my) \<and> unat actsize + k * unat (bytesperclust my) \<le> unat pos + unat (bytesperclust my)"
  using assms(2,3,5,6)
proof (induction rest arbitrary: c actsize my)
  case Nil
  then show ?case
    by (subst seek_cluster.simps, intro exI [of _ my] exI [of _ 0]) (simp add: same_params_refl word_le_nat_alt)
next
  case (Cons x rest)
  show ?case
  proof (cases "actsize \<le> pos")
    case False
    then show ?thesis using Cons.prems(1,4)
      by (subst seek_cluster.simps, intro exI [of _ my] exI [of _ 0]) (simp add: same_params_refl word_le_nat_alt)
  next
    case True
    obtain my1 where my1: "get_fatent g c my = Some (x, my1)" "same_params my1 my" "fs_ok V N s my1"
      using chain_next [OF assms(1) Cons.prems(1), of "[]" c x rest] Cons.prems(2) by auto
    have x: "\<not> CHECK_CLUST x (fatsize my1)" and ch: "fat_chain V my1 N (x # rest)"
      using fat_chain_Cons [of V my N x rest] Cons.prems(2) same_paramsD [OF my1(2)] same_params_data [OF my1(2)]
      by (auto simp: cluster_ok_def)
    define B where "B = unat (bytesperclust my)"
    have B: "bytesperclust my1 = bytesperclust my" "B \<le> 65536"
      using same_params_data [OF my1(2)] fs_ok_sizes(3) [OF Cons.prems(1)] by (simp_all add: B_def MAX_CLUSTSIZE_def)
    have a: "unat (actsize + bytesperclust my) = unat actsize + B"
      using True assms(4) B(2) by (simp add: B_def unat_word_ariths word_le_nat_alt)
    have eq: "seek_cluster g pos actsize c my = seek_cluster g pos (actsize + bytesperclust my) x my1"
      using True my1(1) x by (subst seek_cluster.simps) (simp add: B(1))
    have "unat pos < unat (actsize + bytesperclust my) + length rest * unat (bytesperclust my1)"
      "unat (actsize + bytesperclust my) \<le> unat pos + unat (bytesperclust my1)"
      using Cons.prems(3) True by (simp_all add: a B(1) B_def word_le_nat_alt)
    from Cons.IH [OF my1(3) ch this]
    obtain my' k where r: "seek_cluster g pos (actsize + bytesperclust my) x my1 =
        Some (Some (actsize + bytesperclust my + of_nat (k * B), (x # rest) ! k), my')"
      "same_params my' my1" "fs_ok V N s my'" "k \<le> length rest"
      "unat pos < unat actsize + B + k * B" "unat actsize + B + k * B \<le> unat pos + B"
      unfolding a B(1) B_def by blast
    have "actsize + bytesperclust my + of_nat (k * B) = actsize + of_nat (Suc k * B)"
      by (simp add: B_def distrib_right add.assoc)
    note r1 = r(1) [unfolded this]
    show ?thesis unfolding eq B_def [symmetric] using r1 r(3-6) same_params_trans [OF r(2) my1(2)]
      by (intro exI [of _ my'] exI [of _ "Suc k"]) (simp add: add.assoc)
  qed
qed

lemma get_cluster_Vfat:
  assumes "same_dev g f" "blocks_ok g" "fs_ok V N s my" "cluster_ok V my N c" "unat sz \<le> unat (bytesperclust my)"
  shows "get_cluster my c VfatBlock 0 sz g = Some (0, g\<lparr>vfat_block := overlay (vfat_block g) 0 (take (unat sz) (cluster_data V my c))\<rparr>)"
proof -
  have "length (take (unat sz) (cluster_data V my c)) \<le> MAX_CLUSTSIZE"
    using assms(5) fs_ok_sizes [OF assms(3)] by (simp add: cluster_data_def)
  then show ?thesis
    using assms fs_ok_sizes [OF assms(3)]
    by (intro get_cluster_ok [where m = "unat (clust_size my)"])
      (auto simp: put_buf_def into_def cluster_data_def [symmetric] cluster_ok_def blocks_ok_def misaligned_def)
qed

end

context volume begin

lemma contents_from_ok:
  assumes "same_dev g f" "blocks_ok g" "fs_ok V N s my" "fat_chain V my N (c # rest)"
    "unat pos < unat (bytesperclust my)" "unat pos < unat filesize"
    "unat filesize \<le> length (c # rest) * unat (bytesperclust my)" "unat filesize < 2 ^ 31"
  shows "\<exists>f' my'. contents_from (Mem a) pos filesize c g my = Some (int (unat filesize - unat pos), f', my') \<and>
    fmem f' = st_bytes (fmem g) a (take (unat filesize - unat pos) (drop (unat pos) (chain_data V my (c # rest)))) \<and>
    same_dev f' f \<and> blocks_ok f' \<and> same_params my' my \<and> fs_ok V N s my'"
proof (cases "pos = 0")
  case True
  then show ?thesis using contents_loop_ok [OF assms(1-4,7), of 0 a 0] assms(1,2,8)
    by (auto simp: contents_from_def stored_def blocks_ok_def same_dev_def)
next
  case False
  define B where "B = unat (bytesperclust my)"
  define act where "act = min filesize (bytesperclust my)"
  define w where "w = act - pos"
  have act: "unat act = min (unat filesize) B" by (simp add: act_def B_def min_def word_le_nat_alt)
  have w: "unat w = unat act - unat pos" "unat pos \<le> unat act"
    using assms(5,6) act by (auto simp: w_def unat_sub word_le_nat_alt B_def)
  have B: "B = unat (clust_size my) * s" "B \<le> MAX_CLUSTSIZE" using fs_ok_sizes [OF assms(3)] by (simp_all add: B_def)
  have c: "cluster_ok V my N c" using assms(4) by (auto dest: fat_chain_Cons)
  define g1 where "g1 = g\<lparr>vfat_block := overlay (vfat_block g) 0 (take (unat act) (cluster_data V my c))\<rparr>"
  have gc: "get_cluster my c VfatBlock 0 act g = Some (0, g1)"
    unfolding g1_def using act by (intro get_cluster_Vfat assms(1-3) c) (simp add: B_def)
  have lc: "length (cluster_data V my c) = B" by (simp add: cluster_data_def B)
  have "length (vfat_block g) = MAX_CLUSTSIZE" using assms(2) by (simp add: blocks_ok_def)
  then have l1: "length (vfat_block g1) = MAX_CLUSTSIZE" and
    d1: "take (unat w) (drop (unat pos) (vfat_block g1)) = take (unat w) (drop (unat pos) (cluster_data V my c))"
    using w act B(2) by (auto simp: g1_def overlay_def lc drop_take)
  define D where "D = take (unat w) (drop (unat pos) (cluster_data V my c))"
  define g2 where "g2 = stored g1 a D"
  have g2: "same_dev g2 f" "blocks_ok g2" "fmem g2 = st_bytes (fmem g) a D"
    using assms(1,2) l1 by (auto simp: g2_def g1_def same_dev_def stored_def blocks_ok_def)
  have lw: "length D = unat w" using w act lc by (simp add: D_def)
  have fits: "\<not> unat pos + unat w > length (vfat_block g1)" using w act B(2) by (simp add: l1)
  have put: "put_buf (Mem a) 0 (take (unat w) (drop (unat pos) (vfat_block g1))) g1 = Some g2" by (simp add: d1 g2_def D_def)
  have unf: "contents_from (Mem a) pos filesize c g my = (if filesize - act = 0 then Some (sint w, g2, my)
      else do { (curclust, my) \<leftarrow> get_fatent g2 c my;
        if CHECK_CLUST curclust (fatsize my) then Some (sint w, g2, my)
        else contents_loop (Mem a) w (filesize - act) curclust w g2 my })"
    using False gc fits put by (simp add: contents_from_def act_def [symmetric] w_def [symmetric] Let_def)
  show ?thesis
  proof (cases "unat filesize \<le> B")
    case True
    then have "filesize - act = 0" "unat w = unat filesize - unat pos" using act w by (auto simp: act_def B_def word_le_nat_alt min_def)
    moreover from this have "sint w = int (unat filesize - unat pos)" using sint_small [of w] assms(8) by (simp add: uint_nat)
    moreover have "take (unat w) (drop (unat pos) (chain_data V my (c # rest))) = D"
      using True lc by (simp add: D_def calculation)
    ultimately show ?thesis using g2 assms(3) same_params_refl unfolding unf by (simp del: right_minus_eq)
  next
    case long: False
    then have rem: "unat (filesize - act) = unat filesize - B" "filesize - act \<noteq> 0" and aB: "unat act = B"
      using act by (auto simp: unat_sub word_le_nat_alt)
    obtain x rest' where rest: "rest = x # rest'" using long assms(7) by (cases rest) (auto simp: B_def)
    obtain my1 where my1: "get_fatent g2 c my = Some (x, my1)" "same_params my1 my" "fs_ok V N s my1"
      using chain_next [OF g2(1) assms(3), of "[]" c x rest'] assms(4) rest by auto
    note same = same_params_data [OF my1(2)]
    have tail: "fat_chain V my1 N (x # rest')" "\<not> CHECK_CLUST x (fatsize my1)"
      using assms(4) same_paramsD(1) [OF my1(2)] fat_chain_Cons [of V my N x rest'] unfolding rest by (auto simp: same cluster_ok_def)
    have "unat (filesize - act) \<le> length (x # rest') * unat (bytesperclust my1)"
      using assms(7) by (simp add: rem same B_def [symmetric] rest)
    moreover have "unat w + unat (filesize - act) < 2 ^ 31" using assms(8) w aB rem long by simp
    ultimately obtain my' where my': "contents_loop (Mem a) w (filesize - act) x w g2 my1 =
        Some (int (unat w + unat (filesize - act)), stored g2 (a + w) (take (unat (filesize - act)) (chain_data V my1 (x # rest'))), my')"
        "same_params my' my1" "fs_ok V N s my'"
      using contents_loop_ok [OF g2(1,2) my1(3) tail(1)] by blast
    have n: "unat w + unat (filesize - act) = unat filesize - unat pos" using w aB rem long assms(5) by (simp add: B_def)
    have D: "take (unat filesize - unat pos) (drop (unat pos) (chain_data V my (c # rest))) =
        D @ take (unat (filesize - act)) (chain_data V my1 (x # rest'))"
      using w aB rem long assms(5) lc by (simp add: D_def rest same B_def [symmetric])
    have "contents_from (Mem a) pos filesize c g my = Some (int (unat filesize - unat pos),
        stored g2 (a + w) (take (unat (filesize - act)) (chain_data V my1 (x # rest'))), my')"
      using my1(1) tail(2) my'(1) [unfolded n] rem(2) unfolding unf by (simp del: right_minus_eq chain_data_simps)
    moreover have "st_bytes (st_bytes (fmem g) a D) (a + w) y = st_bytes (fmem g) a (D @ y)" for y
      using lw by (simp add: st_bytes_append)
    ultimately show ?thesis using g2 my'(3) same_params_trans [OF my'(2) my1(2)] unfolding D
      by (simp add: stored_def same_dev_def blocks_ok_def del: chain_data_simps)
  qed
qed

end

text \<open>How many bytes a read of at most \<open>m\<close> bytes (0: no limit) from position \<open>p\<close> of a file of \<open>n\<close> bytes delivers.\<close>

definition read_len :: "nat \<Rightarrow> nat \<Rightarrow> nat \<Rightarrow> nat" where
  "read_len n p m = (if n \<le> p then 0 else if 0 < m \<and> p + m < n then m else n - p)"

context volume begin

lemma get_contents_seek:
  assumes "same_dev g f" "fs_ok V N s my" "fat_chain V my N (START my dent # rest)" "B = unat (bytesperclust my)"
    "F = unat (FAT2CPU32 (de_size dent))" "F \<le> length (START my dent # rest) * B" "F < 2 ^ 31" "unat pos < F"
    "fl = (if maxsize > 0 \<and> FAT2CPU32 (de_size dent) > pos + maxsize then pos + maxsize else FAT2CPU32 (de_size dent))"
  shows "\<exists>my1 k. get_contents dent pos b maxsize g my =
      contents_from b (pos - of_nat (k * B)) (fl - of_nat (k * B)) ((START my dent # rest) ! k) g my1 \<and>
    same_params my1 my \<and> fs_ok V N s my1 \<and> k \<le> length rest \<and> unat pos < B + k * B \<and> k * B \<le> unat pos \<and>
    unat (of_nat (k * B) :: u32) = k * B"
proof -
  have "unat pos < B + length rest * B" "B \<le> unat pos + B" using assms(6,8) by simp_all
  then obtain my1 k where k: "seek_cluster g pos (bytesperclust my) (START my dent) my =
      Some (Some (bytesperclust my + of_nat (k * B), (START my dent # rest) ! k), my1)"
    "same_params my1 my" "fs_ok V N s my1" "k \<le> length rest" "unat pos < B + k * B" "k * B \<le> unat pos"
    using seek_cluster_ok [OF assms(1-3), of pos "bytesperclust my"] assms(7,8) unfolding assms(4) [symmetric] by force
  have "get_contents dent pos b maxsize g my =
      contents_from b (pos - of_nat (k * B)) (fl - of_nat (k * B)) ((START my dent # rest) ! k) g my1"
    using assms(8) k(1) unfolding get_contents_def
    by (simp add: assms(9) [symmetric] Let_def word_le_nat_alt assms(5) same_params_data [OF k(2)])
  moreover have "unat (of_nat (k * B) :: u32) = k * B" using k(6) assms(7,8) by (intro unat_of_nat_small) simp
  ultimately show ?thesis using k(2-6) by blast
qed

lemma get_contents_ok:
  assumes "same_dev g f" "blocks_ok g" "fs_ok V N s my" "fat_chain V my N (START my dent # rest)"
    "F = unat (FAT2CPU32 (de_size dent))" "F \<le> length (START my dent # rest) * unat (bytesperclust my)" "F < 2 ^ 31"
    "unat pos + unat maxsize < 2 ^ 32 \<or> F \<le> unat pos" "n = read_len F (unat pos) (unat maxsize)"
  shows "\<exists>f' my'. get_contents dent pos (Mem a) maxsize g my = Some (int n, f', my') \<and>
    fmem f' = st_bytes (fmem g) a (take n (drop (unat pos) (chain_data V my (START my dent # rest)))) \<and>
    same_dev f' f \<and> blocks_ok f' \<and> same_params my' my \<and> fs_ok V N s my'"
proof (cases "F \<le> unat pos")
  case True
  then show ?thesis using assms(1-3,5,9) same_params_refl by (simp add: get_contents_def word_le_nat_alt read_len_def)
next
  case False
  define B where "B = unat (bytesperclust my)"
  define ch where "ch = START my dent # rest"
  define fl where "fl = (if maxsize > 0 \<and> FAT2CPU32 (de_size dent) > pos + maxsize then pos + maxsize else FAT2CPU32 (de_size dent))"
  have "unat (pos + maxsize) = unat pos + unat maxsize" using assms(8) False by (simp add: unat_word_ariths)
  then have fl: "unat fl = unat pos + n" "unat pos + n \<le> F" "0 < n" using False
    by (auto simp: fl_def assms(5,9) read_len_def word_less_nat_alt unat_gt_0)
  obtain my1 k where k: "get_contents dent pos (Mem a) maxsize g my =
      contents_from (Mem a) (pos - of_nat (k * B)) (fl - of_nat (k * B)) (ch ! k) g my1"
    "same_params my1 my" "fs_ok V N s my1" "k \<le> length rest" "unat pos < B + k * B" "k * B \<le> unat pos"
    "unat (of_nat (k * B) :: u32) = k * B"
    using get_contents_seek [OF assms(1,3,4) B_def assms(5) assms(6) [folded B_def] assms(7) _ fl_def] False
    unfolding ch_def not_le by blast
  note same = same_params_data [OF k(2)]
  define w where "w = (of_nat (k * B) :: u32)"
  have w: "unat w = k * B" using k(7) by (simp add: w_def)
  have pw: "unat (pos - w) = unat pos - k * B" "unat (fl - w) = unat pos + n - k * B"
    using k(6) fl(1) w by (simp_all add: unat_sub word_le_nat_alt)
  have kl: "k < length ch" using k(4) by (simp add: ch_def)
  have chk: "drop k ch = ch ! k # drop (Suc k) ch" using kl by (simp add: Cons_nth_drop_Suc)
  have c1: "fat_chain V my1 N (ch ! k # drop (Suc k) ch)"
    using fat_chain_append [of V my N "take k ch" "drop k ch"] assms(4) unfolding same chk [symmetric] by (simp add: ch_def)
  have "unat (fl - w) \<le> length (ch ! k # drop (Suc k) ch) * unat (bytesperclust my1)"
  proof -
    have "length (ch ! k # drop (Suc k) ch) = length ch - k" using kl by simp
    then show ?thesis using fl(2) assms(6) unfolding pw same B_def [symmetric] ch_def [symmetric] by (simp add: diff_mult_distrib)
  qed
  moreover have "unat (pos - w) < unat (bytesperclust my1)" "unat (pos - w) < unat (fl - w)" "unat (fl - w) < 2 ^ 31"
    using k(5,6) fl assms(7) by (auto simp: pw same B_def)
  ultimately obtain f' my' where r: "contents_from (Mem a) (pos - w) (fl - w) (ch ! k) g my1 = Some (int (unat (fl - w) - unat (pos - w)), f', my')"
    "fmem f' = st_bytes (fmem g) a (take (unat (fl - w) - unat (pos - w)) (drop (unat (pos - w)) (chain_data V my1 (ch ! k # drop (Suc k) ch))))"
    "same_dev f' f" "blocks_ok f'" "same_params my' my1" "fs_ok V N s my'"
    using contents_from_ok [OF assms(1,2) k(3) c1] by blast
  have n: "unat (fl - w) - unat (pos - w) = n" using k(6) by (simp add: pw)
  have "length (chain_data V my (take k ch)) = k * B" using kl fs_ok_sizes [OF assms(3)] by (simp add: chain_data_length B_def)
  then have "drop (unat pos) (chain_data V my ch) = drop (unat pos - k * B) (chain_data V my (drop k ch))"
    using k(6) chain_data_simps(3) [of V my "take k ch" "drop k ch"] by simp
  moreover have "get_contents dent pos (Mem a) maxsize g my = contents_from (Mem a) (pos - w) (fl - w) (ch ! k) g my1"
    using k(1) by (simp add: w_def)
  ultimately show ?thesis
    using r(1) [unfolded n] r(2) [unfolded n, unfolded pw(1) same chk [symmetric]] r(3-6) same_params_trans [OF r(5) k(2)]
    unfolding ch_def [symmetric] by (simp del: chain_data_simps)
qed

lemma unat_sub_wraps: "unat x < unat y \<Longrightarrow> unat (x - y :: u32) = 2 ^ 32 - (unat y - unat x)"
  using unsigned_less [of y, where ?'a = nat] by (simp add: unat_sub_if_size word_size)

text \<open>The limit wraps around, and falls before the position but not before the start of its cluster.\<close>

lemma get_contents_wraps:
  assumes "same_dev g f" "blocks_ok g" "fs_ok V N s my" "fat_chain V my N (START my dent # rest)"
    "F = unat (FAT2CPU32 (de_size dent))" "F \<le> length (START my dent # rest) * unat (bytesperclust my)" "F < 2 ^ 31"
    "unat pos < F" "2 ^ 32 \<le> unat pos + unat maxsize"
    "unat pos div unat (bytesperclust my) * unat (bytesperclust my) + 2 ^ 32 \<le> unat pos + unat maxsize"
  shows "get_contents dent pos b maxsize g my = None"
proof -
  define B where "B = unat (bytesperclust my)"
  define fl where "fl = (if maxsize > 0 \<and> FAT2CPU32 (de_size dent) > pos + maxsize then pos + maxsize else FAT2CPU32 (de_size dent))"
  have m: "unat maxsize < 2 ^ 32" using unsigned_less [of maxsize, where ?'a = nat] by simp
  have wr: "unat (pos + maxsize) = unat pos + unat maxsize - 2 ^ 32" using assms(9) m assms(7,8) by (simp add: unat_word_ariths mod_nat_eqI)
  then have lt: "unat (pos + maxsize) < unat pos" using m assms(9) by linarith
  have "maxsize > 0" using assms(7-9) by (simp add: word_less_nat_alt)
  then have fl: "fl = pos + maxsize" using lt assms(5,8) by (simp add: fl_def word_less_nat_alt)
  obtain my1 k where k: "get_contents dent pos b maxsize g my =
      contents_from b (pos - of_nat (k * B)) (fl - of_nat (k * B)) ((START my dent # rest) ! k) g my1"
    "same_params my1 my" "fs_ok V N s my1" "k \<le> length rest" "unat pos < B + k * B" "k * B \<le> unat pos"
    "unat (of_nat (k * B) :: u32) = k * B"
    using get_contents_seek [OF assms(1,3,4) B_def assms(5) assms(6) [folded B_def] assms(7,8) fl_def] by blast
  define w where "w = (of_nat (k * B) :: u32)"
  have "unat pos div B = k" using k(5,6) by (intro div_nat_eqI) (auto simp: mult.commute)
  then have kw: "k * B \<le> unat fl" using assms(10) unfolding fl wr B_def by simp
  have pw: "unat (pos - w) = unat pos - k * B" "unat (fl - w) = unat fl - k * B"
    using k(6,7) kw by (simp_all add: unat_sub word_le_nat_alt w_def)
  have lp: "unat (fl - w) < unat (pos - w)" "unat (pos - w) < B" using pw lt kw k(5) by (auto simp: fl)
  note same = same_params_data [OF k(2)]
  have mn: "min (fl - w) (bytesperclust my1) = fl - w" using lp by (simp add: min_def word_le_nat_alt same B_def)
  have kl: "k < length (START my dent # rest)" using k(4) by simp
  have "drop k (START my dent # rest) = (START my dent # rest) ! k # drop (Suc k) (START my dent # rest)"
    using kl by (simp only: Cons_nth_drop_Suc)
  moreover have "fat_chain V my1 N (drop k (START my dent # rest))"
    using fat_chain_append [of V my N "take k (START my dent # rest)" "drop k (START my dent # rest)"] assms(4)
    unfolding same by (simp only: append_take_drop_id)
  ultimately have "fat_chain V my1 N ((START my dent # rest) ! k # drop (Suc k) (START my dent # rest))" by (simp only:)
  then have c: "cluster_ok V my1 N ((START my dent # rest) ! k)" by (auto dest: fat_chain_Cons)
  have "get_cluster my1 ((START my dent # rest) ! k) VfatBlock 0 (fl - w) g =
      Some (0, g\<lparr>vfat_block := overlay (vfat_block g) 0 (take (unat (fl - w)) (cluster_data V my1 ((START my dent # rest) ! k)))\<rparr>)"
    using lp by (intro get_cluster_Vfat assms(1,2) k(3) c) (simp add: same B_def)
  moreover have "length (overlay (vfat_block g) 0 (take (unat (fl - w)) (cluster_data V my1 ((START my dent # rest) ! k)))) \<le> 65536"
    using assms(2) fs_ok_sizes [OF k(3)] lp by (subst overlay_length) (auto simp: blocks_ok_def cluster_data_def same B_def MAX_CLUSTSIZE_def)
  moreover have "65536 < unat (pos - w) + unat (fl - w - (pos - w))"
  proof -
    have "unat (fl - w - (pos - w)) = 2 ^ 32 - (unat (pos - w) - unat (fl - w))"
      by (rule unat_sub_wraps [OF lp(1)])
    then show ?thesis using lp fs_ok_sizes [OF k(3)] by (simp add: same B_def MAX_CLUSTSIZE_def)
  qed
  moreover have "pos - w \<noteq> 0" using lp by auto
  ultimately show ?thesis using k(1) unfolding w_def [symmetric] by (simp add: contents_from_def mn Let_def del: right_minus_eq)
qed

end

section \<open>Properties\<close>

text \<open>
  C17: reading a file of less than 2 GiB. Its directory entry starts a chain of clusters in the table that is
  long enough for its size. As long as the position plus the limit is below 2 to the 32, or the position is not
  inside the file, \<open>get_contents\<close> returns the number of bytes between the position and the limit or the end of
  the file, and stores exactly these bytes of the chain at the buffer, whether or not the buffer is aligned, the
  position is inside a cluster, and the clusters are consecutive on the disk. The sum of a larger limit and
  a position inside the file wraps around. When the wrapped sum is not before the start of the cluster of the
  position, the number of bytes to copy from this cluster is negative, and \<open>memcpy\<close> is called with almost 2 to
  the 32. A wrapped sum before that cluster is not covered.
\<close>

theorem get_contents_reads_file:
  assumes "volume f V N s" "blocks_ok f" "fs_ok V N s my" "fat_chain V my N (START my dent # rest)"
    "F = unat (FAT2CPU32 (de_size dent))" "F \<le> length (START my dent # rest) * unat (bytesperclust my)" "F < 2 ^ 31"
    "n = read_len F (unat pos) (unat maxsize)"
  shows "(unat pos + unat maxsize < 2 ^ 32 \<or> F \<le> unat pos \<longrightarrow>
      (\<exists>f' my'. get_contents dent pos (Mem a) maxsize f my = Some (int n, f', my') \<and>
         fmem f' = st_bytes (fmem f) a (take n (drop (unat pos) (chain_data V my (START my dent # rest)))))) \<and>
    (unat pos < F \<and> unat pos div unat (bytesperclust my) * unat (bytesperclust my) + 2 ^ 32 \<le> unat pos + unat maxsize \<longrightarrow>
      get_contents dent pos (Mem a) maxsize f my = None)"
proof (intro conjI impI)
  assume "unat pos + unat maxsize < 2 ^ 32 \<or> F \<le> unat pos"
  then show "\<exists>f' my'. get_contents dent pos (Mem a) maxsize f my = Some (int n, f', my') \<and>
      fmem f' = st_bytes (fmem f) a (take n (drop (unat pos) (chain_data V my (START my dent # rest))))"
    using volume.get_contents_ok [OF assms(1) same_dev_refl assms(2-7) _ assms(8)] by blast
next
  assume "unat pos < F \<and> unat pos div unat (bytesperclust my) * unat (bytesperclust my) + 2 ^ 32 \<le> unat pos + unat maxsize"
  then show "get_contents dent pos (Mem a) maxsize f my = None"
    using volume.get_contents_wraps [OF assms(1) same_dev_refl assms(2-7)] by simp
qed

definition demo_file :: bytes where
  "demo_file = demo_dirent ''HELLO   TXT'' 2 [0x58, 2, 0, 0]"

lemma demo_file_fields: "START demo_params demo_file = 2" "FAT2CPU32 (de_size demo_file) = 600"
  by code_simp+

lemma demo_chain: "fat_chain demo_vol demo_params 16 [2, 4]"
proof -
  have "take 6 (fat_table demo_vol demo_params) = [0xf8, 0xff, 0xff, 0xff, 4, 0]"
    by (simp add: fat_table_def sectors_def demo_params_def demo_vol_def pad512_def)
  then have "fat_ref 16 (fat_table demo_vol demo_params) 2 = 4"
    using fat_ref_take [of 16 2 6 "fat_table demo_vol demo_params"] by (simp add: fat_ref_def)
  then show ?thesis
    by (simp add: cluster_ok_def CHECK_CLUST_def demo_params_def cluster_sect_def word_le_nat_alt)
      (simp add: fat_table_def demo.sector_length)
qed

lemma demo_state: "blocks_ok (image_fat demo_vol 16)" "fs_ok demo_vol 16 512 demo_params"
  using demo_params_ok by (simp_all add: blocks_ok_def image_fat_def fs_ok_def) (simp add: demo_params_def MAX_CLUSTSIZE_def)

lemma demo_bytes: "bytesperclust demo_params = 512"
  by (simp add: bytesperclust_def demo_params_def)

theorem get_contents_reads_file_witness:
  "(\<exists>f' my'. get_contents demo_file 500 (Mem 0x81000001) 50 (image_fat demo_vol 16) demo_params = Some (50, f', my') \<and>
    fmem f' = st_bytes (\<lambda>_. 0) 0x81000001 (replicate 12 3 @ replicate 38 5)) \<and>
   get_contents demo_file 16 (Mem 0x81000001) 0xffffffff (image_fat demo_vol 16) demo_params = None"
proof -
  have "fat_chain demo_vol demo_params 16 (START demo_params demo_file # [4])" using demo_chain by (simp add: demo_file_fields)
  note reads = get_contents_reads_file [OF demo.volume_axioms demo_state this refl _ _ refl]
  have "\<exists>f' my'. get_contents demo_file 500 (Mem 0x81000001) 50 (image_fat demo_vol 16) demo_params = Some (int 50, f', my') \<and>
    fmem f' = st_bytes (fmem (image_fat demo_vol 16)) 0x81000001 (take 50 (drop (unat (500 :: u32)) (chain_data demo_vol demo_params (START demo_params demo_file # [4]))))"
    using reads [of 500 50 "0x81000001"] by (simp add: demo_file_fields read_len_def demo_bytes del: chain_data_simps)
  moreover have "chain_data demo_vol demo_params [2, 4] = replicate 512 3 @ replicate 512 5"
    by (simp add: cluster_data_def sectors_def demo_params_def cluster_sect_def demo_vol_def)
  moreover have "fmem (image_fat demo_vol 16) = (\<lambda>_. 0)" by (simp add: image_fat_def)
  moreover have "get_contents demo_file 16 (Mem 0x81000001) 0xffffffff (image_fat demo_vol 16) demo_params = None"
    using reads [of 16 "0xffffffff" "0x81000001"] by (simp add: demo_file_fields demo_bytes)
  ultimately show ?thesis by (simp add: demo_file_fields del: chain_data_simps)
qed

end
