(* ===== verification/FatDir.thy ===== *)
theory FatDir
  imports FatFile
begin

text \<open>
  Finding a file in the root directory, by its short or its long name, and the whole of
  \<open>do_fat_read_at\<close> for such a file.
\<close>

section \<open>Long names\<close>

text \<open>The characters of a slot, and the name of slots in the order they have on the disk (last part first).\<close>

definition slot_bytes :: "bytes \<Rightarrow> bytes" where
  "slot_bytes e = map ((!) e) [1, 3, 5, 7, 9, 14, 16, 18, 20, 22, 24, 28, 30]"

definition long_name :: "bytes list \<Rightarrow> bytes" where
  "long_name sl = downcase (first_char (takeWhile (\<lambda>c. c \<noteq> 0) (concat (map slot_bytes (rev sl)))))"

text \<open>Slots number downwards to 1; only the first has the flag of the last part.\<close>

definition slots_ok :: "bytes list \<Rightarrow> bool" where
  "slots_ok sl \<longleftrightarrow> 0 < length sl \<and> length sl \<le> 9 \<and>
     (\<forall>j<length sl. sl ! j ! 0 = of_nat (length sl - j) OR (if j = 0 then LAST_LONG_ENTRY_MASK else 0))"

lemma slot_chars_eq:
  "length s + length cs \<le> VFAT_MAXLEN_BYTES \<Longrightarrow> slot_chars cs s = Some (0 \<in> set cs, s @ takeWhile (\<lambda>c. c \<noteq> 0) cs)"
  by (induction cs arbitrary: s) auto

lemma slot2str_eq:
  "length s + 13 \<le> VFAT_MAXLEN_BYTES \<Longrightarrow> slot2str e s = Some (0 \<in> set (slot_bytes e), s @ takeWhile (\<lambda>c. c \<noteq> 0) (slot_bytes e))"
  unfolding slot2str_def slot_bytes_def by (rule slot_chars_eq) simp

lemma slot_bytes_length [simp]: "length (slot_bytes e) = 13"
  by (simp add: slot_bytes_def)

lemma takeWhile_length: "length (takeWhile P xs) \<le> length xs"
  by (induction xs) auto

lemma slot_id:
  assumes "slots_ok sl" "j < length sl"
  shows "sl ! j ! 0 AND NOT LAST_LONG_ENTRY_MASK = of_nat (length sl - j)"
    "sl ! j ! 0 AND LAST_LONG_ENTRY_MASK = (if j = 0 then LAST_LONG_ENTRY_MASK else 0)"
proof -
  have n: "length sl - j \<in> {1, 2, 3, 4, 5, 6, 7, 8, 9}" using assms by (auto simp: slots_ok_def)
  have i: "sl ! j ! 0 = of_nat (length sl - j) OR (if j = 0 then LAST_LONG_ENTRY_MASK else 0)"
    using assms by (simp add: slots_ok_def)
  show "sl ! j ! 0 AND NOT LAST_LONG_ENTRY_MASK = of_nat (length sl - j)"
    "sl ! j ! 0 AND LAST_LONG_ENTRY_MASK = (if j = 0 then LAST_LONG_ENTRY_MASK else 0)"
    using n unfolding i LAST_LONG_ENTRY_MASK_def by auto
qed

lemma pass_slots_eq:
  assumes "\<And>j. j < c \<Longrightarrow> \<exists>x. rd blk (k + 32 * j) = Some x \<and> x AND NOT LAST_LONG_ENTRY_MASK = of_nat (c - j)"
    "k + 32 * c < limit"
  shows "pass_slots blk limit k c = Some (Some (k + 32 * c, 0))"
  using assms
proof (induction c arbitrary: k)
  case (Suc c)
  obtain x where "rd blk k = Some x" "x AND NOT LAST_LONG_ENTRY_MASK = of_nat (Suc c)" using Suc.prems(1) [of 0] by auto
  moreover have "pass_slots blk limit (k + 32) c = Some (Some (k + 32 + 32 * c, 0))"
  proof (rule Suc.IH)
    fix j assume "j < c"
    then show "\<exists>x. rd blk (k + 32 + 32 * j) = Some x \<and> x AND NOT LAST_LONG_ENTRY_MASK = of_nat (c - j)"
      using Suc.prems(1) [of "Suc j"] by (simp add: add.assoc)
  qed (use Suc.prems(2) in simp)
  ultimately show ?case using Suc.prems(2) by (simp add: add.assoc)
qed simp

lemma name_slots_eq:
  assumes "slots_ok sl" "\<And>j. j < length sl \<Longrightarrow> entry_at blk (32 * (i + j)) = Some (sl ! j)" "0 < m" "m \<le> length sl"
    "length s + 13 * m \<le> VFAT_MAXLEN_BYTES"
  shows "name_slots blk (i + m) s = Some (s @ takeWhile (\<lambda>c. c \<noteq> 0) (concat (map slot_bytes (rev (take m sl)))))"
  using assms(3-5)
proof (induction m arbitrary: s)
  case (Suc m)
  let ?e = "sl ! m"
  have e: "entry_at blk (32 * (i + m)) = Some ?e" using assms(2) [of m] Suc.prems(2) by simp
  have sl: "take (Suc m) sl = take m sl @ [?e]" using Suc.prems(2) by (simp add: take_Suc_conv_app_nth)
  have st: "slot2str ?e s = Some (0 \<in> set (slot_bytes ?e), s @ takeWhile (\<lambda>c. c \<noteq> 0) (slot_bytes ?e))"
    using Suc.prems(3) by (intro slot2str_eq) simp
  have last: "?e ! 0 AND LAST_LONG_ENTRY_MASK \<noteq> 0 \<longleftrightarrow> m = 0"
    using slot_id(2) [OF assms(1), of m] Suc.prems(2) by (auto simp: LAST_LONG_ENTRY_MASK_def)
  show ?case
  proof (cases "0 \<in> set (slot_bytes ?e) \<or> m = 0")
    case True
    then have "takeWhile (\<lambda>c. c \<noteq> 0) (slot_bytes ?e @ concat (map slot_bytes (rev (take m sl)))) = takeWhile (\<lambda>c. c \<noteq> 0) (slot_bytes ?e)"
      by (auto simp: takeWhile_append intro: takeWhile_eq_all_conv [THEN iffD2, symmetric])
    then show ?thesis using True e st last by (simp add: sl)
  next
    case False
    then have tw: "takeWhile (\<lambda>c. c \<noteq> 0) (slot_bytes ?e) = slot_bytes ?e" by (intro takeWhile_eq_all_conv [THEN iffD2]) auto
    show ?thesis using False e st [unfolded tw] last Suc.IH [of "s @ slot_bytes ?e"] Suc.prems by (simp add: sl takeWhile_append)
  qed
qed simp


section \<open>A window of a directory\<close>

text \<open>
  The part of the directory that is in the static block: its entries from index \<open>i\<close> on are those of the disk.
  Entries before \<open>i\<close> may have been overwritten.
\<close>

definition window_from :: "nat \<Rightarrow> bytes list \<Rightarrow> bytes \<Rightarrow> bool" where
  "window_from i es blk \<longleftrightarrow> (\<forall>j. i \<le> j \<and> j < length es \<longrightarrow> entry_at blk (32 * j) = Some (es ! j))"

lemma window_from_mono: "window_from i es blk \<Longrightarrow> i \<le> j \<Longrightarrow> window_from j es blk"
  by (auto simp: window_from_def)

lemma entry_at_rd: "entry_at blk k = Some e \<Longrightarrow> rd blk k = Some (e ! 0)"
  by (auto simp: entry_at_def rd_def split: if_splits)

lemma entry_at_overlay:
  assumes "k + 32 \<le> length blk" "length e = 32"
  shows "entry_at (overlay blk k e) k = Some e" "k + 32 \<le> j \<Longrightarrow> entry_at (overlay blk k e) j = entry_at blk j"
  using assms by (auto simp: entry_at_def overlay_def)

lemma entry_at_length: "entry_at blk k = Some e \<Longrightarrow> length e = 32 \<and> k + 32 \<le> length blk"
  by (auto simp: entry_at_def split: if_splits)

lemma get_vfatname_eq:
  assumes "window_from i es blk" "slots_ok sl" "i + length sl < length es" "\<And>j. j < length sl \<Longrightarrow> es ! (i + j) = sl ! j"
    "32 * length es = unat (sect_size my) * (if cl = 0 then unat PREFETCH_BLOCKS else unat (clust_size my))"
  shows "get_vfatname cl blk (32 * i) f my = Some (long_name sl, overlay blk (32 * i) (es ! (i + length sl)), f, my)"
proof -
  let ?n = "length sl"
  have at: "entry_at blk (32 * (i + j)) = Some (es ! (i + j))" if "j \<le> ?n" for j
    using assms(1,3) that unfolding window_from_def by (meson le_add1 le_less_trans nat_add_left_cancel_le)
  have n: "0 < ?n" "?n \<le> 9" using assms(2) by (simp_all add: slots_ok_def)
  have id0: "rd blk (32 * i) = Some (sl ! 0 ! 0)" using entry_at_rd [OF at [of 0]] assms(4) [of 0] n by simp
  have c: "sl ! 0 ! 0 AND NOT LAST_LONG_ENTRY_MASK = of_nat ?n" using slot_id(1) [OF assms(2), of 0] n by simp
  have cn: "unat (of_nat ?n :: byte) = ?n" using n by (simp add: unat_of_nat take_bit_nat_eq_self_iff)
  have "\<not> (of_nat ?n :: byte) > VFAT_MAXSEQ" using n by (simp add: word_less_nat_alt cn VFAT_MAXSEQ_def)
  moreover have "pass_slots blk (32 * length es) (32 * i) ?n = Some (Some (32 * i + 32 * ?n, 0))"
  proof (rule pass_slots_eq)
    fix j assume j: "j < ?n"
    then show "\<exists>x. rd blk (32 * i + 32 * j) = Some x \<and> x AND NOT LAST_LONG_ENTRY_MASK = of_nat (?n - j)"
      using entry_at_rd [OF at [of j]] assms(4) [of j] slot_id(1) [OF assms(2) j] by (simp add: distrib_left)
  qed (use assms(3) in simp)
  moreover have "name_slots blk (i + ?n) [] = Some (takeWhile (\<lambda>c. c \<noteq> 0) (concat (map slot_bytes (rev sl))))"
    using name_slots_eq [OF assms(2), of blk i ?n "[]"] at assms(4) n by (simp add: VFAT_MAXLEN_BYTES_def)
  moreover have "length (takeWhile (\<lambda>c. c \<noteq> 0) (concat (map slot_bytes (rev sl)))) < VFAT_MAXLEN_BYTES"
  proof -
    have "length (concat (map slot_bytes (rev sl))) = 13 * ?n" by (induction sl) simp_all
    then show ?thesis using takeWhile_length [of "\<lambda>c. c \<noteq> 0" "concat (map slot_bytes (rev sl))"] n by (simp add: VFAT_MAXLEN_BYTES_def)
  qed
  moreover have "entry_at blk (32 * i + 32 * ?n) = Some (es ! (i + ?n))" using at [of ?n] by (simp add: distrib_left)
  moreover have "(32 * i + 32 * ?n) div 32 = i + ?n" "\<not> 32 * length es \<le> 32 * i + 32 * ?n" using assms(3) by simp_all
  ultimately show ?thesis using id0 c cn
    by (simp add: get_vfatname_def assms(5) [symmetric] vfat_finish_def long_name_def Let_def)
qed

section \<open>Looking for a name\<close>

text \<open>
  The slots at index \<open>i\<close> of a window; whether the search for a name passes over the entry at \<open>i\<close>, and whether
  it ends there with the directory entry \<open>r\<close>.
\<close>

definition slots_at :: "bytes list \<Rightarrow> nat \<Rightarrow> bytes list" where
  "slots_at es i = take (unat (es ! i ! 0 AND NOT LAST_LONG_ENTRY_MASK)) (drop i es)"

definition long_at :: "bytes list \<Rightarrow> nat \<Rightarrow> bool" where
  "long_at es i \<longleftrightarrow> de_attr (es ! i) AND ATTR_VOLUME \<noteq> 0 \<and> long_slot (es ! i) \<and> es ! i ! 0 \<noteq> DELETED_FLAG \<and>
     slots_ok (slots_at es i) \<and> i + length (slots_at es i) < length es"

definition short_at :: "bytes list \<Rightarrow> nat \<Rightarrow> bool" where
  "short_at es i \<longleftrightarrow> de_attr (es ! i) AND ATTR_VOLUME = 0 \<and> es ! i ! 0 \<noteq> DELETED_FLAG \<and> es ! i ! 0 \<noteq> 0"

definition passed :: "bytes \<Rightarrow> bytes list \<Rightarrow> nat \<Rightarrow> bool" where
  "passed nm es i \<longleftrightarrow> es ! i ! 0 = DELETED_FLAG \<or> de_attr (es ! i) AND ATTR_VOLUME \<noteq> 0 \<and> \<not> long_slot (es ! i) \<or>
     short_at es i \<and> nm \<noteq> get_name (es ! i) \<or>
     long_at es i \<and> nm \<noteq> long_name (slots_at es i) \<and> nm \<noteq> get_name (es ! (i + length (slots_at es i)))"

definition hit :: "bytes \<Rightarrow> bytes list \<Rightarrow> nat \<Rightarrow> bytes \<Rightarrow> bool" where
  "hit nm es i r \<longleftrightarrow> short_at es i \<and> nm = get_name (es ! i) \<and> r = es ! i \<or>
     long_at es i \<and> (nm = long_name (slots_at es i) \<or> nm = get_name r) \<and> r = es ! (i + length (slots_at es i))"

text \<open>What the steps of the search leave unchanged.\<close>

definition scan_keeps :: "rootscan \<Rightarrow> rootscan \<Rightarrow> bool" where
  "scan_keeps t s \<longleftrightarrow> sm t = sm s \<and> rj t = rj s \<and> cursect t = cursect s \<and> root_cluster t = root_cluster s \<and>
     fmem (sf t) = fmem (sf s) \<and> same_dev (sf t) (sf s) \<and> (blocks_ok (sf s) \<longrightarrow> blocks_ok (sf t))"

lemma scan_keeps_refl [simp]: "scan_keeps s (s\<lparr>dentptr := k\<rparr>)" "scan_keeps (s\<lparr>dentptr := k\<rparr>) s" "scan_keeps s s"
  by (simp_all add: scan_keeps_def)

lemma scan_keeps_trans: "scan_keeps a b \<Longrightarrow> scan_keeps b c \<Longrightarrow> scan_keeps a c"
  by (auto simp: scan_keeps_def same_dev_def)

definition in_window :: "bytes list \<Rightarrow> nat \<Rightarrow> rootscan \<Rightarrow> bool" where
  "in_window es i s \<longleftrightarrow> window_from i es (root_block (sf s)) \<and> dentptr s = 32 * i \<and>
     32 * length es = unat (sect_size (sm s)) * (if root_cluster s = 0 then unat PREFETCH_BLOCKS else unat (clust_size (sm s)))"

lemma slots_at_nth: "j < length (slots_at es i) \<Longrightarrow> es ! (i + j) = slots_at es i ! j"
  by (cases "i \<le> length es") (simp_all add: slots_at_def)

lemma window_at: "window_from i es blk \<Longrightarrow> i \<le> j \<Longrightarrow> j < length es \<Longrightarrow> entry_at blk (32 * j) = Some (es ! j)"
  by (simp add: window_from_def)

lemma vfat_at:
  assumes "in_window es i s" "long_at es i"
  shows "get_vfatname (root_cluster s) (root_block (sf s)) (dentptr s) (sf s) (sm s) =
    Some (long_name (slots_at es i), overlay (root_block (sf s)) (32 * i) (es ! (i + length (slots_at es i))), sf s, sm s)"
  using assms get_vfatname_eq [of i es "root_block (sf s)" "slots_at es i"] slots_at_nth
  by (auto simp: in_window_def long_at_def)

lemma root_step_cases:
  assumes "in_window es i s" "i < length es" "nm \<noteq> []" "blocks_ok (sf s)"
  shows "passed nm es i \<Longrightarrow> \<exists>t. root_step nm 0 isdir s = Some (Skip, t) \<and> scan_keeps t s \<and> in_window es (Suc i) t"
    and "hit nm es i r \<Longrightarrow> \<not> isdir \<Longrightarrow> \<exists>t. root_step nm 0 isdir s = Some (Found r, t) \<and> scan_keeps t s"
proof -
  have at: "entry_at (root_block (sf s)) (dentptr s) = Some (es ! i)" using assms(1,2) by (simp add: in_window_def window_from_def)
  define t where "t = s\<lparr>dentptr := dentptr s + 32\<rparr>"
  have t: "scan_keeps t s" "in_window es (Suc i) t"
    using assms(1) window_from_mono [of i es "root_block (sf s)" "Suc i"] by (auto simp: t_def in_window_def)
  define real where "real = es ! (i + length (slots_at es i))"
  define u where "u = s\<lparr>sf := (sf s)\<lparr>root_block := overlay (root_block (sf s)) (32 * i) real\<rparr>, sm := sm s, prevcksum := ucast (es ! i ! 13)\<rparr>"
  have u: "scan_keeps u s" "entry_at (root_block (sf u)) (dentptr u) = Some real" "in_window es (Suc i) (u\<lparr>dentptr := dentptr u + 32\<rparr>)"
    if "long_at es i"
  proof -
    have r: "entry_at (root_block (sf s)) (32 * (i + length (slots_at es i))) = Some real"
      using window_at [of i es "root_block (sf s)" "i + length (slots_at es i)"] assms(1) that
      unfolding in_window_def long_at_def real_def by simp
    have l: "32 * i + 32 \<le> length (root_block (sf s))" "length real = 32"
      using entry_at_length [OF at] entry_at_length [OF r] assms(1) by (simp_all add: in_window_def)
    note o = entry_at_overlay [OF l]
    show "scan_keeps u s" using l by (simp add: u_def scan_keeps_def same_dev_def blocks_ok_def)
    show "entry_at (root_block (sf u)) (dentptr u) = Some real" using o(1) assms(1) by (simp add: u_def in_window_def)
    show "in_window es (Suc i) (u\<lparr>dentptr := dentptr u + 32\<rparr>)"
      using assms(1) o(2) by (auto simp: u_def in_window_def window_from_def)
  qed
  have short: "root_step nm 0 isdir s = Some (if nm \<noteq> get_name (es ! i) then (Skip, t)
      else if isdir \<and> de_attr (es ! i) AND ATTR_DIR = 0 then (Exit (-1), s) else (Found (es ! i), s))" if "short_at es i"
    using that at assms(3) by (auto simp: root_step_def short_at_def t_def)
  have long: "root_step nm 0 isdir s = Some (if nm \<noteq> get_name real \<and> nm \<noteq> long_name (slots_at es i) then (Skip, u\<lparr>dentptr := dentptr u + 32\<rparr>)
      else if isdir \<and> de_attr real AND ATTR_DIR = 0 then (Exit (-1), u) else (Found real, u))" if "long_at es i"
  proof -
    have "de_attr (es ! i) AND ATTR_VOLUME \<noteq> 0" "long_slot (es ! i)" "es ! i ! 0 \<noteq> DELETED_FLAG"
      using that by (simp_all add: long_at_def)
    then show ?thesis using at vfat_at [OF assms(1) that] u(2) [OF that]
      by (auto simp: root_step_def Let_def real_def [symmetric] u_def)
  qed
  have other: "root_step nm 0 isdir s = Some (Skip, t)"
    if "es ! i ! 0 = DELETED_FLAG \<or> de_attr (es ! i) AND ATTR_VOLUME \<noteq> 0 \<and> \<not> long_slot (es ! i)"
    using that at by (auto simp: root_step_def Let_def t_def)
  show "passed nm es i \<Longrightarrow> \<exists>t. root_step nm 0 isdir s = Some (Skip, t) \<and> scan_keeps t s \<and> in_window es (Suc i) t"
    using short long other t u scan_keeps_trans [of "u\<lparr>dentptr := dentptr u + 32\<rparr>" u s] unfolding passed_def
    by (auto simp: real_def)
  show "hit nm es i r \<Longrightarrow> \<not> isdir \<Longrightarrow> \<exists>t. root_step nm 0 isdir s = Some (Found r, t) \<and> scan_keeps t s"
    using short long u(1) unfolding hit_def by (auto simp: real_def)
qed

lemma root_entries_pass:
  assumes "in_window es i s" "i + n \<le> length es" "nm \<noteq> []" "blocks_ok (sf s)" "\<And>j. i \<le> j \<Longrightarrow> j < i + n \<Longrightarrow> passed nm es j"
  shows "\<exists>t. root_entries nm 0 isdir n s = Some (Skip, t) \<and> scan_keeps t s \<and> in_window es (i + n) t"
  using assms
proof (induction n arbitrary: i s)
  case (Suc n)
  obtain t where t: "root_step nm 0 isdir s = Some (Skip, t)" "scan_keeps t s" "in_window es (Suc i) t"
    using root_step_cases(1) [OF Suc.prems(1) _ Suc.prems(3,4)] Suc.prems(2,5) by force
  moreover have "\<exists>u. root_entries nm 0 isdir n t = Some (Skip, u) \<and> scan_keeps u t \<and> in_window es (Suc i + n) u"
    using Suc.prems t by (intro Suc.IH) (auto simp: scan_keeps_def)
  ultimately show ?case using scan_keeps_trans by fastforce
qed simp

lemma root_entries_hit:
  assumes "in_window es i s" "h < i + n" "h < length es" "i \<le> h" "nm \<noteq> []" "blocks_ok (sf s)"
    "\<And>j. i \<le> j \<Longrightarrow> j < h \<Longrightarrow> passed nm es j" "hit nm es h r"
  shows "\<exists>t. root_entries nm 0 False n s = Some (Found r, t) \<and> scan_keeps t s"
  using assms
proof (induction n arbitrary: i s)
  case (Suc n)
  show ?case
  proof (cases "i = h")
    case True
    then show ?thesis using root_step_cases(2) [OF Suc.prems(1) _ Suc.prems(5,6), of r False] Suc.prems(3,8) by force
  next
    case False
    obtain t where t: "root_step nm 0 False s = Some (Skip, t)" "scan_keeps t s" "in_window es (Suc i) t"
      using root_step_cases(1) [OF Suc.prems(1) _ Suc.prems(5,6)] Suc.prems(3,4,7) False by force
    moreover have "\<exists>u. root_entries nm 0 False n t = Some (Found r, u) \<and> scan_keeps u t"
      using Suc.prems t False by (intro Suc.IH [of "Suc i"]) (auto simp: scan_keeps_def)
    ultimately show ?thesis using scan_keeps_trans by fastforce
  qed
qed simp

text \<open>The entries of the sectors of a window.\<close>

definition entries :: "bytes \<Rightarrow> bytes list" where
  "entries bs = map (\<lambda>i. take 32 (drop (32 * i) bs)) [0..<length bs div 32]"

definition win_sectors :: "fsdata \<Rightarrow> nat" where
  "win_sectors my = (if fatsize my = 32 then unat (clust_size my) else 2)"

definition dir_keeps :: "rootscan \<Rightarrow> rootscan \<Rightarrow> bool" where
  "dir_keeps t s \<longleftrightarrow> sm t = sm s \<and> fmem (sf t) = fmem (sf s) \<and> same_dev (sf t) (sf s) \<and> (blocks_ok (sf s) \<longrightarrow> blocks_ok (sf t))"

lemma entries_length [simp]: "length (entries bs) = length bs div 32"
  by (simp add: entries_def)

lemma window_entries: "length bs \<le> length blk \<Longrightarrow> window_from 0 (entries bs) (overlay blk 0 bs)"
  by (auto simp: window_from_def entries_def entry_at_def overlay_def)

lemma root_loop_fetched:
  "root_fetch s0 = Some (True, s) \<Longrightarrow> root_loop nm dols isdir dirsize s0 = do {
     (r, s) \<leftarrow> root_entries nm dols isdir (unat (sect_size (sm s)) div 32) s;
     (case r of
        Skip \<Rightarrow> do {
          (rootdir_end, s) \<leftarrow> root_advance dirsize s;
          if rootdir_end then Some (if dols = 2 then (Exit 0, print_count s) else (Exit (-1), s))
          else root_loop nm dols isdir dirsize s }
      | _ \<Rightarrow> Some (r, s)) }"
  by (subst root_loop.simps) simp

text \<open>The next sector of the same window.\<close>

lemma root_advance_inside:
  assumes "Suc (rj s) < win_sectors (sm s)" "fatsize (sm s) = 32 \<or> cursect s + 1 - rootdir_sect (sm s) < dirsize"
  shows "\<exists>t. root_advance dirsize s = Some (False, t) \<and> rj t = Suc (rj s) \<and> root_fetch t = Some (True, t) \<and> dir_keeps t s \<and>
    root_cluster t = root_cluster s \<and> root_block (sf t) = root_block (sf s) \<and> dentptr t = dentptr s \<and>
    cursect t = (if fatsize (sm s) = 32 then cursect s else cursect s + 1)"
  using assms
  by (auto simp: root_advance_def win_sectors_def root_fetch_def dir_keeps_def PREFETCH_BLOCKS_def same_dev_def Let_def split: if_splits)

text \<open>At sector \<open>j\<close> of a window that has been read.\<close>

definition at_sector :: "bytes list \<Rightarrow> nat \<Rightarrow> u32 \<Rightarrow> rootscan \<Rightarrow> bool" where
  "at_sector es j dirsize s \<longleftrightarrow> rj s = j \<and> j < win_sectors (sm s) \<and> in_window es (j * (unat (sect_size (sm s)) div 32)) s \<and>
     length es = win_sectors (sm s) * (unat (sect_size (sm s)) div 32) \<and> blocks_ok (sf s) \<and>
     (fatsize (sm s) = 32 \<or> j \<noteq> 0 \<or> cursect s + 1 - rootdir_sect (sm s) < dirsize)"

lemma dir_keeps_trans: "dir_keeps a b \<Longrightarrow> dir_keeps b c \<Longrightarrow> dir_keeps a c"
  by (auto simp: dir_keeps_def same_dev_def)

lemma scan_dir_keeps: "scan_keeps t s \<Longrightarrow> dir_keeps t s"
  by (simp add: scan_keeps_def dir_keeps_def)

text \<open>A sector without the name leads to the next one of the window.\<close>

lemma sector_pass:
  assumes "root_fetch s0 = Some (True, s)" "at_sector es j dirsize s" "nm \<noteq> []"
    "\<And>k. j * (unat (sect_size (sm s)) div 32) \<le> k \<Longrightarrow> k < Suc j * (unat (sect_size (sm s)) div 32) \<Longrightarrow> passed nm es k"
  shows "\<exists>u. root_entries nm 0 isdir (unat (sect_size (sm s)) div 32) s = Some (Skip, u) \<and> scan_keeps u s \<and>
      in_window es (Suc j * (unat (sect_size (sm s)) div 32)) u"
    and "Suc j < win_sectors (sm s) \<Longrightarrow> \<exists>t. root_loop nm 0 isdir dirsize s0 = root_loop nm 0 isdir dirsize t \<and>
      root_fetch t = Some (True, t) \<and> at_sector es (Suc j) dirsize t \<and> dir_keeps t s \<and> root_cluster t = root_cluster s \<and>
      cursect t = (if fatsize (sm s) = 32 then cursect s else cursect s + 1)"
proof -
  let ?p = "unat (sect_size (sm s)) div 32"
  have "j * ?p + ?p \<le> length es"
    using assms(2) mult_le_mono1 [of "Suc j" "win_sectors (sm s)" ?p] by (simp add: at_sector_def)
  then obtain u where u: "root_entries nm 0 isdir ?p s = Some (Skip, u)" "scan_keeps u s" "in_window es (j * ?p + ?p) u"
    using root_entries_pass [of es "j * ?p" s ?p nm isdir] assms(2-4) by (auto simp: at_sector_def)
  then show "\<exists>u. root_entries nm 0 isdir ?p s = Some (Skip, u) \<and> scan_keeps u s \<and> in_window es (Suc j * ?p) u"
    by (auto simp: add.commute)
  assume j: "Suc j < win_sectors (sm s)"
  have "fatsize (sm u) = 32 \<or> cursect u + 1 - rootdir_sect (sm u) < dirsize"
    using assms(2) u(2) j by (auto simp: at_sector_def scan_keeps_def win_sectors_def split: if_splits)
  then obtain t where t: "root_advance dirsize u = Some (False, t)" "rj t = Suc (rj u)" "root_fetch t = Some (True, t)" "dir_keeps t u"
    "root_cluster t = root_cluster u" "root_block (sf t) = root_block (sf u)" "dentptr t = dentptr u"
    "cursect t = (if fatsize (sm u) = 32 then cursect u else cursect u + 1)"
    using root_advance_inside [of u dirsize] j assms(2) u(2) by (auto simp: at_sector_def scan_keeps_def)
  have "at_sector es (Suc j) dirsize t"
    using t assms(2) u(2,3) j by (auto simp: at_sector_def scan_keeps_def dir_keeps_def in_window_def add.commute)
  moreover have "root_loop nm 0 isdir dirsize s0 = root_loop nm 0 isdir dirsize t"
    using u(1) t(1) by (simp add: root_loop_fetched [OF assms(1)])
  ultimately show "\<exists>t. root_loop nm 0 isdir dirsize s0 = root_loop nm 0 isdir dirsize t \<and>
      root_fetch t = Some (True, t) \<and> at_sector es (Suc j) dirsize t \<and> dir_keeps t s \<and> root_cluster t = root_cluster s \<and>
      cursect t = (if fatsize (sm s) = 32 then cursect s else cursect s + 1)"
    using t u(2) dir_keeps_trans [OF t(4) scan_dir_keeps [OF u(2)]] by (auto simp: scan_keeps_def)
qed

lemma window_search:
  assumes "root_fetch s0 = Some (True, s)" "at_sector es j dirsize s" "nm \<noteq> []" "j * (unat (sect_size (sm s)) div 32) \<le> h" "h < length es"
    "\<And>k. j * (unat (sect_size (sm s)) div 32) \<le> k \<Longrightarrow> k < h \<Longrightarrow> passed nm es k" "hit nm es h r"
  shows "\<exists>t. root_loop nm 0 False dirsize s0 = Some (Found r, t) \<and> dir_keeps t s"
  using assms
proof (induction "win_sectors (sm s) - j" arbitrary: j s0 s rule: less_induct)
  case less
  let ?p = "unat (sect_size (sm s)) div 32"
  show ?case
  proof (cases "h < Suc j * ?p")
    case True
    then obtain t where "root_entries nm 0 False ?p s = Some (Found r, t)" "scan_keeps t s"
      using root_entries_hit [of es "j * ?p" s h ?p nm r] less.prems by (auto simp: at_sector_def add.commute)
    then show ?thesis using scan_dir_keeps by (auto simp: root_loop_fetched [OF less.prems(1)])
  next
    case False
    have "Suc j * ?p < win_sectors (sm s) * ?p" using False less.prems(2,5) by (simp add: at_sector_def)
    then have j: "Suc j < win_sectors (sm s)" by (simp only: mult_less_cancel2)
    obtain t where t: "root_loop nm 0 False dirsize s0 = root_loop nm 0 False dirsize t" "root_fetch t = Some (True, t)"
      "at_sector es (Suc j) dirsize t" "dir_keeps t s"
      using sector_pass(2) [OF less.prems(1,2,3) _ j, of False] less.prems(6) False by force
    have sm: "sm t = sm s" using t(4) by (simp add: dir_keeps_def)
    have "\<exists>u. root_loop nm 0 False dirsize t = Some (Found r, u) \<and> dir_keeps u t"
      using less.prems False j sm by (intro less.hyps [OF _ t(2,3)]) auto
    then show ?thesis using t(1) dir_keeps_trans [OF _ t(4)] by auto
  qed
qed

lemma window_pass:
  assumes "root_fetch s0 = Some (True, s)" "at_sector es j dirsize s" "nm \<noteq> []"
    "\<And>k. j * (unat (sect_size (sm s)) div 32) \<le> k \<Longrightarrow> k < length es \<Longrightarrow> passed nm es k"
  shows "\<exists>u. root_loop nm 0 False dirsize s0 = do { (e, t) \<leftarrow> root_advance dirsize u;
        if e then Some (Exit (-1), t) else root_loop nm 0 False dirsize t } \<and>
    Suc (rj u) = win_sectors (sm s) \<and> dir_keeps u s \<and> root_cluster u = root_cluster s \<and>
    cursect u = (if fatsize (sm s) = 32 then cursect s else cursect s + of_nat (1 - j))"
  using assms
proof (induction "win_sectors (sm s) - j" arbitrary: j s0 s rule: less_induct)
  case less
  let ?p = "unat (sect_size (sm s)) div 32"
  have js: "j < win_sectors (sm s)" "rj s = j" "length es = win_sectors (sm s) * ?p" using less.prems(2) by (simp_all add: at_sector_def)
  have pass: "passed nm es k" if "j * ?p \<le> k" "k < Suc j * ?p" for k
  proof -
    have "Suc j * ?p \<le> length es" unfolding js(3) using js(1) by (intro mult_le_mono1) simp
    then show ?thesis using less.prems(4) that by simp
  qed
  show ?case
  proof (cases "Suc j = win_sectors (sm s)")
    case True
    obtain u where u: "root_entries nm 0 False ?p s = Some (Skip, u)" "scan_keeps u s"
      using sector_pass(1) [OF less.prems(1,2,3) pass] by blast
    have "root_loop nm 0 False dirsize s0 = do { (e, t) \<leftarrow> root_advance dirsize u;
        if e then Some (Exit (-1), t) else root_loop nm 0 False dirsize t }"
      using u(1) by (simp add: root_loop_fetched [OF less.prems(1)] cong: if_cong)
    moreover have "fatsize (sm s) = 32 \<or> j = 1" using True by (auto simp: win_sectors_def split: if_splits)
    ultimately show ?thesis using u(2) js(2) True scan_dir_keeps [OF u(2)] by (intro exI [of _ u]) (auto simp: scan_keeps_def)
  next
    case False
    then have j: "Suc j < win_sectors (sm s)" using js(1) by simp
    obtain t where t: "root_loop nm 0 False dirsize s0 = root_loop nm 0 False dirsize t" "root_fetch t = Some (True, t)"
      "at_sector es (Suc j) dirsize t" "dir_keeps t s" "root_cluster t = root_cluster s"
      "cursect t = (if fatsize (sm s) = 32 then cursect s else cursect s + 1)"
      using sector_pass(2) [OF less.prems(1,2,3) pass j] by blast
    have sm: "sm t = sm s" using t(4) by (simp add: dir_keeps_def)
    have "fatsize (sm s) = 32 \<or> j = 0" using j by (auto simp: win_sectors_def split: if_splits)
    moreover have "passed nm es k" if "Suc j * ?p \<le> k" "k < length es" for k using less.prems(4) [of k] that by simp
    ultimately show ?thesis using less.hyps [OF _ t(2,3) less.prems(3)] j sm t(1,5,6) dir_keeps_trans [OF _ t(4)] by fastforce
  qed
qed

section \<open>The windows of the root directory\<close>

text \<open>
  A window is the sector it starts at and its cluster (0 for the root directory of FAT12 and FAT16, which
  is read two sectors at a time). All windows lie inside the volume and the directory.
\<close>

definition win_ok :: "(nat \<Rightarrow> bytes) \<Rightarrow> fsdata \<Rightarrow> nat \<Rightarrow> u32 \<Rightarrow> u32 \<times> u32 \<Rightarrow> bool" where
  "win_ok V my N dirsize x \<longleftrightarrow> (case x of (c, cl) \<Rightarrow> unat c + win_sectors my \<le> N \<and>
     (if fatsize my = 32 then cl \<noteq> 0 \<and> 32 * Suc (unat cl) \<le> 8 * length (fat_table V my)
      else cl = 0 \<and> c + 1 - rootdir_sect my < dirsize))"

definition win_next :: "(nat \<Rightarrow> bytes) \<Rightarrow> fsdata \<Rightarrow> u32 \<Rightarrow> u32 \<times> u32 \<Rightarrow> u32 \<times> u32 \<Rightarrow> bool" where
  "win_next V my dirsize x y \<longleftrightarrow> (case (x, y) of ((c, cl), (c', cl')) \<Rightarrow>
     if fatsize my = 32 then unat cl' = fat_ref 32 (fat_table V my) (unat cl) \<and> \<not> CHECK_CLUST cl' 32 \<and>
       c' = data_begin my + cl' * ucast (clust_size my)
     else c' = c + 2 \<and> cl' = 0 \<and> c' - rootdir_sect my < dirsize)"

fun dir_windows :: "(nat \<Rightarrow> bytes) \<Rightarrow> fsdata \<Rightarrow> nat \<Rightarrow> u32 \<Rightarrow> (u32 \<times> u32) list \<Rightarrow> bool" where
  "dir_windows V my N dirsize [] \<longleftrightarrow> False"
| "dir_windows V my N dirsize [x] \<longleftrightarrow> win_ok V my N dirsize x"
| "dir_windows V my N dirsize (x # y # ws) \<longleftrightarrow> win_ok V my N dirsize x \<and> win_next V my dirsize x y \<and> dir_windows V my N dirsize (y # ws)"

definition win_entries :: "(nat \<Rightarrow> bytes) \<Rightarrow> fsdata \<Rightarrow> u32 \<times> u32 \<Rightarrow> bytes list" where
  "win_entries V my x = entries (sectors V (unat (fst x)) (win_sectors my))"

lemma same_params_windows:
  assumes "same_params my' my"
  shows "win_sectors my' = win_sectors my" "win_entries V my' = win_entries V my" "dir_windows V my' N dirsize ws = dir_windows V my N dirsize ws"
proof -
  show t: "win_sectors my' = win_sectors my" using same_paramsD [OF assms] by (simp add: win_sectors_def)
  then show "win_entries V my' = win_entries V my" by (simp add: win_entries_def fun_eq_iff)
  have "win_ok V my' N dirsize x = win_ok V my N dirsize x" "win_next V my' dirsize x y = win_next V my dirsize x y" for x y
    using same_paramsD [OF assms] same_params_data [OF assms] t by (simp_all add: win_ok_def win_next_def)
  then show "dir_windows V my' N dirsize ws = dir_windows V my N dirsize ws"
    by (induction V my N dirsize ws rule: dir_windows.induct) simp_all
qed

text \<open>What the search of the root directory relies on.\<close>

definition root_state :: "fat \<Rightarrow> (nat \<Rightarrow> bytes) \<Rightarrow> nat \<Rightarrow> nat \<Rightarrow> rootscan \<Rightarrow> bool" where
  "root_state f V N s r \<longleftrightarrow> same_dev (sf r) f \<and> blocks_ok (sf r) \<and> fs_ok V N s (sm r) \<and> 32 dvd s \<and> 2 * s \<le> MAX_CLUSTSIZE"

context volume begin

lemma root_fetch_ok:
  assumes "root_state f V N s r" "rj r = 0" "win_ok V (sm r) N dirsize (cursect r, root_cluster r)"
  shows "\<exists>t. root_fetch r = Some (True, t) \<and> at_sector (win_entries V (sm r) (cursect r, root_cluster r)) 0 dirsize t \<and> dir_keeps t r \<and>
    root_cluster t = root_cluster r \<and> cursect t = cursect r"
proof -
  define w d where wd: "w = win_sectors (sm r)" "d = sectors V (unat (cursect r)) w"
  have sz: "unat (sect_size (sm r)) = s" "w * s \<le> MAX_CLUSTSIZE" "0 < w" "w < 2 ^ 31"
    using assms(1) volume_size assms(3) fs_ok_sizes [of "sm r"] by (auto simp: root_state_def wd win_sectors_def fs_ok_def table_ok_def win_ok_def)
  have n: "(if fatsize (sm r) = 32 then ucast (clust_size (sm r)) else PREFETCH_BLOCKS) = (of_nat w :: u32)"
    by (simp add: wd win_sectors_def PREFETCH_BLOCKS_def)
  have rd: "disk_read (sf r) (cursect r) (of_nat w) = (int w, d)"
    using read_same [of "sf r" "unat (cursect r)" w] assms(1,3) by (simp add: root_state_def win_ok_def wd)
  define t where "t = r\<lparr>sf := (sf r)\<lparr>root_block := overlay (root_block (sf r)) 0 d\<rparr>, dentptr := 0\<rparr>"
  have ld: "length d = w * s" "length d \<le> length (root_block (sf r))" using sz(2) assms(1) by (simp_all add: wd(2) root_state_def blocks_ok_def)
  have f: "root_fetch r = Some (True, t)"
    using assms(2) ld(2) unfolding root_fetch_def n Let_def rd by (simp add: put_buf_def into_def t_def)
  have "window_from 0 (entries d) (overlay (root_block (sf r)) 0 d)" using ld(2) by (rule window_entries)
  moreover have wc: "(if root_cluster r = 0 then unat PREFETCH_BLOCKS else unat (clust_size (sm r))) = w"
    using assms(3) by (auto simp: win_ok_def wd win_sectors_def PREFETCH_BLOCKS_def split: if_splits)
  have "32 * length (entries d) = s * (if root_cluster r = 0 then unat PREFETCH_BLOCKS else unat (clust_size (sm r)))"
    unfolding wc using assms(1) ld(1) by (auto simp: root_state_def)
  moreover have "length (entries d) = w * (s div 32)" using assms(1) ld(1) by (simp add: root_state_def div_mult_swap)
  moreover have "fatsize (sm r) = 32 \<or> cursect r + 1 - rootdir_sect (sm r) < dirsize"
    using assms(3) by (auto simp: win_ok_def split: if_splits)
  ultimately have "at_sector (win_entries V (sm r) (cursect r, root_cluster r)) 0 dirsize t"
    using ld sz assms(1,2) by (simp add: at_sector_def in_window_def t_def win_entries_def wd [symmetric] root_state_def blocks_ok_def)
  then show ?thesis using f ld(2) assms(1) by (auto simp: t_def dir_keeps_def same_dev_def blocks_ok_def)
qed

end

context volume begin

lemma root_state_keeps:
  assumes "root_state f V N s r" "dir_keeps t r"
  shows "root_state f V N s t"
  using assms by (auto simp: root_state_def dir_keeps_def same_dev_def)

lemma window_advance:
  assumes "root_state f V N s u" "Suc (rj u) = win_sectors (sm u)" "win_ok V (sm u) N dirsize (c, cl)" "win_next V (sm u) dirsize (c, cl) (c', cl')"
    "root_cluster u = cl" "cursect u = (if fatsize (sm u) = 32 then c else c + 1)"
  shows "\<exists>t. root_advance dirsize u = Some (False, t) \<and> rj t = 0 \<and> cursect t = c' \<and> root_cluster t = cl' \<and> root_state f V N s t \<and>
    fmem (sf t) = fmem (sf u) \<and> same_params (sm t) (sm u)"
proof (cases "fatsize (sm u) = 32")
  case False
  then have "rj u = 1" "c' = c + 2" "cl' = 0" "c' - rootdir_sect (sm u) < dirsize" "cl = 0"
    using assms(2,3,4) by (auto simp: win_sectors_def win_next_def win_ok_def)
  then show ?thesis using False assms(1,5,6) same_params_refl
    by (auto simp: root_advance_def Let_def PREFETCH_BLOCKS_def root_state_def add.assoc)
next
  case True
  have cl: "32 * Suc (unat cl) \<le> 8 * length (fat_table V (sm u))" "unat cl' = fat_ref 32 (fat_table V (sm u)) (unat cl)"
    "\<not> CHECK_CLUST cl' 32" "c' = data_begin (sm u) + cl' * ucast (clust_size (sm u))"
    using True assms(3,4) by (auto simp: win_next_def win_ok_def)
  have "volume (sf u) V N s" using assms(1) same_dev_volume by (simp add: root_state_def)
  then obtain v my where v: "get_fatent (sf u) cl (sm u) = Some (v, my)" "unat v = fat_ref 32 (fat_table V (sm u)) (unat cl)"
    "same_params my (sm u)" "table_ok my N s" "cache_ok V s my"
    using volume.get_fatent_ok [of "sf u" V N s "sm u" cl] assms(1) cl(1) True by (auto simp: root_state_def fs_ok_def)
  then have "v = cl'" using cl(2) by (simp add: word_unat_eq_iff)
  then show ?thesis using v True assms(1,2,5) cl(3,4) same_paramsD [OF v(3)]
    by (auto simp: root_advance_def Let_def win_sectors_def root_state_def fs_ok_def)
qed

lemma root_search:
  assumes "dir_windows V (sm r) N dirsize (ws @ [x])" "(cursect r, root_cluster r) = hd (ws @ [x])" "rj r = 0" "root_state f V N s r" "nm \<noteq> []"
    "\<And>y k. y \<in> set ws \<Longrightarrow> k < length (win_entries V (sm r) y) \<Longrightarrow> passed nm (win_entries V (sm r) y) k"
    "h < length (win_entries V (sm r) x)" "\<And>k. k < h \<Longrightarrow> passed nm (win_entries V (sm r) x) k" "hit nm (win_entries V (sm r) x) h e"
  shows "\<exists>t. root_loop nm 0 False dirsize r = Some (Found e, t) \<and> root_state f V N s t \<and> fmem (sf t) = fmem (sf r) \<and> same_params (sm t) (sm r)"
  using assms
proof (induction ws arbitrary: r)
  case Nil
  then obtain t where t: "root_fetch r = Some (True, t)" "at_sector (win_entries V (sm r) x) 0 dirsize t" "dir_keeps t r"
    using root_fetch_ok [of r dirsize] by auto
  obtain u where "root_loop nm 0 False dirsize r = Some (Found e, u)" "dir_keeps u t"
    using window_search [OF t(1,2) Nil.prems(5) _ Nil.prems(7) _ Nil.prems(9)] Nil.prems(8) by auto
  then show ?case using dir_keeps_trans [of u t r] t(3) root_state_keeps [OF Nil.prems(4)] same_params_refl
    by (auto simp: dir_keeps_def)
next
  case (Cons y ws)
  obtain z zs where z: "ws @ [x] = z # zs" by (cases "ws @ [x]") auto
  have w: "win_ok V (sm r) N dirsize y" "win_next V (sm r) dirsize y z" "dir_windows V (sm r) N dirsize (ws @ [x])"
    using Cons.prems(1) by (simp_all add: z)
  have y: "y = (cursect r, root_cluster r)" using Cons.prems(2) by simp
  obtain t where t: "root_fetch r = Some (True, t)" "at_sector (win_entries V (sm r) y) 0 dirsize t" "dir_keeps t r"
    "root_cluster t = root_cluster r" "cursect t = cursect r"
    using root_fetch_ok [OF Cons.prems(4,3), of dirsize] w(1) y by auto
  obtain u where u: "root_loop nm 0 False dirsize r = do { (e, t) \<leftarrow> root_advance dirsize u;
        if e then Some (Exit (-1), t) else root_loop nm 0 False dirsize t }"
    "Suc (rj u) = win_sectors (sm t)" "dir_keeps u t" "root_cluster u = root_cluster t"
    "cursect u = (if fatsize (sm t) = 32 then cursect t else cursect t + 1)"
    using window_pass [OF t(1,2) Cons.prems(5)] Cons.prems(6) [of y] by auto
  have ur: "dir_keeps u r" using dir_keeps_trans [OF u(3) t(3)] .
  have sm: "sm u = sm r" "sm t = sm r" using ur t(3) by (simp_all add: dir_keeps_def)
  have cu: "cursect u = (if fatsize (sm u) = 32 then cursect r else cursect r + 1)" using u(5) t(5) sm by simp
  obtain q where q: "root_advance dirsize u = Some (False, q)" "rj q = 0" "(cursect q, root_cluster q) = z" "root_state f V N s q"
    "fmem (sf q) = fmem (sf u)" "same_params (sm q) (sm u)"
    using window_advance [OF root_state_keeps [OF Cons.prems(4) ur] _ _ _ _ cu, of dirsize "root_cluster r" "fst z" "snd z"] w(1,2) u(2,4) t(4) sm y
    by auto
  note p = same_params_windows [OF q(6), unfolded sm]
  have "\<exists>v. root_loop nm 0 False dirsize q = Some (Found e, v) \<and> root_state f V N s v \<and> fmem (sf v) = fmem (sf q) \<and> same_params (sm v) (sm q)"
    using w(3) q(2-4) Cons.prems(5-9) by (intro Cons.IH) (simp_all add: p z)
  then show ?case using u(1) q(1,5,6) ur sm same_params_trans by (auto simp: dir_keeps_def)
qed

end

section \<open>Reading a file of the root directory\<close>

text \<open>
  A mounted volume: the boot sector gives the parameters \<open>my\<close>, the sector size is the block size of the
  partition, there is memory for the buffer of the table, and the windows \<open>ws\<close> and \<open>x\<close> of the root directory start where
  the code looks for it.
\<close>

definition mounted :: "fat \<Rightarrow> (nat \<Rightarrow> bytes) \<Rightarrow> nat \<Rightarrow> nat \<Rightarrow> fsdata \<Rightarrow> u32 \<Rightarrow> (u32 \<times> u32) list \<Rightarrow> bool" where
  "mounted f V N s my dirsize ws \<longleftrightarrow>
     (case read_bootsectandvi f of
        Some (Some (bs, vi, fsize)) \<Rightarrow>
          (case memalign f (FATBUFSIZE (fs_params bs fsize)) of
             Some b \<Rightarrow> my = (fs_params bs fsize)\<lparr>fatbuf := b\<rparr> \<and> dirsize = rootdir_size bs my \<and>
               hd ws = (rootdir_sect my, if fsize = 32 then bs_root_cluster bs else 0)
           | None \<Rightarrow> False)
      | _ \<Rightarrow> False) \<and>
     ucast (sect_size my) = part_blksz (cur_part_info f) \<and> blocks_ok f \<and> fs_ok V N s my \<and> dir_windows V my N dirsize ws \<and>
     32 dvd s \<and> 2 * s \<le> MAX_CLUSTSIZE"

text \<open>The name is found in the last of the windows, at index \<open>h\<close>; the entries before are passed over.\<close>

definition found_in :: "bytes \<Rightarrow> (nat \<Rightarrow> bytes) \<Rightarrow> fsdata \<Rightarrow> (u32 \<times> u32) list \<Rightarrow> nat \<Rightarrow> bytes \<Rightarrow> bool" where
  "found_in nm V my ws h e \<longleftrightarrow>
     list_all (\<lambda>y. \<forall>k<length (win_entries V my y). passed nm (win_entries V my y) k) (butlast ws) \<and>
     h < length (win_entries V my (last ws)) \<and> (\<forall>k<h. passed nm (win_entries V my (last ws)) k) \<and> hit nm (win_entries V my (last ws)) h e"

lemma root_file_read:
  assumes "volume f V N s" "mounted f V N s my dirsize ws" "fname = dropWhile ISDIRDELIM filename" "nm = downcase fname" "nm \<noteq> []"
    "dirdelim nm = None" "length fname < 2048" "found_in nm V my ws h e" "fat_chain V my N (START my e # rest)"
    "F = unat (FAT2CPU32 (de_size e))" "F \<le> length (START my e # rest) * unat (bytesperclust my)" "F < 2 ^ 31"
    "unat pos + unat maxsize < 2 ^ 32" "n = read_len F (unat pos) (unat maxsize)"
  shows "\<exists>f'. do_fat_read_at filename pos a maxsize 0 f = Some (int n, f') \<and>
    fmem f' = st_bytes (fmem f) a (take n (drop (unat pos) (chain_data V my (START my e # rest))))"
proof -
  obtain bs vi fsize b where b: "read_bootsectandvi f = Some (Some (bs, vi, fsize))" "memalign f (FATBUFSIZE (fs_params bs fsize)) = Some b"
    "my = (fs_params bs fsize)\<lparr>fatbuf := b\<rparr>" "dirsize = rootdir_size bs my"
    "hd ws = (rootdir_sect my, if fsize = 32 then bs_root_cluster bs else 0)"
    using assms(2) by (auto simp: mounted_def split: option.splits)
  have m: "ucast (sect_size my) = part_blksz (cur_part_info f)" "blocks_ok f" "fs_ok V N s my" "dir_windows V my N dirsize ws"
    "32 dvd s" "2 * s \<le> MAX_CLUSTSIZE" using assms(2) by (simp_all add: mounted_def)
  define r where "r = \<lparr>sf = f, sm = my, prevcksum = 0xffff, files = 0, dirs = 0, rj = 0, cursect = rootdir_sect my,
     root_cluster = (if fsize = 32 then bs_root_cluster bs else 0), dentptr = 0\<rparr>"
  have ws: "ws = butlast ws @ [last ws]" using m(4) by (cases ws) auto
  have "root_state f V N s r" using m by (simp add: root_state_def r_def)
  then obtain t where t: "root_loop nm 0 False dirsize r = Some (Found e, t)" "root_state f V N s t" "fmem (sf t) = fmem f" "same_params (sm t) my"
    using volume.root_search [OF assms(1), of r dirsize "butlast ws" "last ws" nm h e] m(4) assms(5,8) ws b(5)
    by (auto simp: r_def found_in_def list_all_iff)
  have START: "START (sm t) e = START my e" using same_paramsD(1) [OF t(4)] by (simp add: START_def)
  note same = same_params_data [OF t(4)]
  obtain f' my' where f': "get_contents e pos (Mem a) maxsize (sf t) (sm t) = Some (int n, f', my')"
    "fmem f' = st_bytes (fmem (sf t)) a (take n (drop (unat pos) (chain_data V (sm t) (START (sm t) e # rest))))"
    using volume.get_contents_ok [OF assms(1), of "sf t" "sm t" e rest F pos maxsize n a] t(2) assms(9-14) unfolding START same root_state_def by blast
  have sz: "sect_size (fs_params bs fsize) = sect_size my" "rootdir_sect (fs_params bs fsize) = rootdir_sect my"
    "rootdir_size bs (fs_params bs fsize) = rootdir_size bs my" by (simp_all add: b(3) rootdir_size_def)
  have nz: "sect_size my \<noteq> 0" using volume.fs_ok_sizes(2,1) [OF assms(1) m(3)] volume.sector_size(1) [OF assms(1)] m(3)
    by (auto simp: fs_ok_def table_ok_def)
  have "do_fat_read_at filename pos a maxsize 0 f = Some (int n, f')"
    using b(1,2) m(1) nz assms(3-7) t(1) f'(1) unfolding do_fat_read_at_def
    by (simp add: sz Let_def b(3) [symmetric] b(4) [symmetric] r_def [symmetric])
  then show ?thesis using f'(2) t(3) by (simp add: START same)
qed

text \<open>
  Reading a file of the root directory by name. For a mounted FAT12, FAT16 or FAT32 volume whose root
  directory has the name, as a short name or as a long name in slots, before any other match,
  \<open>do_fat_read_at\<close> ignores leading separators and upper case, finds the entry however many sectors or
  clusters of the directory it has to go through, and delivers the bytes of the cluster chain of the file
  as the theorem on \<open>get_contents\<close> says.
\<close>

lemma fat_reads_root_file:
  assumes "volume f V N s" "mounted f V N s my dirsize ws" "fname = dropWhile ISDIRDELIM filename" "nm = downcase fname" "nm \<noteq> []"
    "dirdelim nm = None" "length fname < 2048" "found_in nm V my ws h e" "fat_chain V my N (START my e # rest)"
    "F = unat (FAT2CPU32 (de_size e))" "F \<le> length (START my e # rest) * unat (bytesperclust my)" "F < 2 ^ 31"
    "unat pos + unat maxsize < 2 ^ 32" "n = read_len F (unat pos) (unat maxsize)"
  shows "\<exists>f'. do_fat_read_at filename pos a maxsize 0 f = Some (int n, f') \<and>
    fmem f' = st_bytes (fmem f) a (take n (drop (unat pos) (chain_data V my (START my e # rest))))"
  by (rule root_file_read [OF assms])

text \<open>
  A FAT16 stick: the root directory (two sectors) has a label and the file \<open>8dev_recovery.bin\<close>, with a long
  name in two slots, 600 bytes in the clusters 2 and 4.
\<close>

definition stick_slot :: "byte \<Rightarrow> bytes \<Rightarrow> bytes" where
  "stick_slot n cs = [n] @ concat (map (\<lambda>c. [c, 0]) (take 5 cs)) @ [0x0f, 0, 0x77] @
     concat (map (\<lambda>c. [c, 0]) (take 6 (drop 5 cs))) @ [0, 0] @ concat (map (\<lambda>c. [c, 0]) (drop 11 cs))"

definition stick_label :: bytes where
  "stick_label = str ''CARABOOT   '' @ [8] @ replicate 20 0"

definition stick_slots :: "bytes list" where
  "stick_slots = [stick_slot 0x42 (str ''.bin'' @ 0 # replicate 8 0xff), stick_slot 1 (str ''8dev_recovery'')]"

definition stick_file :: bytes where
  "stick_file = demo_dirent ''8DEV_R~1BIN'' 2 [0x58, 2, 0, 0]"

definition stick_boot :: bytes where
  "stick_boot = [0xeb, 0x3c, 0x90] @ str ''MSDOS5.0'' @ [0, 2, 1, 1, 0, 1, 32, 0, 16, 0, 0xf8, 1, 0] @ replicate 30 0 @ str ''FAT16   '' @
     replicate 448 0 @ [0x55, 0xaa]"

definition stick_vol :: "nat \<Rightarrow> bytes" where
  "stick_vol k = (if k = 0 then stick_boot
     else if k = 1 then pad512 [0xf8, 0xff, 0xff, 0xff, 4, 0, 0, 0, 0xff, 0xff]
     else if k = 2 then pad512 (stick_label @ concat stick_slots @ stick_file)
     else replicate 512 (of_nat k))"

lemma stick_lengths: "length stick_label = 32" "length stick_file = 32" "map length stick_slots = [32, 32]" "length stick_boot = 512"
  by (simp_all add: stick_label_def stick_file_def demo_dirent_def stick_slots_def stick_slot_def stick_boot_def str_def length_concat sum_list_replicate)

interpretation stick: volume "image_fat stick_vol 16" stick_vol 16 512
  by (rule image_volume) (use stick_lengths(3) in \<open>auto simp: stick_vol_def stick_lengths pad512_def length_concat\<close>)

definition stick_params :: fsdata where
  "stick_params = \<lparr>fatbuf = replicate 3072 0, fatsize = 16, fatlength = 1, fat_sect = 1, rootdir_sect = 2, sect_size = 512,
     clust_size = 1, data_begin = 2, fatbufnum = -1\<rparr>"

lemma stick_boot_fields:
  "boot_sector_of stick_boot = \<lparr>bs_sector_size = [0, 2], bs_cluster_size = 1, bs_reserved = 1, bs_fats = 1, bs_dir_entries = [32, 0],
     bs_fat_length = 1, bs_fat32_length = 0, bs_root_cluster = 0\<rparr>"
  "take 26 (drop 36 stick_boot) = replicate 18 0 @ str ''FAT16   ''"
  by code_simp+

text \<open>The stick as the selected volume.\<close>

definition stick_in :: "fat \<Rightarrow> bool" where
  "stick_in f \<longleftrightarrow> volume f stick_vol 16 512 \<and> map_option blksz (cur_dev f) = Some 512 \<and> memalign f = (\<lambda>n. Some (replicate (unat n) 0)) \<and>
     part_blksz (cur_part_info f) = 512 \<and> blocks_ok f"

lemma stick_in_image: "stick_in (image_fat stick_vol 16)"
  using stick.volume_axioms by (simp add: stick_in_def image_fat_def image_dev_def whole_disk_def blocks_ok_def)

lemma stick_bootsect:
  assumes "stick_in f"
  shows "read_bootsectandvi f = Some (Some (boot_sector_of stick_boot, replicate 18 0 @ str ''FAT16   '', 16))"
proof -
  have "disk_read f 0 1 = (1, stick_boot)" using volume.read_sectors [of f stick_vol 16 512 0 1] assms
    by (simp add: sectors_def stick_vol_def stick_in_def)
  moreover have "into (replicate 512 0) 0 stick_boot = Some stick_boot" by (simp add: into_def overlay_def stick_lengths)
  moreover have "strncmp (cstr (str ''FAT12   '')) (str ''FAT16   '') 8 = Some (-4)" "strncmp (cstr (str ''FAT16   '')) (str ''FAT16   '') 8 = Some 0"
    by code_simp+
  ultimately show ?thesis using stick_boot_fields assms
    by (auto simp: read_bootsectandvi_def stick_lengths stick_in_def)
qed

lemma stick_windows: "dir_windows stick_vol stick_params 16 2 [(2, 0)]"
  by (simp add: win_ok_def win_sectors_def stick_params_def)

lemma stick_mounted:
  assumes "stick_in f"
  shows "mounted f stick_vol 16 512 stick_params 2 [(2, 0)]"
proof -
  let ?p = "fs_params (boot_sector_of stick_boot) 16"
  have p: "?p\<lparr>fatbuf := replicate 3072 0\<rparr> = stick_params" "FATBUFSIZE ?p = 3072" "rootdir_size (boot_sector_of stick_boot) stick_params = 2"
    by (simp_all add: stick_boot_fields fs_params_def stick_params_def rootdir_size_def FATBUFSIZE_def FATBUFBLOCKS_def Let_def)
  have "fs_ok stick_vol 16 512 stick_params"
    by (simp add: fs_ok_def table_ok_def cache_ok_def stick_params_def MAX_CLUSTSIZE_def)
  moreover have "blocks_ok f" "memalign f 3072 = Some (replicate 3072 0)" "part_blksz (cur_part_info f) = 512"
    using assms by (simp_all add: stick_in_def)
  moreover have "ucast (sect_size stick_params) = (512 :: u32)" "rootdir_sect stick_params = 2" by (simp_all add: stick_params_def)
  ultimately show ?thesis using stick_windows p by (simp add: mounted_def stick_bootsect [OF assms] MAX_CLUSTSIZE_def)
qed

lemma stick_facts:
  "slots_ok stick_slots" "long_slot (stick_slots ! 0)" "de_attr (stick_slots ! 0) AND ATTR_VOLUME \<noteq> 0"
  "stick_slots ! 0 ! 0 \<noteq> DELETED_FLAG" "unat (stick_slots ! 0 ! 0 AND NOT LAST_LONG_ENTRY_MASK) = 2"
  "long_name stick_slots = str ''8dev_recovery.bin''"
  "de_attr stick_label AND ATTR_VOLUME \<noteq> 0" "\<not> long_slot stick_label"
  "START stick_params stick_file = 2" "FAT2CPU32 (de_size stick_file) = 600"
  by code_simp+

lemma stick_found: "found_in (str ''8dev_recovery.bin'') stick_vol stick_params [(2, 0)] 1 stick_file"
proof -
  define es where "es = win_entries stick_vol stick_params (2, 0)"
  obtain s1 s2 where s: "stick_slots = [s1, s2]" "length s1 = 32" "length s2 = 32" using stick_lengths(3) by (auto simp: stick_slots_def)
  have "sectors stick_vol 2 2 = stick_label @ s1 @ s2 @ stick_file @ replicate 384 0 @ replicate 512 3"
    by (simp add: sectors_def stick_vol_def pad512_def stick_lengths s upt_rec)
  then have e: "es ! 0 = stick_label" "es ! 1 = s1" "es ! 2 = s2" "es ! 3 = stick_file" "length es = 32"
    by (simp_all add: es_def win_entries_def entries_def win_sectors_def stick_params_def stick_lengths s)
  have "drop 1 es = s1 # s2 # drop 3 es" using e by (simp add: Cons_nth_drop_Suc [symmetric] numeral_eq_Suc)
  then have sl: "slots_at es 1 = stick_slots" using stick_facts(5) e by (simp add: slots_at_def s)
  have "passed (str ''8dev_recovery.bin'') es 0" using e(1) stick_facts(7,8) by (simp add: passed_def)
  moreover have "hit (str ''8dev_recovery.bin'') es 1 stick_file"
    using stick_facts e unfolding hit_def long_at_def sl by (simp add: s numeral_3_eq_3)
  ultimately show ?thesis using e(5) by (simp add: found_in_def es_def)
qed

lemma stick_chain: "fat_chain stick_vol stick_params 16 [2, 4]"
proof -
  have "take 6 (fat_table stick_vol stick_params) = [0xf8, 0xff, 0xff, 0xff, 4, 0]"
    by (simp add: fat_table_def sectors_def stick_params_def stick_vol_def pad512_def)
  then have "fat_ref 16 (fat_table stick_vol stick_params) 2 = 4"
    using fat_ref_take [of 16 2 6 "fat_table stick_vol stick_params"] by (simp add: fat_ref_def)
  then show ?thesis
    by (simp add: cluster_ok_def CHECK_CLUST_def stick_params_def cluster_sect_def word_le_nat_alt)
      (simp add: fat_table_def stick.sector_length)
qed

end
