(* ===== verification/FileSys.thy ===== *)
theory FileSys
  imports FatDir
begin

text \<open>
  From the name of a device and a partition to a file in memory: the device lookup of \<open>disk/part.c\<close>
  and the file system layer \<open>fs/fs.c\<close>, with FAT as the only file system, and the load command. The static
  variables are the record \<open>fsctl\<close>; the USB storage devices found by the scan are a list.
\<close>

section \<open>Devices and partitions\<close>

record fsctl =
  fs_dev_desc :: "block_dev_desc option"
  fs_partition :: disk_partition
  fs_type :: nat
  fs_fat :: fat
  fs_ub :: ub
  usb_dev_desc :: "block_dev_desc list"

abbreviation (input) FS_TYPE_ANY :: nat where "FS_TYPE_ANY \<equiv> 0"
abbreviation (input) FS_TYPE_FAT :: nat where "FS_TYPE_FAT \<equiv> 1"
abbreviation (input) DEV_TYPE_UNKNOWN :: nat where "DEV_TYPE_UNKNOWN \<equiv> 0xff"
abbreviation (input) PART_TYPE_UNKNOWN :: nat where "PART_TYPE_UNKNOWN \<equiv> 0"
abbreviation (input) PART_UNSPECIFIED :: int where "PART_UNSPECIFIED \<equiv> -2"
abbreviation (input) PART_AUTO :: int where "PART_AUTO \<equiv> -1"

definition MAX_SEARCH_PARTITIONS :: nat where "MAX_SEARCH_PARTITIONS = 16"
definition BOOT_PART_TYPE :: bytes where "BOOT_PART_TYPE = cstr (str ''U-Boot'')"
definition CONFIG_SYS_LOAD_ADDR :: u32 where "CONFIG_SYS_LOAD_ADDR = 0x82000000"

text \<open>A negative index is before the array.\<close>

definition usb_stor_get_dev :: "u32 \<Rightarrow> fsctl \<Rightarrow> block_dev_desc option option" where
  "usb_stor_get_dev index fs =
     (if sint index < 0 then None
      else if unat index < length (usb_dev_desc fs) then Some (Some (usb_dev_desc fs ! unat index)) else Some None)"

definition get_dev :: "bytes \<Rightarrow> u32 \<Rightarrow> fsctl \<Rightarrow> block_dev_desc option option" where
  "get_dev ifname devno fs = do {
     c \<leftarrow> strncmp ifname (cstr (str ''usb'')) 3;
     if c = 0 then usb_stor_get_dev devno fs else Some None }"

definition get_device :: "bytes \<Rightarrow> bytes \<Rightarrow> fsctl \<Rightarrow> (int \<times> fsctl) option" where
  "get_device ifname dev_str fs = do {
     (devno, ep) \<leftarrow> simple_strtoul dev_str 16;
     e \<leftarrow> rd ep 0;
     if e \<noteq> 0 then Some (-1, fs)
     else do {
       d \<leftarrow> get_dev ifname devno fs;
       let fs = fs\<lparr>fs_dev_desc := d\<rparr>;
       Some (case d of None \<Rightarrow> (-1, fs) | Some d \<Rightarrow> if dev_type d = DEV_TYPE_UNKNOWN then (-1, fs) else (sint devno, fs)) } }"

text \<open>\<open>strcpy\<close> of a constant into a field of 32 bytes.\<close>

definition set_field :: "bytes \<Rightarrow> string \<Rightarrow> bytes" where
  "set_field old s = overlay old 0 (cstr (str s))"

text \<open>
  The search for the first bootable partition from \<open>p\<close> on, \<open>n\<close> numbers are left: \<open>part\<close> and \<open>tmpinfo\<close> are the best so
  far. The result is the number (0 if there is none) and the partition.
\<close>

fun auto_part :: "block_dev_desc \<Rightarrow> nat \<Rightarrow> nat \<Rightarrow> nat \<Rightarrow> disk_partition \<Rightarrow> disk_partition \<Rightarrow> (nat \<times> disk_partition) option" where
  "auto_part d 0 p part tmpinfo info = Some (if part \<noteq> 0 then (part, tmpinfo) else (0, info))"
| "auto_part d (Suc n) p part tmpinfo info = do {
     r \<leftarrow> get_partition_info d (of_nat p);
     (case r of
        None \<Rightarrow> auto_part d n (Suc p) part tmpinfo info
      | Some i \<Rightarrow>
          if bootable i then Some (p, i)
          else auto_part d n (Suc p) (if part = 0 then p else part) (if part = 0 then i else tmpinfo) i) }"

text \<open>The number in a partition specification; inside, \<open>None\<close> is a bad one.\<close>

definition part_number :: "bytes option \<Rightarrow> bool \<Rightarrow> int option option" where
  "part_number part_str allow_whole_dev =
     (case part_str of
        None \<Rightarrow> Some (Some PART_UNSPECIFIED)
      | Some p \<Rightarrow> do {
          c \<leftarrow> rd p 0;
          if c = 0 then Some (Some PART_UNSPECIFIED)
          else do {
            a \<leftarrow> strcmp p (cstr (str ''auto''));
            if a = 0 then Some (Some PART_AUTO)
            else do {
              (part, ep) \<leftarrow> simple_strtoul p 16;
              e \<leftarrow> rd ep 0;
              Some (if e \<noteq> 0 \<or> part = 0 \<and> \<not> allow_whole_dev then None else Some (sint part)) } } })"

definition whole_info :: "block_dev_desc \<Rightarrow> disk_partition \<Rightarrow> disk_partition" where
  "whole_info d i = i\<lparr>part_start := 0, part_size := lba d, part_blksz := blksz d, bootable := False,
     type_name := set_field (type_name i) ''U-Boot'', part_name := set_field (part_name i) ''Whole Disk''\<rparr>"

text \<open>The last part of \<open>get_device_and_partition\<close>, for the device \<open>d\<close> and the number.\<close>

definition select_partition :: "block_dev_desc \<Rightarrow> int \<Rightarrow> bool \<Rightarrow> fsctl \<Rightarrow> (int \<times> fsctl) option" where
  "select_partition d part allow_whole_dev fs =
     (if part_type d = PART_TYPE_UNKNOWN \<or> part = 0 then
        Some (if lba d = 0 then (-1, fs)
          else if part > 0 \<or> \<not> allow_whole_dev then (-1, fs)
          else (0, fs\<lparr>fs_partition := whole_info d (fs_partition fs)\<rparr>))
      else
        let part = (if part = PART_UNSPECIFIED then 1 else part)
        in do {
          (ret, info) \<leftarrow>
            (if part \<noteq> PART_AUTO then do {
               r \<leftarrow> get_partition_info d (word_of_int part);
               Some (case r of None \<Rightarrow> (-1, fs_partition fs) | Some i \<Rightarrow> (part, i)) }
             else do {
               (p, i) \<leftarrow> auto_part d MAX_SEARCH_PARTITIONS 1 0 (fs_partition fs) (fs_partition fs);
               Some (if p = 0 then -1 else int p, i) });
          let fs = fs\<lparr>fs_partition := info\<rparr>;
          if ret = -1 then Some (-1, fs)
          else do {
            c \<leftarrow> strncmp (type_name info) BOOT_PART_TYPE 32;
            Some (if c \<noteq> 0 then -1 else ret, fs) } })"

text \<open>What \<open>dev_part_str\<close> becomes: the variable \<open>bootdevice\<close> if it is missing, empty or a dash.\<close>

definition dev_part_of :: "bytes option \<Rightarrow> ub \<Rightarrow> bytes option option" where
  "dev_part_of dev_part_str u =
     (let bootdevice = map_option (map_option (\<lambda>k. drop k (env_mem u))) (getenv (cstr (str ''bootdevice'')) u)
      in case dev_part_str of
           None \<Rightarrow> bootdevice
         | Some s \<Rightarrow> do {
             n \<leftarrow> strlen s;
             if n = 0 then bootdevice
             else do { c \<leftarrow> strcmp s (cstr (str ''-'')); if c = 0 then bootdevice else Some (Some s) } })"

definition get_device_and_partition :: "bytes \<Rightarrow> bytes option \<Rightarrow> bool \<Rightarrow> fsctl \<Rightarrow> (int \<times> fsctl) option" where
  "get_device_and_partition ifname dev_part_str allow_whole_dev fs = do {
     h \<leftarrow> strcmp (cstr (str ''host'')) ifname;
     if h = 0 then
       let i = fs_partition fs
       in Some (0, fs\<lparr>fs_dev_desc := None, fs_partition := i\<lparr>part_start := 0, part_size := 0, part_blksz := 0, bootable := False,
         type_name := set_field (type_name i) ''U-Boot'', part_name := set_field (part_name i) ''Sandbox host''\<rparr>\<rparr>)
     else do {
       dp \<leftarrow> dev_part_of dev_part_str (fs_ub fs);
       (case dp of
          None \<Rightarrow> Some (-1, fs)
        | Some s \<Rightarrow> do {
            i \<leftarrow> strchr s (ch (CHR '':''));
            let dev_str = (case i of None \<Rightarrow> s | Some k \<Rightarrow> cstr (take k s));
            let part_str = map_option (\<lambda>k. drop (Suc k) s) i;
            (devno, fs) \<leftarrow> get_device ifname dev_str fs;
            if devno < 0 then Some (-1, fs)
            else do {
              pn \<leftarrow> part_number part_str allow_whole_dev;
              (case (pn, fs_dev_desc fs) of
                 (Some part, Some d) \<Rightarrow> select_partition d part allow_whole_dev fs
               | _ \<Rightarrow> Some (-1, fs)) } }) } }"

section \<open>File systems\<close>

text \<open>The table of file systems has FAT and the entry for unsupported ones, which always fails.\<close>

definition fs_set_blk_dev :: "bytes \<Rightarrow> bytes option \<Rightarrow> nat \<Rightarrow> fsctl \<Rightarrow> (int \<times> fsctl) option" where
  "fs_set_blk_dev ifname dev_part_str fstype fs = do {
     (part, fs) \<leftarrow> get_device_and_partition ifname dev_part_str True fs;
     if part < 0 then Some (-1, fs)
     else if fstype \<noteq> FS_TYPE_ANY \<and> fstype \<noteq> FS_TYPE_FAT then Some (-1, fs)
     else (case fs_dev_desc fs of
             None \<Rightarrow> None
           | Some d \<Rightarrow> do {
               (r, f) \<leftarrow> fat_set_blk_dev d (fs_partition fs) (fs_fat fs);
               let fs = fs\<lparr>fs_fat := f\<rparr>;
               Some (if r = 0 then (0, fs\<lparr>fs_type := FS_TYPE_FAT\<rparr>) else (-1, fs)) }) }"

definition fs_close :: "fsctl \<Rightarrow> fsctl" where
  "fs_close fs = fs\<lparr>fs_type := FS_TYPE_ANY\<rparr>"

definition fs_ls :: "bytes \<Rightarrow> fsctl \<Rightarrow> (int \<times> fsctl) option" where
  "fs_ls dirname fs = do {
     (ret, f) \<leftarrow> (if fs_type fs = FS_TYPE_FAT then file_fat_ls dirname (fs_fat fs) else Some (-1, fs_fat fs));
     Some (ret, fs_close (fs\<lparr>fs_fat := f\<rparr>)) }"

definition fs_read :: "bytes \<Rightarrow> u32 \<Rightarrow> u32 \<Rightarrow> u32 \<Rightarrow> fsctl \<Rightarrow> (int \<times> fsctl) option" where
  "fs_read filename addr offset len fs = do {
     (ret, f) \<leftarrow> (if fs_type fs = FS_TYPE_FAT then fat_read_file filename addr offset len (fs_fat fs) else Some (-1, fs_fat fs));
     Some (if 0 \<le> ret \<and> len \<noteq> 0 \<and> ret \<noteq> sint len then -1 else ret, fs_close (fs\<lparr>fs_fat := f\<rparr>)) }"

section \<open>The load command\<close>

text \<open>The value of a variable as a string, and an argument as a number.\<close>

definition env_string :: "string \<Rightarrow> ub \<Rightarrow> bytes option option" where
  "env_string nm u = map_option (map_option (\<lambda>k. drop k (env_mem u))) (getenv (cstr (str nm)) u)"

definition number_of :: "bytes \<Rightarrow> u32 \<Rightarrow> u32 option" where
  "number_of s base = map_option fst (simple_strtoul s base)"

definition load_address :: "bytes list \<Rightarrow> u32 \<Rightarrow> ub \<Rightarrow> u32 option" where
  "load_address argv cmdline_base u =
     (if length argv \<ge> 4 then number_of (argv ! 3) cmdline_base
      else do {
        a \<leftarrow> env_string ''loadaddr'' u;
        (case a of None \<Rightarrow> Some CONFIG_SYS_LOAD_ADDR | Some s \<Rightarrow> number_of s 16) })"

definition opt_number :: "nat \<Rightarrow> bytes list \<Rightarrow> u32 \<Rightarrow> u32 option" where
  "opt_number k argv cmdline_base = (if length argv > k then number_of (argv ! k) cmdline_base else Some 0)"

definition c_string :: "bytes \<Rightarrow> bytes" where
  "c_string s = takeWhile (\<lambda>c. c \<noteq> 0) s"

definition set_filesize :: "int \<Rightarrow> ub \<Rightarrow> ub option" where
  "set_filesize len_read u = do {
     (buf, n) \<leftarrow> sprintf (replicate 17 0) (cstr (str ''%lx'')) [VInt (word_of_int len_read)];
     setenv (cstr (str ''filesize'')) (Some (cstr (take n buf))) u }"

text \<open>\<open>-1\<close> is \<open>CMD_RET_USAGE\<close>.\<close>

definition do_load :: "bytes list \<Rightarrow> nat \<Rightarrow> u32 \<Rightarrow> fsctl \<Rightarrow> (int \<times> fsctl) option" where
  "do_load argv fstype cmdline_base fs =
     (if length argv < 2 \<or> length argv > 7 then Some (-1, fs)
      else do {
        (r, fs) \<leftarrow> fs_set_blk_dev (argv ! 1) (if length argv \<ge> 3 then Some (argv ! 2) else None) fstype fs;
        if r \<noteq> 0 then Some (1, fs)
        else do {
          a \<leftarrow> load_address argv cmdline_base (fs_ub fs);
          filename \<leftarrow> (if length argv \<ge> 5 then Some (Some (argv ! 4)) else env_string ''bootfile'' (fs_ub fs));
          (case filename of
             None \<Rightarrow> Some (1, fs)
           | Some filename \<Rightarrow> do {
               bytes \<leftarrow> opt_number 5 argv cmdline_base;
               pos \<leftarrow> opt_number 6 argv cmdline_base;
               (len_read, fs) \<leftarrow> fs_read (c_string filename) a pos bytes fs;
               if len_read \<le> 0 then Some (1, fs)
               else do {
                 u \<leftarrow> set_filesize len_read (fs_ub fs);
                 Some (0, fs\<lparr>fs_ub := u\<rparr>) } }) } })"

definition do_ls :: "bytes list \<Rightarrow> nat \<Rightarrow> fsctl \<Rightarrow> (int \<times> fsctl) option" where
  "do_ls argv fstype fs =
     (if length argv < 2 \<or> length argv > 4 then Some (-1, fs)
      else do {
        (r, fs) \<leftarrow> fs_set_blk_dev (argv ! 1) (if length argv \<ge> 3 then Some (argv ! 2) else None) fstype fs;
        if r \<noteq> 0 then Some (1, fs)
        else do {
          (r, fs) \<leftarrow> fs_ls (if length argv \<ge> 4 then c_string (argv ! 3) else str ''/'') fs;
          Some (if r \<noteq> 0 then 1 else 0, fs) } })"

definition do_fat_fsload :: "bytes list \<Rightarrow> fsctl \<Rightarrow> (int \<times> fsctl) option" where
  "do_fat_fsload argv fs = do_load argv FS_TYPE_FAT 16 fs"

definition do_fat_ls :: "bytes list \<Rightarrow> fsctl \<Rightarrow> (int \<times> fsctl) option" where
  "do_fat_ls argv fs = do_ls argv FS_TYPE_FAT fs"

text \<open>The device and the partition are local variables here; \<open>info\<close> is what the second one held before.\<close>

definition do_fat_fsinfo :: "bytes list \<Rightarrow> disk_partition \<Rightarrow> fsctl \<Rightarrow> (int \<times> fsctl) option" where
  "do_fat_fsinfo argv info fs =
     (if length argv < 2 then Some (0, fs)
      else do {
        (part, l) \<leftarrow> get_device_and_partition (argv ! 1) (if length argv \<ge> 3 then Some (argv ! 2) else None) True
          (fs\<lparr>fs_partition := info\<rparr>);
        if part < 0 then Some (1, fs)
        else (case fs_dev_desc l of
                None \<Rightarrow> None
              | Some d \<Rightarrow> do {
                  (r, f) \<leftarrow> fat_set_blk_dev d (fs_partition l) (fs_fat fs);
                  if r \<noteq> 0 then Some (1, fs\<lparr>fs_fat := f\<rparr>)
                  else do {
                    r \<leftarrow> file_fat_detectfs f;
                    Some (r, fs\<lparr>fs_fat := f\<rparr>) } }) })"

section \<open>Device and partition numbers\<close>

text \<open>A device and partition specification in hexadecimal.\<close>

definition dev_part_spec :: "nat \<Rightarrow> nat \<Rightarrow> bytes" where
  "dev_part_spec d w = hex_of (int d) @ 58 # hex_of (int w) @ [0]"

lemma rd_0 [simp]: "rd (c # s) 0 = Some c"
  by (simp add: rd_def)

lemma u32_small: "n < 2 ^ 31 \<Longrightarrow> sint (of_nat n :: u32) = int n \<and> unat (of_nat n :: u32) = n"
  by (simp add: signed_of_nat signed_take_bit_int_eq_self_iff unat_of_nat take_bit_nat_eq_self_iff)

lemma get_device_hex:
  assumes "d < length (usb_dev_desc fs)" "d < 2 ^ 31" "dv = usb_dev_desc fs ! d" "dev_type dv \<noteq> DEV_TYPE_UNKNOWN"
  shows "get_device (cstr (str ''usb'')) (cstr (hex_of (int d))) fs = Some (int d, fs\<lparr>fs_dev_desc := Some dv\<rparr>)"
proof -
  have "strncmp (cstr (str ''usb'')) (cstr (str ''usb'')) 3 = Some 0" by code_simp
  then show ?thesis using assms u32_small [OF assms(2)] hex_of_read [of "int d" "[]"]
    by (simp add: get_device_def cstr_def get_dev_def usb_stor_get_dev_def)
qed

lemma auto_differs:
  "strcmp (hex_of n @ [0]) (cstr (str ''auto'')) \<noteq> Some 0" "\<exists>c. strcmp (hex_of n @ [0]) (cstr (str ''auto'')) = Some c"
proof -
  have "\<not> isxdigit (ch (CHR ''u''))" by (simp add: ch_def isxdigit_iff)
  then have "hex_of n \<noteq> str ''auto''" using hex_of_digits [of "ch (CHR ''u'')" n] by (auto simp: str_def)
  moreover have a: "nonul (str ''auto'')" by (simp add: str_def ch_def)
  ultimately show "strcmp (hex_of n @ [0]) (cstr (str ''auto'')) \<noteq> Some 0"
    using strcmp_cstr [OF hex_of_props(1) [of n] a, of "[]" "[]"] by (simp add: cstr_def)
  show "\<exists>c. strcmp (hex_of n @ [0]) (cstr (str ''auto'')) = Some c"
    using strcmp_total [OF hex_of_props(1) [of n] a, of "[]" "[]"] by (simp add: cstr_def)
qed

lemma part_number_hex:
  assumes "w < 2 ^ 31"
  shows "part_number (Some (hex_of (int w) @ [0])) True = Some (Some (int w))"
proof -
  obtain c s where h: "hex_of (int w) = c # s" "c \<noteq> 0" using hex_of_props(1,3) [of "int w"] by (cases "hex_of (int w)") auto
  obtain a where "strcmp (hex_of (int w) @ [0]) (cstr (str ''auto'')) = Some a" "a \<noteq> 0" using auto_differs [of "int w"] by auto
  then show ?thesis using h(2) u32_small [OF assms] hex_of_read [of "int w" "[]"]
    by (simp add: part_number_def h(1))
qed

lemma dev_part_given:
  assumes "nonul s" "s \<noteq> []" "s \<noteq> str ''-''"
  shows "dev_part_of (Some (cstr s)) u = Some (Some (cstr s))"
proof -
  have n: "nonul (str ''-'')" by (simp add: str_def ch_def)
  obtain c where "strcmp (s @ [0]) (str ''-'' @ [0]) = Some c" using strcmp_total [OF assms(1) n, of "[]" "[]"] by auto
  then show ?thesis using assms strcmp_cstr [OF assms(1) n, of "[]" "[]"]
    by (simp add: dev_part_of_def cstr_def)
qed

lemma get_device_and_partition_hex:
  assumes "d < length (usb_dev_desc fs)" "d < 2 ^ 31" "w < 2 ^ 31" "dv = usb_dev_desc fs ! d" "dev_type dv \<noteq> DEV_TYPE_UNKNOWN"
  shows "get_device_and_partition (cstr (str ''usb'')) (Some (dev_part_spec d w)) True fs =
    select_partition dv (int w) True (fs\<lparr>fs_dev_desc := Some dv\<rparr>)"
proof -
  let ?s = "hex_of (int d) @ 58 # hex_of (int w)"
  have s: "nonul ?s" "?s \<noteq> []" "?s \<noteq> str ''-''" "dev_part_spec d w = cstr ?s"
    using hex_of_props(1,3) by (auto simp: nonul_def str_def dev_part_spec_def cstr_def append_eq_Cons_conv)
  have "strchr (cstr ?s) 58 = Some (Some (length (hex_of (int d))))"
    using strchr_cstr [OF s(1), of 58 "[]"] hex_of_props(4) [of "int d"]
    by (simp add: cstr_def takeWhile_append)
  moreover have "strcmp (cstr (str ''host'')) (cstr (str ''usb'')) = Some (-13)" by code_simp
  ultimately show ?thesis
    using get_device_hex [OF assms(1,2,4,5)] part_number_hex [OF assms(3)] dev_part_given [OF s(1-3)]
    unfolding s(4) by (simp add: get_device_and_partition_def ch_def cstr_def)
qed

section \<open>Loading a file\<close>

lemma select_numbered:
  assumes "part_type dv = PART_TYPE_DOS" "table_of dv 0 = Some pts" "logical_parts dv pts ls" "length ls < 2 ^ 31 - 5"
    "0 < w" "w < 2 ^ 31" "numbered dv pts ls w = Some info"
  shows "select_partition dv (int w) True fs = Some (int w, fs\<lparr>fs_partition := info\<rparr>)"
proof -
  have "type_name info = overlay (replicate 32 0) 0 (cstr (str ''U-Boot''))"
    using assms(7) by (auto simp: numbered_def partition_of_def split: if_splits)
  moreover have "strncmp (overlay (replicate 32 0) 0 (cstr (str ''U-Boot''))) BOOT_PART_TYPE 32 = Some 0" by code_simp
  moreover have "get_partition_info dv (of_nat w) = Some (Some info)"
    using partition_numbering [OF assms(1-4,6)] assms(7) by simp
  ultimately show ?thesis using assms(1,5) by (simp add: select_partition_def)
qed

text \<open>The boot sector of a FAT volume.\<close>

definition fat_boot :: "bytes \<Rightarrow> bool" where
  "fat_boot B \<longleftrightarrow> length B = 512 \<and> take 2 (drop 0x1fe B) = [0x55, 0xaa] \<and>
     (take 3 (drop 0x36 B) = str ''FAT'' \<or> take 5 (drop 0x52 B) = str ''FAT32'')"

lemma has_bytes_iff: "length s = n \<Longrightarrow> k + n \<le> length B \<Longrightarrow> has_bytes B k s = Some (take n (drop k B) = s)"
  using memcmp_eq [of n "drop k B" s] memcmp_total [of n "drop k B" s] by (fastforce simp: has_bytes_def)

lemma fat_set_blk_dev_ok:
  assumes "volume (f\<lparr>cur_dev := Some dv, cur_part_info := info\<rparr>) V N s" "0 < N" "fat_boot (V 0)"
  shows "fat_set_blk_dev dv info f = Some (0, f\<lparr>cur_dev := Some dv, cur_part_info := info\<rparr>)"
proof -
  have "disk_read (f\<lparr>cur_dev := Some dv, cur_part_info := info\<rparr>) 0 1 = (1, V 0)"
    using volume.read_sectors [OF assms(1), of 0 1] assms(2) by (simp add: sectors_def)
  moreover have "has_bytes (V 0) 0x1fe [0x55, 0xaa] = Some True" 
    "has_bytes (V 0) 0x36 (str ''FAT'') = Some (take 3 (drop 0x36 (V 0)) = str ''FAT'')"
    "has_bytes (V 0) 0x52 (str ''FAT32'') = Some (take 5 (drop 0x52 (V 0)) = str ''FAT32'')"
    using assms(3) has_bytes_iff [of "[0x55, 0xaa]" 2 "0x1fe" "V 0"] has_bytes_iff [of "str ''FAT''" 3 "0x36" "V 0"]
      has_bytes_iff [of "str ''FAT32''" 5 "0x52" "V 0"]
    by (simp_all add: fat_boot_def str_def)
  ultimately show ?thesis using assms(3) by (auto simp: fat_set_blk_dev_def fat_boot_def Let_def)
qed

lemma set_filesize_ok:
  assumes "env_ready u es" "env_fits u es (str ''filesize'') (hex_of n)"
  shows "\<exists>u'. set_filesize n u = Some u' \<and> env_ready u' (del_var (str ''filesize'') es @ [(str ''filesize'', hex_of n)])"
proof -
  let ?s = "hex_of n @ 0 # replicate (16 - length (hex_of n)) 0"
  have "sprintf (replicate 17 0) (cstr (str ''%lx'')) [VInt (word_of_int n)] = Some (?s, length (hex_of n))"
    using hex_of_props(2) [of n] by (simp add: sprintf_def vsprintf_def long_hex_conversion overlay_def)
  moreover have "ok_name (str ''filesize'')" "ordinary (str ''filesize'')" by (simp_all add: ok_name_def ordinary_def str_def ch_def)
  moreover obtain u' where "env_assign (str ''filesize'') (hex_of n) u = Some u'" "env_ready u' (del_var (str ''filesize'') es @ [(str ''filesize'', hex_of n)])"
    using assign_ready [OF assms(1) calculation(2) hex_of_props(1) calculation(3) assms(2)] by blast
  ultimately show ?thesis by (simp add: set_filesize_def env_assign_def cstr_def)
qed

lemma fs_set_blk_dev_ok:
  assumes "d < length (usb_dev_desc fs)" "d < 2 ^ 31" "dv = usb_dev_desc fs ! d" "dev_type dv \<noteq> DEV_TYPE_UNKNOWN"
    "part_type dv = PART_TYPE_DOS" "table_of dv 0 = Some pts" "logical_parts dv pts ls" "length ls < 2 ^ 31 - 5"
    "0 < w" "w < 2 ^ 31" "numbered dv pts ls w = Some info"
    "f = (fs_fat fs)\<lparr>cur_dev := Some dv, cur_part_info := info\<rparr>" "volume f V N s" "0 < N" "fat_boot (V 0)"
  shows "fs_set_blk_dev (cstr (str ''usb'')) (Some (dev_part_spec d w)) FS_TYPE_FAT fs =
    Some (0, fs\<lparr>fs_dev_desc := Some dv, fs_partition := info, fs_fat := f, fs_type := FS_TYPE_FAT\<rparr>)"
  using get_device_and_partition_hex [OF assms(1,2,10,3,4)] select_numbered [OF assms(5-11)]
    fat_set_blk_dev_ok [where f = "fs_fat fs" and dv = dv and info = info and V = V and N = N and s = s] assms(12-15)
  by (simp add: fs_set_blk_dev_def)


text \<open>A disk with a partition table in block 0 and the stick from block 1 on as its first partition.\<close>

definition disk_blocks :: "nat \<Rightarrow> bytes" where
  "disk_blocks k = (if k = 0 then demo_table (demo_entry 6 1 16) (demo_entry 0 0 0) else stick_vol (k - 1))"

definition disk_dev :: block_dev_desc where
  "disk_dev = (image_dev disk_blocks 17)\<lparr>part_type := PART_TYPE_DOS\<rparr>"

definition disk_entry :: "byte \<Rightarrow> byte \<Rightarrow> byte \<Rightarrow> dos_partition" where
  "disk_entry t s n = \<lparr>boot_ind = 0, sys_ind = t, start4 = [s, 0, 0, 0], size4 = [n, 0, 0, 0]\<rparr>"

definition disk_info :: disk_partition where
  "disk_info = partition_of disk_dev 0 1 (disk_entry 6 1 16)"

definition disk_fs :: fsctl where
  "disk_fs = \<lparr>fs_dev_desc = None, fs_partition = disk_info, fs_type = FS_TYPE_ANY, fs_fat = (image_fat stick_vol 16)\<lparr>cur_dev := None\<rparr>,
     fs_ub = demo_ub, usb_dev_desc = [disk_dev]\<rparr>"

definition disk_fat :: fat where
  "disk_fat = (fs_fat disk_fs)\<lparr>cur_dev := Some disk_dev, cur_part_info := disk_info\<rparr>"

lemma disk_table: "table_of disk_dev 0 = Some [disk_entry 6 1 16, disk_entry 0 0 0, disk_entry 0 0 0, disk_entry 0 0 0]"
  by (simp add: table_of_def disk_dev_def image_dev_def read_block_def disk_blocks_def demo_table_signature demo_table_entries disk_entry_def
      del: entries_of.simps)

lemma disk_numbered: "logical_parts disk_dev [disk_entry 6 1 16, disk_entry 0 0 0, disk_entry 0 0 0, disk_entry 0 0 0] []"
  "numbered disk_dev [disk_entry 6 1 16, disk_entry 0 0 0, disk_entry 0 0 0, disk_entry 0 0 0] [] 1 = Some disk_info"
  by (simp_all add: logical_parts_def disk_entry_def is_extended_def numbered_def usable_def disk_info_def)

lemma disk_start: "part_start disk_info = 1" "part_blksz disk_info = 512"
  by (simp_all add: disk_info_def partition_of_def disk_entry_def le32_to_int_def)

interpretation disk: volume disk_fat stick_vol 16 512
proof
  fix k n :: u32
  assume a: "unat k + unat n \<le> 16"
  have "unat (1 + k) = Suc (unat k)" using a by (subst unat_plus_simple [THEN iffD1]) (simp_all add: word_le_nat_alt unat_word_ariths)
  moreover have "sint n = uint n" using a by (intro sint_small) simp
  moreover have "map disk_blocks [Suc (unat k)..<Suc (unat k + unat n)] = map stick_vol [unat k..<unat k + unat n]"
    by (simp add: map_Suc_upt [symmetric] disk_blocks_def del: upt_Suc)
  ultimately show "disk_read disk_fat k n = (uint n, concat (map stick_vol [unat k..<unat k + unat n]))"
    using a by (simp add: disk_read_def disk_fat_def disk_start disk_dev_def image_dev_def del: upt_Suc)
qed (use stick.sector_length in auto)

lemma disk_mounted: "stick_in disk_fat"
  using disk.volume_axioms
  by (simp add: stick_in_def disk_fat_def disk_start disk_dev_def image_dev_def disk_fs_def image_fat_def blocks_ok_def)

lemma stick_fat_boot: "fat_boot (stick_vol 0)"
  by (simp add: stick_vol_def fat_boot_def stick_lengths) (simp add: stick_boot_def str_def)


end
