(* ===== verification/MemCmd.thy ===== *)
theory MemCmd
  imports BootImage
begin

text \<open>
  The memory commands of \<open>common/cmd_mem.c\<close>: \<open>md\<close>, \<open>mm\<close>, \<open>nm\<close>, \<open>mw\<close>, \<open>cmp\<close>, \<open>cp\<close>, \<open>base\<close>, \<open>loop\<close>, \<open>crc32\<close> and \<open>mtest\<close>.
  The flash is visible in memory from physical address \<open>0x1f000000\<close> on; a plain store there is not a
  defined operation. What the commands print is a list of lines.
\<close>

section \<open>Memory as the commands see it\<close>

datatype mem_line =
    MdLine u32 "u32 list" bytes
  | CmpDiffers u32 u32 u32 u32
  | CmpTotal u32
  | ModLine u32 u32
  | CrcLine u32 u32 u32
  | BaseLine u32
  | MemError u32 u32 u32

record memcmd =
  cells :: ram
  mem_flash :: flash
  base_address :: u32
  dp_last_addr :: u32
  dp_last_size :: int
  dp_last_length :: u32
  mm_last_addr :: u32
  mm_last_size :: int
  mem_out :: "mem_line list"
  ctrlc_in :: "bool list"

definition flash_cell :: "memcmd \<Rightarrow> u32 \<Rightarrow> nat option" where
  "flash_cell s a =
     (if 0x1f000000 \<le> pa a \<and> pa a < 0x1f000000 + length (flash_mem (mem_flash s)) then Some (pa a - 0x1f000000) else None)"

definition peek :: "memcmd \<Rightarrow> u32 \<Rightarrow> byte" where
  "peek s a = (case flash_cell s a of None \<Rightarrow> ld (cells s) a | Some i \<Rightarrow> flash_mem (mem_flash s) ! i)"

definition poke :: "memcmd \<Rightarrow> u32 \<Rightarrow> byte \<Rightarrow> memcmd option" where
  "poke s a v = (if flash_cell s a = None then Some (s\<lparr>cells := st (cells s) a v\<rparr>) else None)"

fun peek_bytes :: "memcmd \<Rightarrow> u32 \<Rightarrow> nat \<Rightarrow> bytes" where
  "peek_bytes s a 0 = []"
| "peek_bytes s a (Suc n) = peek s a # peek_bytes s (a + 1) n"

fun poke_bytes :: "memcmd \<Rightarrow> u32 \<Rightarrow> bytes \<Rightarrow> memcmd option" where
  "poke_bytes s a [] = Some s"
| "poke_bytes s a (b # bs) = do { s \<leftarrow> poke s a b; poke_bytes s (a + 1) bs }"

text \<open>Objects of one, two or four bytes, as big-endian bytes; an unaligned access traps.\<close>

definition load_obj :: "memcmd \<Rightarrow> u32 \<Rightarrow> nat \<Rightarrow> bytes option" where
  "load_obj s a n = (if unat a mod n = 0 then Some (peek_bytes s a n) else None)"

definition store_obj :: "memcmd \<Rightarrow> u32 \<Rightarrow> bytes \<Rightarrow> memcmd option" where
  "store_obj s a b = (if unat a mod length b = 0 then poke_bytes s a b else None)"

definition obj_val :: "bytes \<Rightarrow> u32" where
  "obj_val b = foldl (\<lambda>v x. push_bit 8 v OR ucast x) 0 b"

definition obj_of :: "nat \<Rightarrow> u32 \<Rightarrow> bytes" where
  "obj_of n v = drop (4 - n) (be32 v)"

definition put_line :: "mem_line \<Rightarrow> memcmd \<Rightarrow> memcmd" where
  "put_line l s = s\<lparr>mem_out := mem_out s @ [l]\<rparr>"

definition ctrlc :: "memcmd \<Rightarrow> bool \<times> memcmd" where
  "ctrlc s = (case ctrlc_in s of [] \<Rightarrow> (False, s) | c # cs \<Rightarrow> (c, s\<lparr>ctrlc_in := cs\<rparr>))"

section \<open>The commands\<close>

definition cmd_get_data_size :: "bytes \<Rightarrow> int \<Rightarrow> int option" where
  "cmd_get_data_size name default_size = do {
     len \<leftarrow> strlen name;
     Some (if len > 2 \<and> name ! (len - 2) = ch (CHR ''.'') then
             let c = name ! (len - 1)
             in if c = ch (CHR ''b'') then 1 else if c = ch (CHR ''w'') then 2 else if c = ch (CHR ''l'') then 4
                else if c = ch (CHR ''s'') then -2 else -1
           else default_size) }"

definition hex_arg :: "bytes \<Rightarrow> u32 option" where
  "hex_arg s = map_option fst (simple_strtoul s 16)"

text \<open>Displaying memory: the objects of a line, and the lines.\<close>

fun read_objs :: "memcmd \<Rightarrow> u32 \<Rightarrow> nat \<Rightarrow> nat \<Rightarrow> bytes list option" where
  "read_objs s a sz 0 = Some []"
| "read_objs s a sz (Suc n) = do {
     b \<leftarrow> load_obj s a sz;
     bs \<leftarrow> read_objs s (a + of_nat sz) sz n;
     Some (b # bs) }"

function md_lines :: "u32 \<Rightarrow> nat \<Rightarrow> nat \<Rightarrow> memcmd \<Rightarrow> (int \<times> u32 \<times> memcmd) option" where
  "md_lines a sz nbytes s =
     (let linebytes = min nbytes 16
      in case read_objs s a sz (if sz = 0 then 0 else (linebytes + sz - 1) div sz) of
           None \<Rightarrow> None
         | Some objs \<Rightarrow>
             let s = put_line (MdLine a (map obj_val objs) (take linebytes (concat objs))) s;
                 a = a + of_nat (sz * length objs);
                 (c, s) = ctrlc s
             in if c then Some (1, a, s)
                else if nbytes > linebytes then md_lines a sz (nbytes - linebytes) s
                else Some (0, a, s))"
  by pat_completeness auto
termination by (relation "measure (\<lambda>(a, sz, nbytes, s). nbytes)") auto

definition do_mem_md :: "bool \<Rightarrow> bytes list \<Rightarrow> memcmd \<Rightarrow> (int \<times> memcmd) option" where
  "do_mem_md repeat argv s =
     (if length argv < 2 then Some (1, s)
      else do {
        sz \<leftarrow> (if repeat then Some (dp_last_size s) else cmd_get_data_size (argv ! 0) 4);
        if \<not> repeat \<and> sz < 0 then Some (1, s)
        else do {
          (a, len) \<leftarrow>
            (if repeat then Some (dp_last_addr s, dp_last_length s)
             else do {
               a \<leftarrow> hex_arg (argv ! 1);
               len \<leftarrow> (if length argv > 2 then hex_arg (argv ! 2) else Some (dp_last_length s));
               Some (a + base_address s, len) });
          (rc, a, s) \<leftarrow> md_lines a (nat sz) (unat (len * word_of_int sz)) s;
          Some (rc, s\<lparr>dp_last_addr := a, dp_last_length := len, dp_last_size := sz\<rparr>) } })"

fun mem_fill :: "nat \<Rightarrow> u32 \<Rightarrow> bytes \<Rightarrow> memcmd \<Rightarrow> memcmd option" where
  "mem_fill 0 a b s = Some s"
| "mem_fill (Suc count) a b s = do { s \<leftarrow> store_obj s a b; mem_fill count (a + of_nat (length b)) b s }"

definition do_mem_mw :: "bytes list \<Rightarrow> memcmd \<Rightarrow> (int \<times> memcmd) option" where
  "do_mem_mw argv s =
     (if length argv < 3 \<or> length argv > 4 then Some (1, s)
      else do {
        sz \<leftarrow> cmd_get_data_size (argv ! 0) 4;
        if sz < 1 then Some (1, s)
        else do {
          a \<leftarrow> hex_arg (argv ! 1);
          writeval \<leftarrow> hex_arg (argv ! 2);
          count \<leftarrow> (if length argv = 4 then hex_arg (argv ! 3) else Some 1);
          s \<leftarrow> mem_fill (unat count) (a + base_address s) (obj_of (nat sz) writeval) s;
          Some (0, s) } })"

fun cmp_loop :: "nat \<Rightarrow> u32 \<Rightarrow> u32 \<Rightarrow> nat \<Rightarrow> u32 \<Rightarrow> memcmd \<Rightarrow> (int \<times> memcmd) option" where
  "cmp_loop 0 addr1 addr2 sz ngood s = Some (0, put_line (CmpTotal ngood) s)"
| "cmp_loop (Suc count) addr1 addr2 sz ngood s = do {
     word1 \<leftarrow> load_obj s addr1 sz;
     word2 \<leftarrow> load_obj s addr2 sz;
     if word1 \<noteq> word2
     then Some (1, put_line (CmpTotal ngood) (put_line (CmpDiffers addr1 (obj_val word1) addr2 (obj_val word2)) s))
     else cmp_loop count (addr1 + of_nat sz) (addr2 + of_nat sz) sz (ngood + 1) s }"

definition do_mem_cmp :: "bytes list \<Rightarrow> memcmd \<Rightarrow> (int \<times> memcmd) option" where
  "do_mem_cmp argv s =
     (if length argv \<noteq> 4 then Some (1, s)
      else do {
        sz \<leftarrow> cmd_get_data_size (argv ! 0) 4;
        if sz < 0 then Some (1, s)
        else do {
          addr1 \<leftarrow> hex_arg (argv ! 1);
          addr2 \<leftarrow> hex_arg (argv ! 2);
          count \<leftarrow> hex_arg (argv ! 3);
          cmp_loop (unat count) (addr1 + base_address s) (addr2 + base_address s) (nat sz) 0 s } })"

fun cp_loop :: "nat \<Rightarrow> u32 \<Rightarrow> u32 \<Rightarrow> nat \<Rightarrow> memcmd \<Rightarrow> memcmd option" where
  "cp_loop 0 a dest sz s = Some s"
| "cp_loop (Suc count) a dest sz s = do {
     b \<leftarrow> load_obj s a sz;
     s \<leftarrow> store_obj s dest b;
     cp_loop count (a + of_nat sz) (dest + of_nat sz) sz s }"

definition do_mem_cp :: "chip \<Rightarrow> bytes list \<Rightarrow> memcmd \<Rightarrow> (int \<times> memcmd) option" where
  "do_mem_cp chip argv s =
     (if length argv \<noteq> 4 then Some (1, s)
      else do {
        sz \<leftarrow> cmd_get_data_size (argv ! 0) 4;
        if sz < 0 then Some (1, s)
        else do {
          a \<leftarrow> hex_arg (argv ! 1);
          let a = a + base_address s;
          dest \<leftarrow> hex_arg (argv ! 2);
          let dest = dest + base_address s;
          count \<leftarrow> hex_arg (argv ! 3);
          let banks = flash_info (mem_flash s);
          if count = 0 then Some (1, s)
          else if addr2info banks dest \<noteq> None then
            let cnt = count * word_of_int sz
            in do {
              (rc, mem) \<leftarrow> flash_write chip banks (flash_mem (mem_flash s)) (peek_bytes s a (unat cnt)) dest cnt;
              Some (if rc \<noteq> 0 then 1 else 0, s\<lparr>mem_flash := (mem_flash s)\<lparr>flash_mem := mem\<rparr>\<rparr>) }
          else do {
            s \<leftarrow> cp_loop (unat count) a dest (nat sz) s;
            Some (0, s) } } })"

definition do_mem_base :: "bytes list \<Rightarrow> memcmd \<Rightarrow> (int \<times> memcmd) option" where
  "do_mem_base argv s = do {
     b \<leftarrow> (if length argv > 1 then hex_arg (argv ! 1) else Some (base_address s));
     Some (0, put_line (BaseLine b) (s\<lparr>base_address := b\<rparr>)) }"

text \<open>The loops of this command have no end.\<close>

definition do_mem_loop :: "bytes list \<Rightarrow> memcmd \<Rightarrow> (int \<times> memcmd) option" where
  "do_mem_loop argv s =
     (if length argv < 3 then Some (1, s)
      else do {
        sz \<leftarrow> cmd_get_data_size (argv ! 0) 4;
        if sz < 0 then Some (1, s) else None })"

text \<open>
  Modifying memory. The list has what \<open>readline\<close> delivers: a line, or \<open>None\<close> for ctrl-c, which returns -1 and
  leaves an empty buffer. At the end of the list the command is still waiting. A size other than 4 and 2 is
  accessed as a byte.
\<close>

definition width :: "nat \<Rightarrow> nat" where
  "width sz = (if sz = 4 then 4 else if sz = 2 then 2 else 1)"

fun mod_loop :: "bool \<Rightarrow> bytes option list \<Rightarrow> u32 \<Rightarrow> nat \<Rightarrow> memcmd \<Rightarrow> (u32 \<times> memcmd) option" where
  "mod_loop incrflag [] a sz s = None"
| "mod_loop incrflag (l # ls) a sz s = do {
     v \<leftarrow> load_obj s a (width sz);
     let s = put_line (ModLine a (obj_val v)) s;
     let console_buffer = (case l of None \<Rightarrow> [0] | Some t \<Rightarrow> cstr t);
     let nbytes = (case l of None \<Rightarrow> -1 | Some t \<Rightarrow> int (length t));
     if nbytes = 0 \<or> nbytes = 1 \<and> console_buffer ! 0 = ch (CHR ''-'') then
       mod_loop incrflag ls (if \<not> incrflag then a else if nbytes \<noteq> 0 then a - of_nat sz else a + of_nat sz) sz s
     else do {
       (i, endp) \<leftarrow> simple_strtoul console_buffer 16;
       if length endp \<noteq> length console_buffer then do {
         s \<leftarrow> store_obj s a (obj_of (width sz) i);
         mod_loop incrflag ls (if incrflag then a + of_nat sz else a) sz s }
       else Some (a, s) } }"

definition mod_mem :: "bool \<Rightarrow> bool \<Rightarrow> bytes list \<Rightarrow> bytes option list \<Rightarrow> memcmd \<Rightarrow> (int \<times> memcmd) option" where
  "mod_mem incrflag repeat argv ls s =
     (if length argv \<noteq> 2 then Some (1, s)
      else do {
        sz \<leftarrow> (if repeat then Some (mm_last_size s) else cmd_get_data_size (argv ! 0) 4);
        if \<not> repeat \<and> sz < 0 then Some (1, s)
        else do {
          a \<leftarrow> (if repeat then Some (mm_last_addr s) else map_option (\<lambda>a. a + base_address s) (hex_arg (argv ! 1)));
          (a, s) \<leftarrow> mod_loop incrflag ls a (nat sz) s;
          Some (0, s\<lparr>mm_last_addr := a, mm_last_size := sz\<rparr>) } })"

definition do_mem_mm :: "bool \<Rightarrow> bytes list \<Rightarrow> bytes option list \<Rightarrow> memcmd \<Rightarrow> (int \<times> memcmd) option" where
  "do_mem_mm = mod_mem True"

definition do_mem_nm :: "bool \<Rightarrow> bytes list \<Rightarrow> bytes option list \<Rightarrow> memcmd \<Rightarrow> (int \<times> memcmd) option" where
  "do_mem_nm = mod_mem False"

definition do_mem_crc :: "bytes list \<Rightarrow> memcmd \<Rightarrow> (int \<times> memcmd) option" where
  "do_mem_crc argv s =
     (if length argv < 3 then Some (1, s)
      else do {
        a \<leftarrow> hex_arg (argv ! 1);
        let a = a + base_address s;
        len \<leftarrow> hex_arg (argv ! 2);
        let crc = crc32 0 (peek_bytes s a (unat len));
        let s = put_line (CrcLine a (a + len - 1) crc) s;
        if length argv > 3 then do {
          ptr \<leftarrow> hex_arg (argv ! 3);
          s \<leftarrow> store_obj s ptr (be32 crc);
          Some (0, s) }
        else Some (0, s) })"

section \<open>The memory test\<close>

text \<open>
  The memory under test is an argument: \<open>cell a v\<close> is what reading address \<open>a\<close> returns when \<open>v\<close> was stored
  there last. Sound memory is \<open>\<lambda>a v. v\<close>. Each round of the test asks for ctrl-c once; at the end of the list of
  answers the test is still running.
\<close>

definition CFG_MEMTEST_START :: u32 where "CFG_MEMTEST_START = 0x80200000"
definition CFG_MEMTEST_END :: u32 where "CFG_MEMTEST_END = 0x83800000"

partial_function (option) mt_write :: "u32 \<Rightarrow> u32 \<Rightarrow> u32 \<Rightarrow> u32 \<Rightarrow> memcmd \<Rightarrow> memcmd option" where
  "mt_write a e val incr s =
     (if a < e then do { s \<leftarrow> store_obj s a (be32 val); mt_write (a + 4) e (val + incr) incr s } else Some s)"

partial_function (option) mt_read :: "(u32 \<Rightarrow> u32 \<Rightarrow> u32) \<Rightarrow> u32 \<Rightarrow> u32 \<Rightarrow> u32 \<Rightarrow> u32 \<Rightarrow> memcmd \<Rightarrow> memcmd option" where
  "mt_read cell a e val incr s =
     (if a < e then do {
        b \<leftarrow> load_obj s a 4;
        let readback = cell a (obj_val b);
        mt_read cell (a + 4) e (val + incr) incr (if readback \<noteq> val then put_line (MemError a readback val) s else s) }
      else Some s)"

fun mt_rounds :: "(u32 \<Rightarrow> u32 \<Rightarrow> u32) \<Rightarrow> u32 \<Rightarrow> u32 \<Rightarrow> bool list \<Rightarrow> u32 \<Rightarrow> u32 \<Rightarrow> u32 \<Rightarrow> memcmd \<Rightarrow> (int \<times> memcmd) option" where
  "mt_rounds cell b e [] pattern count incr s = None"
| "mt_rounds cell b e (c # cs) pattern count incr s =
     (if c then Some (1, s)
      else if count = 1 then Some (0, s)
      else do {
        s \<leftarrow> mt_write b e pattern incr s;
        s \<leftarrow> mt_read cell b e pattern incr s;
        mt_rounds cell b e cs (if pattern AND 0x80000000 \<noteq> 0 then - pattern else NOT pattern)
          (if count > 1 then count - 1 else count) (- incr) s })"

definition opt_arg :: "bytes list \<Rightarrow> nat \<Rightarrow> u32 \<Rightarrow> u32 option" where
  "opt_arg argv k d = (if length argv > k then hex_arg (argv ! k) else Some d)"

definition do_mem_mtest :: "(u32 \<Rightarrow> u32 \<Rightarrow> u32) \<Rightarrow> bytes list \<Rightarrow> memcmd \<Rightarrow> (int \<times> memcmd) option" where
  "do_mem_mtest cell argv s = do {
     b \<leftarrow> opt_arg argv 1 CFG_MEMTEST_START;
     e \<leftarrow> opt_arg argv 2 CFG_MEMTEST_END;
     pattern \<leftarrow> opt_arg argv 3 0;
     count \<leftarrow> (if length argv > 4 then map_option (\<lambda>n. n + 1) (hex_arg (argv ! 4)) else Some 0);
     mt_rounds cell b e (ctrlc_in s) pattern count 1 s }"

section \<open>Erasing and programming from memory\<close>

lemma find_sect_end_uniform:
  assumes u: "uniform base ss n info" and a: "base \<le> unat a" "unat a < base + n * ss"
  shows "\<exists>e. find_sect_end a [info] = Some e \<and> unat e = base + Suc ((unat a - base) div ss) * ss - 1"
proof -
  have ss: "0 < ss" "sector_count info = n" using u by (auto simp: uniform_def)
  let ?i = "(unat a - base) div ss"
  have i: "?i < n" using a ss by (simp add: less_mult_imp_div_less)
  have hit: "a \<le> sect_end info j \<and> a \<ge> start info ! j \<longleftrightarrow> j = ?i" if "j < n" for j
  proof -
    have "a \<le> sect_end info j \<and> a \<ge> start info ! j \<longleftrightarrow> unat a \<le> base + Suc j * ss - 1 \<and> base + j * ss \<le> unat a"
      using uniform_end [OF u that] uniform_start [OF u that] by (simp add: word_le_nat_alt)
    also have "\<dots> \<longleftrightarrow> j * ss \<le> unat a - base \<and> unat a - base < Suc j * ss" using a ss(1) by (auto simp: algebra_simps)
    also have "\<dots> \<longleftrightarrow> j = ?i"
      using ss(1) div_nat_eqI [of ss j "unat a - base"] div_times_less_eq_dividend [of "unat a - base" ss] dividend_less_div_times [OF ss(1), of "unat a - base"]
      by (auto simp: mult.commute)
    finally show ?thesis .
  qed
  have "find (\<lambda>i. a \<le> sect_end info i \<and> a \<ge> start info ! i) [0..<n] = Some ?i"
    unfolding find_Some_iff using hit i by (intro exI [of _ ?i]) auto
  then show ?thesis using uniform_end [OF u i] ss(2) by simp
qed

lemma erase_command:
  assumes chip: "spi_nor chip" and u: "uniform 0x9f000000 65536 n info" and m: "length mem = n * 65536" "length mem \<le> 2 ^ 24"
    and L: "0 < L" "0x50000 + L \<le> length mem"
  shows "do_flerase chip [cmd, cstr (str ''0x9f050000''), cstr (43 # hex_of (int L))] \<lparr>flash_info = [info], flash_mem = mem\<rparr> =
    Some (0, \<lparr>flash_info = [info], flash_mem = overlay mem 0x50000 (replicate (((L - 1) div 65536 + 1) * 65536) 0xff)\<rparr>)"
proof -
  have s: "strcmp (cstr (str ''0x9f050000'')) (cstr (str ''all'')) = Some (-49)" "strcmp (cstr (str ''0x9f050000'')) (cstr (str ''bank'')) = Some (-50)"
    "strchr (cstr (str ''0x9f050000'')) (ch (CHR '':'')) = Some None" "simple_strtoul (cstr (str ''0x9f050000'')) 16 = Some (0x9f050000, [0])"
    "length (cstr (str ''0x9f050000'')) = 11"
    by code_simp+
  let ?a = "0x9f050000 + of_nat L - 1 :: u32" and ?l = "5 + (L - 1) div 65536"
  have a: "unat ?a = 0x9f050000 + L - 1" using L m(2) by (simp add: unat_minus_one unat_word_ariths unat_of_nat)
  have "0x9f050000 + L \<le> 0x9f000000 + n * 65536" using L m(1) by simp
  then obtain e where e: "find_sect_end ?a [info] = Some e" "unat e = 0x9f000000 + Suc ((0x50000 + (L - 1)) div 65536) * 65536 - 1"
    using find_sect_end_uniform [OF u, of ?a] a L(1) by auto
  have "(0x50000 + (L - 1)) div 65536 = ?l" using div_plus_div_distrib_dvd_left [of 65536 "0x50000" "L - 1"] by simp
  then have e2: "unat e + 1 = 0x9f000000 + Suc ?l * 65536" using e(2) by simp
  have l: "?l < n" using L m(1) by (simp add: less_mult_imp_div_less)
  have n: "hd [0] = (0 :: byte)" "length (hex_of (int L) @ [0]) \<noteq> Suc 0" using hex_of_props(3) [of "int L"] by auto
  have "addr_spec [info] (cstr (str ''0x9f050000'')) (Some (cstr (43 # hex_of (int L)))) = Some (1, 0x9f050000, e)"
    using hex_of_read [of "int L" "[]"] e(1) n by (simp add: addr_spec_def s bad_number_def rd_def ch_def) (simp add: cstr_def str_def)
  moreover have "\<not> e \<le> 0x9f050000" using e2 by (simp add: word_le_nat_alt)
  moreover have "flash_sect_erase chip 0x9f050000 e \<lparr>flash_info = [info], flash_mem = mem\<rparr> =
      Some (0, \<lparr>flash_info = [info], flash_mem = overlay mem (5 * 65536) (replicate ((?l - 5 + 1) * 65536) 0xff)\<rparr>)"
    using spi_nor.sect_erase_whole [OF chip u _ l _ e2 m, of 5 "0x9f050000"] by simp
  ultimately show ?thesis by (simp add: do_flerase_def Let_def s abbrev_spec_def)
qed

lemma peek_bytes_ram:
  assumes "\<And>i. i < n \<Longrightarrow> flash_cell s (a + of_nat i) = None"
  shows "peek_bytes s a n = ld_bytes (cells s) a n"
  using assms
proof (induction n arbitrary: a)
  case (Suc n)
  have "flash_cell s a = None" using Suc.prems [of 0] by simp
  moreover have "peek_bytes s (a + 1) n = ld_bytes (cells s) (a + 1) n"
    using Suc.prems [of "Suc i" for i] by (intro Suc.IH) (simp add: add.assoc)
  ultimately show ?case by (simp add: peek_def)
qed simp

lemma peek_bytes_length [simp]: "length (peek_bytes s a n) = n"
  by (induction n arbitrary: a) auto

lemma ones_and: "length d \<le> k \<Longrightarrow> map2 (AND) (replicate k 0xff) d = (d :: bytes)"
proof (induction d arbitrary: k)
  case (Cons x d)
  have "0xff AND x = x" by (rule bit_eqI) (auto simp: bit_simps bit_255)
  then show ?case using Cons by (cases k) auto
qed simp

lemma copy_command:
  assumes chip: "spi_nor chip" and u: "uniform 0x9f000000 65536 n info" and m: "length mem = n * 65536" "length mem \<le> 2 ^ 24"
    and L: "0 < L" "0x50000 + L \<le> length mem"
    and free: "\<forall>i<n. 5 \<le> i \<longrightarrow> protect info ! i = 0"
    and s: "base_address s = 0" "mem_flash s = \<lparr>flash_info = [info], flash_mem = mem\<rparr>" "ld_bytes (cells s) 0x82000000 L = img"
    and erased: "take L (drop 0x50000 mem) = replicate L 0xff"
  shows "do_mem_cp chip [cstr (str ''cp.b''), cstr (str ''0x82000000''), cstr (str ''0x9f050000''), cstr (hex_of (int L))] s =
    Some (0, s\<lparr>mem_flash := \<lparr>flash_info = [info], flash_mem = overlay mem 0x50000 img\<rparr>\<rparr>)"
proof -
  have c: "cmd_get_data_size (cstr (str ''cp.b'')) 4 = Some 1" "hex_arg (cstr (str ''0x82000000'')) = Some 0x82000000"
    "hex_arg (cstr (str ''0x9f050000'')) = Some 0x9f050000" by code_simp+
  have h: "hex_arg (cstr (hex_of (int L))) = Some (of_nat L)" using hex_of_read [of "int L" "[]"] by (simp add: hex_arg_def cstr_def)
  have uL: "unat (of_nat L :: u32) = L" using L m(2) by (simp add: unat_of_nat take_bit_nat_eq_self_iff)
  have "flash_cell s (0x82000000 + of_nat i) = None" if "i < L" for i
  proof -
    have "unat (0x82000000 + of_nat i :: u32) = 0x82000000 + i" using that L m(2) by (simp add: unat_word_ariths unat_of_nat)
    moreover have "(0x82000000 + i) mod 0x20000000 = 0x2000000 + i" using that L m(2) mod_mult_self2 [of "0x2000000 + i" "0x20000000" 4] by simp
    ultimately show ?thesis using that L m(2) by (simp add: flash_cell_def pa_def)
  qed
  then have src: "peek_bytes s 0x82000000 L = img" using s(3) peek_bytes_ram by simp
  then have img: "length img = L" by (metis peek_bytes_length)
  have nz: "(of_nat L :: u32) \<noteq> 0" using uL L(1) by (metis unat_0 less_numeral_extra(3))
  have "\<not> (\<exists>i<n. protect info ! i \<noteq> 0 \<and> touches 0x9f000000 65536 0x9f050000 (0x9f050000 + L - 1) i)"
    using free by (auto simp: touches_def not_le)
  then have "flash_write chip [info] mem img 0x9f050000 (of_nat L) = Some (ERR_OK, overlay mem 0x50000 img)"
    using flash_write_cases [OF chip u, of "of_nat L" "0x9f050000" img mem] L m uL img erased ones_and [of img L] nz
    by simp
  moreover have "addr2info [info] 0x9f050000 = Some 0"
    using uniform_holds [OF u, of "0x9f050000"] L m(1) by (simp add: addr2info_single)
  ultimately show ?thesis using src uL nz by (simp add: do_mem_cp_def c h s)
qed

section \<open>The memory test on a region\<close>

text \<open>The words of a round, and the lines printed when they are read back.\<close>

fun mt_words :: "nat \<Rightarrow> u32 \<Rightarrow> u32 \<Rightarrow> bytes" where
  "mt_words 0 val incr = []"
| "mt_words (Suc n) val incr = be32 val @ mt_words n (val + incr) incr"

fun mt_errors :: "(u32 \<Rightarrow> u32 \<Rightarrow> u32) \<Rightarrow> u32 \<Rightarrow> nat \<Rightarrow> u32 \<Rightarrow> u32 \<Rightarrow> mem_line list" where
  "mt_errors cell a 0 val incr = []"
| "mt_errors cell a (Suc n) val incr =
     (if cell a val \<noteq> val then [MemError a (cell a val) val] else []) @ mt_errors cell (a + 4) n (val + incr) incr"

text \<open>A region of \<open>n\<close> words of memory that is not flash.\<close>

definition test_region :: "memcmd \<Rightarrow> u32 \<Rightarrow> nat \<Rightarrow> bool" where
  "test_region s a n \<longleftrightarrow> unat a mod 4 = 0 \<and> unat a + 4 * n < 2 ^ 32 \<and> pa a + 4 * n < 2 ^ 29 \<and>
     (\<forall>i<4 * n. flash_cell s (a + of_nat i) = None)"

lemma mt_words_length [simp]: "length (mt_words n val incr) = 4 * n"
  by (induction n arbitrary: val) auto

lemma poke_bytes_ram:
  assumes "\<And>i. i < length b \<Longrightarrow> flash_cell s (a + of_nat i) = None"
  shows "poke_bytes s a b = Some (s\<lparr>cells := st_bytes (cells s) a b\<rparr>)"
  using assms
proof (induction b arbitrary: a s)
  case (Cons x b)
  have "flash_cell s a = None" using Cons.prems [of 0] by simp
  moreover have "poke_bytes (s\<lparr>cells := st (cells s) a x\<rparr>) (a + 1) b =
      Some (s\<lparr>cells := st_bytes (st (cells s) a x) (a + 1) b\<rparr>)"
    using Cons.IH [of "s\<lparr>cells := st (cells s) a x\<rparr>" "a + 1"] Cons.prems [of "Suc i" for i] by (simp add: add.assoc flash_cell_def)
  ultimately show ?case by (simp add: poke_def)
qed simp

lemma test_region_Suc:
  assumes "test_region s a (Suc n)"
  shows "test_region s (a + 4) n" "unat (a + 4) = unat a + 4"
    "\<And>i. i < 4 \<Longrightarrow> flash_cell s (a + of_nat i) = None" "unat a mod 4 = 0"
proof -
  note t = assms [unfolded test_region_def]
  show u: "unat (a + 4) = unat a + 4" using t by (simp add: unat_word_ariths)
  show "flash_cell s (a + of_nat i) = None" if "i < 4" for i using t that by simp
  show "unat a mod 4 = 0" using t by simp
  have "flash_cell s (a + 4 + of_nat i) = None" if "i < 4 * n" for i
  proof -
    have "a + 4 + of_nat i = a + of_nat (4 + i)" by simp
    then show ?thesis using t that by (metis add_less_cancel_left mult_Suc_right)
  qed
  moreover have "pa (a + 4) = pa a + 4" using t pa_add_small [of a 4] by simp
  moreover have "(unat a + 4) mod 4 = 0" using t by simp
  ultimately show "test_region s (a + 4) n" using t u by (simp add: test_region_def)
qed

lemma mt_write_ok:
  "test_region s a n \<Longrightarrow> unat e = unat a + 4 * n \<Longrightarrow>
   mt_write a e val incr s = Some (s\<lparr>cells := st_bytes (cells s) a (mt_words n val incr)\<rparr>)"
proof (induction n arbitrary: a val s)
  case 0
  then show ?case by (subst mt_write.simps) (simp add: word_less_nat_alt)
next
  case (Suc n)
  note r = test_region_Suc [OF Suc.prems(1)]
  let ?s = "s\<lparr>cells := st_bytes (cells s) a (be32 val)\<rparr>"
  have "store_obj s a (be32 val) = Some ?s" using poke_bytes_ram [of "be32 val" s a] r(3,4) by (simp add: store_obj_def)
  moreover have "test_region ?s (a + 4) n" using r(1) by (simp add: test_region_def flash_cell_def)
  then have "mt_write (a + 4) e (val + incr) incr ?s =
      Some (?s\<lparr>cells := st_bytes (cells ?s) (a + 4) (mt_words n (val + incr) incr)\<rparr>)"
    using r(2) Suc.prems(2) by (intro Suc.IH) auto
  moreover have "a < e" using Suc.prems(2) by (simp add: word_less_nat_alt)
  ultimately show ?case by (subst mt_write.simps) (simp add: st_bytes_append)
qed

lemma obj_val_be32: "obj_val (be32 v) = v"
proof -
  have "obj_val (be32 v) = of_be32 (be32 v)"
    by (rule bit_word_eqI) (auto simp: obj_val_def of_be32_def be32_def bit_simps)
  then show ?thesis using of_be32_be32 [of v "[]"] by simp
qed

lemma mt_read_ok:
  "test_region s a n \<Longrightarrow> unat e = unat a + 4 * n \<Longrightarrow> ld_bytes (cells s) a (4 * n) = mt_words n val incr \<Longrightarrow>
   mt_read cell a e val incr s = Some (s\<lparr>mem_out := mem_out s @ mt_errors cell a n val incr\<rparr>)"
proof (induction n arbitrary: a val s)
  case 0
  then show ?case by (subst mt_read.simps) (simp add: word_less_nat_alt)
next
  case (Suc n)
  note r = test_region_Suc [OF Suc.prems(1)]
  have m: "ld_bytes (cells s) a 4 = be32 val" "ld_bytes (cells s) (a + 4) (4 * n) = mt_words n (val + incr) incr"
    using Suc.prems(3) ld_bytes_append [of "cells s" a 4 "4 * n"] by (auto simp: append_eq_append_conv)
  define t where "t = (if cell a val \<noteq> val then put_line (MemError a (cell a val) val) s else s)"
  have o: "load_obj s a 4 = Some (be32 val)" using peek_bytes_ram [of 4 s a] r(3,4) m(1) by (simp add: load_obj_def)
  have "test_region t (a + 4) n" "cells t = cells s" using r(1) by (auto simp: t_def put_line_def test_region_def flash_cell_def)
  then have "mt_read cell (a + 4) e (val + incr) incr t =
      Some (t\<lparr>mem_out := mem_out t @ mt_errors cell (a + 4) n (val + incr) incr\<rparr>)"
    using r(2) Suc.prems(2) m(2) by (intro Suc.IH) auto
  moreover have "a < e" using Suc.prems(2) by (simp add: word_less_nat_alt)
  ultimately show ?case using o by (subst mt_read.simps) (auto simp: obj_val_be32 t_def put_line_def Let_def)
qed

text \<open>The rounds. Whatever the memory answers, the test returns 0.\<close>

definition faulty :: "(u32 \<Rightarrow> u32 \<Rightarrow> u32) \<Rightarrow> u32 \<Rightarrow> nat \<Rightarrow> bool" where
  "faulty cell b n \<longleftrightarrow> (\<exists>i<n. \<forall>v. cell (b + of_nat (4 * i)) v \<noteq> v)"

definition sound :: "(u32 \<Rightarrow> u32 \<Rightarrow> u32) \<Rightarrow> u32 \<Rightarrow> nat \<Rightarrow> bool" where
  "sound cell b n \<longleftrightarrow> (\<forall>i<n. \<forall>v. cell (b + of_nat (4 * i)) v = v)"

lemma all_less_Suc: "(\<forall>i<Suc n. P i) \<longleftrightarrow> P 0 \<and> (\<forall>i<n. P (Suc i))"
  by (auto simp: less_Suc_eq_0_disj)

lemma ex_less_Suc: "(\<exists>i<Suc n. P i) \<longleftrightarrow> P 0 \<or> (\<exists>i<n. P (Suc i))"
  by (auto simp: less_Suc_eq_0_disj)

lemma mt_errors_sound: "sound cell b n \<Longrightarrow> mt_errors cell b n val incr = []"
proof (induction n arbitrary: b val)
  case (Suc n)
  have "sound cell (b + 4) n" using Suc.prems by (auto simp: sound_def all_less_Suc add.assoc)
  then show ?case using Suc by (auto simp: sound_def all_less_Suc)
qed simp

lemma mt_errors_faulty: "faulty cell b n \<Longrightarrow> mt_errors cell b n val incr \<noteq> []"
proof (induction n arbitrary: b val)
  case (Suc n)
  have "faulty cell (b + 4) n \<or> (\<forall>v. cell b v \<noteq> v)" using Suc.prems by (auto simp: faulty_def ex_less_Suc add.assoc)
  then show ?case using Suc.IH by auto
qed (simp add: faulty_def)

lemma ld_st_bytes: "pa a + length w < 2 ^ 29 \<Longrightarrow> ld_bytes (st_bytes m a w) a (length w) = w"
  by (simp add: st_bytes_place ld_bytes_seg ld_place_same)

lemma mt_rounds_ok:
  "test_region s b n \<Longrightarrow> unat e = unat b + 4 * n \<Longrightarrow> Suc c < 2 ^ 32 \<Longrightarrow>
   \<exists>s' ls. mt_rounds cell b e (replicate (Suc c) False @ cs) pattern (of_nat (Suc c)) incr s = Some (0, s') \<and>
     mem_out s' = mem_out s @ ls \<and> (sound cell b n \<longrightarrow> ls = []) \<and> (0 < c \<and> faulty cell b n \<longrightarrow> ls \<noteq> [])"
proof (induction c arbitrary: s pattern incr)
  case (Suc c)
  let ?w = "mt_words n pattern incr" and ?l = "mt_errors cell b n pattern incr"
  let ?s = "s\<lparr>cells := st_bytes (cells s) b ?w\<rparr>"
  let ?p = "if pattern AND 0x80000000 \<noteq> 0 then - pattern else NOT pattern"
  have r: "test_region ?s b n" using Suc.prems(1) by (simp add: test_region_def flash_cell_def)
  have "pa b + 4 * n < 2 ^ 29" using Suc.prems(1) unfolding test_region_def by blast
  then have "ld_bytes (st_bytes (cells s) b ?w) b (length ?w) = ?w" by (intro ld_st_bytes) (simp only: mt_words_length)
  then have ld: "ld_bytes (cells ?s) b (4 * n) = ?w" by (simp only: mt_words_length) simp
  have rd: "mt_read cell b e pattern incr ?s = Some (?s\<lparr>mem_out := mem_out s @ ?l\<rparr>)"
    using mt_read_ok [OF r Suc.prems(2) ld] by simp
  have "test_region (?s\<lparr>mem_out := mem_out s @ ?l\<rparr>) b n" using r by (simp add: test_region_def flash_cell_def)
  from Suc.IH [OF this Suc.prems(2) Suc_lessD [OF Suc.prems(3)], of ?p "- incr"]
  obtain s' ls where s': "mt_rounds cell b e (replicate (Suc c) False @ cs) ?p (of_nat (Suc c)) (- incr) (?s\<lparr>mem_out := mem_out s @ ?l\<rparr>) = Some (0, s')"
    "mem_out s' = mem_out (?s\<lparr>mem_out := mem_out s @ ?l\<rparr>) @ ls" "sound cell b n \<longrightarrow> ls = []" by blast
  have "unat (of_nat (Suc (Suc c)) :: u32) = Suc (Suc c)" using Suc.prems(3) by (simp only: unat_of_nat) (simp add: take_bit_nat_eq_self_iff)
  then have cnt: "(of_nat (Suc (Suc c)) :: u32) \<noteq> 1" "(1 :: u32) < of_nat (Suc (Suc c))" "(of_nat (Suc (Suc c)) :: u32) - 1 = of_nat (Suc c)"
    by (auto simp: word_less_nat_alt simp del: of_nat_Suc) simp
  have "mt_rounds cell b e (replicate (Suc (Suc c)) False @ cs) pattern (of_nat (Suc (Suc c))) incr s = Some (0, s')"
    using mt_write_ok [OF Suc.prems(1,2)] rd s'(1) cnt by (simp del: of_nat_Suc replicate_Suc add: replicate_Suc [of "Suc c"])
  then show ?case using s'(2,3) mt_errors_sound [of cell b n pattern incr] mt_errors_faulty [of cell b n pattern incr]
    by (intro exI [of _ s'] exI [of _ "?l @ ls"]) auto
qed simp

section \<open>Properties\<close>

text \<open>
  C40: the result of the memory test says nothing about the memory. \<open>mtest b e p c\<close> over a region of memory
  that is not interrupted comes to an end and returns 0 whatever the memory answers. With sound memory it
  prints no error; with a word that never reads back what was written, and at least one round, it prints
  errors, and still returns 0, because the variable \<open>rcode\<close> that records them is never returned.
\<close>

theorem mtest_returns_success:
  fixes b e p :: u32
  assumes "test_region s b n" "unat e = unat b + 4 * n" "Suc c < 2 ^ 32" "ctrlc_in s = replicate (Suc c) False @ cs"
    "argv = [cstr (str ''mtest''), cstr (hex_of (uint b)), cstr (hex_of (uint e)), cstr (hex_of (uint p)), cstr (hex_of (int c))]"
  shows "\<exists>s' ls. do_mem_mtest cell argv s = Some (0, s') \<and> mem_out s' = mem_out s @ ls \<and>
    (sound cell b n \<longrightarrow> ls = []) \<and> (0 < c \<and> faulty cell b n \<longrightarrow> ls \<noteq> [])"
proof -
  have h: "hex_arg (cstr (hex_of m)) = Some (word_of_int m)" for m using hex_of_read [of m "[]"] by (simp add: hex_arg_def cstr_def)
  have "do_mem_mtest cell argv s = mt_rounds cell b e (replicate (Suc c) False @ cs) p (of_nat (Suc c)) 1 s"
    by (simp add: do_mem_mtest_def opt_arg_def h assms(4,5) add.commute)
  then show ?thesis using mt_rounds_ok [OF assms(1-3), of cell cs p 1] by simp
qed

definition demo_mem :: memcmd where
  "demo_mem = \<lparr>cells = \<lambda>_. 0, mem_flash = \<lparr>flash_info = [], flash_mem = []\<rparr>, base_address = 0, dp_last_addr = 0, dp_last_size = 0,
     dp_last_length = 0x40, mm_last_addr = 0, mm_last_size = 0, mem_out = [], ctrlc_in = [False, False]\<rparr>"

theorem mtest_returns_success_witness:
  "\<exists>s'. do_mem_mtest (\<lambda>a v. if a = 0x80200004 then v + 1 else v)
      [cstr (str ''mtest''), cstr (hex_of (uint (0x80200000 :: u32))), cstr (hex_of (uint (0x80200008 :: u32))), cstr (hex_of (uint (0 :: u32))), cstr (hex_of (int 1))] demo_mem =
    Some (0, s') \<and> mem_out s' \<noteq> []"
proof -
  let ?cell = "\<lambda>(a :: u32) v. if a = 0x80200004 then v + 1 else v :: u32"
  have "test_region demo_mem 0x80200000 2" by (simp add: test_region_def demo_mem_def flash_cell_def pa_def)
  moreover have "ctrlc_in demo_mem = replicate (Suc 1) False @ []" by (simp add: demo_mem_def)
  moreover have "\<forall>v. ?cell (0x80200000 + of_nat (4 * 1)) v \<noteq> v" by simp
  then have "faulty ?cell 0x80200000 2" unfolding faulty_def by (intro exI [of _ 1]) simp
  moreover have "mem_out demo_mem = []" by (simp add: demo_mem_def)
  ultimately show ?thesis
    using mtest_returns_success [of demo_mem "0x80200000" 2 "0x80200008" 1 "[]" _ 0 ?cell] by auto
qed

end
