(* ===== verification/SRecord.thy ===== *)
theory SRecord
  imports MemCmd
begin

text \<open>
  Downloading Motorola S-records over the serial line: \<open>srec_decode\<close> of \<open>common/s_record.c\<close> and the command
  \<open>loads\<close> of \<open>common/cmd_load.c\<close>.
\<close>

section \<open>Decoding a record\<close>

abbreviation (input) SREC_START :: int where "SREC_START \<equiv> 0"
abbreviation (input) SREC_DATA2 :: int where "SREC_DATA2 \<equiv> 1"
abbreviation (input) SREC_DATA3 :: int where "SREC_DATA3 \<equiv> 2"
abbreviation (input) SREC_DATA4 :: int where "SREC_DATA4 \<equiv> 3"
abbreviation (input) SREC_COUNT :: int where "SREC_COUNT \<equiv> 5"
abbreviation (input) SREC_END4 :: int where "SREC_END4 \<equiv> 7"
abbreviation (input) SREC_END3 :: int where "SREC_END3 \<equiv> 8"
abbreviation (input) SREC_END2 :: int where "SREC_END2 \<equiv> 9"
abbreviation (input) SREC_EMPTY :: int where "SREC_EMPTY \<equiv> 10"
abbreviation (input) SREC_E_BADTYPE :: int where "SREC_E_BADTYPE \<equiv> -1"
abbreviation (input) SREC_E_NOSREC :: int where "SREC_E_NOSREC \<equiv> -2"
abbreviation (input) SREC_E_BADCHKS :: int where "SREC_E_BADCHKS \<equiv> -3"
abbreviation (input) SREC_MAXRECLEN :: nat where "SREC_MAXRECLEN \<equiv> 516"
abbreviation (input) SREC_MAXBINLEN :: nat where "SREC_MAXBINLEN \<equiv> 255"

definition hex1_bin :: "byte \<Rightarrow> int" where
  "hex1_bin c =
     (if ch (CHR ''0'') \<le> c \<and> c \<le> ch (CHR ''9'') then uint (c - ch (CHR ''0''))
      else if ch (CHR ''a'') \<le> c \<and> c \<le> ch (CHR ''f'') then uint (c + 10 - ch (CHR ''a''))
      else if ch (CHR ''A'') \<le> c \<and> c \<le> ch (CHR ''F'') then uint (c + 10 - ch (CHR ''A''))
      else -1)"

definition hex2_bin :: "bytes \<Rightarrow> int option" where
  "hex2_bin s = do {
     c \<leftarrow> rd s 0;
     if hex1_bin c < 0 then Some (-1)
     else do {
       d \<leftarrow> rd s 1;
       Some (if hex1_bin d < 0 then -1 else hex1_bin c * 16 + hex1_bin d) } }"

text \<open>The text behind the first \<open>S\<close>, or the terminator.\<close>

fun skip_to_S :: "bytes \<Rightarrow> bytes option" where
  "skip_to_S [] = None"
| "skip_to_S (c # s) = (if c = 0 then Some (c # s) else if c = ch (CHR ''S'') then Some s else skip_to_S s)"

text \<open>The code of a type of record, and the number of bytes of its address.\<close>

definition srec_type :: "byte \<Rightarrow> (int \<times> nat) option" where
  "srec_type v =
     (if v = ch (CHR ''0'') then Some (SREC_START, 2)
      else if v = ch (CHR ''1'') then Some (SREC_DATA2, 2)
      else if v = ch (CHR ''2'') then Some (SREC_DATA3, 3)
      else if v = ch (CHR ''3'') then Some (SREC_DATA4, 4)
      else if v = ch (CHR ''5'') then Some (SREC_COUNT, 2)
      else if v = ch (CHR ''7'') then Some (SREC_END4, 4)
      else if v = ch (CHR ''8'') then Some (SREC_END3, 3)
      else if v = ch (CHR ''9'') then Some (SREC_END2, 2)
      else None)"

text \<open>
  The address field: the address so far, the sum, and the rest of the text, with \<open>False\<close> at a character
  that is not a digit. The same for the data.
\<close>

fun srec_addr :: "nat \<Rightarrow> u32 \<Rightarrow> byte \<Rightarrow> bytes \<Rightarrow> (bool \<times> u32 \<times> byte \<times> bytes) option" where
  "srec_addr 0 a chksum inp = Some (True, a, chksum, inp)"
| "srec_addr (Suc n) a chksum inp = do {
     v \<leftarrow> hex2_bin inp;
     if v < 0 then Some (False, a, chksum, inp)
     else srec_addr n (push_bit 8 a + word_of_int v) (chksum + word_of_int v) (drop 2 inp) }"

fun srec_data :: "nat \<Rightarrow> nat \<Rightarrow> bytes \<Rightarrow> byte \<Rightarrow> bytes \<Rightarrow> (bool \<times> bytes \<times> byte \<times> bytes) option" where
  "srec_data 0 i data chksum inp = Some (True, data, chksum, inp)"
| "srec_data (Suc n) i data chksum inp = do {
     v \<leftarrow> hex2_bin inp;
     if v < 0 then Some (False, data, chksum, inp)
     else do {
       data \<leftarrow> wr data i (word_of_int v);
       srec_data n (Suc i) data (chksum + word_of_int v) (drop 2 inp) } }"

definition srec_decode :: "bytes \<Rightarrow> int \<Rightarrow> u32 \<Rightarrow> bytes \<Rightarrow> (int \<times> int \<times> u32 \<times> bytes) option" where
  "srec_decode inp count a data = do {
     inp \<leftarrow> skip_to_S inp;
     c \<leftarrow> rd inp 0;
     if c = 0 then Some (SREC_EMPTY, count, a, data)
     else do {
       count \<leftarrow> hex2_bin (drop 1 inp);
       if count < 0 then Some (SREC_E_NOSREC, count, a, data)
       else (case srec_type c of
           None \<Rightarrow> Some (SREC_E_BADTYPE, count, a, data)
         | Some (srec, k) \<Rightarrow> do {
             let chksum = word_of_int count;
             let count = (if srec = SREC_COUNT then 0 else count - int (k + 1));
             (ok, a, chksum, inp) \<leftarrow> srec_addr k 0 chksum (drop 3 inp);
             if \<not> ok then Some (SREC_E_NOSREC, count, a, data)
             else do {
               (ok, data, chksum, inp) \<leftarrow> srec_data (nat count) 0 data chksum inp;
               if \<not> ok then Some (SREC_E_NOSREC, count, a, data)
               else do {
                 v \<leftarrow> hex2_bin inp;
                 Some (if v < 0 then SREC_E_NOSREC
                       else if (word_of_int v :: byte) \<noteq> NOT chksum then SREC_E_BADCHKS
                       else srec, count, a, data) } } }) } }"

section \<open>The command\<close>

text \<open>
  The characters still to come on the serial line, each with whether it has arrived already when the
  code polls for one behind the last (\<open>tstc\<close>); and what is sent.
\<close>

record serial =
  ser_in :: "(byte \<times> bool) list"
  ser_out :: bytes
  do_echo :: bool
  ser_mem :: memcmd
  ser_ub :: ub

text \<open>\<open>ctrlc\<close> of \<open>common/console.c\<close> with a console: it takes a character that has arrived, whatever it is.\<close>

definition poll_ctrlc :: "serial \<Rightarrow> bool \<times> serial" where
  "poll_ctrlc s = (case ser_in s of (c, True) # rest \<Rightarrow> (c = 3, s\<lparr>ser_in := rest\<rparr>) | _ \<Rightarrow> (False, s))"

text \<open>
  The loop of \<open>read_record\<close> from index \<open>p\<close> on, with room for \<open>n\<close> characters. \<open>None\<close> inside: the code still waits
  for a character.
\<close>

fun read_loop :: "nat \<Rightarrow> nat \<Rightarrow> bytes \<Rightarrow> serial \<Rightarrow> ((int \<times> bytes) option \<times> serial) option" where
  "read_loop 0 p buf s = do { buf \<leftarrow> wr buf p 0; Some (Some (int p, buf), s) }"
| "read_loop (Suc n) p buf s = (case ser_in s of
      [] \<Rightarrow> Some (None, s)
    | (c, _) # rest \<Rightarrow> do {
        let s = s\<lparr>ser_in := rest, ser_out := ser_out s @ (if do_echo s then [c] else [])\<rparr>;
        if c = 13 \<or> c = 10 then do { buf \<leftarrow> wr buf p 0; Some (Some (int p, buf), s) }
        else if c = 0 \<or> c = 3 then Some (Some (-1, buf), s)
        else do {
          buf \<leftarrow> wr buf p c;
          let (stop, s) = (if jt_in (con (ser_ub s)) \<noteq> None then poll_ctrlc s else (False, s));
          if stop then Some (Some (-1, buf), s) else read_loop n (Suc p) buf s } })"

definition read_record :: "bytes \<Rightarrow> nat \<Rightarrow> serial \<Rightarrow> ((int \<times> bytes) option \<times> serial) option" where
  "read_record buf len s = read_loop (len - 1) 0 buf s"

text \<open>Storing the data of a record.\<close>

definition srec_store :: "chip \<Rightarrow> bytes \<Rightarrow> u32 \<Rightarrow> int \<Rightarrow> memcmd \<Rightarrow> (int \<times> memcmd) option" where
  "srec_store chip binbuf store_addr binlen m = do {
     let banks = flash_info (mem_flash m);
     if addr2info banks store_addr \<noteq> None then do {
       (rc, mem) \<leftarrow> flash_write chip banks (flash_mem (mem_flash m)) binbuf store_addr (word_of_int binlen);
       Some (rc, m\<lparr>mem_flash := (mem_flash m)\<lparr>flash_mem := mem\<rparr>\<rparr>) }
     else do {
       let n = unat (word_of_int binlen :: u32);
       if n > length binbuf then None
       else do { m \<leftarrow> poke_bytes m store_addr (take n binbuf); Some (0, m) } } }"

lemma poll_ctrlc_shorter: "poll_ctrlc s = (c, s') \<Longrightarrow> length (ser_in s') \<le> length (ser_in s)"
  by (auto simp: poll_ctrlc_def split: list.splits prod.splits bool.splits)

lemma read_loop_shorter:
  "read_loop n p buf s = Some (Some r, s') \<Longrightarrow> length (ser_in s') \<le> length (ser_in s) \<and> (0 < n \<longrightarrow> length (ser_in s') < length (ser_in s))"
proof (induction n arbitrary: p buf s)
  case 0
  then show ?case by (auto split: Option.bind_splits)
next
  case (Suc n)
  then obtain c f rest where i: "ser_in s = (c, f) # rest" by (cases "ser_in s") auto
  let ?s = "s\<lparr>ser_in := rest, ser_out := ser_out s @ (if do_echo s then [c] else [])\<rparr>"
  obtain stop s1 where s1: "(if jt_in (con (ser_ub ?s)) \<noteq> None then poll_ctrlc ?s else (False, ?s)) = (stop, s1)" by fastforce
  then have "length (ser_in s1) \<le> length rest" using poll_ctrlc_shorter [of ?s stop s1] by (auto split: if_splits)
  moreover have "s' = ?s \<or> s' = s1 \<or> (\<exists>p buf. read_loop n p buf s1 = Some (Some r, s'))"
    using Suc.prems i s1 by (auto simp: Let_def split: if_splits Option.bind_splits)
  ultimately show ?case using Suc.IH [of _ _ s1] i by fastforce
qed

lemma read_record_shorter:
  "read_record buf 517 s = Some (Some r, s') \<Longrightarrow> length (ser_in s') < length (ser_in s)"
  using read_loop_shorter [of 516 0 buf s r s'] by (simp add: read_record_def)

text \<open>The size, in upper case, in the variable \<open>filesize\<close>.\<close>

definition set_size :: "u32 \<Rightarrow> ub \<Rightarrow> ub option" where
  "set_size sz u = do {
     (buf, n) \<leftarrow> sprintf (replicate 32 0) (cstr (str ''%lX'')) [VInt sz];
     setenv (cstr (str ''filesize'')) (Some (cstr (take n buf))) u }"

text \<open>
  The loop of \<open>load_serial\<close>. The arguments are what the local variables hold: the length, address and data of the
  last record, the line, the lowest and highest address so far, and the number of lines.
\<close>

function load_loop :: "chip \<Rightarrow> u32 \<Rightarrow> int \<Rightarrow> u32 \<Rightarrow> bytes \<Rightarrow> bytes \<Rightarrow> u32 \<Rightarrow> u32 \<Rightarrow> nat \<Rightarrow> serial \<Rightarrow> (u32 option \<times> serial) option" where
  "load_loop chip offset binlen a binbuf line start_addr end_addr line_count s =
     (case read_record line 517 s of
        None \<Rightarrow> None
      | Some (None, s') \<Rightarrow> Some (None, s')
      | Some (Some (n, line), s') \<Rightarrow>
          if n < 0 then Some (Some (-1), s')
          else (case srec_decode line binlen a binbuf of
              None \<Rightarrow> None
            | Some (srec, binlen, a, binbuf) \<Rightarrow>
                let line_count = line_count + 1;
                    dots = (if \<not> do_echo s' \<and> line_count mod 100 = 0 then [ch (CHR ''.'')] else []);
                    s'' = s'\<lparr>ser_out := ser_out s' @ dots\<rparr>
                in if srec < 0 then Some (Some (-1), s')
                   else if srec \<in> {SREC_DATA2, SREC_DATA3, SREC_DATA4} then
                     (let store_addr = a + offset; last = store_addr + word_of_int binlen - 1
                      in case srec_store chip binbuf store_addr binlen (ser_mem s') of
                           None \<Rightarrow> None
                         | Some (rc, m) \<Rightarrow>
                             if rc \<noteq> 0 then Some (Some (-1), s'\<lparr>ser_mem := m\<rparr>)
                             else load_loop chip offset binlen a binbuf line (min start_addr store_addr) (max end_addr last)
                               line_count (s''\<lparr>ser_mem := m\<rparr>))
                   else if srec \<in> {SREC_END2, SREC_END3, SREC_END4} then do {
                     u \<leftarrow> set_size (end_addr - start_addr + 1) (ser_ub s');
                     Some (Some a, s'\<lparr>ser_ub := u\<rparr>) }
                   else load_loop chip offset binlen a binbuf line start_addr end_addr line_count s''))"
  by pat_completeness auto
termination
  by (relation "measure (\<lambda>(chip, offset, binlen, a, binbuf, line, start_addr, end_addr, line_count, s). length (ser_in s))")
    (auto dest: read_record_shorter)

declare load_loop.simps [simp del]

text \<open>The arrays on the stack have no defined contents at first.\<close>

definition load_serial :: "chip \<Rightarrow> u32 \<Rightarrow> bytes \<Rightarrow> bytes \<Rightarrow> int \<Rightarrow> u32 \<Rightarrow> serial \<Rightarrow> (u32 option \<times> serial) option" where
  "load_serial chip offset line binbuf binlen a s = load_loop chip offset binlen a binbuf line (-1) 0 0 s"

text \<open>Up to \<open>n\<close> characters that have arrived are dropped.\<close>

fun gather :: "nat \<Rightarrow> (byte \<times> bool) list \<Rightarrow> (byte \<times> bool) list" where
  "gather (Suc n) ((c, True) # rest) = gather n rest"
| "gather _ rest = rest"

definition echo_wanted :: "ub \<Rightarrow> bool option" where
  "echo_wanted u = do {
     e \<leftarrow> getenv (cstr (str ''loads_echo'')) u;
     (case e of None \<Rightarrow> Some False | Some k \<Rightarrow> do { c \<leftarrow> rd (env_mem u) k; Some (c = ch (CHR ''1'')) }) }"

text \<open>The command; \<open>None\<close> inside while it waits for characters.\<close>

definition do_load_serial :: "chip \<Rightarrow> bytes \<Rightarrow> bytes \<Rightarrow> int \<Rightarrow> u32 \<Rightarrow> bytes list \<Rightarrow> serial \<Rightarrow> (int option \<times> serial) option" where
  "do_load_serial chip line binbuf binlen a0 argv s = do {
     echo \<leftarrow> echo_wanted (ser_ub s);
     offset \<leftarrow> (if length argv = 2 then hex_arg (argv ! 1) else Some 0);
     (r, s) \<leftarrow> load_serial chip offset line binbuf binlen a0 (s\<lparr>do_echo := echo\<rparr>);
     Some (case r of
         None \<Rightarrow> (None, s)
       | Some a \<Rightarrow>
           let s = s\<lparr>ser_in := gather 100 (ser_in s)\<rparr>
           in if a = -1 then (Some 1, s) else (Some 0, s\<lparr>ser_ub := (ser_ub s)\<lparr>load_addr := a\<rparr>\<rparr>)) }"

section \<open>What a record says\<close>

text \<open>Text in hexadecimal, in either case, for a list of bytes.\<close>

fun hex_text :: "bytes \<Rightarrow> bytes \<Rightarrow> bool" where
  "hex_text [] [] = True"
| "hex_text (c # d # t) (b # bs) \<longleftrightarrow>
     0 \<le> hex1_bin c \<and> 0 \<le> hex1_bin d \<and> uint b = hex1_bin c * 16 + hex1_bin d \<and> hex_text t bs"
| "hex_text _ _ = False"

lemma hex_text_ConsE:
  assumes "hex_text t (b # bs)"
  obtains t' where "hex2_bin (t @ r) = Some (uint b)" "drop 2 (t @ r) = t' @ r" "hex_text t' bs"
proof -
  obtain c d t' where "t = c # d # t'" using assms by (cases "(t, b # bs)" rule: hex_text.cases) auto
  then show ?thesis using assms that by (simp add: hex2_bin_def)
qed

lemma hex_text_Nil [simp]: "hex_text t [] \<longleftrightarrow> t = []"
  by (cases "(t, [] :: bytes)" rule: hex_text.cases) auto

definition addr_of :: "bytes \<Rightarrow> u32" where
  "addr_of as = foldl (\<lambda>a b. push_bit 8 a + ucast b) 0 as"

lemma srec_addr_text:
  "hex_text t (as @ bs) \<Longrightarrow> \<exists>t'. srec_addr (length as) a ck (t @ r) =
     Some (True, foldl (\<lambda>a b. push_bit 8 a + ucast b) a as, ck + sum_list as, t' @ r) \<and> hex_text t' bs"
proof (induction as arbitrary: t a ck)
  case (Cons x as)
  have "hex_text t (x # as @ bs)" using Cons.prems by simp
  from hex_text_ConsE [OF this, of r] obtain t' where "hex2_bin (t @ r) = Some (uint x)" "drop 2 (t @ r) = t' @ r" "hex_text t' (as @ bs)" .
  then show ?case using Cons.IH [of t' "push_bit 8 a + ucast x" "ck + x"] by (simp add: add.assoc del: drop_append flip: ucast_eq)
qed auto

lemma srec_data_text:
  "hex_text t (ds @ bs) \<Longrightarrow> i + length ds \<le> length data \<Longrightarrow> \<exists>t'. srec_data (length ds) i data ck (t @ r) =
     Some (True, take i data @ ds @ drop (i + length ds) data, ck + sum_list ds, t' @ r) \<and> hex_text t' bs"
proof (induction ds arbitrary: t i data ck)
  case (Cons x ds)
  have "hex_text t (x # ds @ bs)" using Cons.prems by simp
  from hex_text_ConsE [OF this, of r] obtain t' where t: "hex2_bin (t @ r) = Some (uint x)" "drop 2 (t @ r) = t' @ r" "hex_text t' (ds @ bs)" .
  have "take (Suc i) (data[i := x]) = take i data @ [x]" using Cons.prems(2) by (simp add: take_Suc_conv_app_nth)
  then show ?case using t Cons.IH [of t' "Suc i" "data[i := x]" "ck + x"] Cons.prems(2) by (simp add: add.assoc del: drop_append)
qed auto

text \<open>
  A line with a record of the code \<open>srec\<close>: anything up to the first \<open>S\<close>, the type, and in hexadecimal the count
  \<open>n\<close>, the address \<open>as\<close>, the data \<open>ds\<close> and a checksum.
\<close>

definition srec_text :: "bytes \<Rightarrow> int \<Rightarrow> nat \<Rightarrow> bytes \<Rightarrow> bytes \<Rightarrow> byte \<Rightarrow> bool" where
  "srec_text l srec n as ds ck \<longleftrightarrow> (\<exists>junk ty t. l = junk @ ch (CHR ''S'') # ty # t \<and> nonul junk \<and> ch (CHR ''S'') \<notin> set junk \<and>
     srec_type ty = Some (srec, length as) \<and> hex_text t (of_nat n # as @ ds @ [ck]) \<and> n < 256)"

lemma skip_to_S_skips: "nonul junk \<Longrightarrow> ch (CHR ''S'') \<notin> set junk \<Longrightarrow> skip_to_S (junk @ ch (CHR ''S'') # s) = Some s"
  by (induction junk) (auto simp: ch_def)

lemma skip_to_S_none: "nonul l \<Longrightarrow> ch (CHR ''S'') \<notin> set l \<Longrightarrow> skip_to_S (l @ 0 # r) = Some (0 # r)"
  by (induction l) auto

lemma srec_decode_text:
  assumes l: "srec_text l srec n as ds ck" and ds: "length ds = (if srec = 5 then 0 else n - (length as + 1))" "length ds \<le> length buf"
  shows "srec_decode (l @ r) c0 a0 buf =
    Some (if of_nat n + sum_list as + sum_list ds + ck = (255 :: byte) then srec else SREC_E_BADCHKS,
          if srec = 5 then 0 else int n - int (length as + 1), addr_of as, ds @ drop (length ds) buf)"
proof -
  obtain junk ty t where l: "l = junk @ ch (CHR ''S'') # ty # t" "nonul junk" "ch (CHR ''S'') \<notin> set junk"
    "srec_type ty = Some (srec, length as)" "hex_text t (of_nat n # as @ ds @ [ck])" "n < 256"
    using l by (auto simp: srec_text_def)
  have un: "uint (of_nat n :: byte) = int n" using l(6) by (simp add: uint_nat unat_of_nat)
  obtain t1 where t1: "hex2_bin (t @ r) = Some (uint (of_nat n :: byte))" "drop 2 (t @ r) = t1 @ r" "hex_text t1 (as @ ds @ [ck])"
    using hex_text_ConsE [OF l(5)] by blast
  obtain t2 where t2: "srec_addr (length as) 0 (of_nat n) (t1 @ r) = Some (True, addr_of as, of_nat n + sum_list as, t2 @ r)"
    "hex_text t2 (ds @ [ck])"
    using srec_addr_text [OF t1(3)] unfolding addr_of_def by blast
  obtain t3 where t3: "srec_data (length ds) 0 buf (of_nat n + sum_list as) (t2 @ r) =
      Some (True, ds @ drop (length ds) buf, of_nat n + sum_list as + sum_list ds, t3 @ r)" "hex_text t3 [ck]"
    using srec_data_text [OF t2(2), of 0 buf] ds(2) by auto
  have t4: "hex2_bin (t3 @ r) = Some (uint ck)" using hex_text_ConsE [OF t3(2), of r] by blast
  have ty: "ty \<noteq> 0" using l(4) by (auto simp: srec_type_def ch_def)
  have "nat (int n - int (length as + 1)) = n - (length as + 1)" by linarith
  then have cnt: "nat (if srec = 5 then 0 else int n - int (length as + 1)) = length ds" using ds(1) by (cases "srec = 5") simp_all
  have ck: "ck \<noteq> NOT x \<longleftrightarrow> x + ck \<noteq> 255" for x :: byte
  proof -
    have "x + NOT x = 255" by (simp add: not_eq_complement)
    then show ?thesis by (metis add_left_cancel)
  qed
  show ?thesis
    using skip_to_S_skips [OF l(2,3), of "ty # t @ r"] ty t1(1,2) un t2(1) t3(1) t4 cnt
    by (simp add: srec_decode_def l(1,4) Let_def ck numeral_3_eq_3 numeral_2_eq_2 del: srec_addr.simps srec_data.simps drop_append)
qed

lemma skip_to_S_total: "nonul s \<Longrightarrow> \<exists>t. skip_to_S (s @ 0 # r) = Some (t @ 0 # r) \<and> nonul t"
  by (induction s) (auto intro: exI [of _ "[]"])

lemma byte_span: "k \<le> c \<Longrightarrow> c \<le> j \<Longrightarrow> uint (c - k :: byte) \<le> uint j - uint k"
  using uint_minus_simple_alt [of k c] word_le_def [of c j] by linarith

lemma hex1_bin_less: "hex1_bin c < 16"
proof -
  have a: "c + 10 - 97 = c - 87" "c + 10 - 65 = c - 55" by (simp_all add: diff_conv_add_uminus del: add_uminus_conv_diff)
  have "87 \<le> c" if "97 \<le> c" using order.trans [OF _ that] by simp
  moreover have "55 \<le> c" if "65 \<le> c" using order.trans [OF _ that] by simp
  ultimately show ?thesis using byte_span [of 48 c 57] byte_span [of 87 c 102] byte_span [of 55 c 70]
    by (auto simp: hex1_bin_def ch_def a)
qed

lemma hex2_bin_total:
  assumes "nonul s"
  shows "\<exists>v. hex2_bin (s @ 0 # r) = Some v \<and> v < 256 \<and> (0 \<le> v \<longrightarrow> 2 \<le> length s)"
proof -
  have z: "hex1_bin 0 < 0" by (simp add: hex1_bin_def ch_def)
  consider "s = []" | c where "s = [c]" | c d t where "s = c # d # t" by (cases s rule: remdups_adj.cases) auto
  then show ?thesis
  proof cases
    case 3
    then show ?thesis using hex1_bin_less [of c] hex1_bin_less [of d] by (simp add: hex2_bin_def)
  qed (use z in \<open>simp_all add: hex2_bin_def\<close>)
qed

lemma srec_addr_total:
  "nonul s \<Longrightarrow> \<exists>ok a' ck' s'. srec_addr n a ck (s @ 0 # r) = Some (ok, a', ck', s' @ 0 # r) \<and> nonul s'"
proof (induction n arbitrary: s a ck)
  case (Suc n)
  obtain v where v: "hex2_bin (s @ 0 # r) = Some v" "0 \<le> v \<longrightarrow> 2 \<le> length s" using hex2_bin_total [OF Suc.prems] by blast
  show ?case
  proof (cases "v < 0")
    case False
    then have "drop 2 (s @ 0 # r) = drop 2 s @ 0 # r" using v(2) by simp
    then show ?thesis using v Suc.IH [OF nonul_drop [OF Suc.prems]] False by (auto simp del: drop_append)
  qed (use v Suc.prems in auto)
qed auto

lemma srec_data_total:
  "nonul s \<Longrightarrow> i + n \<le> length data \<Longrightarrow> \<exists>ok data' ck' s'. srec_data n i data ck (s @ 0 # r) = Some (ok, data', ck', s' @ 0 # r) \<and>
     nonul s' \<and> length data' = length data"
proof (induction n arbitrary: s i data ck)
  case (Suc n)
  obtain v where v: "hex2_bin (s @ 0 # r) = Some v" "0 \<le> v \<longrightarrow> 2 \<le> length s" using hex2_bin_total [OF Suc.prems(1)] by blast
  show ?case
  proof (cases "v < 0")
    case False
    then have "drop 2 (s @ 0 # r) = drop 2 s @ 0 # r" using v(2) by simp
    then show ?thesis using v Suc.IH [OF nonul_drop [OF Suc.prems(1)], of "Suc i" "data[i := word_of_int v]"] Suc.prems(2) False by (auto simp del: drop_append)
  qed (use v Suc.prems in auto)
qed auto

lemma srec_decode_total:
  assumes s: "nonul s" and buf: "252 \<le> length buf"
  shows "\<exists>srec count a' buf'. srec_decode (s @ 0 # r) c0 a0 buf = Some (srec, count, a', buf') \<and> length buf' = length buf"
proof -
  obtain t where t: "skip_to_S (s @ 0 # r) = Some (t @ 0 # r)" "nonul t" using skip_to_S_total [OF s] by blast
  show ?thesis
  proof (cases t)
    case Nil
    then show ?thesis using t by (simp add: srec_decode_def)
  next
    case (Cons c t')
    then have n: "nonul t'" "c \<noteq> 0" using t(2) by auto
    obtain v where v: "hex2_bin (t' @ 0 # r) = Some v" "v < 256" "0 \<le> v \<longrightarrow> 2 \<le> length t'" using hex2_bin_total [OF n(1)] by blast
    show ?thesis
    proof (cases "v < 0 \<or> srec_type c = None")
      case True
      then show ?thesis using t v Cons n by (auto simp: srec_decode_def)
    next
      case False
      then obtain srec k where k: "srec_type c = Some (srec, k)" "0 \<le> v" by auto
      let ?count = "if srec = SREC_COUNT then 0 else v - int (k + 1)"
      have k2: "2 \<le> k" using k(1) by (auto simp: srec_type_def split: if_splits)
      have d: "drop 3 (c # t' @ 0 # r) = drop 2 t' @ 0 # r" using v(3) k(2) by (simp add: numeral_3_eq_3 numeral_2_eq_2)
      obtain ok a1 ck1 s1 where s1: "srec_addr k 0 (word_of_int v) (drop 2 t' @ 0 # r) = Some (ok, a1, ck1, s1 @ 0 # r)" "nonul s1"
        using srec_addr_total [OF nonul_drop [OF n(1)]] by blast
      have cnt: "0 + nat ?count \<le> length buf" using v(2) k2 buf by (auto simp: nat_le_iff)
      obtain ok2 buf' ck2 s2 where s2: "srec_data (nat ?count) 0 buf ck1 (s1 @ 0 # r) = Some (ok2, buf', ck2, s2 @ 0 # r)" "nonul s2"
        "length buf' = length buf"
        using srec_data_total [OF s1(2) cnt] by blast
      obtain w where w: "hex2_bin (s2 @ 0 # r) = Some w" using hex2_bin_total [OF s2(2)] by blast
      show ?thesis
        using t(1) Cons n(2) v(1,2) k d s1(1) s2(1,3) w by (auto simp: srec_decode_def Let_def)
    qed
  qed
qed

section \<open>Lines\<close>

definition eol :: "byte \<Rightarrow> bool" where "eol c \<longleftrightarrow> c = 13 \<or> c = 10"

text \<open>A line that fits the buffer and does not end the download.\<close>

definition plain_line :: "bytes \<Rightarrow> bool" where
  "plain_line l \<longleftrightarrow> length l < 516 \<and> set l \<inter> {0, 3, 10, 13} = {}"

definition unhurried :: "bytes \<Rightarrow> (byte \<times> bool) list" where
  "unhurried t = map (\<lambda>c. (c, False)) t"

text \<open>No character has arrived early at the head of the input.\<close>

definition no_early :: "(byte \<times> bool) list \<Rightarrow> bool" where
  "no_early inp \<longleftrightarrow> (case inp of (c, True) # r \<Rightarrow> False | _ \<Rightarrow> True)"

lemma poll_nothing [simp]: "no_early (ser_in s) \<Longrightarrow> poll_ctrlc s = (False, s)"
  by (auto simp: no_early_def poll_ctrlc_def split: list.splits bool.splits)

lemma read_loop_line:
  assumes "set l \<inter> {0, 3, 10, 13} = {}" "eol e" "ser_in s = unhurried (l @ [e]) @ rest" "length l < n" "p + length l < length buf"
  shows "\<exists>out. read_loop n p buf s = Some (Some (int (p + length l), take p buf @ l @ 0 # drop (p + length l + 1) buf),
     s\<lparr>ser_in := rest, ser_out := out\<rparr>)"
  using assms
proof (induction l arbitrary: n p buf s)
  case Nil
  then obtain m where "n = Suc m" by (cases n) auto
  then show ?case using Nil
    by (intro exI [of _ "ser_out s @ (if do_echo s then [e] else [])"]) (auto simp: unhurried_def eol_def upd_conv_take_nth_drop)
next
  case (Cons c l)
  then obtain m where n: "n = Suc m" by (cases n) auto
  let ?s = "s\<lparr>ser_in := unhurried (l @ [e]) @ rest, ser_out := ser_out s @ (if do_echo s then [c] else [])\<rparr>"
  have i: "ser_in s = (c, False) # unhurried (l @ [e]) @ rest" using Cons.prems(3) by (simp add: unhurried_def)
  have ne: "no_early (ser_in ?s)" by (cases l) (simp_all add: no_early_def unhurried_def)
  have "read_loop n p buf s = read_loop m (Suc p) (buf[p := c]) ?s"
    using Cons.prems(1,5) n i poll_nothing [OF ne] by (simp add: Let_def)
  moreover obtain out where "read_loop m (Suc p) (buf[p := c]) ?s = Some (Some (int (Suc p + length l),
      take (Suc p) (buf[p := c]) @ l @ 0 # drop (Suc p + length l + 1) (buf[p := c])), ?s\<lparr>ser_in := rest, ser_out := out\<rparr>)"
    using Cons.IH [of ?s m "Suc p" "buf[p := c]"] Cons.prems n by auto
  moreover have "take (Suc p) (buf[p := c]) = take p buf @ [c]" using Cons.prems(5) by (simp add: take_Suc_conv_app_nth)
  ultimately show ?case using Cons.prems(5) by auto
qed

section \<open>Downloading a file\<close>

definition srec_line :: "bytes \<Rightarrow> int \<Rightarrow> u32 \<Rightarrow> bytes \<Rightarrow> bool" where
  "srec_line l srec a ds \<longleftrightarrow> plain_line l \<and> srec \<noteq> 5 \<and> (\<exists>as ck. srec_text l srec (length as + length ds + 1) as ds ck \<and> a = addr_of as \<and>
     of_nat (length as + length ds + 1) + sum_list as + sum_list ds + ck = (255 :: byte))"

text \<open>A record with the number of data records; it carries no data, whatever its count says.\<close>

definition count_line :: "bytes \<Rightarrow> bool" where
  "count_line l \<longleftrightarrow> plain_line l \<and> (\<exists>n as ck. srec_text l 5 n as [] ck \<and> of_nat n + sum_list as + ck = (255 :: byte))"

text \<open>The text of a file, the data records in it, which may be empty, and the entry point.\<close>

inductive srec_file :: "bytes \<Rightarrow> (u32 \<times> bytes) list \<Rightarrow> u32 \<Rightarrow> bool" where
  file_end: "srec_line l srec e ds \<Longrightarrow> srec \<in> {7, 8, 9} \<Longrightarrow> eol c \<Longrightarrow> srec_file (l @ [c]) [] e"
| file_data: "srec_line l srec a ds \<Longrightarrow> srec \<in> {1, 2, 3} \<Longrightarrow> eol c \<Longrightarrow> srec_file t recs e \<Longrightarrow>
    srec_file (l @ c # t) ((a, ds) # recs) e"
| file_start: "srec_line l 0 a ds \<Longrightarrow> eol c \<Longrightarrow> srec_file t recs e \<Longrightarrow> srec_file (l @ c # t) recs e"
| file_count: "count_line l \<Longrightarrow> eol c \<Longrightarrow> srec_file t recs e \<Longrightarrow> srec_file (l @ c # t) recs e"
| file_other: "plain_line l \<Longrightarrow> ch (CHR ''S'') \<notin> set l \<Longrightarrow> eol c \<Longrightarrow> srec_file t recs e \<Longrightarrow> srec_file (l @ c # t) recs e"

lemma srec_line_decode:
  assumes "srec_line l srec a ds" "255 \<le> length buf"
  shows "srec_decode (l @ 0 # r) c0 a0 buf = Some (srec, int (length ds), a, ds @ drop (length ds) buf)" "length ds < 255"
proof -
  obtain as ck where l: "srec_text l srec (length as + length ds + 1) as ds ck" "a = addr_of as" "srec \<noteq> 5"
    "of_nat (length as + length ds + 1) + sum_list as + sum_list ds + ck = (255 :: byte)"
    using assms(1) by (auto simp: srec_line_def)
  show d: "length ds < 255" using l(1) by (auto simp: srec_text_def)
  show "srec_decode (l @ 0 # r) c0 a0 buf = Some (srec, int (length ds), a, ds @ drop (length ds) buf)"
    using srec_decode_text [OF l(1), of buf] l(2-4) assms(2) d by simp
qed

lemma plain_line_read:
  assumes "plain_line l" "eol c" "ser_in s = unhurried (l @ [c]) @ rest" "length line = 517"
  shows "\<exists>out r. read_record line 517 s = Some (Some (int (length l), l @ 0 # r), s\<lparr>ser_in := rest, ser_out := out\<rparr>) \<and>
     length (l @ 0 # r) = 517"
  using read_loop_line [of l c s rest 516 0 line] assms by (auto simp: plain_line_def read_record_def)

text \<open>Memory that a record goes to: not in the flash, and not an alias of it.\<close>

definition in_ram :: "memcmd \<Rightarrow> u32 \<Rightarrow> nat \<Rightarrow> bool" where
  "in_ram m a n \<longleftrightarrow> addr2info (flash_info (mem_flash m)) a = None \<and> (\<forall>i<n. flash_cell m (a + of_nat i) = None)"

lemma in_ram_cells [simp]: "in_ram (m\<lparr>cells := c\<rparr>) = in_ram m"
  by (simp add: in_ram_def flash_cell_def fun_eq_iff)

lemma srec_store_ram:
  assumes "in_ram m a (length ds)" "length ds < 255"
  shows "srec_store chip (ds @ r) a (int (length ds)) m = Some (0, m\<lparr>cells := st_bytes (cells m) a ds\<rparr>)"
proof -
  have "unat (word_of_int (int (length ds)) :: u32) = length ds" using assms(2) by (simp add: unat_of_nat)
  then show ?thesis using assms(1) poke_bytes_ram [of ds m a] by (simp add: srec_store_def in_ram_def Let_def)
qed

definition loaded :: "u32 \<Rightarrow> (u32 \<times> bytes) list \<Rightarrow> ram \<Rightarrow> ram" where
  "loaded offset recs m = foldl (\<lambda>m (a, ds). st_bytes m (a + offset) ds) m recs"

definition lowest :: "u32 \<Rightarrow> (u32 \<times> bytes) list \<Rightarrow> u32 \<Rightarrow> u32" where
  "lowest offset recs lo = foldl (\<lambda>lo (a, ds). min lo (a + offset)) lo recs"

definition highest :: "u32 \<Rightarrow> (u32 \<times> bytes) list \<Rightarrow> u32 \<Rightarrow> u32" where
  "highest offset recs hi = foldl (\<lambda>hi (a, ds). max hi (a + offset + of_nat (length ds) - 1)) hi recs"

text \<open>One record.\<close>

lemma load_loop_data:
  assumes "read_record line 517 s = Some (Some (int n, line'), s')" "srec_decode line' binlen a0 binbuf = Some (srec, bl, a, bb)"
    "srec \<in> {1, 2, 3}" "srec_store chip bb (a + offset) bl (ser_mem s') = Some (0, m)"
  shows "\<exists>out. load_loop chip offset binlen a0 binbuf line lo hi k s =
    load_loop chip offset bl a bb line' (min lo (a + offset)) (max hi (a + offset + word_of_int bl - 1)) (k + 1) (s'\<lparr>ser_out := out, ser_mem := m\<rparr>)"
  using assms
  by (subst load_loop.simps, intro exI [of _ "ser_out s' @ (if \<not> do_echo s' \<and> (k + 1) mod 100 = 0 then [ch (CHR ''.'')] else [])"])
    (auto simp: Let_def)

lemma load_loop_other:
  assumes "read_record line 517 s = Some (Some (int n, line'), s')" "srec_decode line' binlen a0 binbuf = Some (srec, bl, a, bb)"
    "srec \<in> {0, 5, 10}"
  shows "\<exists>out. load_loop chip offset binlen a0 binbuf line lo hi k s = load_loop chip offset bl a bb line' lo hi (k + 1) (s'\<lparr>ser_out := out\<rparr>)"
  using assms
  by (subst load_loop.simps, intro exI [of _ "ser_out s' @ (if \<not> do_echo s' \<and> (k + 1) mod 100 = 0 then [ch (CHR ''.'')] else [])"])
    (auto simp: Let_def)

lemma load_loop_file:
  assumes "srec_file src recs e" "ser_in s = unhurried src @ rest" "length line = 517" "length binbuf = 255"
    "\<forall>(a, ds)\<in>set recs. in_ram (ser_mem s) (a + offset) (length ds)"
    "set_size (highest offset recs hi - lowest offset recs lo + 1) (ser_ub s) = Some u"
  shows "\<exists>out. load_loop chip offset binlen a0 binbuf line lo hi k s = Some (Some e, s\<lparr>ser_in := rest, ser_out := out,
    ser_mem := (ser_mem s)\<lparr>cells := loaded offset recs (cells (ser_mem s))\<rparr>, ser_ub := u\<rparr>)"
  using assms
proof (induction src recs e arbitrary: s line binbuf binlen a0 lo hi k rule: srec_file.induct)
  case (file_end l srec e ds c)
  obtain out r where r: "read_record line 517 s = Some (Some (int (length l), l @ 0 # r), s\<lparr>ser_in := rest, ser_out := out\<rparr>)"
    using plain_line_read [of l c s rest line] file_end by (auto simp: srec_line_def)
  show ?case using r srec_line_decode(1) [OF file_end(1), of binbuf r binlen a0] file_end
    by (subst load_loop.simps) (auto simp: Let_def loaded_def lowest_def highest_def)
next
  case (file_data l srec a ds c t recs e)
  have "ser_in s = unhurried (l @ [c]) @ unhurried t @ rest" using file_data.prems(1) by (simp add: unhurried_def)
  then obtain out r where r: "read_record line 517 s = Some (Some (int (length l), l @ 0 # r), s\<lparr>ser_in := unhurried t @ rest, ser_out := out\<rparr>)"
    "length (l @ 0 # r) = 517"
    using plain_line_read [of l c s "unhurried t @ rest" line] file_data by (auto simp: srec_line_def)
  have bl: "255 \<le> length binbuf" using file_data.prems(3) by simp
  note d = srec_line_decode(1) [OF file_data(1) bl, of r binlen a0] srec_line_decode(2) [OF file_data(1) bl]
  let ?m = "(ser_mem s)\<lparr>cells := st_bytes (cells (ser_mem s)) (a + offset) ds\<rparr>"
  let ?s = "\<lambda>out. s\<lparr>ser_in := unhurried t @ rest, ser_out := out, ser_mem := ?m\<rparr>"
  have "srec_store chip (ds @ drop (length ds) binbuf) (a + offset) (int (length ds)) (ser_mem s) = Some (0, ?m)"
    using srec_store_ram [of "ser_mem s" "a + offset" ds] file_data.prems(4) d(2) by auto
  then obtain out' where step: "load_loop chip offset binlen a0 binbuf line lo hi k s = load_loop chip offset (int (length ds)) a
      (ds @ drop (length ds) binbuf) (l @ 0 # r) (min lo (a + offset)) (max hi (a + offset + of_nat (length ds) - 1)) (k + 1) (?s out')"
    using load_loop_data [OF r(1) d(1) file_data(2), where offset = offset and chip = chip and m = ?m and lo = lo and hi = hi and k = k] by auto
  have "\<exists>out. load_loop chip offset (int (length ds)) a (ds @ drop (length ds) binbuf) (l @ 0 # r) (min lo (a + offset))
      (max hi (a + offset + of_nat (length ds) - 1)) (k + 1) (?s out') = Some (Some e, (?s out')\<lparr>ser_in := rest, ser_out := out,
      ser_mem := (ser_mem (?s out'))\<lparr>cells := loaded offset recs (cells (ser_mem (?s out')))\<rparr>, ser_ub := u\<rparr>)"
    using file_data.prems r(2) d(2) by (intro file_data.IH) (auto simp: highest_def lowest_def)
  then show ?case using step by (auto simp: loaded_def)
next
  case (file_start l a ds c t recs e)
  have "ser_in s = unhurried (l @ [c]) @ unhurried t @ rest" using file_start.prems(1) by (simp add: unhurried_def)
  then obtain out r where r: "read_record line 517 s = Some (Some (int (length l), l @ 0 # r), s\<lparr>ser_in := unhurried t @ rest, ser_out := out\<rparr>)"
    "length (l @ 0 # r) = 517"
    using plain_line_read [of l c s "unhurried t @ rest" line] file_start by (auto simp: srec_line_def)
  have bl: "255 \<le> length binbuf" using file_start.prems(3) by simp
  note d = srec_line_decode(1) [OF file_start(1) bl, of r binlen a0] srec_line_decode(2) [OF file_start(1) bl]
  let ?s = "\<lambda>out. s\<lparr>ser_in := unhurried t @ rest, ser_out := out\<rparr>"
  obtain out' where step: "load_loop chip offset binlen a0 binbuf line lo hi k s = load_loop chip offset (int (length ds)) a
      (ds @ drop (length ds) binbuf) (l @ 0 # r) lo hi (k + 1) (?s out')"
    using load_loop_other [OF r(1) d(1), where offset = offset and chip = chip and lo = lo and hi = hi and k = k] by auto
  have "\<exists>out. load_loop chip offset (int (length ds)) a (ds @ drop (length ds) binbuf) (l @ 0 # r) lo hi (k + 1) (?s out') =
      Some (Some e, (?s out')\<lparr>ser_in := rest, ser_out := out,
      ser_mem := (ser_mem (?s out'))\<lparr>cells := loaded offset recs (cells (ser_mem (?s out')))\<rparr>, ser_ub := u\<rparr>)"
    using file_start.prems r(2) d(2) by (intro file_start.IH) auto
  then show ?case using step by auto
next
  case (file_count l c t recs e)
  have "ser_in s = unhurried (l @ [c]) @ unhurried t @ rest" using file_count.prems(1) by (simp add: unhurried_def)
  then obtain out r where r: "read_record line 517 s = Some (Some (int (length l), l @ 0 # r), s\<lparr>ser_in := unhurried t @ rest, ser_out := out\<rparr>)"
    "length (l @ 0 # r) = 517"
    using plain_line_read [of l c s "unhurried t @ rest" line] file_count by (auto simp: count_line_def)
  obtain n as ck where "srec_text l 5 n as [] ck" "of_nat n + sum_list as + ck = (255 :: byte)" using file_count(1) by (auto simp: count_line_def)
  then have d: "srec_decode (l @ 0 # r) binlen a0 binbuf = Some (5, 0, addr_of as, binbuf)"
    using srec_decode_text [of l 5 n as "[]" ck binbuf "0 # r" binlen a0] by simp
  let ?s = "\<lambda>out. s\<lparr>ser_in := unhurried t @ rest, ser_out := out\<rparr>"
  obtain out' where step: "load_loop chip offset binlen a0 binbuf line lo hi k s =
      load_loop chip offset 0 (addr_of as) binbuf (l @ 0 # r) lo hi (k + 1) (?s out')"
    using load_loop_other [OF r(1) d, where offset = offset and chip = chip and lo = lo and hi = hi and k = k] by auto
  have "\<exists>out. load_loop chip offset 0 (addr_of as) binbuf (l @ 0 # r) lo hi (k + 1) (?s out') =
      Some (Some e, (?s out')\<lparr>ser_in := rest, ser_out := out,
      ser_mem := (ser_mem (?s out'))\<lparr>cells := loaded offset recs (cells (ser_mem (?s out')))\<rparr>, ser_ub := u\<rparr>)"
    using file_count.prems r(2) by (intro file_count.IH) auto
  then show ?case using step by auto
next
  case (file_other l c t recs e)
  have "ser_in s = unhurried (l @ [c]) @ unhurried t @ rest" using file_other.prems(1) by (simp add: unhurried_def)
  then obtain out r where r: "read_record line 517 s = Some (Some (int (length l), l @ 0 # r), s\<lparr>ser_in := unhurried t @ rest, ser_out := out\<rparr>)"
    "length (l @ 0 # r) = 517"
    using plain_line_read [of l c s "unhurried t @ rest" line] file_other by auto
  have "nonul l" using file_other(1) by (auto simp: plain_line_def nonul_def)
  then have d: "srec_decode (l @ 0 # r) binlen a0 binbuf = Some (10, binlen, a0, binbuf)"
    using skip_to_S_none file_other(2) by (simp add: srec_decode_def)
  let ?s = "\<lambda>out. s\<lparr>ser_in := unhurried t @ rest, ser_out := out\<rparr>"
  obtain out' where step: "load_loop chip offset binlen a0 binbuf line lo hi k s =
      load_loop chip offset binlen a0 binbuf (l @ 0 # r) lo hi (k + 1) (?s out')"
    using load_loop_other [OF r(1) d, where offset = offset and chip = chip and lo = lo and hi = hi and k = k] by auto
  have "\<exists>out. load_loop chip offset binlen a0 binbuf (l @ 0 # r) lo hi (k + 1) (?s out') =
      Some (Some e, (?s out')\<lparr>ser_in := rest, ser_out := out,
      ser_mem := (ser_mem (?s out'))\<lparr>cells := loaded offset recs (cells (ser_mem (?s out')))\<rparr>, ser_ub := u\<rparr>)"
    using file_other.prems r(2) by (intro file_other.IH) auto
  then show ?case using step by auto
qed

lemma env_has_load_addr [simp]: "env_has (u\<lparr>load_addr := a\<rparr>) = env_has u"
  by (simp add: env_has_def env_ready_def fun_eq_iff)

lemma set_size_ok:
  assumes "env_has u m 18"
  shows "\<exists>u' v. set_size sz u = Some u' \<and> env_has u' (m(str ''filesize'' \<mapsto> v)) 0 \<and> simple_strtoul (cstr v) 16 = Some (sz, [0])"
proof -
  let ?v = "numeral_of large_digits 16 sz"
  have c: "vsprintf_loop pos (cstr (str ''%lX'')) [VInt sz] = Some (?v, [])" for pos
  proof -
    have "number sz 16 (-1) (-1) LARGE = Some ?v" by (auto simp: number_def numeral_of_def Let_def spent_def)
    then show ?thesis by (simp add: conversion_unfold)
  qed
  have v: "nonul ?v" "length ?v \<le> 8" using digits_props [OF large_digit_table, of 16 8] by simp_all
  have r: "simple_strtoul (cstr ?v) 16 = Some (sz, [0])"
    using simple_strtoul_numeral_of [OF large_digit_table, of 16 sz "[]"] by (simp add: cstr_def)
  have n: "ok_name (str ''filesize'')" "ordinary (str ''filesize'')" by (simp_all add: ok_name_def ordinary_def str_def ch_def)
  have "env_has u m (length (str ''filesize'') + length ?v + 2 + 0)" using assms v(2) by (auto simp: str_def intro: env_has_less)
  from env_has_setenv [OF this n v(1)] obtain u' where "setenv (cstr (str ''filesize'')) (Some (cstr ?v)) u = Some u'"
    "env_has u' (m(str ''filesize'' \<mapsto> ?v)) 0" by blast
  then show ?thesis using c v r by (auto simp: set_size_def sprintf_def vsprintf_def overlay_def cstr_def intro!: exI [of _ ?v])
qed

lemma echo_wanted_total: "env_has u m k \<Longrightarrow> \<exists>b. echo_wanted u = Some b"
proof -
  assume "env_has u m k"
  then obtain es where es: "env_ready u es" by (auto simp: env_has_def)
  have n: "ok_name (str ''loads_echo'')" by (simp add: ok_name_def str_def ch_def)
  show ?thesis
  proof (cases "map_of es (str ''loads_echo'')")
    case None
    then have "getenv (cstr (str ''loads_echo'')) u = Some None"
      using getenv_map_of [OF es n, of "[]"] by (auto simp: cstr_def)
    then show ?thesis by (intro exI [of _ False]) (simp add: echo_wanted_def)
  next
    case (Some v)
    obtain j r where "getenv (cstr (str ''loads_echo'')) u = Some (Some j)" "drop j (env_data u) = v @ 0 # r"
      using getenv_present [OF es n Some, of "[]"] by (auto simp: cstr_def)
    moreover from this have "j < length (env_data u)" by (metis append_is_Nil_conv drop_all leI list.distinct(1))
    ultimately show ?thesis using env_readyD(1) [OF es] by (simp add: echo_wanted_def)
  qed
qed

text \<open>
  C16: \<open>loads\<close>. The file has records of 16, 24 and 32 bits of address in any order, start and count records and
  other lines in between, digits in either case, lines of less than 516 characters, and ends with an end
  record. If its characters come in no faster than the code reads them, the data go to RAM and there is room
  for \<open>filesize\<close> in the environment, then the data are in memory at their addresses plus the offset, \<open>filesize\<close>
  is the distance from the lowest to the highest byte, and the other variables are kept. A data record
  without data counts with its address, and with the address before it as its last byte. The command
  returns 0 and \<open>load_addr\<close> is the entry point, except for the entry point \<open>0xffffffff\<close>: that is the mark of an
  aborted download, so the command returns 1.
\<close>

theorem loads_loads_file:
  assumes src: "srec_file src recs e" "ser_in s = unhurried src @ rest"
    and st: "length line = 517" "length binbuf = 255" "env_has (ser_ub s) m 18"
    and dest: "(if length argv = 2 then hex_arg (argv ! 1) else Some 0) = Some offset"
      "\<forall>(a, ds)\<in>set recs. in_ram (ser_mem s) (a + offset) (length ds)"
  shows "\<exists>s' v. do_load_serial chip line binbuf binlen a0 argv s = Some (Some (if e = -1 then 1 else 0), s') \<and>
    ser_mem s' = (ser_mem s)\<lparr>cells := loaded offset recs (cells (ser_mem s))\<rparr> \<and>
    (e \<noteq> -1 \<longrightarrow> load_addr (ser_ub s') = e) \<and>
    var_of (ser_ub s') (str ''filesize'') = Some v \<and>
    simple_strtoul (cstr v) 16 = Some (highest offset recs 0 - lowest offset recs (-1) + 1, [0]) \<and>
    (\<forall>k. ok_name k \<longrightarrow> k \<noteq> str ''filesize'' \<longrightarrow> var_of (ser_ub s') k = var_of (ser_ub s) k)"
proof -
  let ?sz = "highest offset recs 0 - lowest offset recs (-1) + 1"
  obtain u v where u: "set_size ?sz (ser_ub s) = Some u" "env_has u (m(str ''filesize'' \<mapsto> v)) 0"
    "simple_strtoul (cstr v) 16 = Some (?sz, [0])"
    using set_size_ok [OF st(3)] by blast
  obtain b where b: "echo_wanted (ser_ub s) = Some b" using echo_wanted_total [OF st(3)] by blast
  let ?s = "s\<lparr>do_echo := b\<rparr>"
  obtain out where l: "load_serial chip offset line binbuf binlen a0 ?s = Some (Some e, ?s\<lparr>ser_in := rest, ser_out := out,
      ser_mem := (ser_mem s)\<lparr>cells := loaded offset recs (cells (ser_mem s))\<rparr>, ser_ub := u\<rparr>)"
    using load_loop_file [OF src(1), of ?s rest line binbuf offset 0 "-1" u chip binlen a0 0] src(2) st(1,2) dest(2) u(1)
    by (auto simp: load_serial_def)
  have "var_of (u\<lparr>load_addr := e\<rparr>) k = (m(str ''filesize'' \<mapsto> v)) k \<and> var_of u k = (m(str ''filesize'' \<mapsto> v)) k"
    if "ok_name k" for k
    using var_of_env_has [of "u\<lparr>load_addr := e\<rparr>", OF _ that] var_of_env_has [OF u(2) that] u(2) by simp
  moreover have "var_of (ser_ub s) k = m k" if "ok_name k" for k by (rule var_of_env_has [OF st(3) that])
  moreover have "ok_name (str ''filesize'')" by (simp add: ok_name_def str_def ch_def)
  ultimately show ?thesis using dest(1) b l u(3) by (cases "e = -1") (auto simp: do_load_serial_def Let_def)
qed

text \<open>A record with one byte of data at address 16, and the end of the file.\<close>

definition demo_srec :: bytes where
  "demo_srec = str ''S1040010AA41'' @ 13 # str ''S9030000FC'' @ [10]"

lemma srec_text_line:
  "srec_type ty = Some (srec, length as) \<Longrightarrow> hex_text t (of_nat n # as @ ds @ [ck]) \<Longrightarrow> n < 256 \<Longrightarrow>
    srec_text (ch (CHR ''S'') # ty # t) srec n as ds ck"
  unfolding srec_text_def by (intro exI [of _ "[]"] exI [of _ ty] exI [of _ t]) simp

lemma demo_srec_lines:
  "srec_text (str ''S1040010AA41'') 1 4 [0, 0x10] [0xaa] 0x41" "srec_text (str ''S9030000FC'') 9 3 [0, 0] [] 0xfc"
  "srec_text (str ''S1000000FF'') 1 0 [0, 0] [] 0xff"
proof -
  have "srec_text (ch (CHR ''S'') # ch (CHR ''1'') # str ''040010AA41'') 1 4 [0, 0x10] [0xaa] 0x41"
    "srec_text (ch (CHR ''S'') # ch (CHR ''9'') # str ''030000FC'') 9 3 [0, 0] [] 0xfc"
    "srec_text (ch (CHR ''S'') # ch (CHR ''1'') # str ''000000FF'') 1 0 [0, 0] [] 0xff"
    by (rule srec_text_line; simp add: srec_type_def str_def ch_def hex1_bin_def)+
  then show "srec_text (str ''S1040010AA41'') 1 4 [0, 0x10] [0xaa] 0x41" "srec_text (str ''S9030000FC'') 9 3 [0, 0] [] 0xfc"
    "srec_text (str ''S1000000FF'') 1 0 [0, 0] [] 0xff"
    by (simp_all only: str_def list.map)
qed

lemma demo_srec_file: "srec_file demo_srec [(16, [0xaa])] 0"
proof -
  have "plain_line (str ''S1040010AA41'')" "plain_line (str ''S9030000FC'')" by (simp_all add: plain_line_def str_def ch_def)
  moreover have "addr_of [0, 0x10] = 16" "addr_of [0, 0] = 0" by (simp_all add: addr_of_def)
  ultimately have "srec_line (str ''S1040010AA41'') 1 16 [0xaa]" "srec_line (str ''S9030000FC'') 9 0 []"
    unfolding srec_line_def using demo_srec_lines(1,2)
    by (intro conjI exI [of _ "[0, 0x10]"] exI [of _ "0x41"], simp_all add: numeral_eq_Suc)
      (intro conjI exI [of _ "[0, 0]"] exI [of _ "0xfc"], simp_all)
  then show ?thesis unfolding demo_srec_def
    by (intro file_data [of _ 1] file_end [of _ 9]) (simp_all add: eol_def)
qed

definition demo_serial :: "bytes \<Rightarrow> serial" where
  "demo_serial t = \<lparr>ser_in = unhurried t, ser_out = [], do_echo = False, ser_mem = demo_mem, ser_ub = roomy_ub\<rparr>"

lemma demo_mem_ram: "in_ram demo_mem a n"
  by (simp add: in_ram_def demo_mem_def flash_cell_def addr2info_def)

theorem loads_loads_file_witness:
  "\<exists>s'. do_load_serial nor_chip (replicate 517 0) (replicate 255 0) 0 0 [cstr (str ''loads'')] (demo_serial demo_srec) = Some (Some 0, s') \<and>
     cells (ser_mem s') 16 = 0xaa \<and> load_addr (ser_ub s') = 0"
proof -
  have "ser_in (demo_serial demo_srec) = unhurried demo_srec @ []" "ser_mem (demo_serial demo_srec) = demo_mem"
    "ser_ub (demo_serial demo_srec) = roomy_ub" by (simp_all add: demo_serial_def)
  moreover have "env_has roomy_ub (map_of demo_vars) 18" by (rule env_has_less [OF roomy_has]) simp
  moreover have "loaded 0 [(16, [0xaa])] m 16 = 0xaa" for m by (simp add: loaded_def st_def pa_def)
  ultimately show ?thesis
    using loads_loads_file [OF demo_srec_file, of "demo_serial demo_srec" "[]" "replicate 517 0" "replicate 255 0" "map_of demo_vars"
      "[cstr (str ''loads'')]" 0 nor_chip 0 0]
    by (auto simp: demo_mem_ram)
qed

lemma unat_small_negative:
  assumes "-5 \<le> x" "x < 0"
  shows "255 < unat (word_of_int x :: u32)"
proof -
  have "x mod 4294967296 = (x + 4294967296) mod 4294967296" by simp
  also have "\<dots> = x + 4294967296" using assms by (intro mod_pos_pos_trivial) auto
  finally have "uint (word_of_int x :: u32) = x + 4294967296" by (simp add: uint_word_of_int)
  then show ?thesis using assms by (simp add: unat_eq_nat_uint)
qed

text \<open>
  C33: a record that is shorter than its address. The count is not checked against the type of the record: for
  a count that leaves no room for the address and the checksum, the length of the data is negative, the
  record is accepted, and \<open>memcpy\<close> is called with almost 2 to the 32 bytes.
\<close>

theorem srec_short_record_overflows:
  assumes l: "plain_line l" "srec_text l srec n as [] ck" "srec \<in> {1, 2, 3}" "n \<le> length as"
    "of_nat n + sum_list as + ck = (255 :: byte)"
    and s: "ser_in s = unhurried (l @ [c]) @ rest" "eol c" "length line = 517" "length binbuf = 255"
      "addr2info (flash_info (mem_flash (ser_mem s))) (addr_of as + offset) = None"
  shows "(\<exists>buf. srec_decode (l @ [0]) binlen a0 binbuf = Some (srec, int n - int (length as + 1), addr_of as, buf)) \<and>
    load_serial chip offset line binbuf binlen a0 s = None"
proof -
  have d: "srec_decode (l @ r) binlen a0 binbuf = Some (srec, int n - int (length as + 1), addr_of as, binbuf)" for r
    using srec_decode_text [OF l(2), of binbuf r binlen a0] l(3-5) by auto
  obtain out r where r: "read_record line 517 s = Some (Some (int (length l), l @ 0 # r), s\<lparr>ser_in := rest, ser_out := out\<rparr>)"
    using plain_line_read [OF l(1) s(2) s(1) s(3)] by blast
  have k: "length as \<le> 4" using l(2) by (auto simp: srec_text_def srec_type_def split: if_splits)
  have "255 < unat (word_of_int (int n - int (length as + 1)) :: u32)" using l(4) k by (intro unat_small_negative) auto
  then have "srec_store chip binbuf (addr_of as + offset) (int n - int (length as + 1)) (ser_mem s) = None"
    using s(4,5) by (simp add: srec_store_def Let_def)
  then have "load_serial chip offset line binbuf binlen a0 s = None"
    unfolding load_serial_def using r d l(3) by (subst load_loop.simps) (auto simp: Let_def)
  then show ?thesis using d by blast
qed

theorem srec_short_record_overflows_witness:
  "load_serial nor_chip 0 (replicate 517 0) (replicate 255 0) 0 0 (demo_serial (str ''S1000000FF'' @ [13])) = None"
proof -
  let ?l = "str ''S1000000FF''"
  have "plain_line ?l" by (simp add: plain_line_def str_def ch_def)
  moreover have "srec_text ?l 1 0 [0, 0] [] 0xff" by (rule demo_srec_lines)
  ultimately show ?thesis
    using srec_short_record_overflows [of ?l 1 0 "[0, 0]" "0xff" "demo_serial (?l @ [13])" 13 "[]" "replicate 517 0" "replicate 255 0" 0 0 0 nor_chip]
    by (simp add: demo_serial_def eol_def demo_mem_def addr2info_def)
qed

text \<open>Characters that have arrived before the code polls for them.\<close>

definition hurried :: "bytes \<Rightarrow> (byte \<times> bool) list" where
  "hurried t = map (\<lambda>c. (c, True)) t"

fun every_other :: "'a list \<Rightarrow> 'a list" where
  "every_other (x # y # r) = x # every_other r"
| "every_other r = r"

lemma read_loop_hurried:
  assumes "set l \<inter> {0, 3, 10, 13} = {}" "even (length l)" "eol e" "ser_in s = hurried (l @ [e]) @ rest"
    "length l div 2 < n" "p + length l div 2 < length buf" "jt_in (con (ser_ub s)) \<noteq> None"
  shows "\<exists>out. read_loop n p buf s = Some (Some (int (p + length l div 2),
     take p buf @ every_other l @ 0 # drop (p + length l div 2 + 1) buf), s\<lparr>ser_in := rest, ser_out := out\<rparr>)"
  using assms
proof (induction l arbitrary: n p buf s rule: every_other.induct)
  case (1 c d l)
  then obtain m where n: "n = Suc m" by (cases n) auto
  let ?s = "s\<lparr>ser_out := ser_out s @ (if do_echo s then [c] else []), ser_in := hurried (l @ [e]) @ rest\<rparr>"
  have "ser_in s = (c, True) # (d, True) # hurried (l @ [e]) @ rest" using "1.prems"(4) by (simp add: hurried_def)
  then have "read_loop n p buf s = read_loop m (Suc p) (buf[p := c]) ?s"
    using "1.prems" n by (simp add: Let_def poll_ctrlc_def)
  moreover obtain out where "read_loop m (Suc p) (buf[p := c]) ?s = Some (Some (int (Suc p + length l div 2),
      take (Suc p) (buf[p := c]) @ every_other l @ 0 # drop (Suc p + length l div 2 + 1) (buf[p := c])), ?s\<lparr>ser_in := rest, ser_out := out\<rparr>)"
    using "1.IH" [of ?s m "Suc p" "buf[p := c]"] "1.prems" n by auto
  moreover have "take (Suc p) (buf[p := c]) = take p buf @ [c]" using "1.prems"(6) by (simp add: take_Suc_conv_app_nth)
  ultimately show ?case using "1.prems"(6) by auto
next
  case "2_1"
  then obtain m where "n = Suc m" by (cases n) auto
  then show ?case using "2_1"
    by (intro exI [of _ "ser_out s @ (if do_echo s then [e] else [])"]) (auto simp: hurried_def eol_def upd_conv_take_nth_drop)
qed simp

text \<open>
  C34: polling for ctrl-c takes characters. The jump table holds the routine of the console device, which is
  never \<open>getc\<close> once a console is set, so \<open>read_record\<close> calls \<open>ctrlc\<close> after each character, and \<open>ctrlc\<close>
  drops the next one if it has arrived. A line of even length is read completely if its characters come in
  one at a time, and if they have all arrived, every other one is lost.
\<close>

theorem loads_polling_loses_characters:
  assumes "plain_line l" "even (length l)" "eol c" "length line = 517" "jt_in (con (ser_ub s)) \<noteq> None"
  shows "(ser_in s = unhurried (l @ [c]) @ rest \<longrightarrow>
      (\<exists>r s'. read_record line 517 s = Some (Some (int (length l), l @ 0 # r), s') \<and> ser_in s' = rest)) \<and>
    (ser_in s = hurried (l @ [c]) @ rest \<longrightarrow>
      (\<exists>r s'. read_record line 517 s = Some (Some (int (length l div 2), every_other l @ 0 # r), s') \<and> ser_in s' = rest))"
proof (intro conjI impI)
  assume "ser_in s = unhurried (l @ [c]) @ rest"
  from plain_line_read [OF assms(1,3) this assms(4)]
  show "\<exists>r s'. read_record line 517 s = Some (Some (int (length l), l @ 0 # r), s') \<and> ser_in s' = rest" by auto
next
  assume "ser_in s = hurried (l @ [c]) @ rest"
  moreover have "length l div 2 < 516" "set l \<inter> {0, 3, 10, 13} = {}" using assms(1) by (auto simp: plain_line_def)
  ultimately have "\<exists>out. read_loop 516 0 line s = Some (Some (int (0 + length l div 2),
     take 0 line @ every_other l @ 0 # drop (0 + length l div 2 + 1) line), s\<lparr>ser_in := rest, ser_out := out\<rparr>)"
    using assms(4,5) by (intro read_loop_hurried [OF _ assms(2,3)]) auto
  then show "\<exists>r s'. read_record line 517 s = Some (Some (int (length l div 2), every_other l @ 0 # r), s') \<and> ser_in s' = rest"
    by (auto simp: read_record_def)
qed

theorem loads_polling_loses_characters_witness:
  "\<exists>r s'. read_record (replicate 517 0) 517 (demo_serial []\<lparr>ser_in := hurried (str ''S9030000FC'' @ [13]),
     ser_ub := roomy_ub\<lparr>con := (con roomy_ub)\<lparr>jt_in := Some 0\<rparr>\<rparr>\<rparr>) = Some (Some (5, str ''S000F'' @ 0 # r), s')"
proof -
  have "plain_line (str ''S9030000FC'')" "every_other (str ''S9030000FC'') = str ''S000F''"
    by (simp_all add: plain_line_def str_def ch_def)
  then show ?thesis
    using loads_polling_loses_characters [of "str ''S9030000FC''" 13 "replicate 517 0" "demo_serial []\<lparr>ser_in := hurried (str ''S9030000FC'' @ [13]),
      ser_ub := roomy_ub\<lparr>con := (con roomy_ub)\<lparr>jt_in := Some 0\<rparr>\<rparr>\<rparr>" "[]"]
    by (simp add: eol_def str_def) blast
qed

end
