(* ===== verification/Spec2Isabelle.thy ===== *)
theory Spec2Isabelle
  imports EnvFlash UsbBoot CmdNet Bootm FileSys SRecord
begin

text \<open>
  \<^bold>\<open>A verification of the core of Caraboot.\<close>

  Caraboot is the boot loader of the Carambola 2 board (Atheros AR9331, MIPS32, big-endian), a
  U-Boot 1.1.4 with USB boot and recovery, a factory mode and run-time GPIO configuration. All
  paths below are relative to \<open>src/u-boot\<close>. The board's configuration is
  \<open>include/configs/carambola2.h\<close>; code that this configuration compiles out is not modelled.

  \<^bold>\<open>Parts and how they interact.\<close> The environment (\<open>common/cmd_nvedit.c\<close>, \<open>env_common.c\<close>,
  \<open>env_flash.c\<close>) is the data base of the loader: an array of \<open>name=value\<close> strings in RAM with a
  CRC-32 (\<open>lib_generic/crc32.c\<close>), stored in one flash sector through the flash commands
  (\<open>common/cmd_flash.c\<close>), the generic flash layer (\<open>common/flash.c\<close>) and the SPI driver
  (\<open>board/ar7240/common/ar7240_flash.c\<close>). Assigning a variable reaches the console devices
  (\<open>common/console.c\<close>, \<open>devices.c\<close>), the Ethernet devices (\<open>net/eth.c\<close>) and the network addresses.
  The GPIO library (\<open>lib_mips/gpiolib.c\<close>) reads its configuration from the environment; USB boot
  and recovery (\<open>common/usb_boot.c\<close>) and the factory mode (\<open>common/factory.c\<close>) read it, blink the
  LEDs and run commands. The network core (\<open>net/net.c\<close>) takes addresses from the environment, sends
  through the ring of Ethernet devices and drives the clients for TFTP (\<open>net/tftp.c\<close>), NFS
  (\<open>net/nfs.c\<close>), DHCP and BOOTP (\<open>net/bootp.c\<close>) and RARP (\<open>net/rarp.c\<close>); the network commands
  (\<open>common/cmd_net.c\<close>) run it and store the addresses it learned in the environment. Files on USB
  storage are reached through the partition lookup (\<open>disk/part.c\<close>, \<open>part_dos.c\<close>), the file system layer
  (\<open>fs/fs.c\<close>) and FAT (\<open>fs/fat/fat.c\<close>). What was loaded is checked, unpacked and started by \<open>bootm\<close>
  (\<open>common/cmd_bootm.c\<close>), which hands the command line, the ramdisk and an environment to Linux
  (\<open>lib_mips/mips_linux.c\<close>). Everything rests on the string library (\<open>lib_generic/string.c\<close>,
  \<open>ctype.c\<close>, \<open>vsprintf.c\<close>).

  \<^bold>\<open>Conventions.\<close> (\<open>UB_Prelude\<close>) A C object is the list of its bytes, a pointer into a string the
  rest of that list. An access outside an object, and any other undefined behaviour the code can
  reach, is \<open>None\<close>; a theorem that states \<open>Some\<close> therefore also states that there is none. \<open>unsigned
  long\<close> and pointers are 32-bit words. Names of functions and fields are those of the source.
  Printing is left out, except where the output is the point (\<open>printenv\<close>, \<open>sprintf\<close>). The assembly that
  \<open>include/asm-mips/string.h\<close> has for \<open>strcpy\<close>, \<open>strncpy\<close>, \<open>strcmp\<close>, \<open>strncmp\<close>, \<open>bcopy\<close> and \<open>memscan\<close> is taken to
  compute what the bodies in \<open>string.c\<close> do; the \<open>strdup\<close> of the partition lookup is taken not to fail.

  \<^bold>\<open>Theories.\<close>

  \<^item> \<open>CString\<close>: every routine of \<open>string.c\<close>, the class table of \<open>ctype.c\<close>. Functional behaviour on
    terminated strings; \<open>memmove\<close> for every overlap.
  \<^item> \<open>Vsprintf\<close>: \<open>simple_strtoul\<close>, \<open>simple_strtol\<close>, \<open>number\<close> and the format interpreter. Formatting
    and parsing are inverse; the room \<open>%x\<close> needs.
  \<^item> \<open>Crc32\<close>: table, generator, unrolled update; equal to a bit-serial shift register, and it detects
    every change of one byte.
  \<^item> \<open>Devices\<close>, \<open>EthRing\<close>: console and Ethernet devices. The ring keeps \<open>ethact\<close> equal to the name
    of the current device, and \<open>eth_init\<close> tries each device at most once.
  \<^item> \<open>Flash\<close>, \<open>FlashCmd\<close>: the geometry, \<open>flash_protect\<close>, \<open>flash_write\<close>, the SPI driver at the
    level of register writes and at the level of commands, range parsing, \<open>erase\<close> and \<open>protect\<close>. The
    locale \<open>spi_nor\<close> states the documented behaviour of the chip; the driver's lemmas are proved in it. Which
    ranges \<open>flash_write\<close> refuses, which it programs exactly, and that it is wrong for all others.
  \<^item> \<open>EnvImage\<close>, \<open>Environment\<close>: the loops over the image, and the commands. The image encodes a list of
    variables, and \<open>setenv\<close>, \<open>getenv\<close> and \<open>printenv\<close> implement assignment, lookup and listing on that
    list. The locale \<open>env_map\<close> states the laws of a map with limited room and is interpreted by the
    model.
  \<^item> \<open>EnvFlash\<close>: start-up, relocation and \<open>saveenv\<close>: what is saved is what the next start-up loads, and what
    it loads after a \<open>setenv\<close> that overflowed.
  \<^item> \<open>Gpio\<close>: all of \<open>gpiolib.c\<close> and the board's GPIO functions, compared with a reference parser of the
    configuration grammar.
  \<^item> \<open>UsbBoot\<close>: \<open>usb_boot.c\<close>, \<open>factory.c\<close>, \<open>do_run\<close>, \<open>do_reset\<close>, over a trace of the calls that leave
    this code.
  \<^item> \<open>NetPacket\<close>, \<open>Net\<close>: checksum, headers, address resolution, transmission, reception, ping, retry
    over the devices. A datagram that one host sends reaches the handler of the other.
  \<^item> \<open>Tftp\<close>: the client. The relation \<open>tftp_run\<close> has the executions of a transfer with
    repeated blocks, stray packets and timeouts; over all of them the file arrives.
  \<^item> \<open>Nfs\<close>: the messages and the client. The relation \<open>nfs_run\<close> has the executions of a transfer; the
    file arrives. What happens with paths without a slash, relative links, replies that are late, have a
    verifier or claim too many bytes.
  \<^item> \<open>Bootp\<close>: DHCP, BOOTP and RARP. Decoding the options of a packet against the list they encode, the
    broadcast that every host accepts, and the exchange from an offer to a bound client.
  \<^item> \<open>NetMain\<close>: \<open>NetLoop\<close> with all its protocols, handlers and timers.
  \<^item> \<open>CmdNet\<close>: the network commands. What they leave in the environment is what the next \<open>NetLoop\<close> reads;
    a command that would go on with \<open>do_bootm\<close> has the result \<open>NbBootm\<close>.
  \<^item> \<open>BootImage\<close>, \<open>LinuxBoot\<close>, \<open>Bootm\<close>: image headers over memory indexed by physical address, the
    hand-over to Linux, and \<open>do_bootm\<close> with its loaders, decompression wrappers and \<open>iminfo\<close>. Only images that
    pass every check are started, a damaged one is refused, and a Linux image runs with the words of
    \<open>bootargs\<close>.
  \<^item> \<open>PartDos\<close>: DOS partition tables and the lookup of primary and logical partitions.
  \<^item> \<open>Fat\<close>: all of \<open>fat.c\<close>. \<open>FatTable\<close>: the allocation table against one little-endian number, and the locale
    \<open>volume\<close>, which states that the selected partition delivers the sectors of a volume; it is interpreted by
    images of disks. \<open>FatFile\<close>: the contents of files, for limits
    whose sum with the position does not wrap around, and the copy out of bounds if it does. \<open>FatDir\<close>: names, the root directory and
    \<open>do_fat_read_at\<close>.
  \<^item> \<open>FileSys\<close>: device and partition specifications, \<open>fs.c\<close>, and the commands \<open>fatload\<close>, \<open>fatls\<close> and
    \<open>fatinfo\<close>, down to the file in memory and the variable \<open>filesize\<close>.
  \<^item> \<open>MemCmd\<close>: the memory commands, over memory with the flash mapped into it, with a copy to flash and
    the memory test.
  \<^item> \<open>SRecord\<close>: \<open>s_record.c\<close> and the command \<open>loads\<close> of \<open>cmd_load.c\<close>. The relation \<open>srec_file\<close> has the texts of files of
    S-records, with data, start and count records and other lines; loading one whose characters come in no
    faster than the code reads them stores its data.
  \<^item> This theory: how the USB scan and the partition lookup disagree on numbers, and that the
    command of USB recovery erases and programs the flash.

  \<^bold>\<open>Loops and fuel.\<close> Loops over an index are functions with a termination measure. The walk around the
  Ethernet ring has fuel for the number of devices, which \<open>eth_init_tries_ring_once\<close> shows to be
  enough; the loops over fields and records of a GPIO configuration have fuel of the number of fields
  and characters plus two, which \<open>gpio_config_reference\<close> shows to be enough. \<open>NetLoop\<close> may run for
  ever; it consumes one element of a list of inputs (time, frames received, ctrl-c) per round. Loops
  whose end depends on data that may be malformed are partial functions, for which not returning is
  \<open>None\<close>: \<open>skip_name\<close> and \<open>more_sizes\<close> over an image, the chain of extended partitions, and the cluster chains
  and directories of FAT. The theorems on them state that they return, except
  \<open>self_linked_table_hangs\<close>, which states that the lookup does not.

  \<^bold>\<open>Arguments that stand for other code.\<close> The flash chip (locale \<open>spi_nor\<close>); which Ethernet devices
  come up; the allocator in \<open>gpiolib.c\<close> and \<open>fat.c\<close>; the blocks a storage device delivers; what memory answers to
  the memory test, as a function of the address and the value last stored; the characters on the serial line; the inflate and
  LZMA decoders (record \<open>codec\<close>); what FAT, the USB stack, \<open>bootm\<close>, the command interpreter and
  TFTP answer to USB boot and factory mode (record \<open>io\<close>). Witnesses instantiate them with concrete functions.

  \<^bold>\<open>Not modelled.\<close> Line editing and the hush shell, the USB stack, downloads by kermit and ymodem; the PHY, PCI and USB drivers and the start-up code
  (register access and assembly); zlib and lzma, and the host tools. The other boards and CPUs of the
  tree are not built.
\<close>

section \<open>Partition numbers of the USB scan\<close>

text \<open>
  C39: the scan of USB storage formats partition numbers in decimal, and the device lookup reads them in
  hexadecimal. Of the partitions that \<open>usbboot_scan\<close> finds on a device, numbers up to 9 are looked up as
  themselves; a number with two digits selects another partition (10 selects 16), so that files on
  the partitions 10 to 15 are never looked at.
\<close>

theorem usb_scan_numbers_read_as_hex:
  assumes "d < 10" "d < length (usb_dev_desc fs)" "dv = usb_dev_desc fs ! d" "dev_type dv \<noteq> DEV_TYPE_UNKNOWN" "i < 100"
  shows "\<exists>spec w. part_id j d i = Some spec \<and>
    get_device_and_partition (cstr (str ''usb'')) (Some (cstr spec)) True fs =
      select_partition dv (int w) True (fs\<lparr>fs_dev_desc := Some dv\<rparr>) \<and>
    w = (if i < 10 then i else 16 * (i div 10) + i mod 10) \<and> w \<notin> {10..15}"
proof -
  let ?w = "16 * (i div 10) + i mod 10"
  have "part_id j d i = Some (dec_of d @ 58 # dec_of i)" using assms by (intro part_id_eq) auto
  moreover have "cstr (dec_of d @ 58 # dec_of i) = dev_part_spec d ?w"
    using assms dec_of_digits [of d] dec_of_digits [of i] by (simp add: dev_part_spec_def cstr_def)
  moreover have "get_device_and_partition (cstr (str ''usb'')) (Some (dev_part_spec d ?w)) True fs =
      select_partition dv (int ?w) True (fs\<lparr>fs_dev_desc := Some dv\<rparr>)"
    using assms by (intro get_device_and_partition_hex) auto
  moreover have "?w = (if i < 10 then i else 16 * (i div 10) + i mod 10)" by simp
  moreover have "?w \<notin> {10..15}" using mod_less_divisor [of 10 i] by (cases "i div 10") auto
  ultimately show ?thesis by (intro exI [of _ "dec_of d @ 58 # dec_of i"] exI [of _ ?w]) simp
qed

theorem usb_scan_numbers_read_as_hex_witness:
  "\<exists>spec w. part_id 0 0 10 = Some spec \<and>
    get_device_and_partition (cstr (str ''usb'')) (Some (cstr spec)) True disk_fs =
      select_partition disk_dev (int w) True (disk_fs\<lparr>fs_dev_desc := Some disk_dev\<rparr>) \<and> w = 16"
proof -
  have "0 < length (usb_dev_desc disk_fs)" "disk_dev = usb_dev_desc disk_fs ! 0" "dev_type disk_dev \<noteq> DEV_TYPE_UNKNOWN"
    by (simp_all add: disk_fs_def disk_dev_def image_dev_def)
  from usb_scan_numbers_read_as_hex [OF _ this, of 10 0] show ?thesis by auto
qed

section \<open>The command of the recovery\<close>

text \<open>
  C14: the command that USB recovery stores and runs flashes the image. It is the text of two commands,
  \<open>erase 0x9f050000 +n\<close> and \<open>cp.b 0x82000000 0x9f050000 n\<close>. For an image of \<open>n\<close> bytes at \<open>0x82000000\<close> that
  fits behind the boot loader, and a flash without protected sectors there, both return 0; the flash then holds
  the image, ones up to the next sector boundary, and everything else as before, and memory is unchanged.
\<close>

theorem recovery_command_flashes_image:
  assumes "spi_nor chip" "uniform 0x9f000000 65536 n info" "length fm = n * 65536" "length fm \<le> 2 ^ 24"
    "0 < L" "0x50000 + L \<le> length fm" "\<forall>i<n. 5 \<le> i \<longrightarrow> protect info ! i = 0"
    "base_address s = 0" "mem_flash s = \<lparr>flash_info = [info], flash_mem = fm\<rparr>" "ld_bytes (cells s) 0x82000000 L = img"
    "k = ((L - 1) div 65536 + 1) * 65536" "e = [str ''erase'', str ''0x9f050000'', 43 # hex_of (int L)]"
    "c = [str ''cp.b'', str ''0x82000000'', str ''0x9f050000'', hex_of (int L)]"
  shows "erase_and_copy (int L) = join_values e @ str ''; '' @ join_values c \<and>
    (\<exists>fl s'. do_flerase chip (map cstr e) (mem_flash s) = Some (0, fl) \<and>
      do_mem_cp chip (map cstr c) (s\<lparr>mem_flash := fl\<rparr>) = Some (0, s') \<and>
      flash_mem (mem_flash s') = take 0x50000 fm @ img @ replicate (k - L) 0xff @ drop (0x50000 + k) fm \<and>
      cells s' = cells s)"
proof
  show "erase_and_copy (int L) = join_values e @ str ''; '' @ join_values c"
    by (simp add: erase_and_copy_def assms(12,13) str_def ch_def)
  let ?fm = "overlay fm 0x50000 (replicate k 0xff)"
  define q where "q = (L - 1) div 65536"
  have "q < n - 5" unfolding q_def using assms(3,5,6) by (intro less_mult_imp_div_less) auto
  moreover have "L - 1 < 65536 + q * 65536" unfolding q_def by (rule dividend_less_div_times) simp
  ultimately have k: "0x50000 + k \<le> length fm" "L \<le> k" using assms(3,11) unfolding q_def [symmetric] by simp_all
  have img: "length img = L" using assms(10) by (metis ld_bytes_length)
  have er: "take L (drop 0x50000 ?fm) = replicate L 0xff" using k by (simp add: overlay_def)
  have "do_flerase chip (map cstr e) (mem_flash s) = Some (0, \<lparr>flash_info = [info], flash_mem = ?fm\<rparr>)"
    using erase_command [OF assms(1-6)] by (simp add: assms(9,11,12))
  moreover have "do_mem_cp chip (map cstr c) (s\<lparr>mem_flash := \<lparr>flash_info = [info], flash_mem = ?fm\<rparr>\<rparr>) =
      Some (0, s\<lparr>mem_flash := \<lparr>flash_info = [info], flash_mem = overlay ?fm 0x50000 img\<rparr>\<rparr>)"
    using copy_command [OF assms(1,2), of ?fm L "s\<lparr>mem_flash := \<lparr>flash_info = [info], flash_mem = ?fm\<rparr>\<rparr>" img] assms k er
    by (simp add: assms(13))
  moreover have "overlay ?fm 0x50000 img = take 0x50000 fm @ img @ replicate (k - L) 0xff @ drop (0x50000 + k) fm"
    using k img by (simp add: overlay_def)
  ultimately show "\<exists>fl s'. do_flerase chip (map cstr e) (mem_flash s) = Some (0, fl) \<and>
      do_mem_cp chip (map cstr c) (s\<lparr>mem_flash := fl\<rparr>) = Some (0, s') \<and>
      flash_mem (mem_flash s') = take 0x50000 fm @ img @ replicate (k - L) 0xff @ drop (0x50000 + k) fm \<and> cells s' = cells s"
    by simp
qed

theorem recovery_command_flashes_image_witness:
  "\<exists>fl s'. do_flerase nor_chip (map cstr [str ''erase'', str ''0x9f050000'', str ''+258'']) \<lparr>flash_info = [board_bank], flash_mem = replicate 16777216 0\<rparr> = Some (0, fl) \<and>
    do_mem_cp nor_chip (map cstr [str ''cp.b'', str ''0x82000000'', str ''0x9f050000'', str ''258''])
      \<lparr>cells = \<lambda>_. 7, mem_flash = fl, base_address = 0, dp_last_addr = 0, dp_last_size = 0, dp_last_length = 0x40, mm_last_addr = 0,
       mm_last_size = 0, mem_out = [], ctrlc_in = []\<rparr> = Some (0, s') \<and>
    take 600 (drop 0x50000 (flash_mem (mem_flash s'))) = replicate 600 7"
proof -
  let ?s = "\<lparr>cells = \<lambda>_. 7, mem_flash = \<lparr>flash_info = [board_bank], flash_mem = replicate 16777216 0\<rparr>, base_address = 0, dp_last_addr = 0,
    dp_last_size = 0, dp_last_length = 0x40, mm_last_addr = 0, mm_last_size = 0, mem_out = [], ctrlc_in = []\<rparr>"
  have h: "hex_of (int 600) = str ''258''" "[43 :: byte] @ str ''258'' = str ''+258''" by code_simp+
  have u: "uniform 0x9f000000 65536 256 board_bank" using flash_get_geom_uniform [of "\<lparr>bank_size = 0, sector_count = 0, flash_id = 0, start = [], protect = []\<rparr>"] by simp
  have p: "\<forall>i<256. 5 \<le> i \<longrightarrow> protect board_bank ! i = 0"
    by (simp add: flash_get_geom_def Let_def CFG_FLASH_SIZE_def CFG_FLASH_SECTOR_SIZE_def)
  have c: "ld_bytes (\<lambda>_. 7) a j = replicate j 7" for a j by (induction j arbitrary: a) (auto simp: ld_def)
  have "\<exists>fl s'. do_flerase nor_chip (map cstr [str ''erase'', str ''0x9f050000'', 43 # hex_of (int 600)]) (mem_flash ?s) = Some (0, fl) \<and>
    do_mem_cp nor_chip (map cstr [str ''cp.b'', str ''0x82000000'', str ''0x9f050000'', hex_of (int 600)]) (?s\<lparr>mem_flash := fl\<rparr>) = Some (0, s') \<and>
    flash_mem (mem_flash s') = take 0x50000 (replicate 16777216 0) @ replicate 600 7 @ replicate (65536 - 600) 0xff @ drop (0x50000 + 65536) (replicate 16777216 0) \<and>
    cells s' = cells ?s"
    by (rule recovery_command_flashes_image [OF nor.spi_nor_axioms u _ _ _ _ p, where L = 600 and fm = "replicate 16777216 0", THEN conjunct2])
      (simp_all add: c)
  then show ?thesis using h by (auto simp: str_def)
qed

end
